(* ===== verification/CDK_Prelude.thy ===== *)
theory CDK_Prelude
  imports Main "HOL-Library.Word" "HOL-Library.Multiset"
begin

text \<open>
  What the components of the development share: the types of the machine integers, the
  \<open>Result\<close> type of Rust with the combinators the source uses on it, the checked integer
  operations of the Rust standard library on 64-bit values, and the lemmas about them that
  carry the component proofs. A Rust function that returns \<open>Result<T, E>\<close> becomes a
  function into the sum type \<open>'e + 'a\<close> (\<open>Err\<close> on the left, \<open>Ok\<close> on the right), the
  \<open>?\<close> operator becomes \<open>rbind\<close>, and \<open>Option::ok_or\<close>, \<open>Result::map_err\<close>,
  \<open>Result::ok\<close> and collecting an iterator of results are the functions of those names.
\<close>

named_theorems res_simps \<open>rewriting of Result-valued expressions\<close>
named_theorems u64_simps \<open>checked 64-bit arithmetic, read through unat\<close>

section \<open>Machine integers\<close>

type_synonym u8 = "8 word"
type_synonym u32 = "32 word"
type_synonym u64 = "64 word"

section \<open>Results\<close>

abbreviation Ok :: "'a \<Rightarrow> 'e + 'a" where
  "Ok \<equiv> Inr"

abbreviation Err :: "'e \<Rightarrow> 'e + 'a" where
  "Err \<equiv> Inl"

definition rbind :: "'e + 'a \<Rightarrow> ('a \<Rightarrow> 'e + 'b) \<Rightarrow> 'e + 'b" where
  "rbind m f = (case m of Inl e \<Rightarrow> Inl e | Inr x \<Rightarrow> f x)"

definition rmap :: "('a \<Rightarrow> 'b) \<Rightarrow> 'e + 'a \<Rightarrow> 'e + 'b" where
  "rmap f m = (case m of Inl e \<Rightarrow> Inl e | Inr x \<Rightarrow> Inr (f x))"

definition map_err :: "('e \<Rightarrow> 'f) \<Rightarrow> 'e + 'a \<Rightarrow> 'f + 'a" where
  "map_err h m = (case m of Inl e \<Rightarrow> Inl (h e) | Inr x \<Rightarrow> Inr x)"

definition ok_or :: "'e \<Rightarrow> 'a option \<Rightarrow> 'e + 'a" where
  "ok_or e m = (case m of None \<Rightarrow> Inl e | Some x \<Rightarrow> Inr x)"

definition res_ok :: "'e + 'a \<Rightarrow> 'a option" where
  "res_ok m = (case m of Inl e \<Rightarrow> None | Inr x \<Rightarrow> Some x)"

definition is_ok :: "'e + 'a \<Rightarrow> bool" where
  "is_ok m = (case m of Inl e \<Rightarrow> False | Inr x \<Rightarrow> True)"

definition ensure_cdk :: "bool \<Rightarrow> 'e \<Rightarrow> 'e + unit" where
  "ensure_cdk b e = (if b then Inr () else Inl e)"

fun collect_res :: "('a \<Rightarrow> 'e + 'b) \<Rightarrow> 'a list \<Rightarrow> 'e + 'b list" where
  "collect_res f [] = Inr []"
| "collect_res f (x # xs) =
     rbind (f x) (\<lambda>y. rbind (collect_res f xs) (\<lambda>ys. Inr (y # ys)))"

fun collect_opt :: "('a \<Rightarrow> 'b option) \<Rightarrow> 'a list \<Rightarrow> 'b list option" where
  "collect_opt f [] = Some []"
| "collect_opt f (x # xs) =
     (case f x of None \<Rightarrow> None
      | Some y \<Rightarrow> (case collect_opt f xs of None \<Rightarrow> None | Some ys \<Rightarrow> Some (y # ys)))"

lemma rbind_Ok [simp, res_simps]: "rbind (Inr x) f = f x"
  by (simp add: rbind_def)

lemma rbind_Err [simp, res_simps]: "rbind (Inl e) f = Inl e"
  by (simp add: rbind_def)

lemma rbind_eq_Ok [res_simps]: "rbind m f = Inr y \<longleftrightarrow> (\<exists>x. m = Inr x \<and> f x = Inr y)"
  by (cases m) auto

lemma rbind_OkE: "rbind m g = Inr y \<Longrightarrow> (\<And>x. m = Inr x \<Longrightarrow> g x = Inr y \<Longrightarrow> P) \<Longrightarrow> P"
  by (auto simp: rbind_eq_Ok)

lemma rbind_eq_Err [res_simps]:
  "rbind m f = Inl e \<longleftrightarrow> m = Inl e \<or> (\<exists>x. m = Inr x \<and> f x = Inl e)"
  by (cases m) auto

lemma rbind_split: "P (rbind m f) \<longleftrightarrow> (\<forall>e. m = Inl e \<longrightarrow> P (Inl e)) \<and> (\<forall>x. m = Inr x \<longrightarrow> P (f x))"
  by (cases m) auto

lemma rbind_cong [fundef_cong]:
  "m = m' \<Longrightarrow> (\<And>x. m' = Inr x \<Longrightarrow> f x = g x) \<Longrightarrow> rbind m f = rbind m' g"
  by (cases m') auto

lemma rmap_eq_Ok [res_simps]: "rmap f m = Inr y \<longleftrightarrow> (\<exists>x. m = Inr x \<and> y = f x)"
  by (cases m) (auto simp: rmap_def)

lemma rmap_Ok [simp]: "rmap f (Inr x) = Inr (f x)"
  and rmap_Err [simp]: "rmap f (Inl e) = Inl e"
  by (simp_all add: rmap_def)

lemma map_err_Ok [simp]: "map_err h (Inr x) = Inr x"
  and map_err_Err [simp]: "map_err h (Inl e) = Inl (h e)"
  by (simp_all add: map_err_def)

lemma map_err_eq_Ok [res_simps]: "map_err h m = Inr y \<longleftrightarrow> m = Inr y"
  by (cases m) auto

lemma map_err_eq_Err [res_simps]: "map_err h m = Inl e \<longleftrightarrow> (\<exists>e'. m = Inl e' \<and> e = h e')"
  by (cases m) auto

lemma ok_or_simps [simp]: "ok_or e None = Inl e" "ok_or e (Some x) = Inr x"
  by (simp_all add: ok_or_def)

lemma ok_or_eq_Ok [res_simps]: "ok_or e m = Inr x \<longleftrightarrow> m = Some x"
  by (cases m) auto

lemma ok_or_eq_Err [res_simps]: "ok_or e m = Inl e' \<longleftrightarrow> m = None \<and> e' = e"
  by (cases m) auto

lemma res_ok_simps [simp]: "res_ok (Inr x) = Some x" "res_ok (Inl e) = None"
  by (simp_all add: res_ok_def)

lemma res_ok_eq_Some [res_simps]: "res_ok m = Some x \<longleftrightarrow> m = Inr x"
  by (cases m) auto

lemma is_ok_simps [simp]: "is_ok (Inr x)" "\<not> is_ok (Inl e)"
  by (simp_all add: is_ok_def)

lemma is_ok_iff: "is_ok m \<longleftrightarrow> (\<exists>x. m = Inr x)"
  by (cases m) auto

lemma ensure_cdk_eq_Ok [res_simps]: "ensure_cdk b e = Inr u \<longleftrightarrow> b"
  by (simp add: ensure_cdk_def)

lemma ensure_cdk_eq_Err [res_simps]: "ensure_cdk b e = Inl e' \<longleftrightarrow> \<not> b \<and> e' = e"
  by (auto simp: ensure_cdk_def)

lemma ensure_cdk_simps [simp]: "ensure_cdk True e = Inr ()" "ensure_cdk False e = Inl e"
  by (simp_all add: ensure_cdk_def)

lemma collect_res_eq_Ok: "collect_res f xs = Inr ys \<longleftrightarrow> list_all2 (\<lambda>x y. f x = Inr y) xs ys"
  by (induction xs arbitrary: ys) (auto simp: rbind_eq_Ok list_all2_Cons1)

lemma collect_res_length: "collect_res f xs = Inr ys \<Longrightarrow> length ys = length xs"
  by (auto simp: collect_res_eq_Ok dest: list_all2_lengthD)

lemma collect_opt_eq_Some: "collect_opt f xs = Some ys \<longleftrightarrow> list_all2 (\<lambda>x y. f x = Some y) xs ys"
proof (induction xs arbitrary: ys)
  case Nil
  then show ?case by auto
next
  case (Cons x xs)
  show ?case
  proof (cases "collect_opt f xs")
    case None
    then have "\<not> list_all2 (\<lambda>x y. f x = Some y) xs zs" for zs using Cons.IH [of zs] by simp
    with None show ?thesis by (auto simp: list_all2_Cons1 split: option.splits)
  next
    case (Some zs)
    then have "list_all2 (\<lambda>x y. f x = Some y) xs ws \<longleftrightarrow> ws = zs" for ws using Cons.IH [of ws] by auto
    with Some show ?thesis by (auto simp: list_all2_Cons1 split: option.splits)
  qed
qed

lemma collect_res_map_Ok: "(\<And>x. x \<in> set xs \<Longrightarrow> f x = Inr (g x)) \<Longrightarrow> collect_res f xs = Inr (map g xs)"
  by (induction xs) auto

section \<open>Checked 64-bit arithmetic\<close>

text \<open>
  \<open>u64::checked_add\<close>, \<open>checked_sub\<close>, \<open>checked_mul\<close>, \<open>checked_div\<close>, \<open>div_ceil\<close>,
  \<open>saturating_sub\<close> and \<open>saturating_add\<close> of the standard library.
\<close>

definition u64_checked_add :: "u64 \<Rightarrow> u64 \<Rightarrow> u64 option" where
  "u64_checked_add a b = (if uint a + uint b < 2 ^ 64 then Some (a + b) else None)"

definition u64_checked_sub :: "u64 \<Rightarrow> u64 \<Rightarrow> u64 option" where
  "u64_checked_sub a b = (if b \<le> a then Some (a - b) else None)"

definition u64_checked_mul :: "u64 \<Rightarrow> u64 \<Rightarrow> u64 option" where
  "u64_checked_mul a b = (if uint a * uint b < 2 ^ 64 then Some (a * b) else None)"

definition u64_checked_div :: "u64 \<Rightarrow> u64 \<Rightarrow> u64 option" where
  "u64_checked_div a b = (if b = 0 then None else Some (a div b))"

definition u64_div_ceil :: "u64 \<Rightarrow> u64 \<Rightarrow> u64" where
  "u64_div_ceil a b = (if a mod b = 0 then a div b else a div b + 1)"

definition u64_saturating_sub :: "u64 \<Rightarrow> u64 \<Rightarrow> u64" where
  "u64_saturating_sub a b = (if b \<le> a then a - b else 0)"

definition u64_saturating_add :: "u64 \<Rightarrow> u64 \<Rightarrow> u64" where
  "u64_saturating_add a b = (if uint a + uint b < 2 ^ 64 then a + b else - 1)"

lemma unat_u64_bound: "unat (a :: u64) < 18446744073709551616"
  using unsigned_less [where 'b = 64 and 'a = nat, of a] by simp

lemma uint_u64_bounds:
  "uint (a :: u64) + uint (b :: u64) < 2 ^ 64 \<longleftrightarrow> unat a + unat b < 2 ^ 64"
  "uint (a :: u64) * uint (b :: u64) < 2 ^ 64 \<longleftrightarrow> unat a * unat b < 2 ^ 64"
proof -
  have "uint a + uint b = int (unat a + unat b)" "uint a * uint b = int (unat a * unat b)"
    by simp_all
  moreover have "int n < 2 ^ 64 \<longleftrightarrow> n < 2 ^ 64" for n :: nat
    using of_nat_less_iff [of n "2 ^ 64", where 'a = int] by simp
  ultimately show "uint (a :: u64) + uint (b :: u64) < 2 ^ 64 \<longleftrightarrow> unat a + unat b < 2 ^ 64"
    "uint (a :: u64) * uint (b :: u64) < 2 ^ 64 \<longleftrightarrow> unat a * unat b < 2 ^ 64" by (simp_all only:)
qed

lemma u64_checked_add_unat:
  "u64_checked_add a b = (if unat a + unat b < 2 ^ 64 then Some (a + b) else None)"
  by (simp add: u64_checked_add_def uint_u64_bounds [simplified])

lemma u64_checked_mul_unat:
  "u64_checked_mul a b = (if unat a * unat b < 2 ^ 64 then Some (a * b) else None)"
  by (simp add: u64_checked_mul_def uint_u64_bounds [simplified])

lemma unat_inj_u64: "unat (a :: u64) = unat b \<longleftrightarrow> a = b"
  by (simp add: word_unat_eq_iff)

lemma u64_checked_add_Some [u64_simps]:
  "u64_checked_add a b = Some c \<longleftrightarrow> unat c = unat a + unat b"
  using unat_u64_bound [of c]
  by (auto simp: u64_checked_add_unat unat_word_ariths simp flip: unat_inj_u64 split: if_splits)

lemma u64_checked_add_None [u64_simps]:
  "u64_checked_add a b = None \<longleftrightarrow> 2 ^ 64 \<le> unat a + unat b"
  by (auto simp: u64_checked_add_unat)

lemma u64_checked_sub_Some [u64_simps]:
  "u64_checked_sub a b = Some c \<longleftrightarrow> unat a = unat b + unat c"
proof
  assume "u64_checked_sub a b = Some c"
  then have le: "b \<le> a" and c: "c = a - b"
    by (auto simp: u64_checked_sub_def split: if_splits)
  from le have "unat (a - b) = unat a - unat b" by (rule unat_sub)
  with le c show "unat a = unat b + unat c" by (simp add: word_le_nat_alt)
next
  assume eq: "unat a = unat b + unat c"
  then have le: "b \<le> a" by (simp add: word_le_nat_alt)
  then have "unat (a - b) = unat c" using eq by (simp add: unat_sub)
  with le show "u64_checked_sub a b = Some c"
    by (simp add: u64_checked_sub_def unat_inj_u64)
qed

lemma u64_checked_sub_None [u64_simps]: "u64_checked_sub a b = None \<longleftrightarrow> unat a < unat b"
  by (auto simp: u64_checked_sub_def word_le_nat_alt)

lemma u64_checked_mul_Some [u64_simps]:
  "u64_checked_mul a b = Some c \<longleftrightarrow> unat c = unat a * unat b"
  using unat_u64_bound [of c]
  by (auto simp: u64_checked_mul_unat unat_word_ariths simp flip: unat_inj_u64)

lemma u64_checked_mul_None [u64_simps]:
  "u64_checked_mul a b = None \<longleftrightarrow> 2 ^ 64 \<le> unat a * unat b"
  by (auto simp: u64_checked_mul_unat)

lemma u64_checked_div_Some [u64_simps]:
  "u64_checked_div a b = Some c \<longleftrightarrow> b \<noteq> 0 \<and> unat c = unat a div unat b"
  by (auto simp: u64_checked_div_def unat_div simp flip: unat_inj_u64)

lemma unat_u64_saturating_sub [u64_simps]:
  "unat (u64_saturating_sub a b) = unat a - unat b"
  by (auto simp: u64_saturating_sub_def unat_sub word_le_nat_alt)

lemma unat_u64_saturating_add [u64_simps]:
  "unat (u64_saturating_add a b) = min (unat a + unat b) (2 ^ 64 - 1)"
proof (cases "unat a + unat b < 2 ^ 64")
  case True
  then show ?thesis by (simp add: u64_saturating_add_def uint_u64_bounds [simplified] unat_word_ariths)
next
  case False
  have "unat (- 1 :: u64) = 2 ^ 64 - 1" by (simp add: unsigned_minus_1_eq_mask mask_eq_exp_minus_1)
  with False show ?thesis by (simp add: u64_saturating_add_def uint_u64_bounds [simplified])
qed

lemma nat_div_ceil_1000:
  "(n + 999) div 1000 = (if n mod 1000 = 0 then n div 1000 else n div 1000 + 1)" for n :: nat
proof -
  define q r where "q = n div 1000" and "r = n mod 1000"
  then have n: "n = 1000 * q + r" and r: "r < 1000" by simp_all
  have "(n + 999) div 1000 = q + (r + 999) div 1000" by (simp add: n)
  also have "(r + 999) div 1000 = (if r = 0 then 0 else 1)"
    using r by (auto intro: div_nat_eqI)
  finally show ?thesis using r by (simp add: n)
qed

lemma unat_u64_div_ceil_1000 [u64_simps]:
  "unat (u64_div_ceil a 1000) = (unat a + 999) div 1000"
proof -
  have m: "a mod 1000 = 0 \<longleftrightarrow> unat a mod 1000 = 0"
    by (simp add: unat_mod flip: unat_inj_u64)
  have "unat a div 1000 \<le> unat a" by (rule div_le_dividend)
  moreover have "unat a div 1000 < 18446744073709551615"
    using unat_u64_bound [of a] by (simp add: div_less_iff_less_mult del: div_le_dividend)
  ultimately have "unat (a div 1000 + 1) = unat a div 1000 + 1"
    by (simp add: unat_word_ariths unat_div)
  then show ?thesis
    by (simp add: u64_div_ceil_def m nat_div_ceil_1000 unat_div)
qed

lemmas u64_order_simps = word_le_nat_alt word_less_nat_alt

section \<open>Sums of 64-bit lists\<close>

abbreviation usum :: "u64 list \<Rightarrow> nat" where
  "usum xs \<equiv> sum_list (map unat xs)"

lemma unat_sum_list: "usum xs < 2 ^ 64 \<Longrightarrow> unat (sum_list xs) = usum xs"
proof (induction xs)
  case Nil
  then show ?case by simp
next
  case (Cons x xs)
  then have "unat (sum_list xs) = usum xs" by simp
  with Cons.prems show ?case by (simp add: unat_word_ariths)
qed

lemma usum_replicate [simp]: "usum (replicate n a) = n * unat a"
  by (induction n) auto

lemma usum_sort [simp]: "usum (sort xs) = usum xs"
proof -
  have "mset (map unat (sort xs)) = mset (map unat xs)" by simp
  then show ?thesis by (metis sum_mset_sum_list)
qed

lemma length_le_usum: "0 \<notin> set xs \<Longrightarrow> length xs \<le> usum xs"
proof (induction xs)
  case (Cons x xs)
  then have "unat x \<noteq> 0" by (simp add: unat_eq_0)
  with Cons show ?case by simp
qed simp

section \<open>Finding by key\<close>

lemma find_key: "distinct (map key xs) \<Longrightarrow> x \<in> set xs \<Longrightarrow> List.find (\<lambda>y. key y = key x) xs = Some x"
  by (induction xs) (auto simp: image_iff)

lemma find_SomeD: "List.find P xs = Some x \<Longrightarrow> x \<in> set xs \<and> P x"
  by (induction xs) (auto split: if_splits)

lemma list_all2_right: "list_all2 P xs ys \<Longrightarrow> y \<in> set ys \<Longrightarrow> \<exists>x \<in> set xs. P x y"
  by (induction rule: list_all2_induct) auto

lemma list_all2_left: "list_all2 P xs ys \<Longrightarrow> x \<in> set xs \<Longrightarrow> \<exists>y \<in> set ys. P x y"
  by (induction rule: list_all2_induct) auto

end
