(* ===== verification/Hex.thy ===== *)
theory Hex
  imports CDK_Prelude
begin

text \<open>
  Hexadecimal text of byte strings, after \<open>crates/cashu/src/util/hex.rs\<close>. A Rust string is
  the list of its UTF-8 bytes, one \<open>char\<close> of HOL per byte; \<open>byte_of_char\<close> and \<open>char_of_byte\<close>
  are the two views of a byte.
\<close>

unbundle bit_operations_syntax

datatype hex_error = InvalidHexCharacter char nat | OddLength

definition char_of_byte :: "u8 \<Rightarrow> char" where
  "char_of_byte b = char_of (unat b)"

definition byte_of_char :: "char \<Rightarrow> u8" where
  "byte_of_char c = of_nat (of_char c)"

definition from_digit :: "u8 \<Rightarrow> char" where
  "from_digit num = (if num < 10 then char_of_byte (48 + num) else char_of_byte (97 + num - 10))"

definition encode :: "u8 list \<Rightarrow> string" where
  "encode bytes = concat (map (\<lambda>byte. [from_digit (drop_bit 4 byte), from_digit (byte AND 15)]) bytes)"

definition val_digit :: "char \<Rightarrow> nat \<Rightarrow> hex_error + u8" where
  "val_digit ch idx = (let c = byte_of_char ch in
     if 65 \<le> c \<and> c \<le> 70 then Inr (c - 65 + 10)
     else if 97 \<le> c \<and> c \<le> 102 then Inr (c - 97 + 10)
     else if 48 \<le> c \<and> c \<le> 57 then Inr (c - 48)
     else Inl (InvalidHexCharacter ch idx))"

fun decode_from :: "nat \<Rightarrow> string \<Rightarrow> hex_error + u8 list" where
  "decode_from i (c # d # cs) =
     rbind (val_digit c i) (\<lambda>high.
     rbind (val_digit d (i + 1)) (\<lambda>low.
     rbind (decode_from (i + 2) cs) (\<lambda>bytes. Inr ((push_bit 4 high OR low) # bytes))))"
| "decode_from i cs = Inr []"

definition decode :: "string \<Rightarrow> hex_error + u8 list" where
  "decode hex = (if length hex mod 2 = 0 then decode_from 0 hex else Inl OddLength)"

section \<open>Round trip\<close>

lemma byte_of_char_of_byte [simp]: "byte_of_char (char_of_byte b) = b"
proof -
  have "unat b < 256" using unsigned_less [where 'b = 8 and 'a = nat, of b] by simp
  then show ?thesis by (simp add: byte_of_char_def char_of_byte_def of_char_of)
qed

text \<open>Bitwise code equations, so that text is evaluated without unary numbers.\<close>

lemma char_of_byte_code [code]:
  "char_of_byte b = Char (bit b 0) (bit b 1) (bit b 2) (bit b 3) (bit b 4) (bit b 5) (bit b 6) (bit b 7)"
  by (simp add: char_of_byte_def char_of_def bit_unsigned_iff flip: bit_0)

lemma byte_of_char_code [code]:
  "byte_of_char (Char b0 b1 b2 b3 b4 b5 b6 b7) =
     of_bool b0 + 2 * (of_bool b1 + 2 * (of_bool b2 + 2 * (of_bool b3 + 2 * (of_bool b4 + 2 * (of_bool b5 + 2 * (of_bool b6 + 2 * of_bool b7))))))"
  by (simp add: byte_of_char_def)

lemma char_of_byte_of_char [simp]: "char_of_byte (byte_of_char c) = c"
  by (simp add: byte_of_char_def char_of_byte_def unsigned_of_nat take_bit_nat_eq_self)

lemma val_from_digit:
  assumes "n < 16"
  shows "val_digit (from_digit n) i = Inr n"
proof -
  have n: "unat n < 16" using assms by (simp add: word_less_nat_alt)
  then have "n \<in> of_nat ` {..<16}" by (metis image_eqI lessThan_iff of_nat_unat ucast_id)
  then have "n \<in> {0, 1, 2, 3, 4, 5, 6, 7, 8, 9, 10, 11, 12, 13, 14, 15}"
    by (auto simp: lessThan_nat_numeral lessThan_Suc)
  moreover have "\<forall>n \<in> {0, 1, 2, 3, 4, 5, 6, 7, 8, 9, 10, 11, 12, 13, 14, 15 :: u8}. val_digit (from_digit n) i = Inr n"
    by code_simp
  ultimately show ?thesis by blast
qed

lemma nibbles: "drop_bit 4 b < (16 :: u8)" "b AND 15 < (16 :: u8)"
  "push_bit 4 (drop_bit 4 b) OR (b AND 15) = (b :: u8)"
proof -
  have "unat b < 256" using unsigned_less [where 'b = 8 and 'a = nat, of b] by simp
  then show "drop_bit 4 b < 16" by (simp add: word_less_nat_alt drop_bit_eq_div unat_div)
  have m: "b AND 15 = take_bit 4 b" by (simp add: take_bit_eq_mask mask_eq_exp_minus_1)
  show "b AND 15 < 16"
    unfolding m by (simp add: word_less_nat_alt take_bit_eq_mod unat_mod)
  show "push_bit 4 (drop_bit 4 b) OR (b AND 15) = b"
    unfolding m by (rule bit_eqI) (auto simp: bit_simps)
qed

lemma decode_from_encode: "decode_from i (encode bs) = Inr bs"
  by (induction bs arbitrary: i) (auto simp: encode_def val_from_digit nibbles)

lemma length_encode [simp]: "length (encode bs) = 2 * length bs"
  by (induction bs) (auto simp: encode_def)

lemma decode_encode [simp]: "decode (encode bs) = Inr bs"
  by (simp add: decode_def decode_from_encode)

lemma encode_append: "encode (xs @ ys) = encode xs @ encode ys"
  by (simp add: encode_def)

lemma encode_inj: "encode xs = encode ys \<longleftrightarrow> xs = ys"
  by (metis decode_encode sum.inject(2))

lemma take_encode: "take (2 * n) (encode bs) = encode (take n bs)"
proof (induction bs arbitrary: n)
  case (Cons b bs)
  then show ?case by (cases n) (auto simp: encode_def)
qed (simp add: encode_def)

lemma decode_from_length: "decode_from i cs = Inr bs \<Longrightarrow> length bs = length cs div 2"
  by (induction i cs arbitrary: bs rule: decode_from.induct) (auto simp: rbind_eq_Ok)

lemma decode_length: "decode cs = Inr bs \<Longrightarrow> length cs = 2 * length bs"
  using decode_from_length [of 0 cs bs] by (auto simp: decode_def split: if_splits)

lemma from_digit_ascii: "n < 16 \<Longrightarrow> byte_of_char (from_digit n) < 128"
proof -
  assume "n < 16"
  then have "unat n < 16" by (simp add: word_less_nat_alt)
  then show ?thesis by (auto simp: from_digit_def word_less_nat_alt unat_word_ariths)
qed

lemma encode_ascii: "c \<in> set (encode bs) \<Longrightarrow> byte_of_char c < 128"
  by (induction bs) (auto simp: encode_def from_digit_ascii nibbles)

end
