(* ===== verification/Externals.thy ===== *)
theory Externals
  imports Hex
begin

text \<open>
  The code the program calls and does not contain, as one record of functions that the
  definitions using it take as their first argument: the SHA-256 hash, Unicode normalisation and
  letter case, secp256k1 (parsing keys and signatures, point arithmetic, Schnorr signatures) and
  the JSON reader of NUT-10 secrets. A public key is its 33 compressed bytes, a secret key its 32
  bytes, a signature its 64 bytes. The laws the program relies on are named predicates; a theorem
  that needs one has it as a hypothesis, and \<open>demo_ext\<close> is a concrete instance that satisfies
  them, over a cyclic group of order 13, for evaluating the definitions on examples.
\<close>

type_synonym bytes = "u8 list"
type_synonym public_key = bytes
type_synonym secret_key = bytes
type_synonym signature = bytes

text \<open>NUT-10 secrets (\<open>crates/cashu/src/nuts/nut10.rs\<close>), the type the JSON reader returns.\<close>

datatype kind = P2PK | HTLC

record secret_data =
  sd_nonce :: string
  sd_data :: string
  sd_tags :: "string list list option"

record nut10_secret =
  n10_kind :: kind
  n10_secret_data :: secret_data

record ext =
  x_sha256 :: "bytes \<Rightarrow> bytes"
  x_nfc :: "string \<Rightarrow> string"
  x_to_lowercase :: "string \<Rightarrow> string"
  x_to_uppercase :: "string \<Rightarrow> string"
  x_pk_from_str :: "string \<Rightarrow> public_key option"
  x_pk_to_string :: "public_key \<Rightarrow> string"
  x_pk_from_slice :: "bytes \<Rightarrow> public_key option"
  x_pk_xonly :: "public_key \<Rightarrow> bytes"
  x_xonly_from_slice :: "bytes \<Rightarrow> bytes option"
  x_pk_from_xonly_even :: "bytes \<Rightarrow> public_key"
  x_pk_combine :: "public_key \<Rightarrow> public_key \<Rightarrow> public_key option"
  x_pk_mul_tweak :: "public_key \<Rightarrow> secret_key \<Rightarrow> public_key option"
  x_pk_negate :: "public_key \<Rightarrow> public_key"
  x_public_key :: "secret_key \<Rightarrow> public_key"
  x_pk_uncompressed :: "public_key \<Rightarrow> bytes"
  x_sk_from_slice :: "bytes \<Rightarrow> secret_key option"
  x_sk_mul_tweak :: "secret_key \<Rightarrow> secret_key \<Rightarrow> secret_key option"
  x_sk_add_tweak :: "secret_key \<Rightarrow> secret_key \<Rightarrow> secret_key option"
  x_schnorr_sign :: "bytes \<Rightarrow> secret_key \<Rightarrow> signature"
  x_schnorr_verify :: "signature \<Rightarrow> bytes \<Rightarrow> bytes \<Rightarrow> bool"
  x_sig_from_str :: "string \<Rightarrow> signature option"
  x_sig_to_string :: "signature \<Rightarrow> string"
  x_sha_from_str :: "string \<Rightarrow> bytes option"
  x_sha_to_string :: "bytes \<Rightarrow> string"
  x_nut10_from_json :: "string \<Rightarrow> nut10_secret option"

section \<open>Documented behaviour\<close>

text \<open>A SHA-256 digest has 32 bytes.\<close>

definition sha256_len :: "ext \<Rightarrow> bool" where
  "sha256_len X \<longleftrightarrow> (\<forall>m. length (x_sha256 X m) = 32)"

text \<open>Keys, signatures and hashes are read back from the text they print as.\<close>

definition pk_text_law :: "ext \<Rightarrow> public_key \<Rightarrow> bool" where
  "pk_text_law X k \<longleftrightarrow> length (x_pk_to_string X k) = 66 \<and> x_pk_from_str X (x_pk_to_string X k) = Some k"

definition sig_text_law :: "ext \<Rightarrow> bool" where
  "sig_text_law X \<longleftrightarrow> (\<forall>m k. x_sig_from_str X (x_sig_to_string X (x_schnorr_sign X m k)) = Some (x_schnorr_sign X m k))"

definition sha_text_law :: "ext \<Rightarrow> bytes \<Rightarrow> bool" where
  "sha_text_law X h \<longleftrightarrow> x_sha_from_str X (x_sha_to_string X h) = Some h"

text \<open>A Schnorr signature verifies under the x-only key of its signer.\<close>

definition schnorr_law :: "ext \<Rightarrow> bool" where
  "schnorr_law X \<longleftrightarrow> (\<forall>m k. x_schnorr_verify X (x_schnorr_sign X m k) m (x_pk_xonly X (x_public_key X k)))"

text \<open>
  The public keys are the non-zero elements of a cyclic group of prime order \<open>n\<close>: \<open>pt a\<close> is the
  point \<open>a\<close> times the generator and \<open>sc k\<close> the scalar of a secret key; adding two points fails
  exactly when the sum is the point at infinity.
\<close>

definition ec_law :: "ext \<Rightarrow> nat \<Rightarrow> (int \<Rightarrow> public_key) \<Rightarrow> (secret_key \<Rightarrow> int) \<Rightarrow> bool" where
  "ec_law X n pt sc \<longleftrightarrow>
     (\<forall>a b. pt a = pt b \<longleftrightarrow> a mod int n = b mod int n) \<and>
     (\<forall>a b. x_pk_combine X (pt a) (pt b) = (if (a + b) mod int n = 0 then None else Some (pt (a + b)))) \<and>
     (\<forall>a k. x_pk_mul_tweak X (pt a) k = (if (a * sc k) mod int n = 0 then None else Some (pt (a * sc k)))) \<and>
     (\<forall>a. x_pk_negate X (pt a) = pt (- a)) \<and>
     (\<forall>k. x_public_key X k = pt (sc k)) \<and>
     (\<forall>x p. x_xonly_from_slice X x = Some p \<longrightarrow> (\<exists>a. a mod int n \<noteq> 0 \<and> x_pk_from_xonly_even X p = pt a))"

text \<open>
  Arithmetic on secret keys is arithmetic on their scalars and fails exactly on zero, and a secret
  key read from bytes consists of these bytes.
\<close>

definition sk_law :: "ext \<Rightarrow> nat \<Rightarrow> (secret_key \<Rightarrow> int) \<Rightarrow> bool" where
  "sk_law X n sc \<longleftrightarrow>
     (\<forall>j k. case x_sk_mul_tweak X j k of
        None \<Rightarrow> (sc j * sc k) mod int n = 0
      | Some m \<Rightarrow> (sc j * sc k) mod int n \<noteq> 0 \<and> sc m mod int n = (sc j * sc k) mod int n) \<and>
     (\<forall>j k. case x_sk_add_tweak X j k of
        None \<Rightarrow> (sc j + sc k) mod int n = 0
      | Some m \<Rightarrow> (sc j + sc k) mod int n \<noteq> 0 \<and> sc m mod int n = (sc j + sc k) mod int n) \<and>
     (\<forall>b k. x_sk_from_slice X b = Some k \<longrightarrow> k = b)"

section \<open>A concrete instance\<close>

definition demo_pt :: "int \<Rightarrow> public_key" where
  "demo_pt a = 2 # replicate 31 0 @ [of_int (a mod 13)]"

definition demo_sc :: "secret_key \<Rightarrow> int" where
  "demo_sc k = uint (last (0 # k))"

definition demo_dlog :: "public_key \<Rightarrow> int" where
  "demo_dlog p = uint (last p)"

definition demo_nonzero :: "int \<Rightarrow> public_key option" where
  "demo_nonzero a = (if a mod 13 = 0 then None else Some (demo_pt a))"

definition demo_scalar :: "int \<Rightarrow> secret_key option" where
  "demo_scalar a = (if a mod 13 = 0 then None else Some [of_int (a mod 13)])"

definition demo_hash :: "bytes \<Rightarrow> bytes" where
  "demo_hash m = of_nat (length m) # replicate 30 0 @ [sum_list m]"

text \<open>
  The JSON stand-in: a first letter P, H, A or B for P2PK, HTLC, and both of them with SIG_ALL,
  followed by the data field.
\<close>

definition demo_json :: "string \<Rightarrow> nut10_secret option" where
  "demo_json s = (case s of
       [] \<Rightarrow> None
     | c # d \<Rightarrow>
        (if c = CHR ''P'' then Some \<lparr> n10_kind = P2PK, n10_secret_data = \<lparr> sd_nonce = [], sd_data = d, sd_tags = None \<rparr> \<rparr>
         else if c = CHR ''H'' then Some \<lparr> n10_kind = HTLC, n10_secret_data = \<lparr> sd_nonce = [], sd_data = d, sd_tags = None \<rparr> \<rparr>
         else if c = CHR ''A'' then Some \<lparr> n10_kind = P2PK, n10_secret_data = \<lparr> sd_nonce = [], sd_data = d, sd_tags = Some [[''sigflag'', ''SIG_ALL'']] \<rparr> \<rparr>
         else if c = CHR ''B'' then Some \<lparr> n10_kind = HTLC, n10_secret_data = \<lparr> sd_nonce = [], sd_data = d, sd_tags = Some [[''sigflag'', ''SIG_ALL'']] \<rparr> \<rparr>
         else None))"

definition demo_ext :: ext where
  "demo_ext = \<lparr>
     x_sha256 = demo_hash,
     x_nfc = id,
     x_to_lowercase = id,
     x_to_uppercase = id,
     x_pk_from_str = (\<lambda>s. res_ok (decode s)),
     x_pk_to_string = encode,
     x_pk_from_slice = (\<lambda>b. if length b = 33 then Some b else None),
     x_pk_xonly = tl,
     x_xonly_from_slice = (\<lambda>b. if uint (last (0 # b)) mod 13 = 0 then None else Some b),
     x_pk_from_xonly_even = (\<lambda>b. demo_pt (uint (last b))),
     x_pk_combine = (\<lambda>p q. demo_nonzero (demo_dlog p + demo_dlog q)),
     x_pk_mul_tweak = (\<lambda>p k. demo_nonzero (demo_dlog p * demo_sc k)),
     x_pk_negate = (\<lambda>p. demo_pt (- demo_dlog p)),
     x_public_key = (\<lambda>k. demo_pt (demo_sc k)),
     x_pk_uncompressed = (\<lambda>p. [last p]),
     x_sk_from_slice = (\<lambda>b. if length b = 32 then Some b else None),
     x_sk_mul_tweak = (\<lambda>j k. demo_scalar (demo_sc j * demo_sc k)),
     x_sk_add_tweak = (\<lambda>j k. demo_scalar (demo_sc j + demo_sc k)),
     x_schnorr_sign = (\<lambda>m k. tl (demo_pt (demo_sc k)) @ m),
     x_schnorr_verify = (\<lambda>s m x. s = x @ m),
     x_sig_from_str = (\<lambda>s. res_ok (decode s)),
     x_sig_to_string = encode,
     x_sha_from_str = (\<lambda>s. res_ok (decode s)),
     x_sha_to_string = encode,
     x_nut10_from_json = demo_json \<rparr>"

lemma demo_sha256_len: "sha256_len demo_ext"
  by (simp add: sha256_len_def demo_ext_def demo_hash_def)

lemma demo_pk_text_law: "length k = 33 \<Longrightarrow> pk_text_law demo_ext k"
  by (simp add: pk_text_law_def demo_ext_def)

lemma demo_sig_text_law: "sig_text_law demo_ext"
  by (simp add: sig_text_law_def demo_ext_def)

lemma demo_sha_text_law: "sha_text_law demo_ext h"
  by (simp add: sha_text_law_def demo_ext_def)

lemma demo_schnorr_law: "schnorr_law demo_ext"
  by (simp add: schnorr_law_def demo_ext_def)

lemma demo_pt_eq: "demo_pt a = demo_pt b \<longleftrightarrow> a mod 13 = b mod 13"
proof
  assume "demo_pt a = demo_pt b"
  then have "(of_int (a mod 13) :: u8) = of_int (b mod 13)" by (simp add: demo_pt_def)
  then have "uint (of_int (a mod 13) :: u8) = uint (of_int (b mod 13) :: u8)" by simp
  then show "a mod 13 = b mod 13"
    by (simp add: uint_word_of_int_eq unsigned_of_int take_bit_int_eq_self)
qed (simp add: demo_pt_def)

lemma demo_dlog_pt: "demo_dlog (demo_pt a) = a mod 13"
proof -
  have "uint (of_int (a mod 13) :: u8) = a mod 13"
    by (simp add: unsigned_of_int take_bit_int_eq_self)
  then show ?thesis by (simp add: demo_dlog_def demo_pt_def)
qed

lemma demo_ec_law: "ec_law demo_ext 13 demo_pt demo_sc"
  unfolding ec_law_def
proof (intro conjI allI impI)
  fix x p
  assume "x_xonly_from_slice demo_ext x = Some p"
  then have "uint (last (0 # p)) mod 13 \<noteq> 0" by (auto simp: demo_ext_def split: if_splits)
  then have "p \<noteq> []" "uint (last p) mod 13 \<noteq> 0" by (auto split: if_splits)
  then show "\<exists>a. a mod int 13 \<noteq> 0 \<and> x_pk_from_xonly_even demo_ext p = demo_pt a"
    by (auto simp: demo_ext_def)
qed (auto simp: demo_ext_def demo_nonzero_def demo_dlog_pt demo_pt_eq mod_simps)

lemma demo_scalar_cases:
  "case demo_scalar a of None \<Rightarrow> a mod int 13 = 0 | Some m \<Rightarrow> a mod int 13 \<noteq> 0 \<and> demo_sc m mod int 13 = a mod int 13"
proof -
  have "uint (of_int (a mod 13) :: u8) = a mod 13" by (simp add: unsigned_of_int take_bit_int_eq_self)
  then show ?thesis by (simp add: demo_scalar_def demo_sc_def)
qed

lemma demo_sk_law: "sk_law demo_ext 13 demo_sc"
  unfolding sk_law_def by (simp add: demo_ext_def demo_scalar_cases del: of_nat_numeral split: if_splits)

end
