(* ===== verification/Dhke.thy ===== *)
theory Dhke
  imports Externals
begin

text \<open>
  The blind Diffie-Hellman key exchange, after \<open>crates/cashu/src/dhke.rs\<close>: mapping a secret to a
  point, blinding, signing, unblinding and verifying. Point arithmetic is secp256k1's, in the
  record of external functions.
\<close>

datatype dhke_error = TokenNotVerified | NoValidPoint | D_Secp256k1 | D_Custom string

definition str_bytes :: "string \<Rightarrow> bytes" where
  "str_bytes s = map byte_of_char s"

definition DOMAIN_SEPARATOR :: bytes where
  "DOMAIN_SEPARATOR = str_bytes ''Secp256k1_HashToCurve_Cashu_''"

definition u32_to_le_bytes :: "u32 \<Rightarrow> bytes" where
  "u32_to_le_bytes n = map (\<lambda>i. ucast (drop_bit i n)) [0, 8, 16, 24]"

text \<open>
  The loop over the counter from its start to \<open>2 ^ 16\<close>; the last argument is the number of
  counters left, so the recursion is structural.
\<close>

fun hash_to_curve_loop :: "ext \<Rightarrow> bytes \<Rightarrow> u32 \<Rightarrow> nat \<Rightarrow> dhke_error + public_key" where
  "hash_to_curve_loop X msg_hash counter 0 = Inl NoValidPoint"
| "hash_to_curve_loop X msg_hash counter (Suc left) =
     (case x_xonly_from_slice X (x_sha256 X (msg_hash @ u32_to_le_bytes counter)) of
        Some pk \<Rightarrow> Inr (x_pk_from_xonly_even X pk)
      | None \<Rightarrow> hash_to_curve_loop X msg_hash (counter + 1) left)"

definition hash_to_curve :: "ext \<Rightarrow> bytes \<Rightarrow> dhke_error + public_key" where
  "hash_to_curve X message =
     hash_to_curve_loop X (x_sha256 X (DOMAIN_SEPARATOR @ message)) 0 (2 ^ 16)"

definition blind_message :: "ext \<Rightarrow> bytes \<Rightarrow> secret_key \<Rightarrow> dhke_error + public_key \<times> secret_key" where
  "blind_message X secret r =
     rbind (hash_to_curve X secret) (\<lambda>y.
     rbind (ok_or D_Secp256k1 (x_pk_combine X y (x_public_key X r))) (\<lambda>b. Inr (b, r)))"

definition unblind_message :: "ext \<Rightarrow> public_key \<Rightarrow> secret_key \<Rightarrow> public_key \<Rightarrow> dhke_error + public_key" where
  "unblind_message X blinded_key r mint_pubkey =
     rbind (ok_or D_Secp256k1 (x_pk_mul_tweak X mint_pubkey r)) (\<lambda>a.
       ok_or D_Secp256k1 (x_pk_combine X blinded_key (x_pk_negate X a)))"

definition sign_message :: "ext \<Rightarrow> secret_key \<Rightarrow> public_key \<Rightarrow> dhke_error + public_key" where
  "sign_message X k blinded_message = ok_or D_Secp256k1 (x_pk_mul_tweak X blinded_message k)"

definition verify_message :: "ext \<Rightarrow> secret_key \<Rightarrow> public_key \<Rightarrow> bytes \<Rightarrow> dhke_error + unit" where
  "verify_message X a unblinded_message msg =
     rbind (hash_to_curve X msg) (\<lambda>y.
     rbind (ok_or D_Secp256k1 (x_pk_mul_tweak X y a)) (\<lambda>expected.
       if unblinded_message = expected then Inr () else Inl TokenNotVerified))"

section \<open>Correctness of the exchange\<close>

lemma hash_to_curve_loop_point:
  "ec_law X n pt sc \<Longrightarrow> hash_to_curve_loop X h c left = Inr y \<Longrightarrow> \<exists>a. a mod int n \<noteq> 0 \<and> y = pt a"
  by (induction left arbitrary: c) (fastforce simp: ec_law_def split: option.splits)+

lemma hash_to_curve_first:
  assumes "x_xonly_from_slice X (x_sha256 X (x_sha256 X (DOMAIN_SEPARATOR @ m) @ u32_to_le_bytes 0)) = Some pk"
  shows "hash_to_curve X m = Inr (x_pk_from_xonly_even X pk)"
proof -
  have "(2 :: nat) ^ 16 = Suc 65535" by simp
  with assms show ?thesis by (simp only: hash_to_curve_def hash_to_curve_loop.simps) simp
qed

text \<open>For evaluation: the first counter usually gives a point.\<close>

lemma hash_to_curve_code [code]:
  "hash_to_curve X m = (let h = x_sha256 X (DOMAIN_SEPARATOR @ m) in
     case x_xonly_from_slice X (x_sha256 X (h @ u32_to_le_bytes 0)) of
       Some pk \<Rightarrow> Inr (x_pk_from_xonly_even X pk)
     | None \<Rightarrow> hash_to_curve_loop X h 1 65535)"
proof -
  have "(2 :: nat) ^ 16 = Suc 65535" by simp
  then show ?thesis by (simp only: hash_to_curve_def hash_to_curve_loop.simps Let_def add_0_left)
qed

lemma hash_to_curve_point:
  "ec_law X n pt sc \<Longrightarrow> hash_to_curve X m = Inr y \<Longrightarrow> \<exists>a. a mod int n \<noteq> 0 \<and> y = pt a"
  unfolding hash_to_curve_def by (rule hash_to_curve_loop_point)

definition prime_order :: "nat \<Rightarrow> bool" where
  "prime_order n \<longleftrightarrow> 1 < n \<and> (\<forall>m. m dvd n \<longrightarrow> m = 1 \<or> m = n)"

lemma prime_order_coprime:
  assumes "prime_order n" "a mod int n \<noteq> 0"
  shows "coprime (int n) a"
proof -
  have "gcd (int n) a dvd int n" by simp
  then have "nat (gcd (int n) a) dvd n" by (metis gcd_ge_0_int int_dvd_int_iff nat_0_le)
  then consider "gcd (int n) a = 1" | "gcd (int n) a = int n"
    using assms(1) unfolding prime_order_def by (metis gcd_ge_0_int int_nat_eq nat_0_le of_nat_1)
  then show ?thesis
  proof cases
    case 2
    then have "int n dvd a" by (metis gcd_dvd2)
    with assms(2) show ?thesis by (simp add: dvd_eq_mod_eq_0)
  qed (simp add: coprime_iff_gcd_eq_1)
qed

lemma prime_mod_mult_nonzero:
  assumes "prime_order n" "a mod int n \<noteq> 0" "k mod int n \<noteq> 0"
  shows "(a * k) mod int n \<noteq> 0"
  using assms prime_order_coprime [OF assms(1,2)]
  by (simp add: coprime_dvd_mult_right_iff flip: dvd_eq_mod_eq_0)

text \<open>
  The blind signature scheme is correct: over a group of prime order, a wallet that blinds a
  secret with r, has the blinded point signed by the mint with key k and unblinds the result with
  r and the mint's public key obtains a signature that the mint's verification with k accepts;
  and no step fails, provided r and k are not zero, the secret hashes to a point, and blinding
  and unblinding do not meet the point at infinity.
\<close>
lemma bdhke_exchange:
  assumes ec: "ec_law X n pt sc" and prime: "prime_order n"
    and r: "sc r mod int n \<noteq> 0" and k: "sc k mod int n \<noteq> 0"
    and blind: "blind_message X secret r = Inr (b, r')"
  shows "r' = r \<and> (\<exists>cb c. sign_message X k b = Inr cb \<and>
     unblind_message X cb r (x_public_key X k) = Inr c \<and> verify_message X k c secret = Inr ())"
proof -
  from blind obtain y where y: "hash_to_curve X secret = Inr y"
    and b: "x_pk_combine X y (x_public_key X r) = Some b" and r': "r' = r"
    by (auto simp: blind_message_def res_simps)
  from hash_to_curve_point [OF ec y] obtain a where a: "a mod int n \<noteq> 0" "y = pt a" by blast
  have pub: "x_public_key X q = pt (sc q)" for q using ec by (simp add: ec_law_def)
  have comb: "x_pk_combine X (pt u) (pt v) = (if (u + v) mod int n = 0 then None else Some (pt (u + v)))"
    and mul: "x_pk_mul_tweak X (pt u) q = (if (u * sc q) mod int n = 0 then None else Some (pt (u * sc q)))"
    and neg: "x_pk_negate X (pt u) = pt (- u)" for u v q
    using ec by (auto simp: ec_law_def)
  have nz: "(a + sc r) mod int n \<noteq> 0" and bpt: "b = pt (a + sc r)"
    using b a pub comb by (auto split: if_splits)
  have cb: "sign_message X k b = Inr (pt ((a + sc r) * sc k))"
    using prime_mod_mult_nonzero [OF prime nz k] bpt mul by (simp add: sign_message_def)
  have ak: "(a * sc k) mod int n \<noteq> 0" by (rule prime_mod_mult_nonzero [OF prime a(1) k])
  have kr: "(sc k * sc r) mod int n \<noteq> 0" by (rule prime_mod_mult_nonzero [OF prime k r])
  have "(a + sc r) * sc k + - (sc k * sc r) = a * sc k" by (simp add: algebra_simps)
  with ak kr have "unblind_message X (pt ((a + sc r) * sc k)) r (x_public_key X k) = Inr (pt (a * sc k))"
    by (simp add: unblind_message_def pub mul neg comb)
  moreover have "verify_message X k (pt (a * sc k)) secret = Inr ()"
    using ak by (simp add: verify_message_def y a mul)
  ultimately show ?thesis using cb r' by blast
qed

lemma prime_order_13: "prime_order 13"
proof -
  have "m = 1 \<or> m = 13" if "m dvd 13" for m :: nat
  proof -
    from that have "m \<le> 13" by (rule dvd_imp_le) simp
    then have "m \<in> {0, 1, 2, 3, 4, 5, 6, 7, 8, 9, 10, 11, 12, 13}"
      by (simp, presburger)
    with that show ?thesis by auto
  qed
  then show ?thesis by (simp add: prime_order_def)
qed

lemma demo_hash_to_curve: "hash_to_curve demo_ext [5] = Inr (demo_pt 67)"
proof -
  have "x_xonly_from_slice demo_ext (x_sha256 demo_ext (x_sha256 demo_ext (DOMAIN_SEPARATOR @ [5]) @ u32_to_le_bytes 0))
      = Some (36 # replicate 30 0 @ [67])" by code_simp
  from hash_to_curve_first [OF this] show ?thesis by (simp add: demo_ext_def)
qed

end
