(* ===== verification/Decimal.thy ===== *)
theory Decimal
  imports CDK_Prelude
begin

text \<open>
  Decimal text of 64-bit integers, as the Rust standard library prints and parses it:
  \<open>u64::to_string\<close> and \<open>str::parse::<u64>\<close>. The parser accepts one leading plus sign, wants
  at least one digit, and fails on overflow, each step being a checked multiplication by ten
  followed by a checked addition of the digit.
\<close>

definition digit_char :: "nat \<Rightarrow> char" where
  "digit_char n = char_of (48 + n)"

definition char_digit :: "char \<Rightarrow> nat option" where
  "char_digit c = (let n = of_char c in if 48 \<le> n \<and> n \<le> (57 :: nat) then Some (n - 48) else None)"

fun nat_show :: "nat \<Rightarrow> string" where
  "nat_show n = (if n < 10 then [digit_char n] else nat_show (n div 10) @ [digit_char (n mod 10)])"

declare nat_show.simps [simp del]

definition u64_to_string :: "u64 \<Rightarrow> string" where
  "u64_to_string a = nat_show (unat a)"

fun digits_u64 :: "u64 \<Rightarrow> string \<Rightarrow> u64 option" where
  "digits_u64 acc [] = Some acc"
| "digits_u64 acc (c # cs) =
     (case char_digit c of None \<Rightarrow> None
      | Some d \<Rightarrow> (case u64_checked_mul acc 10 of None \<Rightarrow> None
        | Some m \<Rightarrow> (case u64_checked_add m (of_nat d) of None \<Rightarrow> None
          | Some s \<Rightarrow> digits_u64 s cs)))"

definition parse_u64 :: "string \<Rightarrow> u64 option" where
  "parse_u64 s = (let t = (case s of c # cs \<Rightarrow> if c = CHR ''+'' then cs else s | [] \<Rightarrow> [])
     in if t = [] then None else digits_u64 0 t)"

section \<open>Round trip\<close>

lemma char_digit_digit_char [simp]: "n < 10 \<Longrightarrow> char_digit (digit_char n) = Some n"
  by (simp add: char_digit_def digit_char_def of_char_of)

lemma digit_char_neq_plus: "n < 10 \<Longrightarrow> digit_char n \<noteq> CHR ''+''"
proof
  assume "n < 10" "digit_char n = CHR ''+''"
  then have "char_digit (CHR ''+'') = Some n" using char_digit_digit_char [of n] by simp
  then show False by (simp add: char_digit_def)
qed

lemma nat_show_not_Nil [simp]: "nat_show n \<noteq> []"
  by (subst nat_show.simps) simp

lemma nat_show_hd: "\<exists>d < 10. \<exists>cs. nat_show n = digit_char d # cs"
proof (induction n rule: nat_show.induct)
  case (1 n)
  show ?case
  proof (cases "n < 10")
    case True
    then show ?thesis by (subst nat_show.simps) auto
  next
    case False
    with 1 obtain d cs where "d < 10" "nat_show (n div 10) = digit_char d # cs" by blast
    with False show ?thesis by (subst nat_show.simps) auto
  qed
qed

lemma digits_u64_append:
  "digits_u64 acc (xs @ ys) = (case digits_u64 acc xs of None \<Rightarrow> None | Some a \<Rightarrow> digits_u64 a ys)"
  by (induction xs arbitrary: acc) (auto split: option.splits)

lemma digits_u64_digit:
  assumes "d < 10" "unat a * 10 + d < 2 ^ 64"
  shows "digits_u64 a [digit_char d] = Some (of_nat (unat a * 10 + d))"
proof -
  have d: "unat (of_nat d :: u64) = d"
    using assms(1) by (simp add: unsigned_of_nat take_bit_nat_eq_self)
  have "u64_checked_mul a 10 = Some (of_nat (unat a * 10))"
    using assms(2) by (simp add: u64_checked_mul_Some unsigned_of_nat take_bit_nat_eq_self unat_word_ariths)
  moreover have "u64_checked_add (of_nat (unat a * 10)) (of_nat d) = Some (of_nat (unat a * 10 + d))"
    using assms(2) d by (simp add: u64_checked_add_Some unsigned_of_nat take_bit_nat_eq_self del: of_nat_add of_nat_mult)
  ultimately show ?thesis using assms(1) by simp
qed

lemma digits_u64_nat_show: "n < 2 ^ 64 \<Longrightarrow> digits_u64 0 (nat_show n) = Some (of_nat n)"
proof (induction n rule: nat_show.induct)
  case (1 n)
  show ?case
  proof (cases "n < 10")
    case True
    then show ?thesis
      using digits_u64_digit [of n 0] by (subst nat_show.simps) simp
  next
    case False
    have "digits_u64 0 (nat_show (n div 10)) = Some (of_nat (n div 10))"
      using False 1 by simp
    moreover have "unat (of_nat (n div 10) :: u64) = n div 10"
      using "1.prems" by (simp add: unsigned_of_nat take_bit_nat_eq_self)
    moreover have "digits_u64 (of_nat (n div 10)) [digit_char (n mod 10)] = Some (of_nat n)"
      using digits_u64_digit [of "n mod 10" "of_nat (n div 10)"] "1.prems" calculation(2) by simp
    ultimately show ?thesis using False
      by (subst nat_show.simps) (simp add: digits_u64_append)
  qed
qed

lemma parse_u64_to_string [simp]: "parse_u64 (u64_to_string a) = Some a"
proof -
  obtain d cs where d: "d < 10" "nat_show (unat a) = digit_char d # cs" using nat_show_hd by blast
  have "digits_u64 0 (nat_show (unat a)) = Some a"
    using digits_u64_nat_show [of "unat a"] unat_u64_bound [of a] by simp
  with d show ?thesis
    by (simp add: parse_u64_def u64_to_string_def digit_char_neq_plus)
qed

lemma u64_to_string_inj: "u64_to_string a = u64_to_string b \<longleftrightarrow> a = b"
  by (metis option.inject parse_u64_to_string)

end
