(* ===== verification/Amount.thy ===== *)
theory Amount
  imports Decimal
begin

text \<open>
  Amounts of electronic cash, after \<open>crates/cashu/src/amount.rs\<close>: the errors, splitting an
  amount into the denominations of a keyset (plainly, towards a target, and covering the
  input fee of the parts), checked arithmetic, and amounts that carry their unit. An
  \<open>Amount<()>\<close> holds one 64-bit value and is a \<open>u64\<close>; an \<open>Amount<CurrencyUnit>\<close> is
  the record \<open>typed_amount\<close>. A panic of the source (\<open>expect\<close>, division by zero) is the
  error value \<open>AmountPanic\<close>, and a loop that never ends is \<open>None\<close>.
\<close>

section \<open>Data\<close>

datatype currency_unit = Sat | Msat | Usd | Eur | Auth | Custom string

datatype amount_error =
    SplitValuesGreater
  | AmountOverflow
  | CannotConvertUnits
  | UnitMismatch currency_unit currency_unit
  | InvalidAmount string
  | AmountUndefined
  | Utf8ParseError
  | CannotSplitAmount u64 u64
  | AmountPanic

record fee_and_amounts =
  fa_fee :: u64
  fa_amounts :: "u64 list"

record typed_amount =
  ta_value :: u64
  ta_unit :: currency_unit

datatype split_target = TargetNone | TargetValue u64 | TargetValues "u64 list"

definition MSAT_IN_SAT :: u64 where
  "MSAT_IN_SAT = 1000"

section \<open>Operations on amounts without a unit\<close>

definition amount_from_str :: "string \<Rightarrow> amount_error + u64" where
  "amount_from_str s = ok_or (InvalidAmount s) (parse_u64 s)"

definition amount_to_string :: "u64 \<Rightarrow> string" where
  "amount_to_string a = u64_to_string a"

definition amount_add :: "u64 \<Rightarrow> u64 \<Rightarrow> amount_error + u64" where
  "amount_add a b = ok_or AmountPanic (u64_checked_add a b)"

definition amount_sub :: "u64 \<Rightarrow> u64 \<Rightarrow> amount_error + u64" where
  "amount_sub a b = ok_or AmountPanic (u64_checked_sub a b)"

definition amount_mul :: "u64 \<Rightarrow> u64 \<Rightarrow> amount_error + u64" where
  "amount_mul a b = ok_or AmountPanic (u64_checked_mul a b)"

definition amount_div :: "u64 \<Rightarrow> u64 \<Rightarrow> amount_error + u64" where
  "amount_div a b = ok_or AmountPanic (u64_checked_div a b)"

definition amount_saturating_sub :: "u64 \<Rightarrow> u64 \<Rightarrow> amount_error + u64" where
  "amount_saturating_sub a b = (if b > a then Inr 0 else amount_sub a b)"

fun try_sum_from :: "u64 \<Rightarrow> u64 list \<Rightarrow> amount_error + u64" where
  "try_sum_from acc [] = Inr acc"
| "try_sum_from acc (x # xs) =
     rbind (ok_or AmountOverflow (u64_checked_add acc x)) (\<lambda>s. try_sum_from s xs)"

definition try_sum :: "u64 list \<Rightarrow> amount_error + u64" where
  "try_sum xs = try_sum_from 0 xs"

definition amount_to_i64 :: "u64 \<Rightarrow> int option" where
  "amount_to_i64 a = (if uint a \<le> 2 ^ 63 - 1 then Some (uint a) else None)"

definition amount_from_i64 :: "int \<Rightarrow> u64 option" where
  "amount_from_i64 v = (if v \<ge> 0 then Some (word_of_int v) else None)"

section \<open>Splitting\<close>

fun split_fold :: "u64 list \<Rightarrow> u64 list \<Rightarrow> u64 \<Rightarrow> (u64 list \<times> u64) option" where
  "split_fold [] acc tot = Some (acc, tot)"
| "split_fold (a # as) acc tot =
     (if a = 0 then None
      else split_fold as (acc @ replicate (unat (tot div a)) a) (tot mod a))"

definition amount_split :: "fee_and_amounts \<Rightarrow> u64 \<Rightarrow> amount_error + u64 list" where
  "amount_split fa self =
     (case split_fold (rev (fa_amounts fa)) [] self of
        None \<Rightarrow> Inl AmountPanic
      | Some (parts, rest) \<Rightarrow>
          (let s = sum_list parts
           in if s \<noteq> self then Inl (CannotSplitAmount self s) else Inr parts))"

fun targeted_inner ::
  "fee_and_amounts \<Rightarrow> u64 \<Rightarrow> u64 list \<Rightarrow> u64 list \<Rightarrow> u64 \<Rightarrow> amount_error + u64 list \<times> u64"
where
  "targeted_inner fa self [] parts parts_total = Inr (parts, parts_total)"
| "targeted_inner fa self (part # rest) parts parts_total =
     rbind (ok_or AmountOverflow (u64_checked_add part parts_total)) (\<lambda>s.
     rbind (if s \<le> self then Inr (parts @ [part])
            else rbind (ok_or AmountOverflow (u64_checked_sub self parts_total)) (\<lambda>left.
                 rbind (amount_split fa left) (\<lambda>ext. Inr (parts @ ext)))) (\<lambda>parts'.
     rbind (try_sum parts') (\<lambda>new_total.
       if new_total = self then Inr (parts', new_total)
       else targeted_inner fa self rest parts' new_total)))"

partial_function (option) targeted_loop ::
  "fee_and_amounts \<Rightarrow> u64 \<Rightarrow> u64 list \<Rightarrow> u64 list \<Rightarrow> u64 \<Rightarrow> (amount_error + u64 list) option"
where
  "targeted_loop fa self pov parts parts_total =
     (if parts_total < self
      then (case targeted_inner fa self pov parts parts_total of
              Inl e \<Rightarrow> Some (Inl e)
            | Inr r \<Rightarrow> targeted_loop fa self pov (fst r) (snd r))
      else Some (Inr parts))"

definition split_targeted ::
  "fee_and_amounts \<Rightarrow> split_target \<Rightarrow> u64 \<Rightarrow> (amount_error + u64 list) option"
where
  "split_targeted fa target self =
     (case target of
        TargetNone \<Rightarrow> Some (rmap sort (amount_split fa self))
      | TargetValue amount \<Rightarrow>
          (if self \<le> amount then Some (amount_split fa self)
           else (case amount_split fa amount of
                   Inl e \<Rightarrow> Some (Inl e)
                 | Inr pov \<Rightarrow> map_option (rmap sort) (targeted_loop fa self pov [] 0)))
      | TargetValues values \<Rightarrow>
          Some (rbind (try_sum values) (\<lambda>values_total.
            if self = values_total then Inr (sort values)
            else if self < values_total then Inl SplitValuesGreater
            else rbind (ok_or AmountOverflow (u64_checked_sub self values_total)) (\<lambda>extra.
                 rbind (amount_split fa extra) (\<lambda>extra_amount. Inr (sort (values @ extra_amount)))))))"

function split_with_fee :: "fee_and_amounts \<Rightarrow> u64 \<Rightarrow> amount_error + u64 list" where
  "split_with_fee fa self =
     rbind (amount_split fa self) (\<lambda>without_fee_amounts.
     rbind (ok_or AmountOverflow (u64_checked_mul (fa_fee fa) (of_nat (length without_fee_amounts)))) (\<lambda>total_fee_ppk.
     rbind (ok_or AmountOverflow (u64_checked_add self (u64_div_ceil total_fee_ppk 1000))) (\<lambda>new_amount.
     rbind (amount_split fa new_amount) (\<lambda>split.
     rbind (ok_or AmountOverflow (u64_checked_mul (of_nat (length split)) (fa_fee fa))) (\<lambda>split_fee_ppk.
       if (case u64_checked_sub new_amount (u64_div_ceil split_fee_ppk 1000) of
             None \<Rightarrow> False | Some net_amount \<Rightarrow> net_amount \<ge> self)
       then Inr split
       else rbind (ok_or AmountOverflow (u64_checked_add self 1)) (\<lambda>next_amount.
            split_with_fee fa next_amount))))))"
  by pat_completeness auto
termination
proof (relation "measure (\<lambda>(fa, self). 2 ^ 64 - unat self)")
  show "wf (measure (\<lambda>(fa :: fee_and_amounts, self :: u64). 2 ^ 64 - unat self))" by simp
next
  fix fa :: fee_and_amounts and self next_amount :: u64
  assume "ok_or AmountOverflow (u64_checked_add self 1) = Inr next_amount"
  then have "unat next_amount = unat self + 1" by (simp add: ok_or_eq_Ok u64_checked_add_Some)
  then show "((fa, next_amount), fa, self) \<in> measure (\<lambda>(fa, self). 2 ^ 64 - unat self)"
    using unat_u64_bound [of next_amount] by simp
qed

declare split_with_fee.simps [simp del]

section \<open>Operations on amounts with a unit\<close>

definition typed_partial_cmp_le :: "typed_amount \<Rightarrow> typed_amount \<Rightarrow> bool" where
  "typed_partial_cmp_le a b = (ta_unit a = ta_unit b \<and> ta_value a \<le> ta_value b)"

definition typed_partial_cmp_lt :: "typed_amount \<Rightarrow> typed_amount \<Rightarrow> bool" where
  "typed_partial_cmp_lt a b = (ta_unit a = ta_unit b \<and> ta_value a < ta_value b)"

definition new_amount :: "u64 \<Rightarrow> currency_unit \<Rightarrow> typed_amount" where
  "new_amount v u = \<lparr> ta_value = v, ta_unit = u \<rparr>"

definition typed_checked_add :: "typed_amount \<Rightarrow> typed_amount \<Rightarrow> amount_error + typed_amount" where
  "typed_checked_add a b =
     (if ta_unit a \<noteq> ta_unit b then Inl (UnitMismatch (ta_unit a) (ta_unit b))
      else ok_or AmountOverflow
             (map_option (\<lambda>v. new_amount v (ta_unit a)) (u64_checked_add (ta_value a) (ta_value b))))"

definition typed_checked_sub :: "typed_amount \<Rightarrow> typed_amount \<Rightarrow> amount_error + typed_amount" where
  "typed_checked_sub a b =
     (if ta_unit a \<noteq> ta_unit b then Inl (UnitMismatch (ta_unit a) (ta_unit b))
      else ok_or AmountOverflow
             (map_option (\<lambda>v. new_amount v (ta_unit a)) (u64_checked_sub (ta_value a) (ta_value b))))"

definition convert_to :: "typed_amount \<Rightarrow> currency_unit \<Rightarrow> amount_error + typed_amount" where
  "convert_to a target_unit =
     (if ta_unit a = target_unit then Inr a
      else rbind
        (if ta_unit a = Sat \<and> target_unit = Msat
           then ok_or AmountOverflow (u64_checked_mul (ta_value a) MSAT_IN_SAT)
         else if ta_unit a = Msat \<and> target_unit = Sat
           then Inr (ta_value a div MSAT_IN_SAT)
         else Inl CannotConvertUnits)
        (\<lambda>converted_value. Inr (new_amount converted_value target_unit)))"

definition convert_unit :: "u64 \<Rightarrow> currency_unit \<Rightarrow> currency_unit \<Rightarrow> amount_error + u64" where
  "convert_unit self current_unit target_unit =
     rmap ta_value (convert_to (new_amount self current_unit) target_unit)"

definition to_msat :: "typed_amount \<Rightarrow> amount_error + u64" where
  "to_msat a = rmap ta_value (convert_to a Msat)"

definition to_sat :: "typed_amount \<Rightarrow> amount_error + u64" where
  "to_sat a = rmap ta_value (convert_to a Sat)"

section \<open>Lemmas on sums\<close>

lemma try_sum_from_Ok [res_simps]:
  "try_sum_from acc xs = Inr s \<longleftrightarrow> unat s = unat acc + usum xs"
proof (induction xs arbitrary: acc)
  case Nil
  then show ?case by (auto simp flip: unat_inj_u64)
next
  case (Cons x xs)
  have "(\<exists>y :: u64. unat y = unat acc + unat x \<and> unat s = unat y + usum xs) \<longleftrightarrow>
        unat s = unat acc + (unat x + usum xs)"
  proof
    assume eq: "unat s = unat acc + (unat x + usum xs)"
    then have "unat acc + unat x < 2 ^ 64" using unat_u64_bound [of s] by simp
    then have "unat (acc + x) = unat acc + unat x" by (simp add: unat_word_ariths)
    with eq show "\<exists>y :: u64. unat y = unat acc + unat x \<and> unat s = unat y + usum xs"
      by - (rule exI [of _ "acc + x"], simp)
  qed auto
  then show ?case by (simp add: rbind_eq_Ok ok_or_eq_Ok u64_checked_add_Some Cons.IH)
qed

lemma try_sum_Ok [res_simps]: "try_sum xs = Inr s \<longleftrightarrow> unat s = usum xs"
  by (simp add: try_sum_def try_sum_from_Ok)

lemma try_sum_from_Err: "try_sum_from acc xs = Inl e \<Longrightarrow> e = AmountOverflow"
  by (induction xs arbitrary: acc) (auto simp: rbind_eq_Err ok_or_eq_Err)

lemma try_sum_cases:
  "try_sum xs = (if usum xs < 2 ^ 64 then Inr (of_nat (usum xs)) else Inl AmountOverflow)"
proof (cases "try_sum xs")
  case (Inl e)
  then have "e = AmountOverflow" using try_sum_from_Err by (simp add: try_sum_def)
  moreover have "\<not> usum xs < 2 ^ 64"
  proof
    assume "usum xs < 2 ^ 64"
    then have "try_sum xs = Inr (sum_list xs)" by (simp add: try_sum_Ok unat_sum_list)
    with Inl show False by simp
  qed
  ultimately show ?thesis using Inl by simp
next
  case (Inr s)
  then have "unat s = usum xs" by (simp add: try_sum_Ok)
  then have "s = of_nat (usum xs)" and "usum xs < 2 ^ 64"
    using unat_u64_bound [of s] by (simp_all flip: \<open>unat s = usum xs\<close>)
  then show ?thesis using Inr by simp
qed

section \<open>Lemmas on splitting\<close>

lemma split_fold_None: "split_fold ds acc n = None \<longleftrightarrow> 0 \<in> set ds"
  by (induction ds arbitrary: acc n) auto

lemma split_fold_sound:
  assumes "split_fold ds acc n = Some (parts, rest)"
  shows "unat n + usum acc = usum parts + unat rest \<and> set parts \<subseteq> set acc \<union> set ds
    \<and> unat rest \<le> unat n"
  using assms
proof (induction ds arbitrary: acc n)
  case Nil
  then show ?case by auto
next
  case (Cons a ds)
  then have "a \<noteq> 0"
    and *: "split_fold ds (acc @ replicate (unat (n div a)) a) (n mod a) = Some (parts, rest)"
    by (auto split: if_splits)
  have "unat (n div a) * unat a + unat (n mod a) = unat n"
    by (simp add: unat_div unat_mod)
  moreover have "unat (n mod a) \<le> unat n" by (simp add: unat_mod)
  ultimately show ?case using Cons.IH [OF *]
    by (auto simp: sum_list_replicate)
qed

lemma amount_split_Ok:
  assumes "amount_split fa n = Inr parts"
  shows "usum parts = unat n" and "set parts \<subseteq> set (fa_amounts fa)" and "0 \<notin> set (fa_amounts fa)"
proof -
  from assms obtain rest where sf: "split_fold (rev (fa_amounts fa)) [] n = Some (parts, rest)"
    and sum: "sum_list parts = n"
    by (auto simp: amount_split_def Let_def split: option.splits prod.splits if_splits)
  from split_fold_sound [OF sf] have eq: "unat n = usum parts + unat rest" and sub: "set parts \<subseteq> set (fa_amounts fa)"
    by auto
  from eq have "usum parts < 2 ^ 64" using unat_u64_bound [of n] by simp
  then have "unat (sum_list parts) = usum parts" by (rule unat_sum_list)
  with sum show "usum parts = unat n" by simp
  show "set parts \<subseteq> set (fa_amounts fa)" by (rule sub)
  show "0 \<notin> set (fa_amounts fa)" using sf split_fold_None [of "rev (fa_amounts fa)" "[]" n] by auto
qed

lemma split_fold_complete:
  assumes "1 \<in> set ds" "0 \<notin> set ds"
  shows "\<exists>parts. split_fold ds acc n = Some (parts, 0)"
  using assms
proof (induction ds arbitrary: acc n)
  case Nil
  then show ?case by simp
next
  case (Cons a ds)
  have zero: "0 \<notin> set ds \<Longrightarrow> \<exists>parts. split_fold ds acc' 0 = Some (parts, 0)" for acc'
  proof (induction ds arbitrary: acc')
    case (Cons b ds)
    then show ?case by simp
  qed simp
  show ?case
  proof (cases "a = 1")
    case True
    have "n mod 1 = 0" by (simp flip: unat_inj_u64 add: unat_mod)
    then show ?thesis using True Cons.prems zero by auto
  next
    case False
    then show ?thesis using Cons by auto
  qed
qed

lemma amount_split_complete:
  assumes "1 \<in> set (fa_amounts fa)" "0 \<notin> set (fa_amounts fa)"
  shows "\<exists>parts. amount_split fa n = Inr parts"
proof -
  from assms obtain parts where sf: "split_fold (rev (fa_amounts fa)) [] n = Some (parts, 0)"
    using split_fold_complete [of "rev (fa_amounts fa)" "[]" n] by auto
  from split_fold_sound [OF sf] have eq: "usum parts = unat n" by auto
  then have "unat (sum_list parts) = unat n"
    using unat_sum_list [of parts] unat_u64_bound [of n] by simp
  then show ?thesis using sf by (simp add: amount_split_def Let_def unat_inj_u64)
qed

lemma amount_split_zero: "0 \<notin> set (fa_amounts fa) \<Longrightarrow> amount_split fa 0 = Inr []"
proof -
  have "0 \<notin> set ds \<Longrightarrow> split_fold ds acc 0 = Some (acc, 0)" for ds acc
    by (induction ds) auto
  then show "0 \<notin> set (fa_amounts fa) \<Longrightarrow> amount_split fa 0 = Inr []"
    by (simp add: amount_split_def)
qed

lemma amount_split_panic: "amount_split fa n = Inl AmountPanic \<longleftrightarrow> 0 \<in> set (fa_amounts fa)"
  using split_fold_None [of "rev (fa_amounts fa)" "[]" n]
  by (auto simp: amount_split_def Let_def split: option.splits prod.splits if_splits)

section \<open>The greedy split uses the fewest parts\<close>

fun greedy_length :: "nat list \<Rightarrow> nat \<Rightarrow> nat" where
  "greedy_length [] n = 0"
| "greedy_length (d # ds) n = n div d + greedy_length ds (n mod d)"

fun descending_chain :: "nat list \<Rightarrow> bool" where
  "descending_chain (d # e # ds) \<longleftrightarrow> 0 < d \<and> e dvd d \<and> descending_chain (e # ds)"
| "descending_chain [d] \<longleftrightarrow> 0 < d"
| "descending_chain [] \<longleftrightarrow> True"

text \<open>A keyset whose denominations, in ascending order, each divide the next one.\<close>

definition denominations_chain :: "fee_and_amounts \<Rightarrow> bool" where
  "denominations_chain fa \<longleftrightarrow> descending_chain (map unat (rev (fa_amounts fa)))"

lemma descending_chain_pos: "descending_chain ds \<Longrightarrow> 0 \<notin> set ds"
proof (induction ds rule: descending_chain.induct)
  case (1 d e ds)
  then show ?case by (auto dest: dvd_imp_le)
qed auto

lemma descending_chain_tl: "descending_chain (d # ds) \<Longrightarrow> descending_chain ds"
  by (cases ds) auto

lemma greedy_length_shift:
  assumes "descending_chain (d # ds)" "ds \<noteq> []"
  shows "k + greedy_length ds r \<le> greedy_length ds (k * d + r)"
proof -
  from assms obtain e es where ds: "ds = e # es" by (cases ds) auto
  with assms obtain q where d: "d = e * q" "0 < d" by auto
  then have "0 < e" "0 < q" by auto
  have "(k * d + r) div e = k * q + r div e" and "(k * d + r) mod e = r mod e"
    using d \<open>0 < e\<close> by (simp_all add: algebra_simps)
  moreover have "k \<le> k * q" using \<open>0 < q\<close> by simp
  ultimately show ?thesis by (simp add: ds)
qed

lemma greedy_length_optimal:
  assumes "descending_chain ds" "set xs \<subseteq> set ds" "sum_list xs = n"
  shows "greedy_length ds n \<le> length xs"
  using assms
proof (induction ds arbitrary: xs n)
  case Nil
  then show ?case by simp
next
  case (Cons d ds)
  define ys where "ys = filter (\<lambda>x. x \<noteq> d) xs"
  define m where "m = length (filter (\<lambda>x. x = d) xs)"
  have sum: "sum_list xs = m * d + sum_list ys"
    unfolding m_def ys_def by (induction xs) auto
  have len: "length xs = m + length ys"
    unfolding m_def ys_def by (induction xs) auto
  have sub: "set ys \<subseteq> set ds" using Cons.prems(2) by (auto simp: ys_def)
  have IH: "greedy_length ds (sum_list ys) \<le> length ys"
    using Cons.IH [OF descending_chain_tl [OF Cons.prems(1)] sub] by simp
  have "0 < d" using descending_chain_pos [OF Cons.prems(1)] by simp
  define k where "k = sum_list ys div d"
  have ys: "sum_list ys = k * d + n mod d"
    using Cons.prems(3) sum by (simp add: k_def mult.commute flip: Cons.prems(3))
  have n: "n div d = m + k" using Cons.prems(3) sum \<open>0 < d\<close> by (simp add: k_def flip: Cons.prems(3))
  show ?case
  proof (cases "ds = []")
    case True
    with sub have "ys = []" by simp
    then show ?thesis using True len n by (simp add: k_def)
  next
    case False
    then show ?thesis
      using greedy_length_shift [OF Cons.prems(1) False, of k "n mod d"] IH len n ys by simp
  qed
qed

lemma split_fold_length:
  "split_fold ds acc n = Some (parts, rest) \<Longrightarrow>
     length parts = length acc + greedy_length (map unat ds) (unat n)"
  by (induction ds arbitrary: acc n) (auto simp: unat_div unat_mod split: if_splits)

lemma amount_split_length:
  "amount_split fa n = Inr parts \<Longrightarrow>
     length parts = greedy_length (map unat (rev (fa_amounts fa))) (unat n)"
  by (auto simp: amount_split_def Let_def split_fold_length split: option.splits prod.splits if_splits)

lemma denominations_chain_pos: "denominations_chain fa \<Longrightarrow> 0 \<notin> set (fa_amounts fa)"
proof -
  assume "denominations_chain fa"
  then have "0 \<notin> unat ` set (fa_amounts fa)"
    using descending_chain_pos by (fastforce simp: denominations_chain_def)
  then show ?thesis by (metis image_eqI unat_0)
qed

text \<open>
  C21. Splitting an amount over a keyset whose denominations form a divisibility chain starting
  at one always succeeds; the parts are denominations of the keyset, they add up to the amount,
  and no other list of denominations with the same sum is shorter: the default target gives the
  least number of proofs.
\<close>
theorem amount_split_optimal:
  assumes "denominations_chain fa" and "1 \<in> set (fa_amounts fa)"
  shows "\<exists>parts. amount_split fa n = Inr parts \<and> usum parts = unat n \<and>
    set parts \<subseteq> set (fa_amounts fa) \<and>
    (\<forall>xs. set xs \<subseteq> set (fa_amounts fa) \<longrightarrow> usum xs = unat n \<longrightarrow> length parts \<le> length xs)"
proof -
  from amount_split_complete [OF assms(2) denominations_chain_pos [OF assms(1)]]
  obtain parts where ok: "amount_split fa n = Inr parts" by blast
  have "length parts \<le> length xs" if "set xs \<subseteq> set (fa_amounts fa)" "usum xs = unat n" for xs
    using greedy_length_optimal [of "map unat (rev (fa_amounts fa))" "map unat xs" "unat n"]
      assms(1) that amount_split_length [OF ok] by (auto simp: denominations_chain_def)
  with ok amount_split_Ok [OF ok] show ?thesis by blast
qed

theorem amount_split_optimal_witness:
  "\<exists>parts. amount_split \<lparr> fa_fee = 0, fa_amounts = [1, 2, 4, 8] \<rparr> 13 = Inr parts \<and>
     usum parts = unat (13 :: u64) \<and> set parts \<subseteq> {1, 2, 4, 8} \<and>
     (\<forall>xs. set xs \<subseteq> {1, 2, 4, 8} \<longrightarrow> usum xs = unat (13 :: u64) \<longrightarrow> length parts \<le> length xs)"
  using amount_split_optimal [of "\<lparr> fa_fee = 0, fa_amounts = [1, 2, 4, 8] \<rparr>" 13]
  by (simp add: denominations_chain_def)

section \<open>Splitting towards a target\<close>

text \<open>What one pass of the inner loop keeps: the running total is the sum of the parts so far.\<close>

lemma targeted_inner_inv:
  assumes "targeted_inner fa self pov parts tot = Inr (p, t)"
    and "usum parts = unat tot" and "tot \<le> self"
  shows "usum p = unat t \<and> t \<le> self \<and> tot \<le> t \<and> set p \<subseteq> set parts \<union> set pov \<union> set (fa_amounts fa)
    \<and> (pov \<noteq> [] \<longrightarrow> 0 \<notin> set pov \<longrightarrow> tot < self \<longrightarrow> tot < t)"
  using assms
proof (induction pov arbitrary: parts tot)
  case Nil
  then show ?case by auto
next
  case (Cons part rest)
  from Cons.prems(1) obtain s parts' new_total where
      s: "unat s = unat part + unat tot"
    and parts': "(if s \<le> self then Inr (parts @ [part])
            else rbind (ok_or AmountOverflow (u64_checked_sub self tot)) (\<lambda>left.
                 rbind (amount_split fa left) (\<lambda>ext. Inr (parts @ ext)))) = Inr parts'"
    and nt: "unat new_total = usum parts'"
    and res: "(if new_total = self then Inr (parts', new_total)
       else targeted_inner fa self rest parts' new_total) = Inr (p, t)"
    by (auto simp: rbind_eq_Ok ok_or_eq_Ok u64_checked_add_Some try_sum_Ok)
  show ?case
  proof (cases "s \<le> self")
    case True
    with parts' s Cons.prems(2) nt have eq: "parts' = parts @ [part]" "new_total = s"
      by (auto simp flip: unat_inj_u64)
    have part: "part \<noteq> 0 \<Longrightarrow> 0 < unat part" by (simp add: unat_gt_0)
    show ?thesis
    proof (cases "new_total = self")
      case True
      with res eq nt s Cons.prems show ?thesis
        by (auto simp: word_le_nat_alt word_less_nat_alt)
    next
      case False
      with res have r: "targeted_inner fa self rest parts' new_total = Inr (p, t)" by simp
      from Cons.IH [OF r] nt eq True show ?thesis
        using s part by (auto simp: word_le_nat_alt word_less_nat_alt)
    qed
  next
    case False
    with parts' obtain left ext where left: "unat self = unat tot + unat left"
      and ext: "amount_split fa left = Inr ext" and eq: "parts' = parts @ ext"
      by (auto simp: rbind_eq_Ok ok_or_eq_Ok u64_checked_sub_Some)
    from amount_split_Ok [OF ext] left eq nt Cons.prems(2)
    have self: "new_total = self" by (simp flip: unat_inj_u64)
    with res have "p = parts'" "t = self" by auto
    with self nt eq amount_split_Ok(2) [OF ext] Cons.prems(3) show ?thesis by auto
  qed
qed

lemma targeted_loop_returns:
  assumes "pov \<noteq> []" "0 \<notin> set pov" "usum parts = unat tot" "tot \<le> self"
  shows "\<exists>r. targeted_loop fa self pov parts tot = Some r \<and>
    (\<forall>p. r = Inr p \<longrightarrow> usum p = unat self \<and> set p \<subseteq> set parts \<union> set pov \<union> set (fa_amounts fa))"
  using assms
proof (induction "unat self - unat tot" arbitrary: parts tot rule: less_induct)
  case less
  show ?case
  proof (cases "tot < self")
    case False
    with less.prems have "tot = self" by simp
    with less.prems show ?thesis by (subst targeted_loop.simps) auto
  next
    case True
    show ?thesis
    proof (cases "targeted_inner fa self pov parts tot")
      case (Inl e)
      then show ?thesis using True by (subst targeted_loop.simps) simp
    next
      case (Inr r)
      then obtain p t where r: "targeted_inner fa self pov parts tot = Inr (p, t)" by (cases r) auto
      from targeted_inner_inv [OF r less.prems(3,4)] True less.prems
      have inv: "usum p = unat t" "t \<le> self" "tot < t"
        and sub: "set p \<subseteq> set parts \<union> set pov \<union> set (fa_amounts fa)" by auto
      then have "unat self - unat t < unat self - unat tot"
        by (auto simp: word_le_nat_alt word_less_nat_alt)
      from less.hyps [OF this less.prems(1,2) inv(1,2)] sub True r show ?thesis
        by (subst targeted_loop.simps) fastforce
    qed
  qed
qed

lemma targeted_loop_empty_diverges: "0 < self \<Longrightarrow> targeted_loop fa self [] [] 0 = None"
proof (rule ccontr)
  assume pos: "0 < self" and "targeted_loop fa self [] [] 0 \<noteq> None"
  then obtain y where y: "targeted_loop fa self [] [] 0 = Some y" by blast
  have "\<not> (pov = [] \<and> tot < slf)" if "targeted_loop f slf pov parts tot = Some z" for f slf pov parts tot z
    using that
    by (rule targeted_loop.raw_induct [where P = "\<lambda>f slf pov parts tot z. \<not> (pov = [] \<and> tot < slf)", rotated])
       (auto split: if_splits sum.splits)
  from this [OF y] pos show False by simp
qed

lemma amount_split_nonempty: "amount_split fa n = Inr parts \<Longrightarrow> n \<noteq> 0 \<Longrightarrow> parts \<noteq> [] \<and> 0 \<notin> set parts"
  using amount_split_Ok [of fa n parts] by (auto simp: unat_eq_zero)

text \<open>
  C22. Splitting towards a target never loops forever except in one case, the target value zero
  for a positive amount, where the loop over an empty list of parts makes no progress; and
  whenever it returns parts, they add up to the amount.
\<close>
theorem split_targeted_returns:
  "(split_targeted fa target self = None \<longleftrightarrow>
      target = TargetValue 0 \<and> 0 < self \<and> 0 \<notin> set (fa_amounts fa)) \<and>
   (case split_targeted fa target self of Some (Inr parts) \<Rightarrow> usum parts = unat self | _ \<Rightarrow> True)"
proof (cases target)
  case TargetNone
  then show ?thesis using amount_split_Ok(1) [of fa self]
    by (auto simp: split_targeted_def rmap_def split: sum.splits)
next
  case (TargetValues vs)
  have "usum p = unat self" if eq: "split_targeted fa target self = Some (Inr p)" for p
  proof (cases "p = sort vs \<and> usum vs = unat self")
    case False
    with eq TargetValues obtain extra ext where "unat self = usum vs + unat extra"
      "amount_split fa extra = Inr ext" "p = sort (vs @ ext)"
      by (auto simp: split_targeted_def res_simps u64_checked_sub_Some split: if_splits)
    then show ?thesis using amount_split_Ok(1) [of fa extra ext] by simp
  qed simp
  moreover have "split_targeted fa target self \<noteq> None"
    using TargetValues by (simp add: split_targeted_def)
  ultimately show ?thesis using TargetValues by (auto split: sum.splits)
next
  case (TargetValue amount)
  show ?thesis
  proof (cases "self \<le> amount \<or> is_ok (amount_split fa amount) \<and> amount = 0 \<or> \<not> is_ok (amount_split fa amount)")
    case True
    then show ?thesis
      using TargetValue amount_split_Ok(1) [of fa self] amount_split_zero [of fa] amount_split_Ok(3) [of fa 0]
        amount_split_panic [of fa 0] targeted_loop_empty_diverges [of self fa]
      by (auto simp: split_targeted_def is_ok_iff word_gt_0 split: sum.splits)
  next
    case False
    then obtain pov where pov: "amount_split fa amount = Inr pov" and less: "\<not> self \<le> amount" "amount \<noteq> 0"
      by (auto simp: is_ok_iff)
    with targeted_loop_returns [of pov "[]" 0 self fa] amount_split_nonempty [OF pov]
    obtain r where "targeted_loop fa self pov [] 0 = Some r"
      "\<forall>p. r = Inr p \<longrightarrow> usum p = unat self" by auto
    then show ?thesis using TargetValue pov less
      by (auto simp: split_targeted_def rmap_def split: sum.splits)
  qed
qed

section \<open>Splitting with the fee of the parts\<close>

text \<open>Input fee in units for a number of parts, rounded up as the mint does.\<close>

abbreviation ceil_fee :: "fee_and_amounts \<Rightarrow> nat \<Rightarrow> nat" where
  "ceil_fee fa n \<equiv> (unat (fa_fee fa) * n + 999) div 1000"

lemma amount_split_length_u64:
  assumes "amount_split fa n = Inr parts"
  shows "unat (of_nat (length parts) :: u64) = length parts"
proof -
  have "length parts \<le> usum parts"
    using amount_split_Ok [OF assms] by (intro length_le_usum) auto
  then have "length parts < 2 ^ 64"
    using amount_split_Ok(1) [OF assms] unat_u64_bound [of n] by simp
  then show ?thesis by (simp add: unsigned_of_nat take_bit_nat_eq_self)
qed

lemma split_with_fee_step:
  assumes "amount_split fa new = Inr parts"
    and "u64_checked_mul (of_nat (length parts)) (fa_fee fa) = Some ppk"
    and "u64_checked_sub new (u64_div_ceil ppk 1000) = Some net" and "self \<le> net"
  shows "unat self + ceil_fee fa (length parts) \<le> usum parts"
proof -
  have "unat ppk = length parts * unat (fa_fee fa)"
    using assms(2) by (simp add: u64_checked_mul_Some amount_split_length_u64 [OF assms(1)])
  moreover have "unat new = unat (u64_div_ceil ppk 1000) + unat net"
    using assms(3) by (simp add: u64_checked_sub_Some)
  ultimately show ?thesis
    using assms(4) amount_split_Ok(1) [OF assms(1)]
    by (simp add: unat_u64_div_ceil_1000 word_le_nat_alt mult.commute)
qed

text \<open>
  C23. Splitting with fees: over a keyset with denomination one and no zero denomination, the
  only failure is an overflow, and otherwise the parts are denominations whose sum pays the
  requested amount and, on top of it, the rounded-up input fee of these very parts.
\<close>
theorem split_with_fee_covers:
  assumes "1 \<in> set (fa_amounts fa)" and "0 \<notin> set (fa_amounts fa)"
  shows "case split_with_fee fa self of
      Inl e \<Rightarrow> e = AmountOverflow
    | Inr parts \<Rightarrow> set parts \<subseteq> set (fa_amounts fa) \<and>
        unat self + ceil_fee fa (length parts) \<le> usum parts"
proof (induction "2 ^ 64 - unat self" arbitrary: self rule: less_induct)
  case less
  note split_complete = amount_split_complete [OF assms]
  obtain parts0 where s0: "amount_split fa self = Inr parts0" using split_complete by blast
  show ?case
  proof (cases "u64_checked_mul (fa_fee fa) (of_nat (length parts0))")
    case None
    then show ?thesis using s0 by (subst split_with_fee.simps) simp
  next
    case (Some ppk0)
    note m0 = Some
    show ?thesis
    proof (cases "u64_checked_add self (u64_div_ceil ppk0 1000)")
      case None
      then show ?thesis using s0 m0 by (subst split_with_fee.simps) simp
    next
      case (Some new)
      note n0 = Some
      obtain parts where s1: "amount_split fa new = Inr parts" using split_complete by blast
      note unfolded = split_with_fee.simps [of fa self] and facts = s0 m0 n0 s1
      show ?thesis
      proof (cases "u64_checked_mul (of_nat (length parts)) (fa_fee fa)")
        case None
        then show ?thesis using facts by (subst unfolded) simp
      next
        case (Some ppk)
        note m1 = Some
        show ?thesis
        proof (cases "\<exists>net. u64_checked_sub new (u64_div_ceil ppk 1000) = Some net \<and> self \<le> net")
          case True
          then obtain net where net: "u64_checked_sub new (u64_div_ceil ppk 1000) = Some net" "self \<le> net" by blast
          then show ?thesis
            using facts m1 split_with_fee_step [OF s1 m1 net] amount_split_Ok(2) [OF s1]
            by (subst unfolded) simp
        next
          case False
          then have rec: "split_with_fee fa self =
              rbind (ok_or AmountOverflow (u64_checked_add self 1)) (split_with_fee fa)"
            using facts m1 by (subst unfolded) (auto split: option.splits)
          show ?thesis
          proof (cases "u64_checked_add self 1")
            case None
            then show ?thesis by (simp add: rec)
          next
            case (Some self')
            then have u: "unat self' = unat self + 1" by (simp add: u64_checked_add_Some)
            then have "2 ^ 64 - unat self' < 2 ^ 64 - unat self" using unat_u64_bound [of self'] by simp
            from less.hyps [OF this] u Some show ?thesis
              by (auto simp: rec split: sum.splits)
          qed
        qed
      qed
    qed
  qed
qed

theorem split_with_fee_covers_witness:
  "split_with_fee \<lparr> fa_fee = 100, fa_amounts = [1, 2, 4, 8, 16] \<rparr> 15 = Inr [16] \<and>
     unat (15 :: u64) + (unat (100 :: u64) * length [16 :: u64] + 999) div 1000 \<le> usum [16 :: u64]"
proof -
  have "split_with_fee \<lparr> fa_fee = 100, fa_amounts = [1, 2, 4, 8, 16] \<rparr> 15 = Inr [16]" by code_simp
  then show ?thesis
    using split_with_fee_covers [of "\<lparr> fa_fee = 100, fa_amounts = [1, 2, 4, 8, 16] \<rparr>" 15] by simp
qed

section \<open>Units\<close>

text \<open>
  Converting satoshis to millisatoshis and back gives the same amount, and converting
  millisatoshis to satoshis rounds down, losing less than one satoshi.
\<close>
theorem convert_unit_roundtrip:
  "(convert_unit a Sat Msat = Inr b \<longrightarrow> convert_unit b Msat Sat = Inr a) \<and>
   (\<exists>s. convert_unit m Msat Sat = Inr s \<and> unat s * 1000 \<le> unat m \<and> unat m < unat s * 1000 + 1000)"
proof
  have "b div 1000 = a" if "unat b = unat a * 1000"
    using that by (simp add: unat_div flip: unat_inj_u64)
  then show "convert_unit a Sat Msat = Inr b \<longrightarrow> convert_unit b Msat Sat = Inr a"
    by (auto simp: convert_unit_def convert_to_def new_amount_def MSAT_IN_SAT_def res_simps u64_checked_mul_Some)
  have "unat (m div 1000) = unat m div 1000" by (simp add: unat_div)
  moreover have "unat m div 1000 * 1000 \<le> unat m \<and> unat m < unat m div 1000 * 1000 + 1000"
    using div_mult_mod_eq [of "unat m" 1000] mod_less_divisor [of 1000 "unat m"] by linarith
  ultimately show "\<exists>s. convert_unit m Msat Sat = Inr s \<and> unat s * 1000 \<le> unat m \<and> unat m < unat s * 1000 + 1000"
    by (simp add: convert_unit_def convert_to_def new_amount_def MSAT_IN_SAT_def)
qed

theorem convert_unit_roundtrip_witness:
  "convert_unit 21 Sat Msat = Inr 21000 \<and> convert_unit 21000 Msat Sat = Inr 21"
proof -
  have h: "convert_unit 21 Sat Msat = Inr 21000"
    by (simp add: convert_unit_def convert_to_def new_amount_def MSAT_IN_SAT_def u64_checked_mul_def)
  then show ?thesis using convert_unit_roundtrip [of 21 21000] by simp
qed

lemma amount_i64_roundtrip: "amount_to_i64 a = Some v \<Longrightarrow> amount_from_i64 v = Some a"
  by (auto simp: amount_to_i64_def amount_from_i64_def split: if_splits)

lemma amount_str_roundtrip: "amount_from_str (amount_to_string a) = Inr a"
  by (simp add: amount_from_str_def amount_to_string_def)

lemma typed_checked_add_Ok [res_simps]:
  "typed_checked_add a b = Inr c \<longleftrightarrow>
     ta_unit a = ta_unit b \<and> ta_unit c = ta_unit a \<and> unat (ta_value c) = unat (ta_value a) + unat (ta_value b)"
  by (cases c) (auto simp: typed_checked_add_def new_amount_def ok_or_eq_Ok u64_checked_add_Some)

lemma typed_checked_sub_Ok [res_simps]:
  "typed_checked_sub a b = Inr c \<longleftrightarrow>
     ta_unit a = ta_unit b \<and> ta_unit c = ta_unit a \<and> unat (ta_value a) = unat (ta_value b) + unat (ta_value c)"
  by (cases c) (auto simp: typed_checked_sub_def new_amount_def ok_or_eq_Ok u64_checked_sub_Some)

lemma typed_checked_sub_add:
  "typed_checked_add a b = Inr c \<Longrightarrow> typed_checked_sub c b = Inr a"
  by (auto simp: typed_checked_add_Ok typed_checked_sub_Ok)

lemma amount_saturating_sub_Ok: "amount_saturating_sub a b = Inr (u64_saturating_sub a b)"
  by (auto simp: amount_saturating_sub_def amount_sub_def u64_checked_sub_def u64_saturating_sub_def)

end
