(* ===== verification/Keyset_Id.thy ===== *)
theory Keyset_Id
  imports Hex Externals Amount "HOL-Library.List_Lexorder" "HOL-Library.Product_Lexorder"
begin

text \<open>
  Keyset identifiers, after \<open>crates/cashu/src/nuts/nut02.rs\<close>: the two versions, the byte and
  text forms, derivation from the keys, the short identifiers of tokens and their resolution
  against a list of keysets, and \<open>KeySet::verify_id\<close>. A panic of the source (indexing or
  slicing out of range) is the error value \<open>N2_Panic\<close>.
\<close>

section \<open>Data\<close>

datatype nut02_error =
    N2_HexError hex_error
  | N2_Length
  | N2_UnknownVersion
  | N2_IncorrectKeysetId
  | N2_UnknownShortKeysetId
  | N2_MalformedShortKeysetId
  | N2_Slice
  | N2_Panic

datatype keyset_version = Version00 | Version01

datatype id_bytes = V1 bytes | V2 bytes

datatype keyset_id = Id (id_version: keyset_version) (id_id: id_bytes)

text \<open>The arrays \<open>[u8; 7]\<close> and \<open>[u8; 32]\<close> and the pairing of version and array.\<close>

fun id_wf :: "keyset_id \<Rightarrow> bool" where
  "id_wf (Id Version00 (V1 b)) \<longleftrightarrow> length b = 7"
| "id_wf (Id Version01 (V2 b)) \<longleftrightarrow> length b = 32"
| "id_wf _ \<longleftrightarrow> False"

record short_keyset_id =
  sk_version :: keyset_version
  sk_prefix :: bytes

record keyset_info =
  ki_id :: keyset_id
  ki_unit :: currency_unit
  ki_active :: bool
  ki_input_fee_ppk :: u64
  ki_final_expiry :: "u64 option"

type_synonym keys = "(u64 \<times> public_key) list"

record key_set =
  ks_id :: keyset_id
  ks_unit :: currency_unit
  ks_active :: "bool option"
  ks_keys :: keys
  ks_input_fee_ppk :: u64
  ks_final_expiry :: "u64 option"

section \<open>Versions\<close>

fun version_to_byte :: "keyset_version \<Rightarrow> u8" where
  "version_to_byte Version00 = 0"
| "version_to_byte Version01 = 1"

definition version_from_byte :: "u8 \<Rightarrow> nut02_error + keyset_version" where
  "version_from_byte byte =
     (if byte = 0 then Inr Version00 else if byte = 1 then Inr Version01 else Inl N2_UnknownVersion)"

fun version_to_proto_i32 :: "keyset_version \<Rightarrow> int" where
  "version_to_proto_i32 Version00 = 1"
| "version_to_proto_i32 Version01 = 2"

definition version_from_proto_i32 :: "int \<Rightarrow> nut02_error + keyset_version" where
  "version_from_proto_i32 v =
     (if v = 1 then Inr Version00 else if v = 2 then Inr Version01 else Inl N2_UnknownVersion)"

fun version_display :: "keyset_version \<Rightarrow> string" where
  "version_display Version00 = ''00''"
| "version_display Version01 = ''01''"

section \<open>Identifiers\<close>

fun id_bytes_to_vec :: "id_bytes \<Rightarrow> bytes" where
  "id_bytes_to_vec (V1 b) = b"
| "id_bytes_to_vec (V2 b) = b"

definition id_to_bytes :: "keyset_id \<Rightarrow> bytes" where
  "id_to_bytes i = version_to_byte (id_version i) # id_bytes_to_vec (id_id i)"

definition array_try_into :: "nat \<Rightarrow> 'e \<Rightarrow> bytes \<Rightarrow> 'e + bytes" where
  "array_try_into n e b = (if length b = n then Inr b else Inl e)"

definition id_from_bytes :: "bytes \<Rightarrow> nut02_error + keyset_id" where
  "id_from_bytes bs = (case bs of
       [] \<Rightarrow> Inl N2_Panic
     | b # rest \<Rightarrow> rbind (version_from_byte b) (\<lambda>version. case version of
           Version00 \<Rightarrow> rmap (\<lambda>a. Id version (V1 a)) (array_try_into 7 N2_Slice rest)
         | Version01 \<Rightarrow> rmap (\<lambda>a. Id version (V2 a)) (array_try_into 32 N2_Slice rest)))"

definition id_display :: "keyset_id \<Rightarrow> string" where
  "id_display i = version_display (id_version i) @ encode (id_bytes_to_vec (id_id i))"

definition is_ascii :: "string \<Rightarrow> bool" where
  "is_ascii s = list_all (\<lambda>c. byte_of_char c < 128) s"

text \<open>
  The error for a text that is not ASCII names the first offending byte and its position; the source
  names the character that starts there, which is the only difference.
\<close>

definition non_ascii_error :: "string \<Rightarrow> nut02_error" where
  "non_ascii_error s = (let i = length (takeWhile (\<lambda>c. byte_of_char c < 128) s)
     in N2_HexError (InvalidHexCharacter (if i < length s then s ! i else CHR 0x00) i))"

definition parse_version_prefix :: "string \<Rightarrow> nut02_error + keyset_version" where
  "parse_version_prefix s =
     rbind (map_err N2_HexError (decode (take 2 s))) (\<lambda>b.
       case b of [] \<Rightarrow> Inl N2_Panic | v # _ \<Rightarrow> version_from_byte v)"

definition id_try_from :: "string \<Rightarrow> nut02_error + keyset_id" where
  "id_try_from s =
     rbind (ensure_cdk (is_ascii s) (non_ascii_error s)) (\<lambda>_.
     rbind (ensure_cdk (length s = 14 + 2 \<or> length s = 64 + 2) N2_Length) (\<lambda>_.
     rbind (parse_version_prefix s) (\<lambda>version.
     rbind (map_err N2_HexError (decode (drop 2 s))) (\<lambda>b.
       case version of
         Version00 \<Rightarrow> rmap (\<lambda>a. Id version (V1 a)) (array_try_into 7 N2_Length b)
       | Version01 \<Rightarrow> rmap (\<lambda>a. Id version (V2 a)) (array_try_into 32 N2_Length b)))))"

definition id_to_u32 :: "keyset_id \<Rightarrow> nut02_error + u32" where
  "id_to_u32 i = (let b = id_to_bytes i in
     if length b < 8 then Inl N2_Panic
     else Inr (of_int (fold (\<lambda>x acc. acc * 256 + uint x) (take 8 b) 0 mod (2 ^ 31 - 1))))"

section \<open>Currency units as text\<close>

definition trim_custom :: "string \<Rightarrow> string" where
  "trim_custom s = (let ws = (\<lambda>c. c \<in> {CHR 0x20, CHR 0x09, CHR 0x0D, CHR 0x0A})
     in rev (dropWhile ws (rev (dropWhile ws s))))"

definition normalize_custom_unit :: "ext \<Rightarrow> string \<Rightarrow> string" where
  "normalize_custom_unit X value = x_nfc X (trim_custom value)"

definition unit_from_str :: "ext \<Rightarrow> string \<Rightarrow> currency_unit" where
  "unit_from_str X value = (let upper_value = x_to_uppercase X value in
     if upper_value = ''SAT'' then Sat
     else if upper_value = ''MSAT'' then Msat
     else if upper_value = ''USD'' then Usd
     else if upper_value = ''EUR'' then Eur
     else if upper_value = ''AUTH'' then Auth
     else Custom (normalize_custom_unit X value))"

definition unit_display :: "ext \<Rightarrow> currency_unit \<Rightarrow> string" where
  "unit_display X u = x_to_lowercase X (normalize_custom_unit X (case u of
       Sat \<Rightarrow> ''SAT'' | Msat \<Rightarrow> ''MSAT'' | Usd \<Rightarrow> ''USD'' | Eur \<Rightarrow> ''EUR'' | Auth \<Rightarrow> ''AUTH'' | Custom s \<Rightarrow> s))"

section \<open>Derivation from keys\<close>

fun join_with :: "string \<Rightarrow> string list \<Rightarrow> string" where
  "join_with sep [] = []"
| "join_with sep [x] = x"
| "join_with sep (x # y # xs) = x @ sep @ join_with sep (y # xs)"

definition v2_data :: "ext \<Rightarrow> keys \<Rightarrow> currency_unit \<Rightarrow> u64 \<Rightarrow> u64 option \<Rightarrow> string" where
  "v2_data X ks u input_fee_ppk expiry =
     join_with '','' (map (\<lambda>(amt, pubkey). amount_to_string amt @ '':'' @ encode pubkey) (sort_key fst ks))
     @ ''|unit:'' @ unit_display X u
     @ (if input_fee_ppk > 0 then ''|input_fee_ppk:'' @ u64_to_string input_fee_ppk else [])
     @ (case expiry of None \<Rightarrow> [] | Some e \<Rightarrow> if e > 0 then ''|final_expiry:'' @ u64_to_string e else [])"

definition hash_id_bytes :: "nat \<Rightarrow> bytes \<Rightarrow> nut02_error + bytes" where
  "hash_id_bytes strlen hash = (let hex_of_hash = encode hash in
     if length hex_of_hash < strlen then Inl N2_Panic
     else rbind (map_err (\<lambda>_. N2_Panic) (decode (take strlen hex_of_hash)))
            (array_try_into (strlen div 2) N2_Panic))"

definition v2_from_data ::
  "ext \<Rightarrow> keys \<Rightarrow> currency_unit \<Rightarrow> u64 \<Rightarrow> u64 option \<Rightarrow> nut02_error + keyset_id"
where
  "v2_from_data X ks u input_fee_ppk expiry =
     rmap (\<lambda>b. Id Version01 (V2 b))
       (hash_id_bytes 64 (x_sha256 X (map byte_of_char (v2_data X ks u input_fee_ppk expiry))))"

definition v1_from_keys :: "ext \<Rightarrow> keys \<Rightarrow> nut02_error + keyset_id" where
  "v1_from_keys X ks =
     rmap (\<lambda>b. Id Version00 (V1 b)) (hash_id_bytes 14 (x_sha256 X (concat (map snd (sort_key fst ks)))))"

definition verify_id :: "ext \<Rightarrow> key_set \<Rightarrow> nut02_error + unit" where
  "verify_id X ks =
     rbind (case id_version (ks_id ks) of
              Version00 \<Rightarrow> v1_from_keys X (ks_keys ks)
            | Version01 \<Rightarrow> v2_from_data X (ks_keys ks) (ks_unit ks) (ks_input_fee_ppk ks) (ks_final_expiry ks)) (\<lambda>keys_id.
     rbind (id_to_u32 keys_id) (\<lambda>a.
     rbind (id_to_u32 (ks_id ks)) (\<lambda>b.
     rbind (ensure_cdk (a = b) N2_IncorrectKeysetId) (\<lambda>_.
       ensure_cdk (keys_id = ks_id ks) N2_IncorrectKeysetId))))"

section \<open>Short identifiers\<close>

definition short_to_bytes :: "short_keyset_id \<Rightarrow> bytes" where
  "short_to_bytes s = version_to_byte (sk_version s) # sk_prefix s"

definition short_from_bytes :: "bytes \<Rightarrow> nut02_error + short_keyset_id" where
  "short_from_bytes bs = (case bs of
       [] \<Rightarrow> Inl N2_Length
     | b # rest \<Rightarrow> rmap (\<lambda>v. \<lparr> sk_version = v, sk_prefix = rest \<rparr>) (version_from_byte b))"

definition short_of_id :: "keyset_id \<Rightarrow> nut02_error + short_keyset_id" where
  "short_of_id i = (case (id_version i, id_id i) of
       (Version00, V1 b) \<Rightarrow> Inr \<lparr> sk_version = Version00, sk_prefix = b \<rparr>
     | (Version01, V2 b) \<Rightarrow>
         (if length b < 7 then Inl N2_Panic else Inr \<lparr> sk_version = Version01, sk_prefix = take 7 b \<rparr>)
     | _ \<Rightarrow> Inl N2_Panic)"

definition short_display :: "short_keyset_id \<Rightarrow> string" where
  "short_display s = version_display (sk_version s) @ encode (sk_prefix s)"

definition short_try_from :: "string \<Rightarrow> nut02_error + short_keyset_id" where
  "short_try_from s =
     rbind (ensure_cdk (is_ascii s) (non_ascii_error s)) (\<lambda>_.
     rbind (ensure_cdk (length s = 16) N2_Length) (\<lambda>_.
     rbind (parse_version_prefix s) (\<lambda>version.
     rbind (map_err N2_HexError (decode (drop 2 s))) (\<lambda>prefix.
       Inr \<lparr> sk_version = version, sk_prefix = prefix \<rparr>))))"

fun find_by_prefix :: "bytes \<Rightarrow> keyset_info list \<Rightarrow> nut02_error + keyset_id" where
  "find_by_prefix prefix [] = Inl N2_UnknownShortKeysetId"
| "find_by_prefix prefix (k # ks) =
     (let v = id_bytes_to_vec (id_id (ki_id k)) in
      if length v < length prefix then Inl N2_Panic
      else if take (length prefix) v = prefix then Inr (ki_id k)
      else find_by_prefix prefix ks)"

definition from_short_keyset_id :: "short_keyset_id \<Rightarrow> keyset_info list \<Rightarrow> nut02_error + keyset_id" where
  "from_short_keyset_id short_id infos =
     (if length (sk_prefix short_id) < 7 \<or> length (sk_prefix short_id) > 32 then Inl N2_MalformedShortKeysetId
      else (case sk_version short_id of
              Version00 \<Rightarrow> Inr (Id Version00 (V1 (take 7 (sk_prefix short_id))))
            | Version01 \<Rightarrow> find_by_prefix (sk_prefix short_id) infos))"

section \<open>The derived order\<close>

text \<open>\<open>#[derive(Ord)]\<close>: by version, then by variant, then by the bytes.\<close>

fun id_bytes_key :: "id_bytes \<Rightarrow> nat \<times> bytes" where
  "id_bytes_key (V1 b) = (0, b)"
| "id_bytes_key (V2 b) = (1, b)"

definition id_key :: "keyset_id \<Rightarrow> nat \<times> nat \<times> bytes" where
  "id_key i = ((case id_version i of Version00 \<Rightarrow> 0 | Version01 \<Rightarrow> 1), id_bytes_key (id_id i))"

lemma id_key_inj: "id_key i = id_key j \<longleftrightarrow> i = j"
  by (cases i; cases j; cases "id_id i"; cases "id_id j")
     (auto simp: id_key_def split: keyset_version.splits)

instantiation keyset_id :: linorder
begin

definition less_eq_keyset_id :: "keyset_id \<Rightarrow> keyset_id \<Rightarrow> bool" where
  "i \<le> j \<longleftrightarrow> id_key i \<le> id_key j"

definition less_keyset_id :: "keyset_id \<Rightarrow> keyset_id \<Rightarrow> bool" where
  "i < j \<longleftrightarrow> id_key i < id_key j"

instance
  by standard (auto simp: less_eq_keyset_id_def less_keyset_id_def less_le id_key_inj)

end

section \<open>Round trips\<close>

lemma keyset_version_neq [simp]: "v \<noteq> Version00 \<longleftrightarrow> v = Version01" "v \<noteq> Version01 \<longleftrightarrow> v = Version00"
  by (cases v; simp)+

lemma id_wf_cases:
  assumes "id_wf i"
  obtains b where "i = Id Version00 (V1 b)" "length b = 7" | b where "i = Id Version01 (V2 b)" "length b = 32"
  using assms by (cases i rule: id_wf.cases) auto

lemma version_from_to_byte [simp]: "version_from_byte (version_to_byte v) = Inr v"
  by (cases v) (auto simp: version_from_byte_def)

lemma version_proto_roundtrip [simp]: "version_from_proto_i32 (version_to_proto_i32 v) = Inr v"
  by (cases v) (auto simp: version_from_proto_i32_def)

lemma parse_version_display [simp]: "parse_version_prefix (version_display v @ cs) = Inr v"
  by (cases v) (auto simp: parse_version_prefix_def decode_def val_digit_def byte_of_char_def version_from_byte_def)

lemma version_display_ascii: "list_all (\<lambda>c. byte_of_char c < 128) (version_display v)"
  by (cases v) (simp_all add: byte_of_char_def)

lemma length_version_display [simp]: "length (version_display v) = 2"
  by (cases v) auto

lemma display_ascii [simp]: "is_ascii (version_display v @ encode b)"
  using version_display_ascii [of v] encode_ascii [of _ b] by (auto simp: is_ascii_def list_all_iff)

lemma id_to_from_bytes: "id_wf i \<Longrightarrow> id_from_bytes (id_to_bytes i) = Inr i"
  by (elim id_wf_cases) (auto simp: id_from_bytes_def id_to_bytes_def array_try_into_def version_from_byte_def)

lemma id_from_bytes_Ok: "id_from_bytes bs = Inr i \<Longrightarrow> id_wf i \<and> id_to_bytes i = bs"
  by (auto simp: id_from_bytes_def id_to_bytes_def array_try_into_def version_from_byte_def res_simps
      split: list.splits keyset_version.splits if_splits)

lemma id_display_parse: "id_wf i \<Longrightarrow> id_try_from (id_display i) = Inr i"
  by (elim id_wf_cases)
     (auto simp: id_try_from_def id_display_def array_try_into_def
       simp del: version_display.simps)

lemma id_try_from_wf: "id_try_from s = Inr i \<Longrightarrow> id_wf i"
  by (auto simp: id_try_from_def array_try_into_def res_simps split: keyset_version.splits if_splits)

text \<open>
  C24. Keyset identifiers round-trip: a well-formed identifier is read back from its bytes and from
  its text, every identifier that either reader accepts is well formed, the byte form is the only
  one accepted for it, and its short form is read back from bytes and from text.
\<close>
theorem keyset_id_roundtrip:
  "(id_wf i \<longrightarrow> id_from_bytes (id_to_bytes i) = Inr i \<and> id_try_from (id_display i) = Inr i) \<and>
   (id_from_bytes bs = Inr j \<longrightarrow> id_wf j \<and> bs = id_to_bytes j) \<and>
   (id_try_from s = Inr k \<longrightarrow> id_wf k) \<and>
   (short_from_bytes (short_to_bytes sh) = Inr sh) \<and>
   (length (sk_prefix sh) = 7 \<longrightarrow> short_try_from (short_display sh) = Inr sh)"
  by (auto simp: id_to_from_bytes id_display_parse id_try_from_wf dest: id_from_bytes_Ok)
     (auto simp: short_from_bytes_def short_to_bytes_def short_try_from_def short_display_def
       simp del: version_display.simps)

theorem keyset_id_roundtrip_witness:
  "id_wf (Id Version00 (V1 [0, 171, 205, 239, 1, 2, 3])) \<and>
   id_display (Id Version00 (V1 [0, 171, 205, 239, 1, 2, 3])) = ''0000abcdef010203'' \<and>
   id_try_from ''0000abcdef010203'' = Inr (Id Version00 (V1 [0, 171, 205, 239, 1, 2, 3]))"
proof -
  have "id_display (Id Version00 (V1 [0, 171, 205, 239, 1, 2, 3])) = ''0000abcdef010203''" by code_simp
  then show ?thesis
    using keyset_id_roundtrip [of "Id Version00 (V1 [0, 171, 205, 239, 1, 2, 3])" _ _ _ _ undefined] by simp
qed

section \<open>Resolving short identifiers\<close>

lemma find_by_prefix_unique:
  assumes "i \<in> ki_id ` set ks" and "take n (id_bytes_to_vec (id_id i)) = p" and "length p = n"
    and "\<And>k. k \<in> set ks \<Longrightarrow> n \<le> length (id_bytes_to_vec (id_id (ki_id k)))"
    and "\<And>k. k \<in> set ks \<Longrightarrow> take n (id_bytes_to_vec (id_id (ki_id k))) = p \<Longrightarrow> ki_id k = i"
  shows "find_by_prefix p ks = Inr i"
  using assms by (induction ks) (fastforce simp: Let_def)+

lemma id_wf_length: "id_wf i \<Longrightarrow> 7 \<le> length (id_bytes_to_vec (id_id i))"
  by (elim id_wf_cases) auto

definition short_id_unambiguous :: "keyset_info list \<Rightarrow> keyset_id \<Rightarrow> bool" where
  "short_id_unambiguous infos i \<longleftrightarrow> id_wf i \<and> (\<forall>k \<in> set infos. id_wf (ki_id k))
     \<and> (id_version i = Version01 \<longrightarrow> i \<in> ki_id ` set infos)
     \<and> (\<forall>k \<in> set infos. take 7 (id_bytes_to_vec (id_id (ki_id k))) = take 7 (id_bytes_to_vec (id_id i)) \<longrightarrow> ki_id k = i)"

lemma short_of_id_resolves:
  assumes "short_id_unambiguous infos i"
  shows "\<exists>short. short_of_id i = Inr short \<and> from_short_keyset_id short infos = Inr i"
proof -
  have "id_wf i" using assms by (simp add: short_id_unambiguous_def)
  then show ?thesis
  proof (cases rule: id_wf_cases)
    case (1 b)
    then show ?thesis by (simp add: short_of_id_def from_short_keyset_id_def)
  next
    case (2 b)
    then have "find_by_prefix (take 7 b) infos = Inr i"
      using assms id_wf_length by (intro find_by_prefix_unique [where n = 7]) (auto simp: short_id_unambiguous_def)
    with 2 show ?thesis by (simp add: short_of_id_def from_short_keyset_id_def)
  qed
qed

text \<open>
  A short identifier taken from a keyset identifier resolves to that identifier, whenever the
  keyset is in the list (a version 0 identifier needs no list) and no other listed keyset shares
  the seven-byte prefix; no slice is taken out of range.
\<close>
theorem short_id_resolves:
  assumes "id_wf i" and "\<And>k. k \<in> set infos \<Longrightarrow> id_wf (ki_id k)"
    and "id_version i = Version01 \<longrightarrow> i \<in> ki_id ` set infos"
    and "\<And>k. k \<in> set infos \<Longrightarrow> take 7 (id_bytes_to_vec (id_id (ki_id k))) = take 7 (id_bytes_to_vec (id_id i))
           \<Longrightarrow> ki_id k = i"
  shows "rbind (short_of_id i) (\<lambda>short. from_short_keyset_id short infos) = Inr i"
  using assms short_of_id_resolves [of infos i] by (auto simp: short_id_unambiguous_def)

theorem short_id_resolves_witness:
  "rbind (short_of_id (Id Version01 (V2 (replicate 32 5)))) (\<lambda>short. from_short_keyset_id short
     [\<lparr> ki_id = Id Version00 (V1 (replicate 7 4)), ki_unit = Sat, ki_active = True, ki_input_fee_ppk = 0, ki_final_expiry = None \<rparr>,
      \<lparr> ki_id = Id Version01 (V2 (replicate 32 5)), ki_unit = Sat, ki_active = True, ki_input_fee_ppk = 0, ki_final_expiry = None \<rparr>])
   = Inr (Id Version01 (V2 (replicate 32 5)))"
  by (rule short_id_resolves) (auto simp: numeral_eq_Suc)

text \<open>
  A short identifier of version 1 with a prefix longer than seven bytes, which the length check
  admits, makes the resolution slice out of range (and the program panic) as soon as the first
  listed keyset has a version 0 identifier.
\<close>
theorem short_id_panics_on_v1_keyset:
  assumes "7 < length p" and "length p \<le> 32" and "id_wf (ki_id k)" and "id_version (ki_id k) = Version00"
  shows "from_short_keyset_id \<lparr> sk_version = Version01, sk_prefix = p \<rparr> (k # ks) = Inl N2_Panic"
  using assms(3)
  by (cases rule: id_wf_cases) (use assms in \<open>auto simp: from_short_keyset_id_def\<close>)

theorem short_id_panics_on_v1_keyset_witness:
  "from_short_keyset_id \<lparr> sk_version = Version01, sk_prefix = replicate 8 0 \<rparr>
     [\<lparr> ki_id = Id Version00 (V1 (replicate 7 4)), ki_unit = Sat, ki_active = True, ki_input_fee_ppk = 0, ki_final_expiry = None \<rparr>]
   = Inl N2_Panic"
  by (rule short_id_panics_on_v1_keyset) auto

section \<open>Derived identifiers\<close>

lemma hash_id_bytes_Ok:
  "2 * n \<le> 2 * length h \<Longrightarrow> hash_id_bytes (2 * n) h = Inr (take n h)"
  by (simp add: hash_id_bytes_def Let_def take_encode array_try_into_def)

lemma v1_from_keys_Ok:
  "sha256_len X \<Longrightarrow> v1_from_keys X ks = Inr (Id Version00 (V1 (take 7 (x_sha256 X (concat (map snd (sort_key fst ks)))))))"
  using hash_id_bytes_Ok [of 7] by (simp add: v1_from_keys_def sha256_len_def)

lemma v2_from_data_Ok:
  "sha256_len X \<Longrightarrow> v2_from_data X ks u f e =
     Inr (Id Version01 (V2 (x_sha256 X (map byte_of_char (v2_data X ks u f e)))))"
  using hash_id_bytes_Ok [of 32] by (simp add: v2_from_data_def sha256_len_def)

lemma id_to_u32_Ok: "id_wf i \<Longrightarrow> \<exists>v. id_to_u32 i = Inr v"
  by (elim id_wf_cases) (auto simp: id_to_u32_def id_to_bytes_def Let_def)

text \<open>
  Given that SHA-256 digests have 32 bytes, a keyset with a well-formed identifier passes
  \<open>verify_id\<close> exactly when its identifier is the one derived from its keys (version 0) or from
  its keys, unit, fee and expiry (version 1); otherwise the error is \<open>IncorrectKeysetId\<close>, never a
  panic.
\<close>
theorem verify_id_correct:
  assumes "sha256_len X" and "id_wf (ks_id ks)"
  shows "verify_id X ks = (if ks_id ks =
      (case id_version (ks_id ks) of
         Version00 \<Rightarrow> Id Version00 (V1 (take 7 (x_sha256 X (concat (map snd (sort_key fst (ks_keys ks)))))))
       | Version01 \<Rightarrow> Id Version01 (V2 (x_sha256 X (map byte_of_char
            (v2_data X (ks_keys ks) (ks_unit ks) (ks_input_fee_ppk ks) (ks_final_expiry ks))))))
    then Inr () else Inl N2_IncorrectKeysetId)"
proof -
  define d where "d = (case id_version (ks_id ks) of
         Version00 \<Rightarrow> Id Version00 (V1 (take 7 (x_sha256 X (concat (map snd (sort_key fst (ks_keys ks)))))))
       | Version01 \<Rightarrow> Id Version01 (V2 (x_sha256 X (map byte_of_char
            (v2_data X (ks_keys ks) (ks_unit ks) (ks_input_fee_ppk ks) (ks_final_expiry ks))))))"
  have "id_wf d" using assms(1) by (auto simp: d_def sha256_len_def split: keyset_version.splits)
  then obtain a b where "id_to_u32 d = Inr a" "id_to_u32 (ks_id ks) = Inr b"
    using assms(2) id_to_u32_Ok by blast
  moreover have "verify_id X ks = rbind (Inr d) (\<lambda>keys_id.
     rbind (id_to_u32 keys_id) (\<lambda>a.
     rbind (id_to_u32 (ks_id ks)) (\<lambda>b.
     rbind (ensure_cdk (a = b) N2_IncorrectKeysetId) (\<lambda>_.
       ensure_cdk (keys_id = ks_id ks) N2_IncorrectKeysetId))))"
    using assms(1) by (auto simp: verify_id_def d_def v1_from_keys_Ok v2_from_data_Ok split: keyset_version.splits)
  ultimately have "verify_id X ks = (if ks_id ks = d then Inr () else Inl N2_IncorrectKeysetId)"
    by (auto simp: ensure_cdk_def)
  then show ?thesis by (simp add: d_def)
qed

theorem verify_id_correct_witness:
  "verify_id demo_ext \<lparr> ks_id = Id Version00 (V1 [33, 0, 0, 0, 0, 0, 0]), ks_unit = Sat, ks_active = None,
     ks_keys = [(1, replicate 33 2)], ks_input_fee_ppk = 0, ks_final_expiry = None \<rparr> = Inr ()"
  using verify_id_correct [OF demo_sha256_len, of "\<lparr> ks_id = Id Version00 (V1 [33, 0, 0, 0, 0, 0, 0]), ks_unit = Sat, ks_active = None,
     ks_keys = [(1, replicate 33 2)], ks_input_fee_ppk = 0, ks_final_expiry = None \<rparr>"]
  by (simp add: demo_ext_def demo_hash_def numeral_eq_Suc)

end
