(* ===== verification/Nut00.thy ===== *)
theory Nut00
  imports Dhke Keyset_Id
begin

text \<open>
  The messages and tokens of NUT-00 (\<open>crates/cashu/src/nuts/nut00/mod.rs\<close>): blinded messages,
  blind signatures, witnesses and proofs, the proof-list helpers, and the construction of proofs
  from the mint's promises (\<open>construct_proofs\<close> of \<open>crates/cashu/src/dhke.rs\<close>). A hash map is
  an association list with distinct keys, in its iteration order.
\<close>

section \<open>Data\<close>

type_synonym secret = string

record htlc_witness =
  hw_preimage :: string
  hw_signatures :: "string list option"

datatype witness = HTLCWitness htlc_witness | P2PKWitness "string list"

record proof_dleq =
  pd_e :: secret_key
  pd_s :: secret_key
  pd_r :: secret_key

record blind_signature_dleq =
  bd_e :: secret_key
  bd_s :: secret_key

record cashu_proof =
  p_amount :: u64
  p_keyset_id :: keyset_id
  p_secret :: secret
  p_c :: public_key
  p_witness :: "witness option"
  p_dleq :: "proof_dleq option"
  p_p2pk_e :: "public_key option"

record blinded_message =
  bm_amount :: u64
  bm_keyset_id :: keyset_id
  bm_blinded_secret :: public_key
  bm_witness :: "witness option"

record blind_signature =
  bs_amount :: u64
  bs_keyset_id :: keyset_id
  bs_c :: public_key
  bs_dleq :: "blind_signature_dleq option"

record proof_v4 =
  p4_amount :: u64
  p4_secret :: secret
  p4_c :: public_key
  p4_witness :: "witness option"
  p4_dleq :: "proof_dleq option"
  p4_p2pk_e :: "public_key option"

record proof_v3 =
  p3_amount :: u64
  p3_keyset_id :: short_keyset_id
  p3_secret :: secret
  p3_c :: public_key
  p3_witness :: "witness option"
  p3_dleq :: "proof_dleq option"

datatype nut00_error =
    N0_ProofsRequired
  | N0_UnsupportedToken
  | N0_UnsupportedUnit
  | N0_DuplicateProofs
  | N0_SerdeJsonError
  | N0_Utf8ParseError
  | N0_Base64Error
  | N0_CiboriumError
  | N0_CiboriumSerError
  | N0_Amount amount_error
  | N0_DHKE dhke_error
  | N0_NUT02 nut02_error

section \<open>Witnesses\<close>

fun witness_add_signatures :: "witness \<Rightarrow> string list \<Rightarrow> witness" where
  "witness_add_signatures (P2PKWitness sigs) new = P2PKWitness (sigs @ new)"
| "witness_add_signatures (HTLCWitness w) new =
     HTLCWitness (w\<lparr> hw_signatures := (case hw_signatures w of Some sigs \<Rightarrow> Some (sigs @ new) | None \<Rightarrow> Some new) \<rparr>)"

fun witness_signatures :: "witness \<Rightarrow> string list option" where
  "witness_signatures (P2PKWitness sigs) = Some sigs"
| "witness_signatures (HTLCWitness w) = hw_signatures w"

fun witness_preimage :: "witness \<Rightarrow> string option" where
  "witness_preimage (P2PKWitness sigs) = None"
| "witness_preimage (HTLCWitness w) = Some (hw_preimage w)"

section \<open>Proofs\<close>

definition new_proof :: "u64 \<Rightarrow> keyset_id \<Rightarrow> secret \<Rightarrow> public_key \<Rightarrow> cashu_proof" where
  "new_proof amount kid secret c =
     \<lparr> p_amount = amount, p_keyset_id = kid, p_secret = secret, p_c = c, p_witness = None,
       p_dleq = None, p_p2pk_e = None \<rparr>"

definition new_blinded_message :: "u64 \<Rightarrow> keyset_id \<Rightarrow> public_key \<Rightarrow> blinded_message" where
  "new_blinded_message amount kid blinded =
     \<lparr> bm_amount = amount, bm_keyset_id = kid, bm_blinded_secret = blinded, bm_witness = None \<rparr>"

definition proof_is_active :: "keyset_id list \<Rightarrow> cashu_proof \<Rightarrow> bool" where
  "proof_is_active active_keyset_ids p = (p_keyset_id p \<in> set active_keyset_ids)"

definition proof_y :: "ext \<Rightarrow> cashu_proof \<Rightarrow> nut00_error + public_key" where
  "proof_y X p = map_err N0_DHKE (hash_to_curve X (str_bytes (p_secret p)))"

definition proofs_ys :: "ext \<Rightarrow> cashu_proof list \<Rightarrow> nut00_error + public_key list" where
  "proofs_ys X ps = collect_res (proof_y X) ps"

definition total_amount :: "cashu_proof list \<Rightarrow> nut00_error + u64" where
  "total_amount ps = map_err N0_Amount (try_sum (map p_amount ps))"

definition without_dleqs :: "cashu_proof list \<Rightarrow> cashu_proof list" where
  "without_dleqs ps = map (\<lambda>p. p\<lparr> p_dleq := None \<rparr>) ps"

definition without_p2pk_e :: "cashu_proof list \<Rightarrow> cashu_proof list" where
  "without_p2pk_e ps = map (\<lambda>p. p\<lparr> p_p2pk_e := None \<rparr>) ps"

fun entry_add :: "'k \<Rightarrow> u64 \<Rightarrow> ('k \<times> u64) list \<Rightarrow> ('k \<times> u64) list" where
  "entry_add k v [] = [(k, v)]"
| "entry_add k v ((k', v') # m) = (if k = k' then (k', v' + v) # m else (k', v') # entry_add k v m)"

definition count_by_keyset :: "cashu_proof list \<Rightarrow> (keyset_id \<times> u64) list" where
  "count_by_keyset ps = fold (\<lambda>p counts. entry_add (p_keyset_id p) 1 counts) ps []"

fun entry_checked_add :: "'k \<Rightarrow> u64 \<Rightarrow> ('k \<times> u64) list \<Rightarrow> amount_error + ('k \<times> u64) list" where
  "entry_checked_add k v [] = rmap (\<lambda>s. [(k, s)]) (amount_add 0 v)"
| "entry_checked_add k v ((k', v') # m) =
     (if k = k' then rmap (\<lambda>s. (k', s) # m) (amount_add v' v)
      else rmap (\<lambda>m'. (k', v') # m') (entry_checked_add k v m))"

fun sum_by_keyset_from :: "(keyset_id \<times> u64) list \<Rightarrow> cashu_proof list \<Rightarrow> amount_error + (keyset_id \<times> u64) list" where
  "sum_by_keyset_from sums [] = Inr sums"
| "sum_by_keyset_from sums (p # ps) =
     rbind (entry_checked_add (p_keyset_id p) (p_amount p) sums) (\<lambda>s. sum_by_keyset_from s ps)"

definition sum_by_keyset :: "cashu_proof list \<Rightarrow> amount_error + (keyset_id \<times> u64) list" where
  "sum_by_keyset ps = sum_by_keyset_from [] ps"

definition proof_of_v4 :: "keyset_id \<Rightarrow> proof_v4 \<Rightarrow> cashu_proof" where
  "proof_of_v4 kid p =
     \<lparr> p_amount = p4_amount p, p_keyset_id = kid, p_secret = p4_secret p, p_c = p4_c p,
       p_witness = p4_witness p, p_dleq = p4_dleq p, p_p2pk_e = p4_p2pk_e p \<rparr>"

definition v4_of_proof :: "cashu_proof \<Rightarrow> proof_v4" where
  "v4_of_proof p =
     \<lparr> p4_amount = p_amount p, p4_secret = p_secret p, p4_c = p_c p,
       p4_witness = p_witness p, p4_dleq = p_dleq p, p4_p2pk_e = p_p2pk_e p \<rparr>"

definition proof_of_v3 :: "keyset_id \<Rightarrow> proof_v3 \<Rightarrow> cashu_proof" where
  "proof_of_v3 kid p =
     \<lparr> p_amount = p3_amount p, p_keyset_id = kid, p_secret = p3_secret p, p_c = p3_c p,
       p_witness = p3_witness p, p_dleq = p3_dleq p, p_p2pk_e = None \<rparr>"

definition v3_of_proof :: "cashu_proof \<Rightarrow> nut02_error + proof_v3" where
  "v3_of_proof p = rmap (\<lambda>sid.
     \<lparr> p3_amount = p_amount p, p3_keyset_id = sid, p3_secret = p_secret p, p3_c = p_c p,
       p3_witness = p_witness p, p3_dleq = p_dleq p \<rparr>) (short_of_id (p_keyset_id p))"

section \<open>Unblinding the promises of a mint\<close>

definition construct_proof ::
  "ext \<Rightarrow> keys \<Rightarrow> (blind_signature \<times> secret_key) \<times> secret \<Rightarrow> dhke_error + cashu_proof"
where
  "construct_proof X ks t = (case t of ((bsig, r), sec) \<Rightarrow>
     rbind (ok_or (D_Custom ''Could not get proofs'') (map_of ks (bs_amount bsig))) (\<lambda>a.
     rbind (unblind_message X (bs_c bsig) r a) (\<lambda>c.
       Inr \<lparr> p_amount = bs_amount bsig, p_keyset_id = bs_keyset_id bsig, p_secret = sec, p_c = c,
             p_witness = None,
             p_dleq = map_option (\<lambda>d. \<lparr> pd_e = bd_e d, pd_s = bd_s d, pd_r = r \<rparr>) (bs_dleq bsig),
             p_p2pk_e = None \<rparr>)))"

definition construct_proofs ::
  "ext \<Rightarrow> blind_signature list \<Rightarrow> secret_key list \<Rightarrow> secret list \<Rightarrow> keys \<Rightarrow> dhke_error + cashu_proof list"
where
  "construct_proofs X promises rs secrets ks =
     (if length promises \<noteq> length rs \<or> length promises \<noteq> length secrets
      then Inl (D_Custom ''Lengths of promises, rs, and secrets must be equal'')
      else collect_res (construct_proof X ks) (zip (zip promises rs) secrets))"

section \<open>Lemmas\<close>

lemma map_of_entry_add:
  "map_of (entry_add k v m) = (map_of m)(k \<mapsto> (case map_of m k of None \<Rightarrow> v | Some w \<Rightarrow> w + v))"
  by (induction m) (auto simp: fun_eq_iff)

lemma keys_entry_add: "set (map fst (entry_add k v m)) = insert k (set (map fst m))"
  by (induction k v m rule: entry_add.induct) auto

lemma distinct_entry_add: "distinct (map fst m) \<Longrightarrow> distinct (map fst (entry_add k v m))"
proof (induction m)
  case (Cons a m)
  then show ?case using keys_entry_add [of k v m] by (cases a) (auto simp del: set_map)
qed simp

abbreviation count_step :: "cashu_proof \<Rightarrow> (keyset_id \<times> u64) list \<Rightarrow> (keyset_id \<times> u64) list" where
  "count_step \<equiv> \<lambda>p counts. entry_add (p_keyset_id p) 1 counts"

lemma count_fold_distinct: "distinct (map fst m) \<Longrightarrow> distinct (map fst (fold count_step ps m))"
  by (induction ps arbitrary: m) (auto simp: distinct_entry_add)

lemma filter_keyset_empty: "k \<notin> p_keyset_id ` set ps \<Longrightarrow> filter (\<lambda>p. p_keyset_id p = k) ps = []"
  by (auto simp: filter_empty_conv)

lemma count_fold_lookup:
  "map_of (fold count_step ps m) k =
     (if k \<in> p_keyset_id ` set ps
      then Some (of_nat (length (filter (\<lambda>p. p_keyset_id p = k) ps)) + (case map_of m k of None \<Rightarrow> 0 | Some d \<Rightarrow> d))
      else map_of m k)"
  by (induction ps arbitrary: m) (auto simp: map_of_entry_add filter_keyset_empty split: option.splits)

lemma count_by_keyset_distinct: "distinct (map fst (count_by_keyset ps))"
  by (simp add: count_by_keyset_def count_fold_distinct)

lemma count_by_keyset_lookup:
  "map_of (count_by_keyset ps) k =
     (if k \<in> p_keyset_id ` set ps then Some (of_nat (length (filter (\<lambda>p. p_keyset_id p = k) ps))) else None)"
  by (simp add: count_by_keyset_def count_fold_lookup)

lemma count_by_keyset_keys: "set (map fst (count_by_keyset ps)) = p_keyset_id ` set ps"
proof -
  have "k \<in> fst ` set (count_by_keyset ps) \<longleftrightarrow> k \<in> p_keyset_id ` set ps" for k
    using map_of_eq_None_iff [of "count_by_keyset ps" k] by (auto simp: count_by_keyset_lookup split: if_splits)
  then show ?thesis by auto
qed

lemma total_amount_Ok: "total_amount ps = Inr t \<longleftrightarrow> unat t = usum (map p_amount ps)"
  by (simp add: total_amount_def map_err_eq_Ok try_sum_Ok)

lemma proof_v4_roundtrip: "proof_of_v4 (p_keyset_id p) (v4_of_proof p) = p"
  by (simp add: proof_of_v4_def v4_of_proof_def)

lemma proofs_ys_length: "proofs_ys X ps = Inr ys \<Longrightarrow> length ys = length ps"
  by (simp add: proofs_ys_def collect_res_length)

text \<open>
  C25. A wallet that blinds its secrets, has every blinded message signed under the mint's key of
  the message's amount, and calls \<open>construct_proofs\<close> on the promises gets one proof per promise,
  with the promised amount and keyset and its own secret, and the mint's verification of each
  proof under the key of its amount succeeds.
\<close>
theorem construct_proofs_valid:
  assumes ec: "ec_law X n pt sc" and prime: "prime_order n"
    and len: "length promises = length rs" "length promises = length secrets"
    and keys: "\<And>i. i < length promises \<Longrightarrow> map_of ks (bs_amount (promises ! i)) = Some (x_public_key X (key (bs_amount (promises ! i))))"
    and nz: "\<And>i. i < length promises \<Longrightarrow> sc (rs ! i) mod int n \<noteq> 0 \<and> sc (key (bs_amount (promises ! i))) mod int n \<noteq> 0"
    and blind: "\<And>i. i < length promises \<Longrightarrow> \<exists>b. blind_message X (str_bytes (secrets ! i)) (rs ! i) = Inr (b, rs ! i) \<and>
        sign_message X (key (bs_amount (promises ! i))) b = Inr (bs_c (promises ! i))"
  shows "\<exists>ps. construct_proofs X promises rs secrets ks = Inr ps \<and> length ps = length promises \<and>
    (\<forall>i < length promises. p_amount (ps ! i) = bs_amount (promises ! i) \<and>
       p_keyset_id (ps ! i) = bs_keyset_id (promises ! i) \<and> p_secret (ps ! i) = secrets ! i \<and>
       verify_message X (key (p_amount (ps ! i))) (p_c (ps ! i)) (str_bytes (p_secret (ps ! i))) = Inr ())"
proof -
  let ?zs = "zip (zip promises rs) secrets"
  define P where "P i p \<longleftrightarrow> construct_proof X ks (?zs ! i) = Inr p \<and> p_amount p = bs_amount (promises ! i) \<and>
       p_keyset_id p = bs_keyset_id (promises ! i) \<and> p_secret p = secrets ! i \<and>
       verify_message X (key (p_amount p)) (p_c p) (str_bytes (p_secret p)) = Inr ()" for i p
  have "\<exists>p. P i p" if i: "i < length promises" for i
  proof -
    from blind [OF i] obtain b where b: "blind_message X (str_bytes (secrets ! i)) (rs ! i) = Inr (b, rs ! i)"
      and sg: "sign_message X (key (bs_amount (promises ! i))) b = Inr (bs_c (promises ! i))" by blast
    from bdhke_exchange [OF ec prime conjunct1 [OF nz [OF i]] conjunct2 [OF nz [OF i]] b] sg
    obtain c where "unblind_message X (bs_c (promises ! i)) (rs ! i) (x_public_key X (key (bs_amount (promises ! i)))) = Inr c"
      "verify_message X (key (bs_amount (promises ! i))) c (str_bytes (secrets ! i)) = Inr ()" by auto
    then show ?thesis using i len keys [OF i] by (auto simp: P_def construct_proof_def)
  qed
  then obtain f where f: "\<And>i. i < length promises \<Longrightarrow> P i (f i)" by metis
  define ps where "ps = map f [0..<length promises]"
  have "list_all2 (\<lambda>t p. construct_proof X ks t = Inr p) ?zs ps"
    using f len by (auto simp: list_all2_conv_all_nth ps_def P_def)
  then have "construct_proofs X promises rs secrets ks = Inr ps"
    using len by (simp add: construct_proofs_def collect_res_eq_Ok)
  moreover have "P i (ps ! i)" if "i < length promises" for i using f [OF that] that by (simp add: ps_def)
  ultimately show ?thesis unfolding P_def by (metis (no_types, lifting) length_map length_upt diff_zero ps_def)
qed

theorem construct_proofs_valid_witness:
  "\<exists>ps. construct_proofs demo_ext [\<lparr> bs_amount = 8, bs_keyset_id = Id Version00 (V1 (replicate 7 0)), bs_c = demo_pt 20, bs_dleq = None \<rparr>]
      [[3]] [[CHR 0x05]] [(8, demo_pt 4)] = Inr ps \<and> length ps = 1 \<and>
     verify_message demo_ext [4] (p_c (ps ! 0)) [5] = Inr ()"
proof -
  let ?bs = "\<lparr> bs_amount = 8, bs_keyset_id = Id Version00 (V1 (replicate 7 0)), bs_c = demo_pt 20, bs_dleq = None \<rparr>"
  have bytes: "str_bytes [CHR 0x05] = [5]" by code_simp
  have pub: "x_public_key demo_ext [4] = demo_pt 4" by code_simp
  have sg: "sign_message demo_ext [4] (demo_pt 70) = Inr (demo_pt 20)" by code_simp
  have bl: "blind_message demo_ext [5] [3] = Inr (demo_pt 70, [3])"
    unfolding blind_message_def demo_hash_to_curve by code_simp
  have "\<exists>ps. construct_proofs demo_ext [?bs] [[3]] [[CHR 0x05]] [(8, demo_pt 4)] = Inr ps \<and> length ps = length [?bs] \<and>
    (\<forall>i < length [?bs]. p_amount (ps ! i) = bs_amount ([?bs] ! i) \<and>
       p_keyset_id (ps ! i) = bs_keyset_id ([?bs] ! i) \<and> p_secret (ps ! i) = [[CHR 0x05]] ! i \<and>
       verify_message demo_ext ((\<lambda>_. [4]) (p_amount (ps ! i))) (p_c (ps ! i)) (str_bytes (p_secret (ps ! i))) = Inr ())"
    by (rule construct_proofs_valid [OF demo_ec_law prime_order_13])
       (auto simp: bytes bl sg pub demo_sc_def)
  then show ?thesis by (auto simp: bytes)
qed

end
