(* ===== verification/Spending_Conditions.thy ===== *)
theory Spending_Conditions
  imports Nut00
begin

text \<open>
  Spending conditions: tags and conditions of NUT-11, the requirements of NUT-10 secrets, the
  verification of a single P2PK or HTLC proof, and the SIG_ALL verification of a whole swap or
  melt request, after \<open>nut10.rs\<close>, \<open>nut11/mod.rs\<close> and \<open>nut14/mod.rs\<close> of
  \<open>crates/cashu/src/nuts\<close>. The time of \<open>unix_time\<close> is the argument \<open>now\<close>; assertions that
  only debug builds check are left out. The trait \<open>SpendingConditionVerification\<close> has two methods
  its implementors give, the inputs and the message to sign, which are arguments here.
\<close>

section \<open>Errors\<close>

datatype nut01_error = N1_Secp256k1 | N1_Json | N1_InvalidPublicKeySize nat nat

datatype nut11_error =
    N11_IncorrectSecretKind
  | N11_IncorrectWitnessKind
  | N11_LocktimeInPast
  | N11_InvalidSignature
  | N11_UnknownTag
  | N11_UnknownSigFlag
  | N11_SpendConditionsNotMet
  | N11_P2PKPubkeyRequired
  | N11_KindNotFound
  | N11_TagValueNotFound
  | N11_InvalidHash
  | N11_PreimageTooLarge
  | N11_SignaturesNotProvided
  | N11_DuplicateSignature
  | N11_ImpossibleMultisigConfiguration u64 u64
  | N11_ImpossibleRefundMultisigConfiguration u64 u64
  | N11_PreimageNotSupportedInP2PK
  | N11_SigAllNotSupportedHere
  | N11_ParseInt
  | N11_HexError hex_error
  | N11_SerdeJsonError
  | N11_Secp256k1
  | N11_NUT01 nut01_error
  | N11_Secret

datatype nut14_error =
    N14_IncorrectSecretKind
  | N14_LocktimeInPast
  | N14_HashRequired
  | N14_InvalidHash
  | N14_Preimage
  | N14_InvalidHexPreimage
  | N14_PreimageInvalidSize
  | N14_SignaturesNotProvided
  | N14_SigAllNotSupportedHere
  | N14_Secp256k1
  | N14_NUT11 nut11_error
  | N14_Serde

section \<open>Public keys\<close>

definition pk_from_hex :: "ext \<Rightarrow> string \<Rightarrow> nut01_error + public_key" where
  "pk_from_hex X hex =
     (if length hex \<noteq> 33 * 2 then Inl (N1_InvalidPublicKeySize 33 (length hex div 2))
      else ok_or N1_Secp256k1 (x_pk_from_str X hex))"

definition pk_verify :: "ext \<Rightarrow> public_key \<Rightarrow> bytes \<Rightarrow> signature \<Rightarrow> nut01_error + unit" where
  "pk_verify X k msg sig =
     (if x_schnorr_verify X sig (x_sha256 X msg) (x_pk_xonly X k) then Inr () else Inl N1_Secp256k1)"

definition sk_sign :: "ext \<Rightarrow> secret_key \<Rightarrow> bytes \<Rightarrow> signature" where
  "sk_sign X k msg = x_schnorr_sign X (x_sha256 X msg) k"

section \<open>Tags and conditions\<close>

datatype sig_flag = SigInputs | SigAll

fun sig_flag_display :: "sig_flag \<Rightarrow> string" where
  "sig_flag_display SigAll = ''SIG_ALL''"
| "sig_flag_display SigInputs = ''SIG_INPUTS''"

definition sig_flag_from_str :: "string \<Rightarrow> nut11_error + sig_flag" where
  "sig_flag_from_str tag =
     (if tag = ''SIG_ALL'' then Inr SigAll
      else if tag = ''SIG_INPUTS'' then Inr SigInputs
      else Inl N11_UnknownSigFlag)"

datatype tag_kind = TK_SigFlag | TK_NSigs | TK_Locktime | TK_Refund | TK_Pubkeys | TK_NSigsRefund | TK_Custom string

datatype tag =
    T_SigFlag sig_flag
  | T_NSigs u64
  | T_LockTime u64
  | T_Refund "public_key list"
  | T_PubKeys "public_key list"
  | T_NSigsRefund u64
  | T_Custom string "string list"

fun tag_kind_display :: "tag_kind \<Rightarrow> string" where
  "tag_kind_display TK_SigFlag = ''sigflag''"
| "tag_kind_display TK_NSigs = ''n_sigs''"
| "tag_kind_display TK_Locktime = ''locktime''"
| "tag_kind_display TK_Refund = ''refund''"
| "tag_kind_display TK_Pubkeys = ''pubkeys''"
| "tag_kind_display TK_NSigsRefund = ''n_sigs_refund''"
| "tag_kind_display (TK_Custom c) = c"

definition tag_kind_from :: "string \<Rightarrow> tag_kind" where
  "tag_kind_from t =
     (if t = ''sigflag'' then TK_SigFlag
      else if t = ''n_sigs'' then TK_NSigs
      else if t = ''locktime'' then TK_Locktime
      else if t = ''refund'' then TK_Refund
      else if t = ''pubkeys'' then TK_Pubkeys
      else if t = ''n_sigs_refund'' then TK_NSigsRefund
      else TK_Custom t)"

fun kind_of_tag :: "tag \<Rightarrow> tag_kind" where
  "kind_of_tag (T_SigFlag f) = TK_SigFlag"
| "kind_of_tag (T_NSigs n) = TK_NSigs"
| "kind_of_tag (T_LockTime n) = TK_Locktime"
| "kind_of_tag (T_Refund ks) = TK_Refund"
| "kind_of_tag (T_PubKeys ks) = TK_Pubkeys"
| "kind_of_tag (T_NSigsRefund n) = TK_NSigsRefund"
| "kind_of_tag (T_Custom name vs) = TK_Custom name"

definition tag_value :: "string list \<Rightarrow> nut11_error + string" where
  "tag_value tag = (case tag of _ # v # _ \<Rightarrow> Inr v | _ \<Rightarrow> Inl N11_TagValueNotFound)"

definition parse_tag_u64 :: "string \<Rightarrow> nut11_error + u64" where
  "parse_tag_u64 s = ok_or N11_ParseInt (parse_u64 s)"

definition tag_pubkeys :: "ext \<Rightarrow> string list \<Rightarrow> nut11_error + public_key list" where
  "tag_pubkeys X tag = map_err N11_NUT01 (collect_res (pk_from_hex X) (tl tag))"

definition tag_try_from :: "ext \<Rightarrow> string list \<Rightarrow> nut11_error + tag" where
  "tag_try_from X tag = (case tag of
       [] \<Rightarrow> Inl N11_KindNotFound
     | t # rest \<Rightarrow> (case tag_kind_from t of
           TK_SigFlag \<Rightarrow> rbind (tag_value tag) (\<lambda>v. rmap T_SigFlag (sig_flag_from_str v))
         | TK_NSigs \<Rightarrow> rbind (tag_value tag) (\<lambda>v. rmap T_NSigs (parse_tag_u64 v))
         | TK_Locktime \<Rightarrow> rbind (tag_value tag) (\<lambda>v. rmap T_LockTime (parse_tag_u64 v))
         | TK_Refund \<Rightarrow> rmap T_Refund (tag_pubkeys X tag)
         | TK_Pubkeys \<Rightarrow> rmap T_PubKeys (tag_pubkeys X tag)
         | TK_NSigsRefund \<Rightarrow> rbind (tag_value tag) (\<lambda>v. rmap T_NSigsRefund (parse_tag_u64 v))
         | TK_Custom name \<Rightarrow> Inr (T_Custom name rest)))"

fun tag_as_vec :: "ext \<Rightarrow> tag \<Rightarrow> string list" where
  "tag_as_vec X (T_SigFlag f) = [tag_kind_display TK_SigFlag, sig_flag_display f]"
| "tag_as_vec X (T_NSigs n) = [tag_kind_display TK_NSigs, u64_to_string n]"
| "tag_as_vec X (T_LockTime n) = [tag_kind_display TK_Locktime, u64_to_string n]"
| "tag_as_vec X (T_PubKeys ks) = tag_kind_display TK_Pubkeys # map (x_pk_to_string X) ks"
| "tag_as_vec X (T_Refund ks) = tag_kind_display TK_Refund # map (x_pk_to_string X) ks"
| "tag_as_vec X (T_NSigsRefund n) = [tag_kind_display TK_NSigsRefund, u64_to_string n]"
| "tag_as_vec X (T_Custom name c) = name # c"

record conditions =
  c_locktime :: "u64 option"
  c_pubkeys :: "public_key list option"
  c_refund_keys :: "public_key list option"
  c_num_sigs :: "u64 option"
  c_sig_flag :: sig_flag
  c_num_sigs_refund :: "u64 option"

definition option_len :: "'a list option \<Rightarrow> nat" where
  "option_len xs = (case xs of None \<Rightarrow> 0 | Some ys \<Rightarrow> length ys)"

definition conditions_new ::
  "u64 \<Rightarrow> u64 option \<Rightarrow> public_key list option \<Rightarrow> public_key list option \<Rightarrow> u64 option \<Rightarrow>
   sig_flag option \<Rightarrow> u64 option \<Rightarrow> nut11_error + conditions"
where
  "conditions_new now locktime pubkeys refund_keys num_sigs flag num_sigs_refund =
     rbind (case locktime of None \<Rightarrow> Inr () | Some l \<Rightarrow> ensure_cdk (l \<ge> now) N11_LocktimeInPast) (\<lambda>_.
     rbind (case num_sigs of None \<Rightarrow> Inr ()
            | Some n \<Rightarrow> (let available_keys = of_nat (1 + option_len pubkeys) in
                if n > available_keys then Inl (N11_ImpossibleMultisigConfiguration n available_keys) else Inr ())) (\<lambda>_.
     rbind (case num_sigs_refund of None \<Rightarrow> Inr ()
            | Some n \<Rightarrow> (let refund_key_count = of_nat (option_len refund_keys) in
                if n > refund_key_count then Inl (N11_ImpossibleRefundMultisigConfiguration n refund_key_count) else Inr ())) (\<lambda>_.
       Inr \<lparr> c_locktime = locktime, c_pubkeys = pubkeys, c_refund_keys = refund_keys, c_num_sigs = num_sigs,
             c_sig_flag = (case flag of None \<Rightarrow> SigInputs | Some f \<Rightarrow> f), c_num_sigs_refund = num_sigs_refund \<rparr>)))"

definition opt_tag :: "('a \<Rightarrow> tag) \<Rightarrow> 'a option \<Rightarrow> tag list" where
  "opt_tag mk v = (case v of None \<Rightarrow> [] | Some x \<Rightarrow> [mk x])"

definition conditions_tags :: "conditions \<Rightarrow> tag list" where
  "conditions_tags c =
     opt_tag T_PubKeys (c_pubkeys c) @ opt_tag T_LockTime (c_locktime c) @ opt_tag T_NSigs (c_num_sigs c)
     @ opt_tag T_Refund (c_refund_keys c) @ opt_tag T_NSigsRefund (c_num_sigs_refund c)
     @ [T_SigFlag (c_sig_flag c)]"

definition conditions_to_vec :: "ext \<Rightarrow> conditions \<Rightarrow> string list list" where
  "conditions_to_vec X c = map (tag_as_vec X) (conditions_tags c)"

text \<open>Collecting into a hash map keeps the last tag of each kind.\<close>

definition tag_map :: "tag list \<Rightarrow> tag_kind \<Rightarrow> tag option" where
  "tag_map tags k = map_of (rev (map (\<lambda>t. (kind_of_tag t, t)) tags)) k"

definition conditions_of_tags :: "tag list \<Rightarrow> conditions" where
  "conditions_of_tags tags = \<lparr>
     c_locktime = (case tag_map tags TK_Locktime of Some (T_LockTime l) \<Rightarrow> Some l | _ \<Rightarrow> None),
     c_pubkeys = (case tag_map tags TK_Pubkeys of Some (T_PubKeys ks) \<Rightarrow> Some ks | _ \<Rightarrow> None),
     c_refund_keys = (case tag_map tags TK_Refund of Some (T_Refund ks) \<Rightarrow> Some ks | _ \<Rightarrow> None),
     c_num_sigs = (case tag_map tags TK_NSigs of Some (T_NSigs n) \<Rightarrow> Some n | _ \<Rightarrow> None),
     c_sig_flag = (case tag_map tags TK_SigFlag of Some (T_SigFlag f) \<Rightarrow> f | _ \<Rightarrow> SigInputs),
     c_num_sigs_refund = (case tag_map tags TK_NSigsRefund of Some (T_NSigsRefund n) \<Rightarrow> Some n | _ \<Rightarrow> None) \<rparr>"

definition conditions_try_from :: "ext \<Rightarrow> string list list \<Rightarrow> nut11_error + conditions" where
  "conditions_try_from X tags = rmap conditions_of_tags (collect_res (tag_try_from X) tags)"

definition secret_conditions :: "ext \<Rightarrow> nut10_secret \<Rightarrow> nut11_error + conditions" where
  "secret_conditions X s =
     conditions_try_from X (case sd_tags (n10_secret_data s) of None \<Rightarrow> [] | Some ts \<Rightarrow> ts)"

section \<open>Spending conditions of a secret\<close>

datatype spending_conditions =
    P2PKConditions public_key "conditions option"
  | HTLCConditions bytes "conditions option"

definition new_htlc :: "ext \<Rightarrow> string \<Rightarrow> conditions option \<Rightarrow> nut11_error + spending_conditions" where
  "new_htlc X preimage c =
     rbind (map_err N11_HexError (decode preimage)) (\<lambda>preimage_bytes.
       if length preimage_bytes \<noteq> 32 then Inl N11_PreimageTooLarge
       else Inr (HTLCConditions (x_sha256 X preimage_bytes) c))"

definition new_htlc_hash :: "ext \<Rightarrow> string \<Rightarrow> conditions option \<Rightarrow> nut11_error + spending_conditions" where
  "new_htlc_hash X hash c = rbind (ok_or N11_InvalidHash (x_sha_from_str X hash)) (\<lambda>h. Inr (HTLCConditions h c))"

fun sc_kind :: "spending_conditions \<Rightarrow> kind" where
  "sc_kind (P2PKConditions d c) = P2PK"
| "sc_kind (HTLCConditions d c) = HTLC"

fun sc_conditions :: "spending_conditions \<Rightarrow> conditions option" where
  "sc_conditions (P2PKConditions d c) = c"
| "sc_conditions (HTLCConditions d c) = c"

definition sc_num_sigs :: "spending_conditions \<Rightarrow> u64 option" where
  "sc_num_sigs s = Option.bind (sc_conditions s) c_num_sigs"

definition sc_locktime :: "spending_conditions \<Rightarrow> u64 option" where
  "sc_locktime s = Option.bind (sc_conditions s) c_locktime"

definition sc_refund_keys :: "spending_conditions \<Rightarrow> public_key list option" where
  "sc_refund_keys s = Option.bind (sc_conditions s) c_refund_keys"

definition secret_tags_conditions :: "ext \<Rightarrow> nut10_secret \<Rightarrow> conditions option" where
  "secret_tags_conditions X s =
     Option.bind (sd_tags (n10_secret_data s)) (\<lambda>t. res_ok (conditions_try_from X t))"

definition sc_of_nut10 :: "ext \<Rightarrow> nut10_secret \<Rightarrow> nut11_error + spending_conditions" where
  "sc_of_nut10 X s = (case n10_kind s of
       P2PK \<Rightarrow> rbind (map_err N11_NUT01 (pk_from_hex X (sd_data (n10_secret_data s))))
                 (\<lambda>d. Inr (P2PKConditions d (secret_tags_conditions X s)))
     | HTLC \<Rightarrow> rbind (ok_or N11_InvalidHash (x_sha_from_str X (sd_data (n10_secret_data s))))
                 (\<lambda>d. Inr (HTLCConditions d (secret_tags_conditions X s))))"

definition sc_of_secret :: "ext \<Rightarrow> secret \<Rightarrow> nut11_error + spending_conditions" where
  "sc_of_secret X s = rbind (ok_or N11_Secret (x_nut10_from_json X s)) (sc_of_nut10 X)"

fun nut10_of_sc :: "ext \<Rightarrow> string \<Rightarrow> spending_conditions \<Rightarrow> nut10_secret" where
  "nut10_of_sc X nonce (P2PKConditions d c) =
     \<lparr> n10_kind = P2PK, n10_secret_data = \<lparr> sd_nonce = nonce, sd_data = x_pk_to_string X d,
       sd_tags = map_option (conditions_to_vec X) c \<rparr> \<rparr>"
| "nut10_of_sc X nonce (HTLCConditions d c) =
     \<lparr> n10_kind = HTLC, n10_secret_data = \<lparr> sd_nonce = nonce, sd_data = x_sha_to_string X d,
       sd_tags = map_option (conditions_to_vec X) c \<rparr> \<rparr>"

text \<open>The hash set drops duplicates; its iteration order is not specified, here that of the last occurrences.\<close>

fun sc_pubkeys :: "spending_conditions \<Rightarrow> public_key list option" where
  "sc_pubkeys (P2PKConditions d c) =
     Some (remdups (d # (case c of None \<Rightarrow> [] | Some cs \<Rightarrow> (case c_pubkeys cs of None \<Rightarrow> [] | Some ks \<Rightarrow> ks))))"
| "sc_pubkeys (HTLCConditions d c) = Option.bind c c_pubkeys"

section \<open>What a secret requires\<close>

record refund_path =
  rp_pubkeys :: "public_key list"
  rp_required_sigs :: u64

record spending_requirements =
  sr_preimage_needed :: bool
  sr_pubkeys :: "public_key list"
  sr_required_sigs :: u64
  sr_refund_path :: "refund_path option"

definition locktime_passed :: "conditions \<Rightarrow> u64 \<Rightarrow> bool" where
  "locktime_passed c current_time = (case c_locktime c of None \<Rightarrow> False | Some locktime \<Rightarrow> locktime < current_time)"

definition refund_path_of :: "conditions \<Rightarrow> u64 \<Rightarrow> refund_path option" where
  "refund_path_of c current_time =
     (if locktime_passed c current_time
      then Some (case c_refund_keys c of
             Some refund_keys \<Rightarrow> \<lparr> rp_pubkeys = refund_keys,
               rp_required_sigs = (case c_num_sigs_refund c of None \<Rightarrow> 1 | Some n \<Rightarrow> n) \<rparr>
           | None \<Rightarrow> \<lparr> rp_pubkeys = [], rp_required_sigs = 0 \<rparr>)
      else None)"

definition get_pubkeys_and_required_sigs ::
  "ext \<Rightarrow> nut10_secret \<Rightarrow> u64 \<Rightarrow> nut11_error + spending_requirements"
where
  "get_pubkeys_and_required_sigs X s current_time =
     rbind (secret_conditions X s) (\<lambda>c. case n10_kind s of
       P2PK \<Rightarrow>
         rbind (map_err N11_NUT01 (pk_from_hex X (sd_data (n10_secret_data s)))) (\<lambda>data_pubkey.
           Inr \<lparr> sr_preimage_needed = False,
                 sr_pubkeys = data_pubkey # (case c_pubkeys c of None \<Rightarrow> [] | Some ks \<Rightarrow> ks),
                 sr_required_sigs = (case c_num_sigs c of None \<Rightarrow> 1 | Some n \<Rightarrow> n),
                 sr_refund_path = refund_path_of c current_time \<rparr>)
     | HTLC \<Rightarrow>
         (let pubkeys = (case c_pubkeys c of None \<Rightarrow> [] | Some ks \<Rightarrow> ks) in
          Inr \<lparr> sr_preimage_needed = True,
                sr_pubkeys = pubkeys,
                sr_required_sigs = (if pubkeys = [] then 0 else (case c_num_sigs c of None \<Rightarrow> 1 | Some n \<Rightarrow> n)),
                sr_refund_path = refund_path_of c current_time \<rparr>))"

section \<open>Counting valid signatures\<close>

fun vs_inner :: "ext \<Rightarrow> bytes \<Rightarrow> public_key \<Rightarrow> signature list \<Rightarrow> public_key list \<Rightarrow> nut11_error + public_key list" where
  "vs_inner X msg pubkey [] verified = Inr verified"
| "vs_inner X msg pubkey (sig # sigs) verified =
     (if is_ok (pk_verify X pubkey msg sig)
      then (if pubkey \<in> set verified then Inl N11_DuplicateSignature
            else vs_inner X msg pubkey sigs (pubkey # verified))
      else vs_inner X msg pubkey sigs verified)"

fun vs_outer :: "ext \<Rightarrow> bytes \<Rightarrow> public_key list \<Rightarrow> signature list \<Rightarrow> public_key list \<Rightarrow> nut11_error + public_key list" where
  "vs_outer X msg [] sigs verified = Inr verified"
| "vs_outer X msg (pubkey # pubkeys) sigs verified =
     rbind (vs_inner X msg pubkey sigs verified) (\<lambda>v. vs_outer X msg pubkeys sigs v)"

definition valid_signatures :: "ext \<Rightarrow> bytes \<Rightarrow> public_key list \<Rightarrow> signature list \<Rightarrow> nut11_error + u64" where
  "valid_signatures X msg pubkeys sigs = rmap (\<lambda>v. of_nat (length v)) (vs_outer X msg pubkeys sigs [])"

section \<open>Verifying one proof\<close>

definition parse_signatures :: "ext \<Rightarrow> string list \<Rightarrow> signature list option" where
  "parse_signatures X sigs = collect_opt (x_sig_from_str X) sigs"

definition path_valid ::
  "ext \<Rightarrow> bytes \<Rightarrow> public_key list \<Rightarrow> u64 \<Rightarrow> string list option \<Rightarrow> bool"
where
  "path_valid X msg pubkeys required_sigs sigs =
     (case Option.bind (Option.bind sigs (parse_signatures X)) (\<lambda>ss. res_ok (valid_signatures X msg pubkeys ss)) of
        None \<Rightarrow> False | Some n_valid \<Rightarrow> n_valid \<ge> required_sigs)"

definition verify_p2pk :: "ext \<Rightarrow> u64 \<Rightarrow> cashu_proof \<Rightarrow> nut11_error + unit" where
  "verify_p2pk X now p =
     rbind (ok_or N11_SerdeJsonError (x_nut10_from_json X (p_secret p))) (\<lambda>s.
     rbind (secret_conditions X s) (\<lambda>c.
       if c_sig_flag c = SigAll then Inl N11_SigAllNotSupportedHere
       else if n10_kind s \<noteq> P2PK then Inl N11_IncorrectSecretKind
       else rbind (get_pubkeys_and_required_sigs X s now) (\<lambda>req.
         if sr_preimage_needed req then Inl N11_PreimageNotSupportedInP2PK
         else (let witness_sigs = Option.bind (p_witness p) witness_signatures;
                   msg = str_bytes (p_secret p) in
           if path_valid X msg (sr_pubkeys req) (sr_required_sigs req) witness_sigs then Inr ()
           else if (case sr_refund_path req of
                      None \<Rightarrow> False
                    | Some rp \<Rightarrow> rp_required_sigs rp = 0 \<or>
                        path_valid X msg (rp_pubkeys rp) (rp_required_sigs rp) witness_sigs)
             then Inr ()
           else if witness_sigs = None then Inl N11_SignaturesNotProvided
           else Inl N11_SpendConditionsNotMet))))"

definition preimage_data :: "htlc_witness \<Rightarrow> nut14_error + bytes" where
  "preimage_data w =
     rbind (map_err (\<lambda>_. N14_InvalidHexPreimage) (decode (hw_preimage w))) (\<lambda>b.
       if length b \<noteq> 32 then Inl N14_PreimageInvalidSize else Inr b)"

definition verify_htlc_preimage :: "ext \<Rightarrow> htlc_witness \<Rightarrow> nut10_secret \<Rightarrow> nut14_error + unit" where
  "verify_htlc_preimage X w s =
     rbind (ok_or N14_InvalidHash (x_sha_from_str X (sd_data (n10_secret_data s)))) (\<lambda>hash_lock.
     rbind (preimage_data w) (\<lambda>preimage_bytes.
       if hash_lock \<noteq> x_sha256 X preimage_bytes then Inl N14_Preimage else Inr ()))"

definition htlc_signature_check ::
  "ext \<Rightarrow> bytes \<Rightarrow> public_key list \<Rightarrow> u64 \<Rightarrow> htlc_witness \<Rightarrow> nut14_error + unit"
where
  "htlc_signature_check X msg pubkeys required_sigs w =
     (if required_sigs = 0 then Inr ()
      else rbind (ok_or N14_SignaturesNotProvided (hw_signatures w)) (\<lambda>sigs.
           rbind (ok_or N14_Secp256k1 (parse_signatures X sigs)) (\<lambda>ss.
           rbind (map_err N14_NUT11 (valid_signatures X msg pubkeys ss)) (\<lambda>n_valid.
             if n_valid \<ge> required_sigs then Inr () else Inl (N14_NUT11 N11_SpendConditionsNotMet)))))"

definition verify_htlc :: "ext \<Rightarrow> u64 \<Rightarrow> cashu_proof \<Rightarrow> nut14_error + unit" where
  "verify_htlc X now p =
     rbind (ok_or N14_Serde (x_nut10_from_json X (p_secret p))) (\<lambda>s.
     rbind (map_err N14_NUT11 (secret_conditions X s)) (\<lambda>c.
       if c_sig_flag c = SigAll then Inl N14_SigAllNotSupportedHere
       else if n10_kind s \<noteq> HTLC then Inl N14_IncorrectSecretKind
       else rbind (map_err N14_NUT11 (get_pubkeys_and_required_sigs X s now)) (\<lambda>req.
         case p_witness p of
           Some (HTLCWitness w) \<Rightarrow>
             (let preimage_result = verify_htlc_preimage X w s; msg = str_bytes (p_secret p) in
              if is_ok preimage_result
              then htlc_signature_check X msg (sr_pubkeys req) (sr_required_sigs req) w
              else (case sr_refund_path req of
                      Some rp \<Rightarrow> htlc_signature_check X msg (rp_pubkeys rp) (rp_required_sigs rp) w
                    | None \<Rightarrow> preimage_result))
         | _ \<Rightarrow> (case sr_refund_path req of
                    Some rp \<Rightarrow> if rp_required_sigs rp = 0 then Inr () else Inl N14_IncorrectSecretKind
                  | None \<Rightarrow> Inl N14_IncorrectSecretKind))))"

definition add_preimage :: "string \<Rightarrow> cashu_proof \<Rightarrow> cashu_proof" where
  "add_preimage preimage p =
     p\<lparr> p_witness := Some (HTLCWitness \<lparr> hw_preimage = preimage,
         hw_signatures = Option.bind (p_witness p) witness_signatures \<rparr>) \<rparr>"

section \<open>Signing\<close>

definition witness_with_signature :: "witness option \<Rightarrow> string \<Rightarrow> witness option" where
  "witness_with_signature w sig = (case w of
       Some wit \<Rightarrow> Some (witness_add_signatures wit [sig])
     | None \<Rightarrow> Some (witness_add_signatures (P2PKWitness []) [sig]))"

definition proof_sign_p2pk :: "ext \<Rightarrow> secret_key \<Rightarrow> cashu_proof \<Rightarrow> cashu_proof" where
  "proof_sign_p2pk X k p =
     p\<lparr> p_witness := witness_with_signature (p_witness p)
          (x_sig_to_string X (sk_sign X k (str_bytes (p_secret p)))) \<rparr>"

definition blinded_sign_p2pk :: "ext \<Rightarrow> secret_key \<Rightarrow> blinded_message \<Rightarrow> blinded_message" where
  "blinded_sign_p2pk X k b =
     b\<lparr> bm_witness := witness_with_signature (bm_witness b)
          (x_sig_to_string X (sk_sign X k (bm_blinded_secret b))) \<rparr>"

fun bv_inner :: "ext \<Rightarrow> bytes \<Rightarrow> string \<Rightarrow> public_key list \<Rightarrow> public_key list \<Rightarrow> nut11_error + public_key list" where
  "bv_inner X msg signature [] verified = Inr verified"
| "bv_inner X msg signature (v # vs) verified =
     rbind (ok_or N11_Secp256k1 (x_sig_from_str X signature)) (\<lambda>sig.
       if is_ok (pk_verify X v msg sig)
       then (if v \<in> set verified then Inl N11_DuplicateSignature
             else bv_inner X msg signature vs (v # verified))
       else bv_inner X msg signature vs verified)"

fun bv_outer :: "ext \<Rightarrow> bytes \<Rightarrow> string list \<Rightarrow> public_key list \<Rightarrow> public_key list \<Rightarrow> nut11_error + public_key list" where
  "bv_outer X msg [] pubkeys verified = Inr verified"
| "bv_outer X msg (s # ss) pubkeys verified =
     rbind (bv_inner X msg s pubkeys verified) (\<lambda>v. bv_outer X msg ss pubkeys v)"

definition blinded_verify_p2pk :: "ext \<Rightarrow> public_key list \<Rightarrow> u64 \<Rightarrow> blinded_message \<Rightarrow> nut11_error + unit" where
  "blinded_verify_p2pk X pubkeys required_sigs b =
     rbind (case bm_witness b of
              None \<Rightarrow> Inr []
            | Some w \<Rightarrow> rbind (ok_or N11_SignaturesNotProvided (witness_signatures w)) (\<lambda>sigs.
                bv_outer X (bm_blinded_secret b) sigs pubkeys [])) (\<lambda>verified.
       if of_nat (length verified) \<ge> required_sigs then Inr () else Inl N11_SpendConditionsNotMet)"

section \<open>Conditions round-trip through their tags\<close>

lemma pk_from_hex_to_string: "pk_text_law X k \<Longrightarrow> pk_from_hex X (x_pk_to_string X k) = Inr k"
  by (simp add: pk_text_law_def pk_from_hex_def)

lemma tag_pubkeys_roundtrip:
  "\<forall>k \<in> set ks. pk_text_law X k \<Longrightarrow> tag_pubkeys X (t # map (x_pk_to_string X) ks) = Inr ks"
proof -
  assume "\<forall>k \<in> set ks. pk_text_law X k"
  then have "collect_res (pk_from_hex X) (map (x_pk_to_string X) ks) = Inr ks"
    by (induction ks) (auto simp: pk_from_hex_to_string)
  then show ?thesis by (simp add: tag_pubkeys_def)
qed

fun tag_keys_ok :: "ext \<Rightarrow> tag \<Rightarrow> bool" where
  "tag_keys_ok X (T_Refund ks) = (\<forall>k \<in> set ks. pk_text_law X k)"
| "tag_keys_ok X (T_PubKeys ks) = (\<forall>k \<in> set ks. pk_text_law X k)"
| "tag_keys_ok X (T_Custom name vs) = (tag_kind_from name = TK_Custom name)"
| "tag_keys_ok X t = True"

lemma sig_flag_roundtrip [simp]: "sig_flag_from_str (sig_flag_display f) = Inr f"
  by (cases f) (auto simp: sig_flag_from_str_def)

lemma tag_kind_from_display [simp]: "tag_kind_from ''sigflag'' = TK_SigFlag" "tag_kind_from ''n_sigs'' = TK_NSigs"
  "tag_kind_from ''locktime'' = TK_Locktime" "tag_kind_from ''refund'' = TK_Refund"
  "tag_kind_from ''pubkeys'' = TK_Pubkeys" "tag_kind_from ''n_sigs_refund'' = TK_NSigsRefund"
  by (simp_all add: tag_kind_from_def)

lemma tag_roundtrip: "tag_keys_ok X t \<Longrightarrow> tag_try_from X (tag_as_vec X t) = Inr t"
  by (cases t) (auto simp: tag_try_from_def tag_value_def parse_tag_u64_def tag_pubkeys_roundtrip)

lemma collect_tags_roundtrip:
  "\<forall>t \<in> set ts. tag_keys_ok X t \<Longrightarrow> collect_res (tag_try_from X) (map (tag_as_vec X) ts) = Inr ts"
  by (induction ts) (auto simp: tag_roundtrip)

lemma conditions_of_tags_inverse: "conditions_of_tags (conditions_tags c) = c"
  by (cases c) (auto simp: conditions_of_tags_def conditions_tags_def tag_map_def opt_tag_def split: option.splits)

definition option_keys_ok :: "ext \<Rightarrow> public_key list option \<Rightarrow> bool" where
  "option_keys_ok X ks \<longleftrightarrow> (case ks of None \<Rightarrow> True | Some l \<Rightarrow> (\<forall>k \<in> set l. pk_text_law X k))"

definition conditions_keys_ok :: "ext \<Rightarrow> conditions \<Rightarrow> bool" where
  "conditions_keys_ok X c \<longleftrightarrow> option_keys_ok X (c_pubkeys c) \<and> option_keys_ok X (c_refund_keys c)"

lemma conditions_roundtrip:
  assumes "conditions_keys_ok X c"
  shows "conditions_try_from X (conditions_to_vec X c) = Inr c"
proof -
  have "\<forall>t \<in> set (conditions_tags c). tag_keys_ok X t"
    using assms by (auto simp: conditions_tags_def opt_tag_def conditions_keys_ok_def option_keys_ok_def split: option.splits)
  then show ?thesis
    by (simp add: conditions_try_from_def conditions_to_vec_def collect_tags_roundtrip conditions_of_tags_inverse)
qed

fun sc_ok :: "ext \<Rightarrow> spending_conditions \<Rightarrow> bool" where
  "sc_ok X (P2PKConditions d c) \<longleftrightarrow> pk_text_law X d \<and> (\<forall>cs. c = Some cs \<longrightarrow> conditions_keys_ok X cs)"
| "sc_ok X (HTLCConditions d c) \<longleftrightarrow> sha_text_law X d \<and> (\<forall>cs. c = Some cs \<longrightarrow> conditions_keys_ok X cs)"

text \<open>
  C26. Spending conditions survive being written into a NUT-10 secret and read back: the kind, the
  data key or hash, and every condition (locktime, keys, refund keys, thresholds, flag) are
  recovered from the tags, provided keys and hashes are read back from the text they print as.
\<close>
theorem spending_conditions_roundtrip:
  assumes "sc_ok X sc"
  shows "sc_of_nut10 X (nut10_of_sc X nonce sc) = Inr sc"
proof (cases sc)
  case (P2PKConditions d c)
  then show ?thesis using assms
    by (cases c) (auto simp: sc_of_nut10_def secret_tags_conditions_def pk_from_hex_to_string conditions_roundtrip)
next
  case (HTLCConditions d c)
  then show ?thesis using assms
    by (cases c) (auto simp: sc_of_nut10_def secret_tags_conditions_def sha_text_law_def conditions_roundtrip)
qed

theorem spending_conditions_roundtrip_witness:
  "let c = \<lparr> c_locktime = Some 17, c_pubkeys = Some [replicate 33 3], c_refund_keys = None, c_num_sigs = Some 2,
             c_sig_flag = SigAll, c_num_sigs_refund = None \<rparr>
   in sc_of_nut10 demo_ext (nut10_of_sc demo_ext ''n'' (P2PKConditions (replicate 33 2) (Some c)))
      = Inr (P2PKConditions (replicate 33 2) (Some c))"
  unfolding Let_def
  by (rule spending_conditions_roundtrip) (auto simp: demo_pk_text_law conditions_keys_ok_def option_keys_ok_def)

section \<open>Counting signatures\<close>

lemma vs_inner_Ok:
  "vs_inner X msg k sigs v = Inr v' \<Longrightarrow>
     (v' = v \<and> (\<forall>s \<in> set sigs. \<not> is_ok (pk_verify X k msg s))) \<or>
     (v' = k # v \<and> k \<notin> set v \<and> (\<exists>s \<in> set sigs. is_ok (pk_verify X k msg s)))"
proof (induction sigs arbitrary: v)
  case (Cons s sigs)
  show ?case
  proof (cases "is_ok (pk_verify X k msg s)")
    case True
    with Cons.prems have nin: "k \<notin> set v" and r: "vs_inner X msg k sigs (k # v) = Inr v'"
      by (auto split: if_splits)
    from Cons.IH [OF r] nin True show ?thesis by auto
  next
    case False
    with Cons.prems Cons.IH [of v] show ?thesis by auto
  qed
qed simp

lemma vs_outer_Ok:
  "vs_outer X msg ks sigs v = Inr v' \<Longrightarrow> distinct v \<Longrightarrow>
     distinct v' \<and> set v' = set v \<union> {k \<in> set ks. \<exists>s \<in> set sigs. is_ok (pk_verify X k msg s)}"
proof (induction ks arbitrary: v)
  case Nil
  then show ?case by simp
next
  case (Cons k ks)
  then obtain w where w: "vs_inner X msg k sigs v = Inr w" and r: "vs_outer X msg ks sigs w = Inr v'"
    by (auto simp: rbind_eq_Ok)
  from vs_inner_Ok [OF w] Cons.prems(2) have "distinct w"
    and "set w = set v \<union> (if \<exists>s \<in> set sigs. is_ok (pk_verify X k msg s) then {k} else {})" by auto
  with Cons.IH [OF r] show ?case by auto
qed

definition signers :: "ext \<Rightarrow> bytes \<Rightarrow> public_key list \<Rightarrow> signature list \<Rightarrow> public_key set" where
  "signers X msg ks sigs = {k \<in> set ks. \<exists>s \<in> set sigs. is_ok (pk_verify X k msg s)}"

lemma valid_signatures_Ok:
  assumes "valid_signatures X msg ks sigs = Inr n"
  shows "n = of_nat (card (signers X msg ks sigs))"
proof -
  from assms obtain v where v: "vs_outer X msg ks sigs [] = Inr v" and n: "n = of_nat (length v)"
    by (auto simp: valid_signatures_def rmap_eq_Ok)
  from vs_outer_Ok [OF v] have "distinct v" "set v = signers X msg ks sigs" by (auto simp: signers_def)
  then show ?thesis using n by (metis distinct_card)
qed

text \<open>When no key and no signature is used twice the count succeeds.\<close>

lemma vs_inner_single:
  assumes "k \<notin> set v" "length (filter (\<lambda>s. is_ok (pk_verify X k msg s)) sigs) \<le> 1"
  shows "\<exists>v'. vs_inner X msg k sigs v = Inr v' \<and> set v' \<subseteq> insert k (set v)"
  using assms
proof (induction sigs arbitrary: v)
  case (Cons s sigs)
  show ?case
  proof (cases "is_ok (pk_verify X k msg s)")
    case True
    with Cons.prems have "\<forall>t \<in> set sigs. \<not> is_ok (pk_verify X k msg t)" by (auto simp: filter_empty_conv)
    then have "vs_inner X msg k sigs (k # v) = Inr (k # v)" by (induction sigs) auto
    with True Cons.prems show ?thesis by auto
  next
    case False
    with Cons show ?thesis by simp
  qed
qed auto

lemma vs_outer_distinct:
  assumes "distinct ks" "set ks \<inter> set v = {}"
    and "\<And>k. k \<in> set ks \<Longrightarrow> length (filter (\<lambda>s. is_ok (pk_verify X k msg s)) sigs) \<le> 1"
  shows "\<exists>v'. vs_outer X msg ks sigs v = Inr v'"
  using assms
proof (induction ks arbitrary: v)
  case (Cons k ks)
  obtain w where w: "vs_inner X msg k sigs v = Inr w" "set w \<subseteq> insert k (set v)"
    using vs_inner_single [of k v X msg sigs] Cons.prems by auto
  with Cons.prems have "set ks \<inter> set w = {}" by auto
  with Cons.IH [of w] Cons.prems w show ?case by auto
qed simp

lemma valid_signatures_distinct:
  assumes "distinct ks" "\<And>k. k \<in> set ks \<Longrightarrow> length (filter (\<lambda>s. is_ok (pk_verify X k msg s)) sigs) \<le> 1"
  shows "valid_signatures X msg ks sigs = Inr (of_nat (card (signers X msg ks sigs)))"
proof -
  from vs_outer_distinct [of ks "[]" X msg sigs] assms obtain v where "vs_outer X msg ks sigs [] = Inr v" by auto
  then have "valid_signatures X msg ks sigs = Inr (of_nat (length v))" by (simp add: valid_signatures_def)
  with valid_signatures_Ok [OF this] show ?thesis by simp
qed

lemma vs_inner_verified:
  "k \<in> set v \<Longrightarrow> \<exists>s \<in> set sigs. is_ok (pk_verify X k msg s) \<Longrightarrow> vs_inner X msg k sigs v = Inl N11_DuplicateSignature"
  by (induction sigs) auto

text \<open>
  C27. What \<open>valid_signatures\<close> counts: it returns the number of listed keys under which some given
  signature verifies; it succeeds when the keys are distinct and no key has two valid signatures;
  and a key that is listed twice makes any valid signature of its own a duplicate error.
\<close>
theorem valid_signatures_counts:
  "(valid_signatures X msg ks sigs = Inr n \<longrightarrow> n = of_nat (card (signers X msg ks sigs))) \<and>
   (distinct ks \<longrightarrow> (\<forall>k \<in> set ks. length (filter (\<lambda>s. is_ok (pk_verify X k msg s)) sigs) \<le> 1) \<longrightarrow>
      valid_signatures X msg ks sigs = Inr (of_nat (card (signers X msg ks sigs)))) \<and>
   (is_ok (pk_verify X d msg sg) \<longrightarrow> valid_signatures X msg [d, d] [sg] = Inl N11_DuplicateSignature)"
  using valid_signatures_Ok [of X msg ks sigs n] valid_signatures_distinct [of ks X msg sigs]
  by (auto simp: valid_signatures_def)

lemma demo_pk_verify: "is_ok (pk_verify demo_ext k m s) \<longleftrightarrow> s = tl k @ demo_hash m"
  by (simp add: pk_verify_def demo_ext_def)

theorem valid_signatures_counts_witness:
  "valid_signatures demo_ext [9] [demo_pt 4, demo_pt 5] [tl (demo_pt 4) @ demo_hash [9]]
     = Inr (of_nat (card (signers demo_ext [9] [demo_pt 4, demo_pt 5] [tl (demo_pt 4) @ demo_hash [9]])))
   \<and> valid_signatures demo_ext [9] [demo_pt 4, demo_pt 4] [tl (demo_pt 4) @ demo_hash [9]] = Inl N11_DuplicateSignature"
proof -
  let ?ks = "[demo_pt 4, demo_pt 5]" and ?sg = "tl (demo_pt 4) @ demo_hash [9]"
  have "distinct ?ks" by (simp add: demo_pt_eq)
  moreover have "\<forall>k \<in> set ?ks. length (filter (\<lambda>s. is_ok (pk_verify demo_ext k [9] s)) [?sg]) \<le> 1"
    by (simp only: filter.simps list.size split: if_split) auto
  moreover have "is_ok (pk_verify demo_ext (demo_pt 4) [9] ?sg)" by (simp only: demo_pk_verify)
  ultimately show ?thesis
    using valid_signatures_counts [of demo_ext "[9]" ?ks "[?sg]" 0 "demo_pt 4" ?sg] by blast
qed

text \<open>
  C28. The count is by full public key while verification is by x-only key: two distinct keys with
  the same x coordinate are both counted for one signature, so one signer can meet a threshold of
  two.
\<close>
theorem valid_signatures_counts_negated_key:
  assumes "k1 \<noteq> k2" and "x_pk_xonly X k1 = x_pk_xonly X k2" and "is_ok (pk_verify X k1 msg s)"
  shows "valid_signatures X msg [k1, k2] [s] = Inr 2"
  using assms by (auto simp: valid_signatures_def pk_verify_def split: if_splits)

theorem valid_signatures_counts_negated_key_witness:
  "valid_signatures demo_ext [9] [2 # [7], 3 # [7]] [[7] @ demo_hash [9]] = Inr 2"
proof (rule valid_signatures_counts_negated_key)
  show "is_ok (pk_verify demo_ext (2 # [7]) [9] ([7] @ demo_hash [9]))" by (simp add: demo_pk_verify)
qed (simp_all add: demo_ext_def)

section \<open>P2PK\<close>

text \<open>The witness of a proof carries valid signatures of at least \<open>n\<close> of the keys.\<close>

definition signed_by :: "ext \<Rightarrow> bytes \<Rightarrow> string list option \<Rightarrow> public_key list \<Rightarrow> u64 \<Rightarrow> bool" where
  "signed_by X msg sigs ks n \<longleftrightarrow> n = 0 \<or>
     (\<exists>strs ss. sigs = Some strs \<and> parse_signatures X strs = Some ss \<and> unat n \<le> card (signers X msg ks ss))"

text \<open>After the locktime: anyone when there are no refund keys, else enough refund keys.\<close>

definition refund_ok :: "ext \<Rightarrow> bytes \<Rightarrow> string list option \<Rightarrow> conditions \<Rightarrow> u64 \<Rightarrow> bool" where
  "refund_ok X msg sigs c now \<longleftrightarrow> locktime_passed c now \<and>
     (case c_refund_keys c of None \<Rightarrow> True
      | Some ks \<Rightarrow> signed_by X msg sigs ks (case c_num_sigs_refund c of None \<Rightarrow> 1 | Some n \<Rightarrow> n))"

lemma of_nat_ge: "n \<le> (of_nat m :: u64) \<Longrightarrow> unat n \<le> m"
proof -
  assume "n \<le> (of_nat m :: u64)"
  then have "unat n \<le> unat (of_nat m :: u64)" by (simp add: word_le_nat_alt)
  also have "\<dots> \<le> m" by (simp add: unsigned_of_nat)
  finally show ?thesis .
qed

lemma valid_signatures_signed_by:
  "valid_signatures X msg ks ss = Inr v \<Longrightarrow> n \<le> v \<Longrightarrow> parse_signatures X strs = Some ss \<Longrightarrow>
     signed_by X msg (Some strs) ks n"
  using valid_signatures_Ok [of X msg ks ss v] of_nat_ge [of n "card (signers X msg ks ss)"]
  by (auto simp: signed_by_def)

lemma path_valid_signed_by: "path_valid X msg ks n sigs \<Longrightarrow> signed_by X msg sigs ks n"
  by (auto simp: path_valid_def res_simps bind_eq_Some_conv split: option.splits
      intro: valid_signatures_signed_by)

lemma refund_path_of_Some:
  "refund_path_of c now = Some rp \<Longrightarrow> locktime_passed c now \<and>
     (rp_required_sigs rp = 0 \<or> signed_by X msg sigs (rp_pubkeys rp) (rp_required_sigs rp) \<longrightarrow> refund_ok X msg sigs c now)"
  by (auto simp: refund_path_of_def refund_ok_def signed_by_def split: if_splits option.splits)

lemma verify_p2pk_Ok:
  assumes "verify_p2pk X now p = Inr ()"
  shows "\<exists>s c d. x_nut10_from_json X (p_secret p) = Some s \<and> n10_kind s = P2PK \<and>
    secret_conditions X s = Inr c \<and> c_sig_flag c = SigInputs \<and>
    pk_from_hex X (sd_data (n10_secret_data s)) = Inr d \<and>
    (let msg = str_bytes (p_secret p); sigs = Option.bind (p_witness p) witness_signatures in
      signed_by X msg sigs (d # (case c_pubkeys c of None \<Rightarrow> [] | Some ks \<Rightarrow> ks))
        (case c_num_sigs c of None \<Rightarrow> 1 | Some n \<Rightarrow> n) \<or>
      refund_ok X msg sigs c now)"
proof -
  let ?msg = "str_bytes (p_secret p)" and ?sigs = "Option.bind (p_witness p) witness_signatures"
  from assms obtain s c req where s: "x_nut10_from_json X (p_secret p) = Some s" "n10_kind s = P2PK"
      "secret_conditions X s = Inr c" "c_sig_flag c \<noteq> SigAll"
      "get_pubkeys_and_required_sigs X s now = Inr req"
    and v: "path_valid X ?msg (sr_pubkeys req) (sr_required_sigs req) ?sigs \<or>
      (\<exists>rp. sr_refund_path req = Some rp \<and>
        (rp_required_sigs rp = 0 \<or> path_valid X ?msg (rp_pubkeys rp) (rp_required_sigs rp) ?sigs))"
    by (auto simp: verify_p2pk_def res_simps Let_def split: if_splits option.splits)
  from s obtain d where d: "pk_from_hex X (sd_data (n10_secret_data s)) = Inr d"
    and req: "sr_pubkeys req = d # (case c_pubkeys c of None \<Rightarrow> [] | Some ks \<Rightarrow> ks)"
      "sr_required_sigs req = (case c_num_sigs c of None \<Rightarrow> 1 | Some n \<Rightarrow> n)"
      "sr_refund_path req = refund_path_of c now"
    by (auto simp: get_pubkeys_and_required_sigs_def res_simps)
  have "c_sig_flag c = SigInputs" using s by (cases "c_sig_flag c") auto
  moreover from v have "signed_by X ?msg ?sigs (sr_pubkeys req) (sr_required_sigs req) \<or> refund_ok X ?msg ?sigs c now"
    using req(3) refund_path_of_Some path_valid_signed_by by metis
  ultimately show ?thesis using s d req by (auto simp: Let_def)
qed

text \<open>
  C29. Safety of P2PK: a proof that verifies is a P2PK secret without the SIG_ALL flag, and its
  secret is signed, in its witness, by the required number of distinct keys among the data key and
  the extra keys, or the locktime has passed and the refund keys (if any) have signed.
\<close>
theorem verify_p2pk_safe:
  assumes "verify_p2pk X now p = Inr ()"
  shows "\<exists>s c d. x_nut10_from_json X (p_secret p) = Some s \<and> n10_kind s = P2PK \<and>
    secret_conditions X s = Inr c \<and> c_sig_flag c = SigInputs \<and>
    pk_from_hex X (sd_data (n10_secret_data s)) = Inr d \<and>
    (let msg = str_bytes (p_secret p); sigs = Option.bind (p_witness p) witness_signatures in
      signed_by X msg sigs (d # (case c_pubkeys c of None \<Rightarrow> [] | Some ks \<Rightarrow> ks))
        (case c_num_sigs c of None \<Rightarrow> 1 | Some n \<Rightarrow> n) \<or>
      refund_ok X msg sigs c now)"
  using assms by (rule verify_p2pk_Ok)

abbreviation primary_keys :: "public_key \<Rightarrow> conditions \<Rightarrow> public_key list" where
  "primary_keys d c \<equiv> d # (case c_pubkeys c of None \<Rightarrow> [] | Some ks \<Rightarrow> ks)"

abbreviation primary_num_sigs :: "conditions \<Rightarrow> u64" where
  "primary_num_sigs c \<equiv> (case c_num_sigs c of None \<Rightarrow> 1 | Some n \<Rightarrow> n)"

lemma single_signature_counts:
  assumes "distinct ks" "k \<in> set ks" "length ks < 2 ^ 64" "is_ok (pk_verify X k msg sg)" "n \<le> 1"
  shows "\<exists>v. valid_signatures X msg ks [sg] = Inr v \<and> n \<le> v"
proof -
  have "valid_signatures X msg ks [sg] = Inr (of_nat (card (signers X msg ks [sg])))"
    by (rule valid_signatures_distinct [OF assms(1)]) auto
  moreover have "1 \<le> card (signers X msg ks [sg])"
    using assms(2,4) by (auto simp: signers_def Suc_le_eq card_gt_0_iff)
  moreover have "card (signers X msg ks [sg]) < 2 ^ 64"
  proof -
    have "card (signers X msg ks [sg]) \<le> card (set ks)" by (rule card_mono) (auto simp: signers_def)
    also have "\<dots> \<le> length ks" by (rule card_length)
    finally show ?thesis using assms(3) by simp
  qed
  ultimately show ?thesis using assms(5)
    by (auto simp: word_le_nat_alt unsigned_of_nat take_bit_nat_eq_self)
qed

lemma sk_sign_verifies: "schnorr_law X \<Longrightarrow> is_ok (pk_verify X (x_public_key X k) msg (sk_sign X k msg))"
  by (simp add: schnorr_law_def pk_verify_def sk_sign_def)

lemma p2pk_sign_path_valid:
  assumes "schnorr_law X" "sig_text_law X" "distinct ks" "x_public_key X k \<in> set ks" "length ks < 2 ^ 64" "n \<le> 1"
  shows "path_valid X msg ks n (Some [x_sig_to_string X (sk_sign X k msg)])"
proof -
  from single_signature_counts [OF assms(3,4,5) sk_sign_verifies [OF assms(1)] assms(6)]
  obtain v where "valid_signatures X msg ks [sk_sign X k msg] = Inr v" "n \<le> v" by blast
  moreover have "parse_signatures X [x_sig_to_string X (sk_sign X k msg)] = Some [sk_sign X k msg]"
    using assms(2) by (simp add: parse_signatures_def sig_text_law_def sk_sign_def)
  ultimately show ?thesis by (simp add: path_valid_def)
qed

lemma p2pk_sign_verifies:
  assumes "schnorr_law X" "sig_text_law X" "p_witness p = None"
    and "x_nut10_from_json X (p_secret p) = Some s" "n10_kind s = P2PK"
    and "secret_conditions X s = Inr c" "c_sig_flag c = SigInputs"
    and "pk_from_hex X (sd_data (n10_secret_data s)) = Inr d"
    and "distinct (primary_keys d c)" "x_public_key X k \<in> set (primary_keys d c)"
    and "length (primary_keys d c) < 2 ^ 64" "primary_num_sigs c \<le> 1"
  shows "verify_p2pk X now (proof_sign_p2pk X k p) = Inr ()"
proof -
  have "path_valid X (str_bytes (p_secret p)) (primary_keys d c) (primary_num_sigs c)
      (Some [x_sig_to_string X (sk_sign X k (str_bytes (p_secret p)))])"
    by (rule p2pk_sign_path_valid) (use assms in auto)
  then show ?thesis using assms
    by (simp add: verify_p2pk_def proof_sign_p2pk_def witness_with_signature_def
        get_pubkeys_and_required_sigs_def Let_def)
qed

text \<open>
  Completeness of P2PK: a proof signed once with \<open>sign_p2pk\<close> by the holder of the data key or
  of one of the extra keys verifies, when at most one signature is required and the keys are
  distinct, at any time.
\<close>
theorem p2pk_sign_then_verify:
  assumes "schnorr_law X" and "sig_text_law X" and "p_witness p = None"
    and "x_nut10_from_json X (p_secret p) = Some s" and "n10_kind s = P2PK"
    and "secret_conditions X s = Inr c" and "c_sig_flag c = SigInputs"
    and "pk_from_hex X (sd_data (n10_secret_data s)) = Inr d"
    and "distinct (primary_keys d c)" and "x_public_key X k \<in> set (primary_keys d c)"
    and "length (primary_keys d c) < 2 ^ 64" and "primary_num_sigs c \<le> 1"
  shows "verify_p2pk X now (proof_sign_p2pk X k p) = Inr ()"
  using assms by (rule p2pk_sign_verifies)

definition demo_proof :: cashu_proof where
  "demo_proof = new_proof 8 (Id Version00 (V1 (replicate 7 0))) (CHR ''P'' # encode (demo_pt 4)) [2]"

definition demo_secret :: nut10_secret where
  "demo_secret = \<lparr> n10_kind = P2PK, n10_secret_data = \<lparr> sd_nonce = [], sd_data = encode (demo_pt 4), sd_tags = None \<rparr> \<rparr>"

lemma demo_json_secret: "x_nut10_from_json demo_ext (p_secret demo_proof) = Some demo_secret"
  by (simp add: demo_ext_def demo_json_def demo_proof_def demo_secret_def new_proof_def)

definition demo_conditions :: conditions where
  "demo_conditions = \<lparr> c_locktime = None, c_pubkeys = None, c_refund_keys = None, c_num_sigs = None,
     c_sig_flag = SigInputs, c_num_sigs_refund = None \<rparr>"

lemma demo_secret_conditions: "secret_conditions demo_ext demo_secret = Inr demo_conditions"
  by (simp add: secret_conditions_def conditions_try_from_def conditions_of_tags_def tag_map_def
      demo_secret_def demo_conditions_def)

lemma demo_secret_key: "pk_from_hex demo_ext (sd_data (n10_secret_data demo_secret)) = Inr (x_public_key demo_ext [4])"
  by (simp add: pk_from_hex_def demo_ext_def demo_secret_def demo_sc_def demo_pt_def)

lemmas demo_p2pk_facts =
  demo_schnorr_law demo_sig_text_law demo_json_secret demo_secret_conditions demo_secret_key

theorem p2pk_sign_then_verify_witness:
  "verify_p2pk demo_ext 0 (proof_sign_p2pk demo_ext [4] demo_proof) = Inr ()"
  by (rule p2pk_sign_then_verify [OF demo_schnorr_law demo_sig_text_law _ demo_json_secret _ demo_secret_conditions _ demo_secret_key])
     (simp_all add: demo_proof_def new_proof_def demo_secret_def demo_conditions_def)

theorem verify_p2pk_safe_witness:
  "\<exists>s c d. x_nut10_from_json demo_ext (p_secret (proof_sign_p2pk demo_ext [4] demo_proof)) = Some s \<and>
     n10_kind s = P2PK \<and> secret_conditions demo_ext s = Inr c \<and> c_sig_flag c = SigInputs \<and>
     pk_from_hex demo_ext (sd_data (n10_secret_data s)) = Inr d"
proof -
  have "verify_p2pk demo_ext 0 (proof_sign_p2pk demo_ext [4] demo_proof) = Inr ()"
    by (rule p2pk_sign_verifies [OF demo_schnorr_law demo_sig_text_law _ demo_json_secret _ demo_secret_conditions _ demo_secret_key])
       (simp_all add: demo_proof_def new_proof_def demo_secret_def demo_conditions_def)
  from verify_p2pk_safe [OF this] show ?thesis by blast
qed

section \<open>HTLC\<close>

lemma htlc_signature_check_signed_by:
  "htlc_signature_check X msg ks n w = Inr () \<Longrightarrow> signed_by X msg (hw_signatures w) ks n"
  by (auto simp: htlc_signature_check_def res_simps signed_by_def split: if_splits
      dest: valid_signatures_signed_by [unfolded signed_by_def])

text \<open>The witness holds the 32-byte preimage of the hash lock of the secret.\<close>

definition preimage_shown :: "ext \<Rightarrow> htlc_witness \<Rightarrow> nut10_secret \<Rightarrow> bool" where
  "preimage_shown X w s \<longleftrightarrow> (\<exists>pre. decode (hw_preimage w) = Inr pre \<and> length pre = 32 \<and>
     x_sha_from_str X (sd_data (n10_secret_data s)) = Some (x_sha256 X pre))"

lemma verify_htlc_preimage_Ok: "verify_htlc_preimage X w s = Inr () \<longleftrightarrow> preimage_shown X w s"
  by (auto simp: verify_htlc_preimage_def preimage_data_def preimage_shown_def res_simps)

lemma verify_htlc_Ok:
  assumes "verify_htlc X now p = Inr ()"
  shows "\<exists>s c. x_nut10_from_json X (p_secret p) = Some s \<and> n10_kind s = HTLC \<and>
    secret_conditions X s = Inr c \<and> c_sig_flag c = SigInputs \<and>
    (let msg = str_bytes (p_secret p) in
      (\<exists>w. p_witness p = Some (HTLCWitness w) \<and> preimage_shown X w s \<and>
         (case c_pubkeys c of None \<Rightarrow> True | Some ks \<Rightarrow> ks = [] \<or>
            signed_by X msg (hw_signatures w) ks (case c_num_sigs c of None \<Rightarrow> 1 | Some n \<Rightarrow> n))) \<or>
      refund_ok X msg (Option.bind (p_witness p) witness_signatures) c now)"
proof -
  let ?msg = "str_bytes (p_secret p)" and ?sigs = "Option.bind (p_witness p) witness_signatures"
  from assms obtain s c req where s: "x_nut10_from_json X (p_secret p) = Some s" "n10_kind s = HTLC"
      "secret_conditions X s = Inr c" "c_sig_flag c \<noteq> SigAll"
      "get_pubkeys_and_required_sigs X s now = Inr req"
    and body: "(case p_witness p of
           Some (HTLCWitness w) \<Rightarrow>
              if is_ok (verify_htlc_preimage X w s)
              then htlc_signature_check X ?msg (sr_pubkeys req) (sr_required_sigs req) w
              else (case sr_refund_path req of
                      Some rp \<Rightarrow> htlc_signature_check X ?msg (rp_pubkeys rp) (rp_required_sigs rp) w
                    | None \<Rightarrow> verify_htlc_preimage X w s)
         | _ \<Rightarrow> (case sr_refund_path req of
                    Some rp \<Rightarrow> if rp_required_sigs rp = 0 then Inr () else Inl N14_IncorrectSecretKind
                  | None \<Rightarrow> Inl N14_IncorrectSecretKind)) = Inr ()"
    unfolding verify_htlc_def Let_def by (auto simp: res_simps split: if_splits)
  have v: "(\<exists>w. p_witness p = Some (HTLCWitness w) \<and> preimage_shown X w s \<and>
              htlc_signature_check X ?msg (sr_pubkeys req) (sr_required_sigs req) w = Inr ()) \<or>
      (\<exists>rp. sr_refund_path req = Some rp \<and> (rp_required_sigs rp = 0 \<or>
         (\<exists>w. p_witness p = Some (HTLCWitness w) \<and>
            htlc_signature_check X ?msg (rp_pubkeys rp) (rp_required_sigs rp) w = Inr ())))"
  proof (cases "\<exists>w. p_witness p = Some (HTLCWitness w)")
    case True
    then obtain w where w: "p_witness p = Some (HTLCWitness w)" by blast
    show ?thesis using body w
      by (cases "is_ok (verify_htlc_preimage X w s)") (auto simp: is_ok_iff verify_htlc_preimage_Ok split: option.splits)
  next
    case False
    then show ?thesis using body by (auto split: option.splits witness.splits if_splits)
  qed
  have flag: "c_sig_flag c = SigInputs" using s by (cases "c_sig_flag c") auto
  have req: "sr_pubkeys req = (case c_pubkeys c of None \<Rightarrow> [] | Some ks \<Rightarrow> ks)"
      "sr_required_sigs req = (if sr_pubkeys req = [] then 0 else (case c_num_sigs c of None \<Rightarrow> 1 | Some n \<Rightarrow> n))"
      "sr_refund_path req = refund_path_of c now"
    using s by (auto simp: get_pubkeys_and_required_sigs_def res_simps Let_def)
  from v show ?thesis
  proof
    assume "\<exists>w. p_witness p = Some (HTLCWitness w) \<and> preimage_shown X w s \<and>
              htlc_signature_check X ?msg (sr_pubkeys req) (sr_required_sigs req) w = Inr ()"
    then show ?thesis using s flag req
      by (fastforce simp: Let_def dest: htlc_signature_check_signed_by split: option.splits if_splits)
  next
    assume "\<exists>rp. sr_refund_path req = Some rp \<and> (rp_required_sigs rp = 0 \<or>
         (\<exists>w. p_witness p = Some (HTLCWitness w) \<and>
            htlc_signature_check X ?msg (rp_pubkeys rp) (rp_required_sigs rp) w = Inr ()))"
    then obtain rp where rp: "refund_path_of c now = Some rp"
      and sg: "rp_required_sigs rp = 0 \<or> signed_by X ?msg ?sigs (rp_pubkeys rp) (rp_required_sigs rp)"
      using req(3) by (auto dest: htlc_signature_check_signed_by)
    from refund_path_of_Some [OF rp] sg have "refund_ok X ?msg ?sigs c now" by blast
    then show ?thesis using s flag by (auto simp: Let_def)
  qed
qed

text \<open>
  C30. Safety of HTLC: a proof that verifies is an HTLC secret without the SIG_ALL flag, and either
  its witness shows the 32-byte preimage of the hash lock and carries the required signatures of
  the listed keys (none when no key is listed), or the locktime has passed and the refund keys
  (if any) have signed.
\<close>
theorem verify_htlc_safe:
  assumes "verify_htlc X now p = Inr ()"
  shows "\<exists>s c. x_nut10_from_json X (p_secret p) = Some s \<and> n10_kind s = HTLC \<and>
    secret_conditions X s = Inr c \<and> c_sig_flag c = SigInputs \<and>
    (let msg = str_bytes (p_secret p) in
      (\<exists>w. p_witness p = Some (HTLCWitness w) \<and> preimage_shown X w s \<and>
         (case c_pubkeys c of None \<Rightarrow> True | Some ks \<Rightarrow> ks = [] \<or>
            signed_by X msg (hw_signatures w) ks (case c_num_sigs c of None \<Rightarrow> 1 | Some n \<Rightarrow> n))) \<or>
      refund_ok X msg (Option.bind (p_witness p) witness_signatures) c now)"
  using assms by (rule verify_htlc_Ok)

definition demo_htlc_proof :: cashu_proof where
  "demo_htlc_proof = add_preimage (encode (replicate 32 1))
     (new_proof 8 (Id Version00 (V1 (replicate 7 0))) (CHR ''H'' # encode (demo_hash (replicate 32 1))) [2])"

theorem verify_htlc_safe_witness:
  "\<exists>s. x_nut10_from_json demo_ext (p_secret demo_htlc_proof) = Some s \<and> n10_kind s = HTLC \<and>
     preimage_shown demo_ext \<lparr> hw_preimage = encode (replicate 32 1), hw_signatures = None \<rparr> s"
proof -
  have "verify_htlc demo_ext 0 demo_htlc_proof = Inr ()"
    by (simp add: verify_htlc_def demo_htlc_proof_def add_preimage_def new_proof_def demo_ext_def demo_json_def
        secret_conditions_def conditions_try_from_def conditions_of_tags_def tag_map_def Let_def
        get_pubkeys_and_required_sigs_def refund_path_of_def locktime_passed_def
        verify_htlc_preimage_def preimage_data_def htlc_signature_check_def)
  from verify_htlc_safe [OF this] obtain s c where
    "x_nut10_from_json demo_ext (p_secret demo_htlc_proof) = Some s" "n10_kind s = HTLC"
    "secret_conditions demo_ext s = Inr c" and
    "(\<exists>w. p_witness demo_htlc_proof = Some (HTLCWitness w) \<and> preimage_shown demo_ext w s) \<or> locktime_passed c 0"
    by (auto simp: Let_def refund_ok_def)
  then show ?thesis
    by (auto simp: demo_htlc_proof_def add_preimage_def new_proof_def locktime_passed_def split: option.splits)
qed

end
