(* ===== verification/Sig_All.thy ===== *)
theory Sig_All
  imports Spending_Conditions
begin

text \<open>
  Swap and melt requests and the verification of the spending conditions of all their inputs,
  after the trait \<open>SpendingConditionVerification\<close> of \<open>crates/cashu/src/nuts/nut10.rs\<close> and its two
  implementations in \<open>nut03.rs\<close> and \<open>nut05.rs\<close>. The trait is the locale \<open>sig_all_request\<close>,
  interpreted on both kinds of request. The environment variable that selects the legacy message
  format is the argument \<open>legacy\<close>.
\<close>

type_synonym quote_id = string

record swap_request =
  sw_inputs :: "cashu_proof list"
  sw_outputs :: "blinded_message list"

record melt_request =
  mr_quote :: quote_id
  mr_inputs :: "cashu_proof list"
  mr_outputs :: "blinded_message list option"
  mr_prefer_async :: bool

section \<open>Requests\<close>

definition swap_request_new :: "cashu_proof list \<Rightarrow> blinded_message list \<Rightarrow> swap_request" where
  "swap_request_new inputs outputs = \<lparr> sw_inputs = without_dleqs inputs, sw_outputs = outputs \<rparr>"

definition swap_input_amount :: "swap_request \<Rightarrow> amount_error + u64" where
  "swap_input_amount r = try_sum (map p_amount (sw_inputs r))"

definition swap_output_amount :: "swap_request \<Rightarrow> amount_error + u64" where
  "swap_output_amount r = try_sum (map bm_amount (sw_outputs r))"

definition melt_request_new :: "quote_id \<Rightarrow> cashu_proof list \<Rightarrow> blinded_message list option \<Rightarrow> melt_request" where
  "melt_request_new quote inputs outputs =
     \<lparr> mr_quote = quote, mr_inputs = without_dleqs inputs, mr_outputs = outputs, mr_prefer_async = False \<rparr>"

definition melt_inputs_amount :: "melt_request \<Rightarrow> amount_error + u64" where
  "melt_inputs_amount r = map_err (\<lambda>_. AmountOverflow) (try_sum (map p_amount (mr_inputs r)))"

definition sig_all_inputs_msg :: "ext \<Rightarrow> bool \<Rightarrow> cashu_proof list \<Rightarrow> string" where
  "sig_all_inputs_msg X legacy ps =
     concat (map (\<lambda>p. p_secret p @ (if legacy then [] else x_pk_to_string X (p_c p))) ps)"

definition sig_all_outputs_msg :: "ext \<Rightarrow> bool \<Rightarrow> blinded_message list \<Rightarrow> string" where
  "sig_all_outputs_msg X legacy bs =
     concat (map (\<lambda>b. (if legacy then [] else amount_to_string (bm_amount b)) @ x_pk_to_string X (bm_blinded_secret b)) bs)"

definition swap_sig_all_msg :: "ext \<Rightarrow> bool \<Rightarrow> swap_request \<Rightarrow> string" where
  "swap_sig_all_msg X legacy r =
     sig_all_inputs_msg X legacy (sw_inputs r) @ sig_all_outputs_msg X legacy (sw_outputs r)"

definition melt_sig_all_msg :: "ext \<Rightarrow> bool \<Rightarrow> melt_request \<Rightarrow> string" where
  "melt_sig_all_msg X legacy r =
     sig_all_inputs_msg X legacy (mr_inputs r)
     @ (case mr_outputs r of None \<Rightarrow> [] | Some outputs \<Rightarrow> sig_all_outputs_msg X legacy outputs)
     @ mr_quote r"

fun sign_first_input :: "ext \<Rightarrow> nut11_error \<Rightarrow> secret_key \<Rightarrow> string \<Rightarrow> cashu_proof list \<Rightarrow> nut11_error + cashu_proof list" where
  "sign_first_input X e k msg [] = Inl e"
| "sign_first_input X e k msg (p # ps) =
     Inr (p\<lparr> p_witness := witness_with_signature (p_witness p) (x_sig_to_string X (sk_sign X k (str_bytes msg))) \<rparr> # ps)"

definition swap_sign_sig_all :: "ext \<Rightarrow> bool \<Rightarrow> secret_key \<Rightarrow> swap_request \<Rightarrow> nut11_error + swap_request" where
  "swap_sign_sig_all X legacy k r =
     rmap (\<lambda>ins. r\<lparr> sw_inputs := ins \<rparr>)
       (sign_first_input X N11_IncorrectSecretKind k (swap_sig_all_msg X legacy r) (sw_inputs r))"

definition melt_sign_sig_all :: "ext \<Rightarrow> bool \<Rightarrow> secret_key \<Rightarrow> melt_request \<Rightarrow> nut11_error + melt_request" where
  "melt_sign_sig_all X legacy k r =
     rmap (\<lambda>ins. r\<lparr> mr_inputs := ins \<rparr>)
       (sign_first_input X N11_SpendConditionsNotMet k (melt_sig_all_msg X legacy r) (mr_inputs r))"

section \<open>Verification of all inputs\<close>

definition sc_is_sig_all :: "spending_conditions \<Rightarrow> bool" where
  "sc_is_sig_all sc = (case sc_conditions sc of None \<Rightarrow> False | Some c \<Rightarrow> c_sig_flag c = SigAll)"

fun has_at_least_one_sig_all :: "ext \<Rightarrow> cashu_proof list \<Rightarrow> nut11_error + bool" where
  "has_at_least_one_sig_all X [] = Inr False"
| "has_at_least_one_sig_all X (p # ps) =
     (case sc_of_secret X (p_secret p) of
        Inr sc \<Rightarrow> if sc_is_sig_all sc then Inr True else has_at_least_one_sig_all X ps
      | Inl _ \<Rightarrow> if p_witness p \<noteq> None then Inl N11_IncorrectWitnessKind else has_at_least_one_sig_all X ps)"

definition nut10_of_proof :: "ext \<Rightarrow> cashu_proof \<Rightarrow> nut11_error + nut10_secret" where
  "nut10_of_proof X p = ok_or N11_IncorrectSecretKind (x_nut10_from_json X (p_secret p))"

fun remaining_inputs_match :: "ext \<Rightarrow> nut10_secret \<Rightarrow> cashu_proof list \<Rightarrow> nut11_error + unit" where
  "remaining_inputs_match X first [] = Inr ()"
| "remaining_inputs_match X first (p # ps) =
     rbind (nut10_of_proof X p) (\<lambda>s.
       if n10_kind s \<noteq> n10_kind first then Inl N11_SpendConditionsNotMet
       else if sd_data (n10_secret_data s) \<noteq> sd_data (n10_secret_data first) then Inl N11_SpendConditionsNotMet
       else if sd_tags (n10_secret_data s) \<noteq> sd_tags (n10_secret_data first) then Inl N11_SpendConditionsNotMet
       else remaining_inputs_match X first ps)"

definition verify_all_inputs_match_for_sig_all :: "ext \<Rightarrow> cashu_proof list \<Rightarrow> nut11_error + unit" where
  "verify_all_inputs_match_for_sig_all X inputs = (case inputs of
       [] \<Rightarrow> Inl N11_SpendConditionsNotMet
     | p # ps \<Rightarrow>
        rbind (nut10_of_proof X p) (\<lambda>first.
        rbind (secret_conditions X first) (\<lambda>c.
          if c_sig_flag c \<noteq> SigAll then Inl N11_SpendConditionsNotMet
          else remaining_inputs_match X first ps)))"

definition extract_signatures_from_witness :: "ext \<Rightarrow> witness \<Rightarrow> nut11_error + signature list" where
  "extract_signatures_from_witness X w =
     rbind (ok_or N11_SignaturesNotProvided (witness_signatures w)) (\<lambda>sigs.
       ok_or N11_InvalidSignature (parse_signatures X sigs))"

definition sig_all_signature_check ::
  "ext \<Rightarrow> string \<Rightarrow> public_key list \<Rightarrow> u64 \<Rightarrow> witness \<Rightarrow> nut11_error + bool"
where
  "sig_all_signature_check X msg pubkeys required_sigs w =
     rbind (extract_signatures_from_witness X w) (\<lambda>sigs.
     rbind (valid_signatures X (str_bytes msg) pubkeys sigs) (\<lambda>n_valid. Inr (n_valid \<ge> required_sigs)))"

definition verify_sig_all_p2pk :: "ext \<Rightarrow> u64 \<Rightarrow> string \<Rightarrow> cashu_proof list \<Rightarrow> nut11_error + unit" where
  "verify_sig_all_p2pk X now msg inputs = (case inputs of
       [] \<Rightarrow> Inl N11_SpendConditionsNotMet
     | p # ps \<Rightarrow>
        rbind (nut10_of_proof X p) (\<lambda>first.
        rbind (get_pubkeys_and_required_sigs X first now) (\<lambda>req.
          if (case sr_refund_path req of Some rp \<Rightarrow> rp_required_sigs rp = 0 | None \<Rightarrow> False) then Inr ()
          else rbind (ok_or N11_SignaturesNotProvided (p_witness p)) (\<lambda>w.
            if sig_all_signature_check X msg (sr_pubkeys req) (sr_required_sigs req) w = Inr True then Inr ()
            else (case sr_refund_path req of
                    Some rp \<Rightarrow> rbind (sig_all_signature_check X msg (rp_pubkeys rp) (rp_required_sigs rp) w)
                      (\<lambda>ok. if ok then Inr () else Inl N11_SpendConditionsNotMet)
                  | None \<Rightarrow> Inl N11_SpendConditionsNotMet)))))"

definition preimage_valid :: "ext \<Rightarrow> cashu_proof \<Rightarrow> nut10_secret \<Rightarrow> bool" where
  "preimage_valid X p first = (case p_witness p of
     Some (HTLCWitness w) \<Rightarrow> is_ok (verify_htlc_preimage X w first) | _ \<Rightarrow> False)"

definition verify_sig_all_htlc :: "ext \<Rightarrow> u64 \<Rightarrow> string \<Rightarrow> cashu_proof list \<Rightarrow> nut11_error + unit" where
  "verify_sig_all_htlc X now msg inputs = (case inputs of
       [] \<Rightarrow> Inl N11_SpendConditionsNotMet
     | p # ps \<Rightarrow>
        rbind (nut10_of_proof X p) (\<lambda>first.
        rbind (get_pubkeys_and_required_sigs X first now) (\<lambda>req.
          if \<not> preimage_valid X p first \<and> (case sr_refund_path req of Some rp \<Rightarrow> rp_required_sigs rp = 0 | None \<Rightarrow> False) then Inr ()
          else rbind (ok_or N11_SignaturesNotProvided (p_witness p)) (\<lambda>w.
            if preimage_valid X p first
            then (if sr_required_sigs req = 0 then Inr ()
                  else rbind (sig_all_signature_check X msg (sr_pubkeys req) (sr_required_sigs req) w)
                    (\<lambda>ok. if ok then Inr () else Inl N11_SpendConditionsNotMet))
            else (case sr_refund_path req of
                    Some rp \<Rightarrow> rbind (sig_all_signature_check X msg (rp_pubkeys rp) (rp_required_sigs rp) w)
                      (\<lambda>ok. if ok then Inr () else Inl N11_SpendConditionsNotMet)
                  | None \<Rightarrow> Inl N11_SpendConditionsNotMet)))))"

definition verify_full_sig_all_check :: "ext \<Rightarrow> u64 \<Rightarrow> string \<Rightarrow> cashu_proof list \<Rightarrow> nut11_error + unit" where
  "verify_full_sig_all_check X now msg inputs =
     rbind (verify_all_inputs_match_for_sig_all X inputs) (\<lambda>_. case inputs of
       [] \<Rightarrow> Inl N11_SpendConditionsNotMet
     | p # ps \<Rightarrow> rbind (nut10_of_proof X p) (\<lambda>first. case n10_kind first of
           P2PK \<Rightarrow> verify_sig_all_p2pk X now msg inputs
         | HTLC \<Rightarrow> verify_sig_all_htlc X now msg inputs))"

fun verify_inputs_individually :: "ext \<Rightarrow> u64 \<Rightarrow> cashu_proof list \<Rightarrow> nut14_error + unit" where
  "verify_inputs_individually X now [] = Inr ()"
| "verify_inputs_individually X now (p # ps) =
     rbind (case x_nut10_from_json X (p_secret p) of
              None \<Rightarrow> Inr ()
            | Some s \<Rightarrow> (case n10_kind s of
                P2PK \<Rightarrow> map_err N14_NUT11 (verify_p2pk X now p)
              | HTLC \<Rightarrow> verify_htlc X now p))
       (\<lambda>_. verify_inputs_individually X now ps)"

definition verify_spending_conditions :: "ext \<Rightarrow> u64 \<Rightarrow> string \<Rightarrow> cashu_proof list \<Rightarrow> nut11_error + unit" where
  "verify_spending_conditions X now msg inputs =
     rbind (has_at_least_one_sig_all X inputs) (\<lambda>b.
       if b then verify_full_sig_all_check X now msg inputs
       else map_err (\<lambda>e. case e of N14_NUT11 e' \<Rightarrow> e' | _ \<Rightarrow> N11_SpendConditionsNotMet)
              (verify_inputs_individually X now inputs))"

definition verify_swap_conditions :: "ext \<Rightarrow> bool \<Rightarrow> u64 \<Rightarrow> swap_request \<Rightarrow> nut11_error + unit" where
  "verify_swap_conditions X legacy now r =
     verify_spending_conditions X now (swap_sig_all_msg X legacy r) (sw_inputs r)"

definition verify_melt_conditions :: "ext \<Rightarrow> bool \<Rightarrow> u64 \<Rightarrow> melt_request \<Rightarrow> nut11_error + unit" where
  "verify_melt_conditions X legacy now r =
     verify_spending_conditions X now (melt_sig_all_msg X legacy r) (mr_inputs r)"

section \<open>What SIG_ALL verification establishes\<close>

definition same_conditions :: "nut10_secret \<Rightarrow> nut10_secret \<Rightarrow> bool" where
  "same_conditions s t \<longleftrightarrow> n10_kind s = n10_kind t \<and>
     sd_data (n10_secret_data s) = sd_data (n10_secret_data t) \<and>
     sd_tags (n10_secret_data s) = sd_tags (n10_secret_data t)"

lemma remaining_inputs_match_Ok:
  "remaining_inputs_match X first ps = Inr () \<longleftrightarrow>
     (\<forall>p \<in> set ps. \<exists>s. x_nut10_from_json X (p_secret p) = Some s \<and> same_conditions s first)"
  by (induction ps) (auto simp: nut10_of_proof_def res_simps same_conditions_def)

lemma sig_all_signature_check_signed_by:
  assumes "sig_all_signature_check X msg ks n w = Inr True"
  shows "signed_by X (str_bytes msg) (witness_signatures w) ks n"
proof -
  from assms obtain strs ss v where "witness_signatures w = Some strs" "parse_signatures X strs = Some ss"
    "valid_signatures X (str_bytes msg) ks ss = Inr v" "n \<le> v"
    by (auto simp: sig_all_signature_check_def extract_signatures_from_witness_def res_simps)
  then show ?thesis using valid_signatures_signed_by by metis
qed

text \<open>
  The transaction message is authorized by the first input of kind and conditions shared by all
  inputs: the primary or receiver path, or the refund path after the locktime.
\<close>

definition p2pk_authorized :: "ext \<Rightarrow> u64 \<Rightarrow> string \<Rightarrow> cashu_proof \<Rightarrow> nut10_secret \<Rightarrow> conditions \<Rightarrow> bool" where
  "p2pk_authorized X now msg p first c \<longleftrightarrow>
     (\<exists>d. pk_from_hex X (sd_data (n10_secret_data first)) = Inr d \<and>
       (signed_by X (str_bytes msg) (Option.bind (p_witness p) witness_signatures) (primary_keys d c) (primary_num_sigs c) \<or>
        refund_ok X (str_bytes msg) (Option.bind (p_witness p) witness_signatures) c now))"

definition htlc_authorized :: "ext \<Rightarrow> u64 \<Rightarrow> string \<Rightarrow> cashu_proof \<Rightarrow> nut10_secret \<Rightarrow> conditions \<Rightarrow> bool" where
  "htlc_authorized X now msg p first c \<longleftrightarrow>
     (\<exists>w. p_witness p = Some (HTLCWitness w) \<and> preimage_shown X w first \<and>
        (case c_pubkeys c of None \<Rightarrow> True | Some ks \<Rightarrow> ks = [] \<or>
           signed_by X (str_bytes msg) (hw_signatures w) ks (primary_num_sigs c))) \<or>
     refund_ok X (str_bytes msg) (Option.bind (p_witness p) witness_signatures) c now"

definition sig_all_authorized :: "ext \<Rightarrow> u64 \<Rightarrow> string \<Rightarrow> cashu_proof list \<Rightarrow> bool" where
  "sig_all_authorized X now msg inputs \<longleftrightarrow>
     (\<exists>p ps first c. inputs = p # ps \<and> x_nut10_from_json X (p_secret p) = Some first \<and>
        secret_conditions X first = Inr c \<and> c_sig_flag c = SigAll \<and>
        (\<forall>q \<in> set ps. \<exists>s. x_nut10_from_json X (p_secret q) = Some s \<and> same_conditions s first) \<and>
        (case n10_kind first of P2PK \<Rightarrow> p2pk_authorized X now msg p first c
         | HTLC \<Rightarrow> htlc_authorized X now msg p first c))"

text \<open>
  What the inputs of a transaction ask for, apart from how they are verified: an input asks for
  SIG_ALL when its conditions have that flag; any other input with conditions is spent by a witness
  over its own secret.
\<close>

definition asks_sig_all :: "ext \<Rightarrow> cashu_proof \<Rightarrow> bool" where
  "asks_sig_all X p \<longleftrightarrow> (\<exists>s c. x_nut10_from_json X (p_secret p) = Some s \<and> secret_conditions X s = Inr c \<and> c_sig_flag c = SigAll)"

definition individually_authorized :: "ext \<Rightarrow> u64 \<Rightarrow> cashu_proof \<Rightarrow> bool" where
  "individually_authorized X now p \<longleftrightarrow> (\<forall>s. x_nut10_from_json X (p_secret p) = Some s \<longrightarrow>
     (\<exists>c. secret_conditions X s = Inr c \<and> (case n10_kind s of P2PK \<Rightarrow> p2pk_authorized X now (p_secret p) p s c
         | HTLC \<Rightarrow> htlc_authorized X now (p_secret p) p s c)))"

definition spend_authorized :: "ext \<Rightarrow> u64 \<Rightarrow> string \<Rightarrow> cashu_proof list \<Rightarrow> bool" where
  "spend_authorized X now msg inputs \<longleftrightarrow>
     (if \<exists>p \<in> set inputs. asks_sig_all X p then sig_all_authorized X now msg inputs
      else \<forall>p \<in> set inputs. individually_authorized X now p)"

text \<open>
  The text of a transaction: the secret and the signature point of every input, the amount and the
  blinded secret of every output, and the quote of a melt; the legacy text has neither the points nor
  the amounts.
\<close>

definition transaction_text :: "ext \<Rightarrow> bool \<Rightarrow> cashu_proof list \<Rightarrow> blinded_message list \<Rightarrow> string \<Rightarrow> string" where
  "transaction_text X legacy ins outs quote = concat
     (if legacy then map p_secret ins @ map (\<lambda>b. x_pk_to_string X (bm_blinded_secret b)) outs @ [quote]
      else map (\<lambda>p. p_secret p @ x_pk_to_string X (p_c p)) ins @
           map (\<lambda>b. amount_to_string (bm_amount b) @ x_pk_to_string X (bm_blinded_secret b)) outs @ [quote])"

lemma requirements_P2PK:
  assumes "get_pubkeys_and_required_sigs X s now = Inr req" "n10_kind s = P2PK" "secret_conditions X s = Inr c"
  shows "\<exists>d. pk_from_hex X (sd_data (n10_secret_data s)) = Inr d \<and> sr_pubkeys req = primary_keys d c \<and>
    sr_required_sigs req = primary_num_sigs c \<and> sr_refund_path req = refund_path_of c now"
  using assms by (auto simp: get_pubkeys_and_required_sigs_def res_simps)

lemma requirements_HTLC:
  assumes "get_pubkeys_and_required_sigs X s now = Inr req" "n10_kind s = HTLC" "secret_conditions X s = Inr c"
  shows "sr_pubkeys req = (case c_pubkeys c of None \<Rightarrow> [] | Some ks \<Rightarrow> ks) \<and>
    sr_required_sigs req = (if sr_pubkeys req = [] then 0 else primary_num_sigs c) \<and>
    sr_refund_path req = refund_path_of c now"
  using assms by (auto simp: get_pubkeys_and_required_sigs_def res_simps Let_def)

lemma refund_pathI:
  assumes "refund_path_of c now = Some rp"
    and "rp_required_sigs rp = 0 \<or> signed_by X m sigs (rp_pubkeys rp) (rp_required_sigs rp)"
  shows "refund_ok X m sigs c now"
  using refund_path_of_Some [OF assms(1)] assms(2) by blast

lemma verify_sig_all_p2pk_safe:
  assumes v: "verify_sig_all_p2pk X now msg (p # ps) = Inr ()"
    and s: "x_nut10_from_json X (p_secret p) = Some first" "n10_kind first = P2PK" "secret_conditions X first = Inr c"
  shows "p2pk_authorized X now msg p first c"
proof -
  from v s obtain req where req: "get_pubkeys_and_required_sigs X first now = Inr req"
    and body: "(\<exists>rp. sr_refund_path req = Some rp \<and> rp_required_sigs rp = 0) \<or>
      (\<exists>w. p_witness p = Some w \<and> (sig_all_signature_check X msg (sr_pubkeys req) (sr_required_sigs req) w = Inr True \<or>
         (\<exists>rp. sr_refund_path req = Some rp \<and> sig_all_signature_check X msg (rp_pubkeys rp) (rp_required_sigs rp) w = Inr True)))"
    by (auto simp: verify_sig_all_p2pk_def nut10_of_proof_def res_simps split: if_splits option.splits)
  from requirements_P2PK [OF req s(2,3)] obtain d where d: "pk_from_hex X (sd_data (n10_secret_data first)) = Inr d"
    "sr_pubkeys req = primary_keys d c" "sr_required_sigs req = primary_num_sigs c" "sr_refund_path req = refund_path_of c now"
    by blast
  show ?thesis unfolding p2pk_authorized_def
    using body d by (auto intro: refund_pathI dest!: sig_all_signature_check_signed_by)
qed

lemma verify_sig_all_htlc_safe:
  assumes v: "verify_sig_all_htlc X now msg (p # ps) = Inr ()"
    and s: "x_nut10_from_json X (p_secret p) = Some first" "n10_kind first = HTLC" "secret_conditions X first = Inr c"
  shows "htlc_authorized X now msg p first c"
proof -
  have pv_iff: "preimage_valid X p first \<longleftrightarrow> (\<exists>w. p_witness p = Some (HTLCWitness w) \<and> preimage_shown X w first)"
    by (auto simp: preimage_valid_def is_ok_iff verify_htlc_preimage_Ok split: option.splits witness.splits)
  from v s obtain req where req: "get_pubkeys_and_required_sigs X first now = Inr req"
    and body: "(\<exists>rp. sr_refund_path req = Some rp \<and> rp_required_sigs rp = 0) \<or>
      (\<exists>w. p_witness p = Some w \<and>
        (preimage_valid X p first \<and> (sr_required_sigs req = 0 \<or> sig_all_signature_check X msg (sr_pubkeys req) (sr_required_sigs req) w = Inr True) \<or>
         (\<exists>rp. sr_refund_path req = Some rp \<and> sig_all_signature_check X msg (rp_pubkeys rp) (rp_required_sigs rp) w = Inr True)))"
    by (auto simp: verify_sig_all_htlc_def nut10_of_proof_def res_simps split: if_splits option.splits)
  note r = requirements_HTLC [OF req s(2,3)]
  from body consider (refund) rp where "refund_path_of c now = Some rp"
      "rp_required_sigs rp = 0 \<or> signed_by X (str_bytes msg) (Option.bind (p_witness p) witness_signatures) (rp_pubkeys rp) (rp_required_sigs rp)"
    | (receiver) w where "p_witness p = Some (HTLCWitness w)" "preimage_shown X w first"
      "sr_required_sigs req = 0 \<or> signed_by X (str_bytes msg) (hw_signatures w) (sr_pubkeys req) (sr_required_sigs req)"
    using r by (auto simp: pv_iff dest!: sig_all_signature_check_signed_by)
  then show ?thesis
  proof cases
    case refund
    then show ?thesis unfolding htlc_authorized_def using refund_pathI by blast
  next
    case receiver
    have "case c_pubkeys c of None \<Rightarrow> True | Some ks \<Rightarrow> ks = [] \<or>
        signed_by X (str_bytes msg) (hw_signatures w) ks (primary_num_sigs c)"
      using r receiver(3) by (auto simp: signed_by_def split: option.splits if_splits)
    then show ?thesis unfolding htlc_authorized_def using receiver(1,2) by blast
  qed
qed

lemma verify_full_sig_all_check_safe:
  assumes "verify_full_sig_all_check X now msg inputs = Inr ()"
  shows "sig_all_authorized X now msg inputs"
proof -
  from assms obtain p ps first c where *: "inputs = p # ps" "x_nut10_from_json X (p_secret p) = Some first"
      "secret_conditions X first = Inr c" "c_sig_flag c = SigAll" "remaining_inputs_match X first ps = Inr ()"
    and k: "(case n10_kind first of P2PK \<Rightarrow> verify_sig_all_p2pk X now msg inputs
         | HTLC \<Rightarrow> verify_sig_all_htlc X now msg inputs) = Inr ()"
    by (auto simp: verify_full_sig_all_check_def verify_all_inputs_match_for_sig_all_def nut10_of_proof_def res_simps
        split: list.splits if_splits)
  show ?thesis
  proof (cases "n10_kind first")
    case P2PK
    with k * have "p2pk_authorized X now msg p first c" using verify_sig_all_p2pk_safe by simp
    with P2PK * show ?thesis by (auto simp: sig_all_authorized_def remaining_inputs_match_Ok)
  next
    case HTLC
    with k * have "htlc_authorized X now msg p first c" using verify_sig_all_htlc_safe by simp
    with HTLC * show ?thesis by (auto simp: sig_all_authorized_def remaining_inputs_match_Ok)
  qed
qed

lemma verify_inputs_individually_Ok:
  "verify_inputs_individually X now ps = Inr () \<longleftrightarrow>
     (\<forall>p \<in> set ps. \<forall>s. x_nut10_from_json X (p_secret p) = Some s \<longrightarrow>
        (case n10_kind s of P2PK \<Rightarrow> verify_p2pk X now p = Inr () | HTLC \<Rightarrow> verify_htlc X now p = Inr ()))"
  by (induction ps) (auto simp: res_simps split: option.splits kind.splits)

lemma individually_verified:
  assumes "x_nut10_from_json X (p_secret p) = Some s"
    and "case n10_kind s of P2PK \<Rightarrow> verify_p2pk X now p = Inr () | HTLC \<Rightarrow> verify_htlc X now p = Inr ()"
  shows "individually_authorized X now p" "\<not> asks_sig_all X p"
proof -
  have "\<exists>c. secret_conditions X s = Inr c \<and> c_sig_flag c = SigInputs \<and> (case n10_kind s of
      P2PK \<Rightarrow> p2pk_authorized X now (p_secret p) p s c | HTLC \<Rightarrow> htlc_authorized X now (p_secret p) p s c)"
  proof (cases "n10_kind s")
    case P2PK
    with assms verify_p2pk_Ok [of X now p] show ?thesis by (auto simp: p2pk_authorized_def Let_def)
  next
    case HTLC
    with assms verify_htlc_Ok [of X now p] show ?thesis by (auto simp: htlc_authorized_def Let_def)
  qed
  with assms(1) show "individually_authorized X now p" "\<not> asks_sig_all X p"
    by (auto simp: individually_authorized_def asks_sig_all_def)
qed

lemma verify_spending_conditions_safe:
  assumes "verify_spending_conditions X now msg inputs = Inr ()"
  shows "spend_authorized X now msg inputs"
proof (cases "has_at_least_one_sig_all X inputs = Inr True")
  case True
  with assms have "sig_all_authorized X now msg inputs"
    by (simp add: verify_spending_conditions_def verify_full_sig_all_check_safe)
  moreover from this have "\<exists>p \<in> set inputs. asks_sig_all X p" by (auto simp: sig_all_authorized_def asks_sig_all_def)
  ultimately show ?thesis by (simp add: spend_authorized_def)
next
  case False
  with assms have v: "\<forall>p \<in> set inputs. \<forall>s. x_nut10_from_json X (p_secret p) = Some s \<longrightarrow>
      (case n10_kind s of P2PK \<Rightarrow> verify_p2pk X now p = Inr () | HTLC \<Rightarrow> verify_htlc X now p = Inr ())"
    by (auto simp: verify_spending_conditions_def res_simps verify_inputs_individually_Ok split: if_splits)
  have "individually_authorized X now p \<and> \<not> asks_sig_all X p" if "p \<in> set inputs" for p
  proof (cases "x_nut10_from_json X (p_secret p)")
    case None
    then show ?thesis by (simp add: individually_authorized_def asks_sig_all_def)
  next
    case (Some s)
    with v that show ?thesis using individually_verified [OF Some] by blast
  qed
  then show ?thesis by (auto simp: spend_authorized_def)
qed

lemma sig_all_msg_text:
  "swap_sig_all_msg X legacy sw = transaction_text X legacy (sw_inputs sw) (sw_outputs sw) []"
  "melt_sig_all_msg X legacy mr = transaction_text X legacy (mr_inputs mr) (case mr_outputs mr of None \<Rightarrow> [] | Some outs \<Rightarrow> outs) (mr_quote mr)"
  by (simp_all add: swap_sig_all_msg_def melt_sig_all_msg_def transaction_text_def sig_all_inputs_msg_def sig_all_outputs_msg_def
      split: option.split)

text \<open>
  C31. The verification of a swap or melt request: when it succeeds and an input asks for SIG_ALL, all
  inputs share the kind, data and tags of the first one, which asks for SIG_ALL, and the text of the
  whole transaction (all inputs, all outputs, and the quote of a melt) is authorized by the witness of
  the first input. When it succeeds and no input asks for SIG_ALL, every input with spending conditions
  is authorized over its own secret by its own witness. Authorized means, for P2PK, signed by the
  required number of the data key and the extra keys, for HTLC, that the witness shows the preimage and
  the required number of the listed keys have signed, or for both that the locktime has passed and the
  refund keys, if any, have signed.
\<close>
theorem spending_conditions_safe:
  "(verify_swap_conditions X legacy now sw = Inr () \<longrightarrow>
     spend_authorized X now (transaction_text X legacy (sw_inputs sw) (sw_outputs sw) []) (sw_inputs sw)) \<and>
   (verify_melt_conditions X legacy now mr = Inr () \<longrightarrow>
     spend_authorized X now (transaction_text X legacy (mr_inputs mr) (case mr_outputs mr of None \<Rightarrow> [] | Some outs \<Rightarrow> outs) (mr_quote mr)) (mr_inputs mr))"
  using verify_spending_conditions_safe
  by (simp add: verify_swap_conditions_def verify_melt_conditions_def sig_all_msg_text)

section \<open>Signing a whole request\<close>

lemma sig_all_first_input:
  assumes "x_nut10_from_json X (p_secret p) = Some s" "n10_kind s = P2PK"
    and "secret_conditions X s = Inr c" "c_sig_flag c = SigAll"
    and "pk_from_hex X (sd_data (n10_secret_data s)) = Inr d"
  shows "has_at_least_one_sig_all X (p # ps) = Inr True"
proof -
  have "sd_tags (n10_secret_data s) \<noteq> None"
  proof
    assume "sd_tags (n10_secret_data s) = None"
    with assms(3) have "c = conditions_of_tags []" by (simp add: secret_conditions_def conditions_try_from_def)
    with assms(4) show False by (simp add: conditions_of_tags_def tag_map_def)
  qed
  with assms have "sc_of_secret X (p_secret p) = Inr (P2PKConditions d (Some c))"
    by (auto simp: sc_of_secret_def sc_of_nut10_def secret_tags_conditions_def secret_conditions_def)
  with assms show ?thesis by (simp add: sc_is_sig_all_def)
qed

lemma sig_all_check_signed:
  assumes "schnorr_law X" "sig_text_law X" "distinct ks" "x_public_key X k \<in> set ks" "length ks < 2 ^ 64" "n \<le> 1"
  shows "sig_all_signature_check X msg ks n (P2PKWitness [x_sig_to_string X (sk_sign X k (str_bytes msg))]) = Inr True"
proof -
  from single_signature_counts [OF assms(3,4,5) sk_sign_verifies [OF assms(1)] assms(6)]
  obtain v where "valid_signatures X (str_bytes msg) ks [sk_sign X k (str_bytes msg)] = Inr v" "n \<le> v" by blast
  moreover have "parse_signatures X [x_sig_to_string X (sk_sign X k (str_bytes msg))] = Some [sk_sign X k (str_bytes msg)]"
    using assms(2) by (simp add: parse_signatures_def sig_text_law_def sk_sign_def)
  ultimately show ?thesis by (simp add: sig_all_signature_check_def extract_signatures_from_witness_def)
qed

text \<open>
  The interface of a request: its inputs can be replaced, and the message to sign does not depend
  on the witnesses of the inputs. What follows holds for every such request.
\<close>

definition no_witness :: "cashu_proof \<Rightarrow> cashu_proof" where
  "no_witness p = p\<lparr> p_witness := None \<rparr>"

lemma no_witness_simps [simp]: "p_secret (no_witness p) = p_secret p" "p_c (no_witness p) = p_c p"
  by (simp_all add: no_witness_def)

locale sig_all_request =
  fixes inputs :: "'r \<Rightarrow> cashu_proof list"
    and with_inputs :: "cashu_proof list \<Rightarrow> 'r \<Rightarrow> 'r"
    and msg_to_sign :: "ext \<Rightarrow> bool \<Rightarrow> 'r \<Rightarrow> string"
  assumes inputs_with: "inputs (with_inputs ps r) = ps"
    and msg_with: "map no_witness ps = map no_witness (inputs r) \<Longrightarrow> msg_to_sign X legacy (with_inputs ps r) = msg_to_sign X legacy r"
begin

lemma signed_request_verifies:
  assumes laws: "schnorr_law X" "sig_text_law X"
    and ins: "inputs r = p # ps" "p_witness p = None"
    and s: "x_nut10_from_json X (p_secret p) = Some s" "n10_kind s = P2PK" "secret_conditions X s = Inr c"
      "c_sig_flag c = SigAll" "pk_from_hex X (sd_data (n10_secret_data s)) = Inr d"
    and keys: "distinct (primary_keys d c)" "x_public_key X k \<in> set (primary_keys d c)"
      "length (primary_keys d c) < 2 ^ 64" "primary_num_sigs c \<le> 1"
    and rest: "\<And>q. q \<in> set ps \<Longrightarrow> \<exists>t. x_nut10_from_json X (p_secret q) = Some t \<and> same_conditions t s"
    and signed: "sign_first_input X e k (msg_to_sign X legacy r) (inputs r) = Inr ins'"
  shows "verify_spending_conditions X now (msg_to_sign X legacy (with_inputs ins' r)) (inputs (with_inputs ins' r)) = Inr ()"
proof -
  let ?msg = "msg_to_sign X legacy r"
  let ?w = "P2PKWitness [x_sig_to_string X (sk_sign X k (str_bytes ?msg))]"
  have ins': "ins' = p\<lparr> p_witness := Some ?w \<rparr> # ps"
    using signed ins by (auto simp: witness_with_signature_def)
  then have "map no_witness ins' = map no_witness (inputs r)" using ins by (simp add: no_witness_def)
  then have msg: "msg_to_sign X legacy (with_inputs ins' r) = ?msg" by (rule msg_with)
  have sig_all: "has_at_least_one_sig_all X ins' = Inr True"
    unfolding ins' by (rule sig_all_first_input) (use s in auto)
  have chk: "sig_all_signature_check X ?msg (primary_keys d c) (primary_num_sigs c) ?w = Inr True"
    by (rule sig_all_check_signed [OF laws keys])
  have "verify_all_inputs_match_for_sig_all X ins' = Inr ()"
    using s rest by (simp add: ins' verify_all_inputs_match_for_sig_all_def nut10_of_proof_def remaining_inputs_match_Ok)
  moreover have "verify_sig_all_p2pk X now ?msg ins' = Inr ()"
    using s chk by (simp add: ins' verify_sig_all_p2pk_def nut10_of_proof_def get_pubkeys_and_required_sigs_def)
  ultimately have "verify_full_sig_all_check X now ?msg ins' = Inr ()"
    using s by (simp add: ins' verify_full_sig_all_check_def nut10_of_proof_def)
  then show ?thesis using sig_all msg inputs_with by (simp add: verify_spending_conditions_def)
qed

end

lemma sig_all_inputs_msg_no_witness:
  "map no_witness ps = map no_witness qs \<Longrightarrow> sig_all_inputs_msg X legacy ps = sig_all_inputs_msg X legacy qs"
proof -
  assume eq: "map no_witness ps = map no_witness qs"
  have "sig_all_inputs_msg X legacy rs = sig_all_inputs_msg X legacy (map no_witness rs)" for rs
    by (simp add: sig_all_inputs_msg_def comp_def cong: if_cong)
  with eq show ?thesis by metis
qed

interpretation swap_req: sig_all_request sw_inputs "\<lambda>ins r. r\<lparr> sw_inputs := ins \<rparr>" swap_sig_all_msg
  by unfold_locales (simp, simp add: swap_sig_all_msg_def, erule sig_all_inputs_msg_no_witness)

interpretation melt_req: sig_all_request mr_inputs "\<lambda>ins r. r\<lparr> mr_inputs := ins \<rparr>" melt_sig_all_msg
  by unfold_locales (simp, simp add: melt_sig_all_msg_def, erule sig_all_inputs_msg_no_witness)

lemma swap_sign_sig_all_ok:
  assumes "schnorr_law X" and "sig_text_law X"
    and "sw_inputs r = p # ps" and "p_witness p = None"
    and "x_nut10_from_json X (p_secret p) = Some s" and "n10_kind s = P2PK" and "secret_conditions X s = Inr c"
    and "c_sig_flag c = SigAll" and "pk_from_hex X (sd_data (n10_secret_data s)) = Inr d"
    and "distinct (primary_keys d c)" and "x_public_key X k \<in> set (primary_keys d c)"
    and "length (primary_keys d c) < 2 ^ 64" and "primary_num_sigs c \<le> 1"
    and "\<And>q. q \<in> set ps \<Longrightarrow> \<exists>t. x_nut10_from_json X (p_secret q) = Some t \<and> same_conditions t s"
  shows "\<exists>r'. swap_sign_sig_all X legacy k r = Inr r' \<and> sw_outputs r' = sw_outputs r \<and>
    verify_swap_conditions X legacy now r' = Inr ()"
proof -
  obtain ins' where ins': "sign_first_input X N11_IncorrectSecretKind k (swap_sig_all_msg X legacy r) (sw_inputs r) = Inr ins'"
    using assms(3) by simp
  have "verify_spending_conditions X now (swap_sig_all_msg X legacy (r\<lparr> sw_inputs := ins' \<rparr>))
      (sw_inputs (r\<lparr> sw_inputs := ins' \<rparr>)) = Inr ()"
    by (rule swap_req.signed_request_verifies [OF assms(1-13) assms(14) ins'])
  then show ?thesis using ins' by (simp add: swap_sign_sig_all_def verify_swap_conditions_def)
qed

text \<open>
  C32. A swap request whose inputs share one SIG_ALL P2PK condition, signed once with
  \<open>sign_sig_all\<close> by the holder of the data key or an extra key, passes the verification of its
  spending conditions when at most one signature is required and the keys are distinct.
\<close>
theorem swap_sign_sig_all_verifies:
  assumes "schnorr_law X" and "sig_text_law X"
    and "sw_inputs r = p # ps" and "p_witness p = None"
    and "x_nut10_from_json X (p_secret p) = Some s" and "n10_kind s = P2PK" and "secret_conditions X s = Inr c"
    and "c_sig_flag c = SigAll" and "pk_from_hex X (sd_data (n10_secret_data s)) = Inr d"
    and "distinct (primary_keys d c)" and "x_public_key X k \<in> set (primary_keys d c)"
    and "length (primary_keys d c) < 2 ^ 64" and "primary_num_sigs c \<le> 1"
    and "\<And>q. q \<in> set ps \<Longrightarrow> \<exists>t. x_nut10_from_json X (p_secret q) = Some t \<and> same_conditions t s"
  shows "\<exists>r'. swap_sign_sig_all X legacy k r = Inr r' \<and> sw_outputs r' = sw_outputs r \<and>
    verify_swap_conditions X legacy now r' = Inr ()"
  using assms by (rule swap_sign_sig_all_ok)

definition demo_sig_all_proof :: cashu_proof where
  "demo_sig_all_proof = new_proof 8 (Id Version00 (V1 (replicate 7 0))) (CHR ''A'' # encode (demo_pt 4)) [2]"

definition demo_sig_all_secret :: nut10_secret where
  "demo_sig_all_secret = \<lparr> n10_kind = P2PK, n10_secret_data =
     \<lparr> sd_nonce = [], sd_data = encode (demo_pt 4), sd_tags = Some [[''sigflag'', ''SIG_ALL'']] \<rparr> \<rparr>"

definition demo_swap :: swap_request where
  "demo_swap = \<lparr> sw_inputs = [demo_sig_all_proof], sw_outputs = [] \<rparr>"

lemma demo_sig_all_json: "x_nut10_from_json demo_ext (p_secret demo_sig_all_proof) = Some demo_sig_all_secret"
  by (simp add: demo_ext_def demo_json_def demo_sig_all_proof_def demo_sig_all_secret_def new_proof_def)

lemma demo_sig_all_conditions:
  "secret_conditions demo_ext demo_sig_all_secret = Inr (demo_conditions\<lparr> c_sig_flag := SigAll \<rparr>)"
  by (simp add: secret_conditions_def conditions_try_from_def conditions_of_tags_def tag_map_def
      demo_sig_all_secret_def demo_conditions_def tag_try_from_def tag_value_def sig_flag_from_str_def)

lemma demo_sig_all_key:
  "pk_from_hex demo_ext (sd_data (n10_secret_data demo_sig_all_secret)) = Inr (x_public_key demo_ext [4])"
  by (simp add: pk_from_hex_def demo_ext_def demo_sig_all_secret_def demo_sc_def demo_pt_def)

lemmas demo_sig_all_facts = demo_sig_all_json demo_sig_all_conditions demo_sig_all_key

lemma demo_swap_shape:
  "sw_inputs demo_swap = demo_sig_all_proof # []" "p_witness demo_sig_all_proof = None"
  "n10_kind demo_sig_all_secret = P2PK" "c_sig_flag (demo_conditions\<lparr> c_sig_flag := SigAll \<rparr>) = SigAll"
  "c_pubkeys (demo_conditions\<lparr> c_sig_flag := SigAll \<rparr>) = None" "c_num_sigs (demo_conditions\<lparr> c_sig_flag := SigAll \<rparr>) = None"
  by (simp_all add: demo_swap_def demo_sig_all_proof_def new_proof_def demo_sig_all_secret_def demo_conditions_def)

theorem swap_sign_sig_all_verifies_witness:
  "\<exists>r'. swap_sign_sig_all demo_ext False [4] demo_swap = Inr r' \<and> sw_outputs r' = sw_outputs demo_swap \<and>
     verify_swap_conditions demo_ext False 0 r' = Inr ()"
  by (rule swap_sign_sig_all_verifies [OF demo_schnorr_law demo_sig_text_law demo_swap_shape(1,2) demo_sig_all_json
        demo_swap_shape(3) demo_sig_all_conditions demo_swap_shape(4) demo_sig_all_key])
     (auto simp: demo_swap_shape)

theorem spending_conditions_safe_witness:
  "\<exists>r'. swap_sign_sig_all demo_ext False [4] demo_swap = Inr r' \<and>
      spend_authorized demo_ext 0 (transaction_text demo_ext False (sw_inputs r') (sw_outputs r') []) (sw_inputs r')"
proof -
  have "\<exists>r'. swap_sign_sig_all demo_ext False [4] demo_swap = Inr r' \<and> sw_outputs r' = sw_outputs demo_swap \<and>
     verify_swap_conditions demo_ext False 0 r' = Inr ()"
    by (rule swap_sign_sig_all_ok [OF demo_schnorr_law demo_sig_text_law demo_swap_shape(1,2) demo_sig_all_json
          demo_swap_shape(3) demo_sig_all_conditions demo_swap_shape(4) demo_sig_all_key])
       (auto simp: demo_swap_shape)
  then obtain r' where "swap_sign_sig_all demo_ext False [4] demo_swap = Inr r'"
    "verify_swap_conditions demo_ext False 0 r' = Inr ()" by blast
  then show ?thesis using spending_conditions_safe by blast
qed

end
