(* ===== verification/Proof_State.thy ===== *)
theory Proof_State
  imports CDK_Prelude
begin

text \<open>
  States of proofs and quotes and their transition rules: \<open>State\<close> of \<open>cashu/src/nuts/nut07.rs\<close>,
  \<open>QuoteState\<close> of \<open>nut05.rs\<close>, the mint quote state of \<open>nut23.rs\<close>, and the two transition checks of
  \<open>crates/cdk-common/src/state.rs\<close>. The checks induce step relations, whose reachable states are
  characterised.
\<close>

section \<open>States\<close>

datatype proof_state = Spent | Unspent | Pending | Reserved | PendingSpent

datatype melt_quote_state = MQ_Unpaid | MQ_Paid | MQ_Pending | MQ_Unknown | MQ_Failed

datatype mint_quote_state = NQ_Unpaid | NQ_Paid | NQ_Issued

fun proof_state_display :: "proof_state \<Rightarrow> string" where
  "proof_state_display Spent = ''SPENT''"
| "proof_state_display Unspent = ''UNSPENT''"
| "proof_state_display Pending = ''PENDING''"
| "proof_state_display Reserved = ''RESERVED''"
| "proof_state_display PendingSpent = ''PENDING_SPENT''"

definition proof_state_from_str :: "string \<Rightarrow> proof_state option" where
  "proof_state_from_str s =
     (if s = ''SPENT'' then Some Spent
      else if s = ''UNSPENT'' then Some Unspent
      else if s = ''PENDING'' then Some Pending
      else if s = ''RESERVED'' then Some Reserved
      else if s = ''PENDING_SPENT'' then Some PendingSpent
      else None)"

fun melt_quote_state_display :: "melt_quote_state \<Rightarrow> string" where
  "melt_quote_state_display MQ_Unpaid = ''UNPAID''"
| "melt_quote_state_display MQ_Paid = ''PAID''"
| "melt_quote_state_display MQ_Pending = ''PENDING''"
| "melt_quote_state_display MQ_Unknown = ''UNKNOWN''"
| "melt_quote_state_display MQ_Failed = ''FAILED''"

definition melt_quote_state_from_str :: "string \<Rightarrow> melt_quote_state option" where
  "melt_quote_state_from_str s =
     (if s = ''PENDING'' then Some MQ_Pending
      else if s = ''PAID'' then Some MQ_Paid
      else if s = ''UNPAID'' then Some MQ_Unpaid
      else if s = ''UNKNOWN'' then Some MQ_Unknown
      else if s = ''FAILED'' then Some MQ_Failed
      else None)"

lemma proof_state_roundtrip: "proof_state_from_str (proof_state_display s) = Some s"
  by (cases s) (simp_all add: proof_state_from_str_def)

lemma melt_quote_state_roundtrip: "melt_quote_state_from_str (melt_quote_state_display s) = Some s"
  by (cases s) (simp_all add: melt_quote_state_from_str_def)

section \<open>Transition checks\<close>

datatype state_error =
    SE_Pending
  | SE_AlreadySpent
  | SE_InvalidTransition proof_state proof_state
  | SE_AlreadyPaid
  | SE_InvalidMeltQuoteTransition melt_quote_state melt_quote_state

definition check_state_transition :: "proof_state \<Rightarrow> proof_state \<Rightarrow> state_error + unit" where
  "check_state_transition current new =
     (let valid = (case current of
            Unspent \<Rightarrow> new = Pending \<or> new = Spent
          | Pending \<Rightarrow> new = Unspent \<or> new = Spent
          | _ \<Rightarrow> False)
      in if \<not> valid then Inl (case current of
             Pending \<Rightarrow> SE_Pending | Spent \<Rightarrow> SE_AlreadySpent | _ \<Rightarrow> SE_InvalidTransition current new)
         else Inr ())"

definition check_melt_quote_state_transition :: "melt_quote_state \<Rightarrow> melt_quote_state \<Rightarrow> state_error + unit" where
  "check_melt_quote_state_transition current new =
     (let valid = (case current of
            MQ_Unpaid \<Rightarrow> new = MQ_Pending \<or> new = MQ_Failed
          | MQ_Pending \<Rightarrow> new = MQ_Unpaid \<or> new = MQ_Paid \<or> new = MQ_Failed
          | MQ_Failed \<Rightarrow> new = MQ_Pending \<or> new = MQ_Unpaid
          | MQ_Paid \<Rightarrow> False
          | MQ_Unknown \<Rightarrow> True)
      in if \<not> valid then Inl (case current of
             MQ_Pending \<Rightarrow> SE_Pending | MQ_Paid \<Rightarrow> SE_AlreadyPaid | _ \<Rightarrow> SE_InvalidMeltQuoteTransition current new)
         else Inr ())"

section \<open>Step relations\<close>

inductive proof_step :: "proof_state \<Rightarrow> proof_state \<Rightarrow> bool" where
  "check_state_transition s t = Inr () \<Longrightarrow> proof_step s t"

inductive melt_step :: "melt_quote_state \<Rightarrow> melt_quote_state \<Rightarrow> bool" where
  "check_melt_quote_state_transition s t = Inr () \<Longrightarrow> melt_step s t"

inductive_simps proof_step_simps: "proof_step s t"
inductive_simps melt_step_simps: "melt_step s t"

lemma check_state_transition_Ok [res_simps]:
  "check_state_transition s t = Inr u \<longleftrightarrow> (s, t) \<in> {(Unspent, Pending), (Unspent, Spent), (Pending, Unspent), (Pending, Spent)}"
  by (cases s; cases t) (auto simp: check_state_transition_def)

lemma check_melt_quote_state_transition_Ok [res_simps]:
  "check_melt_quote_state_transition s t = Inr u \<longleftrightarrow>
     (s, t) \<in> {(MQ_Unpaid, MQ_Pending), (MQ_Unpaid, MQ_Failed), (MQ_Pending, MQ_Unpaid), (MQ_Pending, MQ_Paid),
       (MQ_Pending, MQ_Failed), (MQ_Failed, MQ_Pending), (MQ_Failed, MQ_Unpaid)} \<or> s = MQ_Unknown"
  by (cases s; cases t) (auto simp: check_melt_quote_state_transition_def)

lemma proof_step_reachable:
  "proof_step\<^sup>*\<^sup>* s t \<Longrightarrow> s \<in> {Unspent, Pending} \<Longrightarrow> t \<in> {Unspent, Pending, Spent}"
  by (induction rule: rtranclp_induct) (auto simp: proof_step_simps check_state_transition_Ok)

lemma proof_step_final: "proof_step\<^sup>*\<^sup>* s t \<Longrightarrow> s \<in> {Spent, Reserved, PendingSpent} \<Longrightarrow> t = s"
  by (induction rule: rtranclp_induct) (auto simp: proof_step_simps check_state_transition_Ok)

text \<open>
  C33. Spent is final: no sequence of allowed transitions leaves Spent, and from Unspent or Pending
  only Unspent, Pending and Spent can be reached (the wallet states never are). The rejected
  attempt on a spent proof is reported as \<open>AlreadySpent\<close>.
\<close>
theorem proof_state_machine:
  "(proof_step\<^sup>*\<^sup>* Spent t \<longleftrightarrow> t = Spent) \<and>
   (proof_step\<^sup>*\<^sup>* Unspent t \<longleftrightarrow> t \<in> {Unspent, Pending, Spent}) \<and>
   check_state_transition Spent new = Inl SE_AlreadySpent"
proof (intro conjI)
  show "proof_step\<^sup>*\<^sup>* Spent t \<longleftrightarrow> t = Spent" using proof_step_final by blast
  have "proof_step Unspent Pending" "proof_step Unspent Spent"
    by (simp_all add: proof_step_simps check_state_transition_Ok)
  then have "proof_step\<^sup>*\<^sup>* Unspent t" if "t \<in> {Unspent, Pending, Spent}" using that by auto
  then show "proof_step\<^sup>*\<^sup>* Unspent t \<longleftrightarrow> t \<in> {Unspent, Pending, Spent}"
    using proof_step_reachable by blast
  show "check_state_transition Spent new = Inl SE_AlreadySpent" by (simp add: check_state_transition_def)
qed

lemma melt_step_Paid: "melt_step s MQ_Paid \<Longrightarrow> s = MQ_Pending \<or> s = MQ_Unknown"
  by (auto simp: melt_step_simps check_melt_quote_state_transition_Ok)

lemma melt_step_final: "melt_step\<^sup>*\<^sup>* MQ_Paid t \<Longrightarrow> t = MQ_Paid"
  by (induction rule: rtranclp_induct) (auto simp: melt_step_simps check_melt_quote_state_transition_Ok)

lemma melt_step_known: "melt_step\<^sup>*\<^sup>* s t \<Longrightarrow> s \<noteq> MQ_Unknown \<Longrightarrow> t \<noteq> MQ_Unknown"
  by (induction rule: rtranclp_induct) (auto simp: melt_step_simps check_melt_quote_state_transition_Ok)

text \<open>
  Paid is final for a melt quote, and a quote that starts in a known state becomes Paid only
  from Pending: whatever the sequence of allowed transitions, the state just before the first Paid
  is Pending, so a payment that was never made pending is never recorded as paid.
\<close>
theorem melt_quote_state_machine:
  "(melt_step\<^sup>*\<^sup>* MQ_Paid t \<longleftrightarrow> t = MQ_Paid) \<and>
   check_melt_quote_state_transition MQ_Paid new = Inl SE_AlreadyPaid \<and>
   (melt_step\<^sup>*\<^sup>* s u \<longrightarrow> s \<noteq> MQ_Unknown \<longrightarrow> melt_step u MQ_Paid \<longrightarrow> u = MQ_Pending)"
  using melt_step_final melt_step_known melt_step_Paid
  by (auto simp: check_melt_quote_state_transition_def)

theorem melt_quote_state_machine_witness:
  "melt_step\<^sup>*\<^sup>* MQ_Unpaid MQ_Pending \<and> melt_step MQ_Pending MQ_Paid \<and> MQ_Pending = MQ_Pending"
proof -
  have "melt_step MQ_Unpaid MQ_Pending" "melt_step MQ_Pending MQ_Paid"
    by (simp_all add: melt_step_simps check_melt_quote_state_transition_Ok)
  then show ?thesis using melt_quote_state_machine [of MQ_Paid MQ_Paid MQ_Unpaid MQ_Pending] by auto
qed

end
