(* ===== verification/Dleq.thy ===== *)
theory Dleq
  imports Nut00
begin

text \<open>
  Offline signature validation, after \<open>crates/cashu/src/nuts/nut12.rs\<close> and \<open>hash_e\<close> of
  \<open>crates/cashu/src/dhke.rs\<close>: the proof of equal discrete logarithms a mint attaches to a blind
  signature, and its verification by the wallet (on the blind signature) and by a later receiver
  (on the proof). The random nonce is an argument.
\<close>

datatype nut12_error =
    MissingDleqProof
  | IncompleteDleqProof
  | InvalidDleqProof
  | N12_DHKE dhke_error
  | N12_NUT01
  | N12_Secp256k1

definition hash_e :: "ext \<Rightarrow> public_key list \<Rightarrow> bytes" where
  "hash_e X public_keys = x_sha256 X (str_bytes (concat (map (\<lambda>k. encode (x_pk_uncompressed X k)) public_keys)))"

definition verify_dleq ::
  "ext \<Rightarrow> public_key \<Rightarrow> public_key \<Rightarrow> secret_key \<Rightarrow> secret_key \<Rightarrow> public_key \<Rightarrow> nut12_error + unit"
where
  "verify_dleq X blinded_msg blinded_sig e s mint_pubkey =
     rbind (ok_or N12_Secp256k1 (x_pk_mul_tweak X mint_pubkey e)) (\<lambda>a.
     rbind (ok_or N12_Secp256k1 (x_pk_combine X (x_public_key X s) (x_pk_negate X a))) (\<lambda>r1.
     rbind (ok_or N12_Secp256k1 (x_pk_mul_tweak X blinded_msg s)) (\<lambda>b.
     rbind (ok_or N12_Secp256k1 (x_pk_mul_tweak X blinded_sig e)) (\<lambda>c.
     rbind (ok_or N12_Secp256k1 (x_pk_combine X b (x_pk_negate X c))) (\<lambda>r2.
       if e \<noteq> hash_e X [r1, r2, mint_pubkey, blinded_sig] then Inl InvalidDleqProof else Inr ())))))"

definition calculate_dleq ::
  "ext \<Rightarrow> secret_key \<Rightarrow> public_key \<Rightarrow> public_key \<Rightarrow> secret_key \<Rightarrow> nut12_error + blind_signature_dleq"
where
  "calculate_dleq X r blinded_sig blinded_msg mint_secret_key =
     rbind (ok_or N12_Secp256k1 (x_pk_mul_tweak X blinded_msg r)) (\<lambda>r2.
     let e = hash_e X [x_public_key X r, r2, x_public_key X mint_secret_key, blinded_sig] in
     rbind (ok_or N12_NUT01 (x_sk_from_slice X e)) (\<lambda>e_sk.
     rbind (ok_or N12_Secp256k1 (x_sk_mul_tweak X e_sk mint_secret_key)) (\<lambda>s1.
     rbind (ok_or N12_Secp256k1 (x_sk_add_tweak X r s1)) (\<lambda>s.
       Inr \<lparr> bd_e = e_sk, bd_s = s \<rparr>))))"

definition proof_verify_dleq :: "ext \<Rightarrow> cashu_proof \<Rightarrow> public_key \<Rightarrow> nut12_error + unit" where
  "proof_verify_dleq X p mint_pubkey = (case p_dleq p of
       Some dleq \<Rightarrow>
         rbind (map_err N12_DHKE (hash_to_curve X (str_bytes (p_secret p)))) (\<lambda>y.
         rbind (ok_or N12_Secp256k1 (x_pk_mul_tweak X mint_pubkey (pd_r dleq))) (\<lambda>bs1.
         rbind (ok_or N12_Secp256k1 (x_pk_combine X (p_c p) bs1)) (\<lambda>blinded_sig.
         rbind (ok_or N12_Secp256k1 (x_pk_combine X y (x_public_key X (pd_r dleq)))) (\<lambda>blinded_msg.
           verify_dleq X blinded_msg blinded_sig (pd_e dleq) (pd_s dleq) mint_pubkey))))
     | None \<Rightarrow> Inl MissingDleqProof)"

definition blind_signature_new ::
  "ext \<Rightarrow> secret_key \<Rightarrow> u64 \<Rightarrow> public_key \<Rightarrow> keyset_id \<Rightarrow> public_key \<Rightarrow> secret_key \<Rightarrow> nut12_error + blind_signature"
where
  "blind_signature_new X nonce amount blinded_sig kid blinded_msg mint_secretkey =
     rmap (\<lambda>d. \<lparr> bs_amount = amount, bs_keyset_id = kid, bs_c = blinded_sig, bs_dleq = Some d \<rparr>)
       (calculate_dleq X nonce blinded_sig blinded_msg mint_secretkey)"

definition signature_verify_dleq :: "ext \<Rightarrow> blind_signature \<Rightarrow> public_key \<Rightarrow> public_key \<Rightarrow> nut12_error + unit" where
  "signature_verify_dleq X s mint_pubkey blinded_msg = (case bs_dleq s of
       Some dleq \<Rightarrow> verify_dleq X blinded_msg (bs_c s) (bd_e dleq) (bd_s dleq) mint_pubkey
     | None \<Rightarrow> Inl MissingDleqProof)"

definition add_dleq_proof :: "ext \<Rightarrow> secret_key \<Rightarrow> blind_signature \<Rightarrow> public_key \<Rightarrow> secret_key \<Rightarrow> nut12_error + blind_signature" where
  "add_dleq_proof X nonce s blinded_msg mint_secretkey =
     rmap (\<lambda>d. s\<lparr> bs_dleq := Some d \<rparr>) (calculate_dleq X nonce (bs_c s) blinded_msg mint_secretkey)"

section \<open>Completeness\<close>

lemma ec_law_rules:
  assumes "ec_law X n pt sc"
  shows "x_public_key X q = pt (sc q)"
    "x_pk_combine X (pt u) (pt v) = (if (u + v) mod int n = 0 then None else Some (pt (u + v)))"
    "x_pk_mul_tweak X (pt u) q = (if (u * sc q) mod int n = 0 then None else Some (pt (u * sc q)))"
    "x_pk_negate X (pt u) = pt (- u)" "pt u = pt v \<longleftrightarrow> u mod int n = v mod int n"
  using assms by (auto simp: ec_law_def)

lemma calculate_dleq_verifies:
  assumes ec: "ec_law X n pt sc" and sk: "sk_law X n sc" and prime: "prime_order n"
    and c: "c = pt (b * sc k)" and dleq: "calculate_dleq X r c (pt b) k = Inr d"
  shows "verify_dleq X (pt b) c (bd_e d) (bd_s d) (x_public_key X k) = Inr ()"
proof -
  note R = ec_law_rules [OF ec]
  have slice: "\<And>e q. x_sk_from_slice X e = Some q \<Longrightarrow> q = e" using sk by (auto simp: sk_law_def)
  define e where "e = hash_e X [x_public_key X r, pt (b * sc r), x_public_key X k, c]"
  from dleq have rb: "(b * sc r) mod int n \<noteq> 0"
    by (auto simp: calculate_dleq_def R split: if_splits)
  with dleq obtain e' s1 s where e': "x_sk_from_slice X e = Some e'"
    and "x_sk_mul_tweak X e' k = Some s1" and s: "x_sk_add_tweak X r s1 = Some s"
    and "d = \<lparr> bd_e = e', bd_s = s \<rparr>"
    by (auto simp: calculate_dleq_def R(3) rbind_eq_Ok ok_or_eq_Ok Let_def e_def)
  with slice have s1: "x_sk_mul_tweak X e k = Some s1" and d: "d = \<lparr> bd_e = e, bd_s = s \<rparr>" by auto
  have sk1: "(sc e * sc k) mod int n \<noteq> 0" "sc s1 mod int n = (sc e * sc k) mod int n"
    and sks: "sc s mod int n \<noteq> 0" "sc s mod int n = (sc r + sc s1) mod int n"
    using sk s1 s unfolding sk_law_def by (force split: option.splits)+
  then have s_eq: "sc s mod int n = (sc r + sc e * sc k) mod int n" by (metis mod_add_right_eq)
  have r: "sc r mod int n \<noteq> 0" and b: "b mod int n \<noteq> 0" using rb by (metis mod_mult_eq mult_zero_left mult_zero_right mod_0)+
  have A: "x_pk_mul_tweak X (x_public_key X k) e = Some (pt (sc k * sc e))"
    using sk1 by (simp add: R mult.commute)
  have "(sc s + - (sc k * sc e)) mod int n = sc r mod int n"
    using s_eq by (metis (no_types, opaque_lifting) add_diff_cancel_right' mod_diff_left_eq mult.commute uminus_add_conv_diff add.commute)
  then have R1: "x_pk_combine X (x_public_key X s) (pt (- (sc k * sc e))) = Some (x_public_key X r)"
    using r by (simp add: R)
  have B: "x_pk_mul_tweak X (pt b) s = Some (pt (b * sc s))"
    using prime_mod_mult_nonzero [OF prime b sks(1)] by (simp add: R)
  have bek: "(b * sc k * sc e) mod int n \<noteq> 0"
    using prime_mod_mult_nonzero [OF prime b sk1(1)] by (simp add: mult.commute mult.left_commute)
  then have C: "x_pk_mul_tweak X c e = Some (pt (b * sc k * sc e))" by (simp add: R c)
  have "(b * sc s) mod int n = (b * sc r + b * sc k * sc e) mod int n"
    using s_eq by (metis (no_types, opaque_lifting) distrib_left mod_mult_right_eq mult.assoc mult.commute)
  then have "(b * sc s + - (b * sc k * sc e)) mod int n = (b * sc r) mod int n"
    by (metis (no_types, opaque_lifting) add_diff_cancel_right' diff_conv_add_uminus mod_diff_left_eq)
  then have R2: "x_pk_combine X (pt (b * sc s)) (pt (- (b * sc k * sc e))) = Some (pt (b * sc r))"
    using rb by (simp add: R)
  show ?thesis
    unfolding d verify_dleq_def by (simp add: A R1 B C R2 R(4) e_def [symmetric])
qed

text \<open>
  C35. Completeness of the proofs of equal logarithms: whenever the mint signs a blinded message and
  attaches the proof with \<open>BlindSignature::new\<close>, the wallet's check of the blind signature
  succeeds, and so does the check of the proof that \<open>construct_proofs\<close> makes of it.
\<close>
theorem dleq_complete:
  assumes ec: "ec_law X n pt sc" and sk: "sk_law X n sc" and prime: "prime_order n"
    and k: "sc k mod int n \<noteq> 0" and r: "sc r mod int n \<noteq> 0"
    and blind: "blind_message X (str_bytes secret) r = Inr (b, r')"
    and sign: "sign_message X k b = Inr c" and new: "blind_signature_new X nonce amount c kid b k = Inr s"
    and keys: "map_of ks amount = Some (x_public_key X k)"
  shows "signature_verify_dleq X s (x_public_key X k) b = Inr () \<and>
    (\<exists>p. construct_proofs X [s] [r] [secret] ks = Inr [p] \<and> proof_verify_dleq X p (x_public_key X k) = Inr ())"
proof -
  note R = ec_law_rules [OF ec]
  from blind obtain y where y: "hash_to_curve X (str_bytes secret) = Inr y"
    and b: "x_pk_combine X y (x_public_key X r) = Some b" by (auto simp: blind_message_def res_simps)
  from hash_to_curve_point [OF ec y] obtain a where a: "a mod int n \<noteq> 0" "y = pt a" by blast
  have bpt: "b = pt (a + sc r)" and abr: "(a + sc r) mod int n \<noteq> 0" using b a by (auto simp: R split: if_splits)
  have cpt: "c = pt ((a + sc r) * sc k)" and cnz: "((a + sc r) * sc k) mod int n \<noteq> 0"
    using sign bpt by (auto simp: sign_message_def ok_or_eq_Ok R split: if_splits)
  from new obtain d where d: "calculate_dleq X nonce c b k = Inr d"
    and s: "s = \<lparr> bs_amount = amount, bs_keyset_id = kid, bs_c = c, bs_dleq = Some d \<rparr>"
    by (auto simp: blind_signature_new_def rmap_eq_Ok)
  have v: "verify_dleq X b c (bd_e d) (bd_s d) (x_public_key X k) = Inr ()"
    using calculate_dleq_verifies [OF ec sk prime cpt] d bpt by simp
  have ak: "(a * sc k) mod int n \<noteq> 0" and kr: "(sc k * sc r) mod int n \<noteq> 0"
    using prime_mod_mult_nonzero [OF prime] a(1) k r by auto
  have sum: "(a + sc r) * sc k + - (sc k * sc r) = a * sc k" "a * sc k + sc k * sc r = (a + sc r) * sc k"
    by (simp_all add: algebra_simps)
  have unblind: "unblind_message X c r (x_public_key X k) = Inr (pt (a * sc k))"
    using ak kr sum(1) by (simp add: unblind_message_def R cpt)
  then obtain p where p: "construct_proofs X [s] [r] [secret] ks = Inr [p]"
    "p_c p = pt (a * sc k)" "p_secret p = secret" "p_dleq p = Some \<lparr> pd_e = bd_e d, pd_s = bd_s d, pd_r = r \<rparr>"
    using keys by (simp add: construct_proofs_def construct_proof_def s)
  have "proof_verify_dleq X p (x_public_key X k) = Inr ()"
    using v y a abr kr cnz sum(2) p by (simp add: proof_verify_dleq_def R bpt cpt)
  with v p(1) show ?thesis by (auto simp: signature_verify_dleq_def s)
qed

theorem dleq_complete_witness:
  "\<exists>s p. blind_signature_new demo_ext [7] 8 (demo_pt 280) (Id Version00 (V1 (replicate 7 0))) (demo_pt 70) [4] = Inr s \<and>
     signature_verify_dleq demo_ext s (demo_pt 4) (demo_pt 70) = Inr () \<and>
     construct_proofs demo_ext [s] [[3]] [[CHR 0x05]] [(8, demo_pt 4)] = Inr [p] \<and>
     proof_verify_dleq demo_ext p (demo_pt 4) = Inr ()"
proof -
  let ?k = "Id Version00 (V1 (replicate 7 0))"
  have bytes: "str_bytes [CHR 0x05] = [5]" and pub: "x_public_key demo_ext [4] = demo_pt 4"
    and sg: "sign_message demo_ext [4] (demo_pt 70) = Inr (demo_pt 280)" by code_simp+
  have bl: "blind_message demo_ext [5] [3] = Inr (demo_pt 70, [3])"
    unfolding blind_message_def demo_hash_to_curve by code_simp
  have "is_ok (blind_signature_new demo_ext [7] 8 (demo_pt 280) ?k (demo_pt 70) [4])" by code_simp
  then obtain s where s: "blind_signature_new demo_ext [7] 8 (demo_pt 280) ?k (demo_pt 70) [4] = Inr s"
    by (auto simp: is_ok_iff)
  have "demo_sc [4] mod int 13 \<noteq> 0" "demo_sc [3] mod int 13 \<noteq> 0" by (simp_all add: demo_sc_def)
  from dleq_complete [OF demo_ec_law demo_sk_law prime_order_13 this, of "[CHR 0x05]" "demo_pt 70" "[3]", OF _ sg s,
      of "[(8, demo_pt 4)]"] s
  show ?thesis by (auto simp: bytes bl pub)
qed

end
