(* ===== verification/Cdk_Error.thy ===== *)
theory Cdk_Error
  imports Sig_All Proof_State Dleq
begin

text \<open>
  The error type of the mint (\<open>crates/cdk-common/src/error.rs\<close>), with the variants the modelled
  operations return, the error types of its database (\<open>crates/cdk-common/src/database/mod.rs\<close>) and of
  the payment backends (\<open>crates/cdk-common/src/payment.rs\<close>), and the conversions the question-mark
  operator applies.
\<close>

datatype db_error =
    Db_Database string
  | Db_Duplicate
  | Db_Locked
  | Db_AmountOverflow
  | Db_NUT00 nut00_error
  | Db_UnknownQuote
  | Db_AttemptRemoveSpentProof
  | Db_AttemptUpdateSpentProof
  | Db_ProofNotFound
  | Db_InvalidStateTransition state_error
  | Db_Internal string
  | Db_QuoteNotFound
  | Db_ConcurrentUpdate

datatype payment_error =
    PE_InvoiceAlreadyPaid
  | PE_UnsupportedUnit
  | PE_UnsupportedPaymentOption
  | PE_Hex hex_error
  | PE_InvalidHash
  | PE_Custom string

datatype cdk_error =
    E_AmountKey
  | E_KeysetUnknown keyset_id
  | E_UnsupportedUnit
  | E_InvalidPaymentRequest
  | E_InvalidPaymentMethod
  | E_PubkeyRequired
  | E_UnsupportedPaymentMethod
  | E_MintingDisabled
  | E_AmountOutofLimitRange u64 u64 u64
  | E_MeltingDisabled
  | E_InternalMultiPartMeltQuote
  | E_MppUnitMethodNotSupported currency_unit string
  | E_AmountlessInvoiceNotSupported currency_unit string
  | E_Bolt12parse
  | E_RequestFieldTooLarge string nat nat
  | E_InvoiceDescriptionUnsupported
  | E_PaymentFailed
  | E_PaymentPending
  | E_RequestAlreadyPaid
  | E_AmountOverflow
  | E_OverIssue
  | E_SignatureMissingOrInvalid
  | E_DuplicatePaymentId
  | E_AmountUndefined
  | E_UnknownQuote
  | E_IncorrectQuoteAmount
  | E_ExpiredQuote u64 u64
  | E_UnpaidQuote
  | E_PendingQuote
  | E_IssuedQuote
  | E_PaidQuote
  | E_UnknownPaymentState
  | E_UnknownKeySet
  | E_BlindedMessageAlreadySigned
  | E_InactiveKeyset
  | E_TransactionUnbalanced u64 u64 u64
  | E_DuplicateInputs
  | E_DuplicateOutputs
  | E_MaxInputsExceeded nat nat
  | E_MaxOutputsExceeded nat nat
  | E_ProofContentTooLarge nat nat
  | E_MultipleUnits
  | E_UnitMismatch
  | E_SigAllUsedInMelt
  | E_TokenAlreadySpent
  | E_TokenPending
  | E_Internal
  | E_InsufficientFunds
  | E_UnexpectedProofState
  | E_ConcurrentUpdate
  | E_AmountError amount_error
  | E_DHKE dhke_error
  | E_NUT00 nut00_error
  | E_NUT02 nut02_error
  | E_NUT03_Amount amount_error
  | E_NUT05_AmountOverflow
  | E_NUT11 nut11_error
  | E_NUT12 nut12_error
  | E_NUT14 nut14_error
  | E_SerdeJson
  | E_Database db_error
  | E_Signatory
  | E_Payment payment_error
  | E_Custom string

definition cdk_of_db :: "db_error \<Rightarrow> cdk_error" where
  "cdk_of_db e = (case e of
       Db_InvalidStateTransition s \<Rightarrow> (case s of
           SE_Pending \<Rightarrow> E_TokenPending
         | SE_AlreadySpent \<Rightarrow> E_TokenAlreadySpent
         | SE_AlreadyPaid \<Rightarrow> E_RequestAlreadyPaid
         | _ \<Rightarrow> E_Database (Db_InvalidStateTransition s))
     | Db_ConcurrentUpdate \<Rightarrow> E_ConcurrentUpdate
     | _ \<Rightarrow> E_Database e)"

definition db_of_state :: "state_error \<Rightarrow> db_error" where
  "db_of_state s = (case s of SE_AlreadySpent \<Rightarrow> Db_AttemptUpdateSpentProof | _ \<Rightarrow> Db_InvalidStateTransition s)"

end
