(* ===== verification/Fees.thy ===== *)
theory Fees
  imports Cdk_Error
begin

text \<open>
  Input fees, after \<open>calculate_fee\<close> of \<open>crates/cdk/src/fees.rs\<close>. A hash map is an association list
  with distinct keys, iterated in list order; the ordered map of the source is an association list
  sorted by key.
\<close>

record proofs_fee_breakdown =
  fb_total :: u64
  fb_per_keyset :: "(keyset_id \<times> u64) list"

fun btree_insert :: "'k :: linorder \<Rightarrow> 'v \<Rightarrow> ('k \<times> 'v) list \<Rightarrow> ('k \<times> 'v) list" where
  "btree_insert k v [] = [(k, v)]"
| "btree_insert k v ((k', v') # m) =
     (if k < k' then (k, v) # (k', v') # m
      else if k = k' then (k, v) # m
      else (k', v') # btree_insert k v m)"

fun fee_loop ::
  "(keyset_id \<times> u64) list \<Rightarrow> (keyset_id \<times> u64) list \<Rightarrow> u64 \<Rightarrow> (keyset_id \<times> u64) list \<Rightarrow>
   cdk_error + u64 \<times> (keyset_id \<times> u64) list"
where
  "fee_loop keyset_fee [] sum_fee raw = Inr (sum_fee, raw)"
| "fee_loop keyset_fee ((kid, proof_count) # rest) sum_fee raw =
     rbind (ok_or (E_KeysetUnknown kid) (map_of keyset_fee kid)) (\<lambda>keyset_fee_ppk.
     rbind (ok_or E_AmountOverflow (u64_checked_mul keyset_fee_ppk proof_count)) (\<lambda>proofs_fee.
     rbind (ok_or E_AmountOverflow (u64_checked_add sum_fee proofs_fee)) (\<lambda>sum_fee'.
       fee_loop keyset_fee rest sum_fee' (btree_insert kid proofs_fee raw))))"

fun distribute_loop ::
  "u64 \<Rightarrow> u64 \<Rightarrow> (keyset_id \<times> u64) list \<Rightarrow> u64 \<Rightarrow> cdk_error + (keyset_id \<times> u64) list"
where
  "distribute_loop sum_fee total_fee [] distributed_fee = Inr []"
| "distribute_loop sum_fee total_fee ((kid, raw_fee) # rest) distributed_fee =
     (if sum_fee = 0 then distribute_loop sum_fee total_fee rest distributed_fee
      else rbind (if rest = [] then Inr (u64_saturating_sub total_fee distributed_fee)
                  else rbind (ok_or E_AmountOverflow (u64_checked_mul raw_fee total_fee)) (\<lambda>m.
                       ok_or E_AmountOverflow (u64_checked_div m sum_fee))) (\<lambda>keyset_fee.
           rmap (\<lambda>m. (kid, keyset_fee) # m)
             (distribute_loop sum_fee total_fee rest (u64_saturating_add distributed_fee keyset_fee))))"

definition calculate_fee ::
  "(keyset_id \<times> u64) list \<Rightarrow> (keyset_id \<times> u64) list \<Rightarrow> cdk_error + proofs_fee_breakdown"
where
  "calculate_fee proofs_count keyset_fee =
     rbind (fee_loop keyset_fee proofs_count 0 []) (\<lambda>(sum_fee, raw).
     rbind (ok_or E_AmountOverflow (u64_checked_add sum_fee 999)) (\<lambda>s.
     rbind (ok_or E_AmountOverflow (u64_checked_div s 1000)) (\<lambda>total_fee.
     rbind (distribute_loop sum_fee total_fee raw 0) (\<lambda>per_keyset.
       Inr \<lparr> fb_total = total_fee, fb_per_keyset = per_keyset \<rparr>))))"

section \<open>The ordered map\<close>

lemma btree_insert_keys: "fst ` set (btree_insert k v m) = insert k (fst ` set m)"
  by (induction k v m rule: btree_insert.induct) auto

lemma btree_insert_sorted: "sorted_wrt (<) (map fst m) \<Longrightarrow> sorted_wrt (<) (map fst (btree_insert k v m))"
proof (induction k v m rule: btree_insert.induct)
  case (2 k v k' v' m)
  then show ?case using btree_insert_keys [of k v m] by (auto dest: less_trans)
qed simp

lemma btree_insert_sum:
  "k \<notin> fst ` set m \<Longrightarrow> usum (map snd (btree_insert k v m)) = unat v + usum (map snd m)"
  by (induction k v m rule: btree_insert.induct) auto

section \<open>The raw sum\<close>

definition fee_of :: "(keyset_id \<times> u64) list \<Rightarrow> keyset_id \<times> u64 \<Rightarrow> nat" where
  "fee_of keyset_fee e = unat (the (map_of keyset_fee (fst e))) * unat (snd e)"

definition raw_fee_sum :: "(keyset_id \<times> u64) list \<Rightarrow> (keyset_id \<times> u64) list \<Rightarrow> nat" where
  "raw_fee_sum keyset_fee counts = sum_list (map (fee_of keyset_fee) counts)"

lemma fee_loop_Ok:
  assumes "fee_loop kf counts s raw = Inr (s', raw')" "distinct (map fst counts)"
    and "fst ` set counts \<inter> fst ` set raw = {}"
  shows "unat s' = unat s + raw_fee_sum kf counts \<and>
    usum (map snd raw') = usum (map snd raw) + raw_fee_sum kf counts \<and>
    fst ` set raw' = fst ` set raw \<union> fst ` set counts \<and>
    (\<forall>k \<in> fst ` set counts. map_of kf k \<noteq> None)"
  using assms
proof (induction kf counts s raw rule: fee_loop.induct)
  case (1 kf s raw)
  then show ?case by (auto simp: raw_fee_sum_def)
next
  case (2 kf kid n rest s raw)
  from 2(2) obtain ppk fee s1 where ppk: "map_of kf kid = Some ppk" and fee: "unat fee = unat ppk * unat n"
    and s1: "unat s1 = unat s + unat fee" and rec: "fee_loop kf rest s1 (btree_insert kid fee raw) = Inr (s', raw')"
    by (auto simp: res_simps u64_simps)
  have nin: "kid \<notin> fst ` set raw" using 2(4) by auto
  have "fst ` set rest \<inter> fst ` set (btree_insert kid fee raw) = {}"
    using 2(3,4) by (auto simp: btree_insert_keys)
  from 2(1) [OF _ _ _ rec _ this] ppk fee s1 2(3)
  have IH: "unat s' = unat s1 + raw_fee_sum kf rest" "usum (map snd raw') = usum (map snd (btree_insert kid fee raw)) + raw_fee_sum kf rest"
    "fst ` set raw' = fst ` set (btree_insert kid fee raw) \<union> fst ` set rest" "\<forall>k \<in> fst ` set rest. map_of kf k \<noteq> None"
    by (auto simp: res_simps u64_simps)
  have "raw_fee_sum kf ((kid, n) # rest) = unat fee + raw_fee_sum kf rest"
    using ppk fee by (simp add: raw_fee_sum_def fee_of_def)
  with IH s1 ppk show ?case using btree_insert_sum [OF nin, of fee] by (auto simp: btree_insert_keys)
qed

section \<open>Distributing the total\<close>

lemma sum_div_le: "sum_list (map (\<lambda>r. (r * t) div s) rs) \<le> (sum_list rs * t) div (s :: nat)"
proof (induction rs)
  case (Cons r rs)
  have "(r * t) div s + (sum_list rs * t) div s \<le> (r * t + sum_list rs * t) div s"
    by (subst div_add1_eq) simp
  with Cons show ?case by (simp add: algebra_simps)
qed simp

abbreviation floors :: "u64 \<Rightarrow> u64 \<Rightarrow> (keyset_id \<times> u64) list \<Rightarrow> nat" where
  "floors s t raw \<equiv> sum_list (map (\<lambda>e. (unat (snd e) * unat t) div unat s) raw)"

lemma distribute_loop_Ok:
  assumes "distribute_loop s t raw d = Inr m" "s \<noteq> 0" "raw \<noteq> []" "unat d + floors s t (butlast raw) \<le> unat t"
  shows "map fst m = map fst raw \<and> unat d + usum (map snd m) = unat t"
  using assms
proof (induction raw arbitrary: d m)
  case (Cons e rest)
  obtain kid r where e: "e = (kid, r)" by (cases e)
  show ?case
  proof (cases "rest = []")
    case True
    with Cons.prems e have "m = [(kid, u64_saturating_sub t d)]" by (auto simp: res_simps)
    with Cons.prems(4) True e show ?thesis by (simp add: unat_u64_saturating_sub)
  next
    case False
    from Cons.prems(1,2) e False obtain f p m' where p: "unat (p :: u64) = unat r * unat t" and f: "unat f = unat p div unat s"
      and m': "distribute_loop s t rest (u64_saturating_add d f) = Inr m'" and m: "m = (kid, f) # m'"
      by (auto simp: rbind_eq_Ok ok_or_eq_Ok rmap_eq_Ok u64_simps)
    have bound: "unat d + unat f + floors s t (butlast rest) \<le> unat t"
      using Cons.prems(4) False p f e by simp
    then have sat: "unat (u64_saturating_add d f) = unat d + unat f"
      using unat_u64_bound [of t] by (simp add: unat_u64_saturating_add min_def)
    from Cons.IH [OF m' Cons.prems(2) False] bound sat
    have "map fst m' = map fst rest \<and> unat (u64_saturating_add d f) + usum (map snd m') = unat t" by simp
    then show ?thesis using m sat e by simp
  qed
qed simp

lemma distribute_loop_zero: "distribute_loop 0 t raw d = Inr []"
  by (induction raw arbitrary: d) auto

lemma calculate_fee_Ok:
  assumes "calculate_fee counts kf = Inr b" and "distinct (map fst counts)"
  shows "(\<forall>k \<in> fst ` set counts. map_of kf k \<noteq> None) \<and>
    unat (fb_total b) = (raw_fee_sum kf counts + 999) div 1000 \<and>
    usum (map snd (fb_per_keyset b)) = unat (fb_total b) \<and>
    fst ` set (fb_per_keyset b) = (if raw_fee_sum kf counts = 0 then {} else fst ` set counts)"
proof -
  from assms(1) obtain s raw t m and s' :: u64 where loop: "fee_loop kf counts 0 [] = Inr (s, raw)"
    and s': "unat s' = unat s + 999" and t: "unat t = unat s' div 1000"
    and m: "distribute_loop s t raw 0 = Inr m" and b: "b = \<lparr> fb_total = t, fb_per_keyset = m \<rparr>"
    by (auto simp: calculate_fee_def rbind_eq_Ok ok_or_eq_Ok u64_simps)
  from fee_loop_Ok [OF loop assms(2)] have L: "unat s = raw_fee_sum kf counts" "usum (map snd raw) = raw_fee_sum kf counts"
    "fst ` set raw = fst ` set counts" "\<forall>k \<in> fst ` set counts. map_of kf k \<noteq> None" by auto
  have tot: "unat t = (raw_fee_sum kf counts + 999) div 1000" using s' t L by simp
  show ?thesis
  proof (cases "s = 0")
    case True
    with L have "raw_fee_sum kf counts = 0" by simp
    moreover from m True have "m = []" by (simp add: distribute_loop_zero)
    ultimately show ?thesis using L tot b by simp
  next
    case False
    then have pos: "0 < unat s" by (simp add: unat_gt_0)
    then have "raw \<noteq> []" using L by auto
    have "floors s t (butlast raw) \<le> floors s t raw"
      using \<open>raw \<noteq> []\<close> by (induction raw) auto
    also have "\<dots> \<le> (usum (map snd raw) * unat t) div unat s"
      using sum_div_le [of "unat t" "unat s" "map unat (map snd raw)"] by (simp add: comp_def)
    also have "\<dots> = unat t" using L pos by simp
    finally have dist: "map fst m = map fst raw \<and> usum (map snd m) = unat t"
      using distribute_loop_Ok [OF m False \<open>raw \<noteq> []\<close>] by simp
    then have "fst ` set m = fst ` set raw" by (metis set_map)
    then show ?thesis using L tot b pos dist by simp
  qed
qed

text \<open>
  C34. The fee of a set of inputs: when the calculation succeeds every keyset is known, the total is
  the sum over the keysets of proofs times fee, rounded up to the next thousand parts, and the
  breakdown assigns exactly this total to the keysets of the inputs (nothing when it is zero).
\<close>
theorem calculate_fee_total:
  assumes "calculate_fee counts kf = Inr b" and "distinct (map fst counts)"
  shows "(\<forall>k \<in> fst ` set counts. map_of kf k \<noteq> None) \<and>
    unat (fb_total b) = (raw_fee_sum kf counts + 999) div 1000 \<and>
    usum (map snd (fb_per_keyset b)) = unat (fb_total b) \<and>
    fst ` set (fb_per_keyset b) = (if raw_fee_sum kf counts = 0 then {} else fst ` set counts)"
  using assms by (rule calculate_fee_Ok)

theorem calculate_fee_total_witness:
  "calculate_fee [(Id Version00 (V1 [1, 2]), 3), (Id Version01 (V2 [3]), 2)]
      [(Id Version00 (V1 [1, 2]), 100), (Id Version01 (V2 [3]), 500)] =
     Inr \<lparr> fb_total = 2, fb_per_keyset = [(Id Version00 (V1 [1, 2]), 0), (Id Version01 (V2 [3]), 2)] \<rparr> \<and>
   usum [0, 2] = unat (2 :: u64)"
proof -
  have run: "calculate_fee [(Id Version00 (V1 [1, 2]), 3), (Id Version01 (V2 [3]), 2)]
      [(Id Version00 (V1 [1, 2]), 100), (Id Version01 (V2 [3]), 500)] =
     Inr \<lparr> fb_total = 2, fb_per_keyset = [(Id Version00 (V1 [1, 2]), 0), (Id Version01 (V2 [3]), 2)] \<rparr>"
    by code_simp
  from calculate_fee_total [OF this] have "usum [0, 2] = unat (2 :: u64)" by simp
  with run show ?thesis by blast
qed

end
