(* ===== verification/Mint_Types.thy ===== *)
theory Mint_Types
  imports Fees
begin

text \<open>
  The types of the mint (\<open>crates/cdk-common/src/mint.rs\<close>), payment methods
  (\<open>crates/cashu/src/nuts/nut00/mod.rs\<close>) and payment identifiers
  (\<open>crates/cdk-common/src/payment.rs\<close>): operations, saga states and their text, mint quotes with
  their payments and issuances, melt quotes. The clock is an argument (\<open>now\<close>), as are fresh
  identifiers. The main results: the accounting of a mint quote (what is issued never exceeds what
  was paid) and the text round trips the database relies on.
\<close>

section \<open>Payment methods and identifiers\<close>

datatype known_method = Bolt11 | Bolt12

datatype payment_method = KnownMethod known_method | CustomMethod string

fun known_method_as_str :: "known_method \<Rightarrow> string" where
  "known_method_as_str Bolt11 = ''bolt11''"
| "known_method_as_str Bolt12 = ''bolt12''"

definition known_method_from_str :: "ext \<Rightarrow> string \<Rightarrow> known_method option" where
  "known_method_from_str X value = (let v = x_to_lowercase X value in
     if v = ''bolt11'' then Some Bolt11 else if v = ''bolt12'' then Some Bolt12 else None)"

fun payment_method_as_str :: "payment_method \<Rightarrow> string" where
  "payment_method_as_str (KnownMethod k) = known_method_as_str k"
| "payment_method_as_str (CustomMethod c) = c"

definition payment_method_from_str :: "ext \<Rightarrow> string \<Rightarrow> payment_method" where
  "payment_method_from_str X value = (case known_method_from_str X value of
       Some known \<Rightarrow> KnownMethod known
     | None \<Rightarrow> CustomMethod (x_to_lowercase X value))"

datatype payment_identifier =
    PI_Label string
  | PI_OfferId string
  | PI_PaymentHash bytes
  | PI_Bolt12PaymentHash bytes
  | PI_PaymentId bytes
  | PI_CustomId string

definition hash32 :: "string \<Rightarrow> payment_error + bytes" where
  "hash32 identifier = rbind (map_err PE_Hex (decode identifier)) (\<lambda>b.
     if length b = 32 then Inr b else Inl PE_InvalidHash)"

definition payment_identifier_new :: "ext \<Rightarrow> string \<Rightarrow> string \<Rightarrow> payment_error + payment_identifier" where
  "payment_identifier_new X k identifier = (let v = x_to_lowercase X k in
     if v = ''label'' then Inr (PI_Label identifier)
     else if v = ''offer_id'' then Inr (PI_OfferId identifier)
     else if v = ''payment_hash'' then rmap PI_PaymentHash (hash32 identifier)
     else if v = ''bolt12_payment_hash'' then rmap PI_Bolt12PaymentHash (hash32 identifier)
     else if v = ''custom'' then Inr (PI_CustomId identifier)
     else if v = ''payment_id'' then rmap PI_PaymentId (hash32 identifier)
     else Inl PE_UnsupportedPaymentOption)"

fun payment_identifier_kind :: "payment_identifier \<Rightarrow> string" where
  "payment_identifier_kind (PI_Label l) = ''label''"
| "payment_identifier_kind (PI_OfferId d) = ''offer_id''"
| "payment_identifier_kind (PI_PaymentHash h) = ''payment_hash''"
| "payment_identifier_kind (PI_Bolt12PaymentHash h) = ''bolt12_payment_hash''"
| "payment_identifier_kind (PI_PaymentId h) = ''payment_id''"
| "payment_identifier_kind (PI_CustomId c) = ''custom''"

fun payment_identifier_display :: "payment_identifier \<Rightarrow> string" where
  "payment_identifier_display (PI_Label l) = l"
| "payment_identifier_display (PI_OfferId d) = d"
| "payment_identifier_display (PI_PaymentHash h) = encode h"
| "payment_identifier_display (PI_Bolt12PaymentHash h) = encode h"
| "payment_identifier_display (PI_PaymentId h) = encode h"
| "payment_identifier_display (PI_CustomId c) = c"

section \<open>Operations and saga states\<close>

datatype operation_kind = Op_Swap | Op_Mint | Op_Melt | Op_BatchMint

datatype swap_saga_state = SwapSetupComplete | SwapSigned

datatype melt_saga_state = MeltSetupComplete | MeltPaymentAttempted | MeltFinalizing

datatype saga_state_enum = SagaSwap swap_saga_state | SagaMelt melt_saga_state

fun operation_kind_display :: "operation_kind \<Rightarrow> string" where
  "operation_kind_display Op_Swap = ''swap''"
| "operation_kind_display Op_Mint = ''mint''"
| "operation_kind_display Op_Melt = ''melt''"
| "operation_kind_display Op_BatchMint = ''batch_mint''"

definition operation_kind_from_str :: "ext \<Rightarrow> string \<Rightarrow> cdk_error + operation_kind" where
  "operation_kind_from_str X value = (let v = x_to_lowercase X value in
     if v = ''swap'' then Inr Op_Swap
     else if v = ''mint'' then Inr Op_Mint
     else if v = ''melt'' then Inr Op_Melt
     else if v = ''batch_mint'' then Inr Op_BatchMint
     else Inl (E_Custom (''Invalid operation kind: '' @ v)))"

fun swap_saga_state_display :: "swap_saga_state \<Rightarrow> string" where
  "swap_saga_state_display SwapSetupComplete = ''setup_complete''"
| "swap_saga_state_display SwapSigned = ''signed''"

definition swap_saga_state_from_str :: "ext \<Rightarrow> string \<Rightarrow> cdk_error + swap_saga_state" where
  "swap_saga_state_from_str X value = (let v = x_to_lowercase X value in
     if v = ''setup_complete'' then Inr SwapSetupComplete
     else if v = ''signed'' then Inr SwapSigned
     else Inl (E_Custom (''Invalid swap saga state: '' @ v)))"

fun melt_saga_state_display :: "melt_saga_state \<Rightarrow> string" where
  "melt_saga_state_display MeltSetupComplete = ''setup_complete''"
| "melt_saga_state_display MeltPaymentAttempted = ''payment_attempted''"
| "melt_saga_state_display MeltFinalizing = ''finalizing''"

definition melt_saga_state_from_str :: "ext \<Rightarrow> string \<Rightarrow> cdk_error + melt_saga_state" where
  "melt_saga_state_from_str X value = (let v = x_to_lowercase X value in
     if v = ''setup_complete'' then Inr MeltSetupComplete
     else if v = ''payment_attempted'' then Inr MeltPaymentAttempted
     else if v = ''finalizing'' then Inr MeltFinalizing
     else Inl (E_Custom (''Invalid melt saga state: '' @ v)))"

fun saga_state_new :: "ext \<Rightarrow> operation_kind \<Rightarrow> string \<Rightarrow> cdk_error + saga_state_enum" where
  "saga_state_new X Op_Swap s = rmap SagaSwap (swap_saga_state_from_str X s)"
| "saga_state_new X Op_Melt s = rmap SagaMelt (melt_saga_state_from_str X s)"
| "saga_state_new X Op_Mint s = Inl (E_Custom ''Mint saga not implemented yet'')"
| "saga_state_new X Op_BatchMint s = Inl (E_Custom ''Mint saga not implemented yet'')"

fun saga_state_str :: "saga_state_enum \<Rightarrow> string" where
  "saga_state_str (SagaSwap SwapSetupComplete) = ''setup_complete''"
| "saga_state_str (SagaSwap SwapSigned) = ''signed''"
| "saga_state_str (SagaMelt MeltSetupComplete) = ''setup_complete''"
| "saga_state_str (SagaMelt MeltPaymentAttempted) = ''payment_attempted''"
| "saga_state_str (SagaMelt MeltFinalizing) = ''finalizing''"

type_synonym uuid = string

record saga =
  sg_operation_id :: uuid
  sg_operation_kind :: operation_kind
  sg_state :: saga_state_enum
  sg_quote_id :: "string option"
  sg_created_at :: u64
  sg_updated_at :: u64

definition saga_new_swap :: "u64 \<Rightarrow> uuid \<Rightarrow> swap_saga_state \<Rightarrow> saga" where
  "saga_new_swap now operation_id state = \<lparr> sg_operation_id = operation_id, sg_operation_kind = Op_Swap,
     sg_state = SagaSwap state, sg_quote_id = None, sg_created_at = now, sg_updated_at = now \<rparr>"

definition saga_update_swap_state :: "u64 \<Rightarrow> saga \<Rightarrow> swap_saga_state \<Rightarrow> saga" where
  "saga_update_swap_state now s new_state = s\<lparr> sg_state := SagaSwap new_state, sg_updated_at := now \<rparr>"

definition saga_new_melt :: "u64 \<Rightarrow> uuid \<Rightarrow> melt_saga_state \<Rightarrow> string \<Rightarrow> saga" where
  "saga_new_melt now operation_id state quote_id = \<lparr> sg_operation_id = operation_id, sg_operation_kind = Op_Melt,
     sg_state = SagaMelt state, sg_quote_id = Some quote_id, sg_created_at = now, sg_updated_at = now \<rparr>"

definition saga_update_melt_state :: "u64 \<Rightarrow> saga \<Rightarrow> melt_saga_state \<Rightarrow> saga" where
  "saga_update_melt_state now s new_state = s\<lparr> sg_state := SagaMelt new_state, sg_updated_at := now \<rparr>"

record operation =
  op_id :: uuid
  op_kind :: operation_kind
  op_total_issued :: u64
  op_total_redeemed :: u64
  op_fee_collected :: u64
  op_complete_at :: "u64 option"
  op_payment_amount :: "u64 option"
  op_payment_fee :: "u64 option"
  op_payment_method :: "payment_method option"

definition operation_new ::
  "uuid \<Rightarrow> operation_kind \<Rightarrow> u64 \<Rightarrow> u64 \<Rightarrow> u64 \<Rightarrow> u64 option \<Rightarrow> payment_method option \<Rightarrow> operation"
where
  "operation_new i k issued redeemed fee at m = \<lparr> op_id = i, op_kind = k, op_total_issued = issued,
     op_total_redeemed = redeemed, op_fee_collected = fee, op_complete_at = at,
     op_payment_amount = None, op_payment_fee = None, op_payment_method = m \<rparr>"

definition operation_new_mint :: "uuid \<Rightarrow> u64 \<Rightarrow> payment_method \<Rightarrow> operation" where
  "operation_new_mint i issued m = operation_new i Op_Mint issued 0 0 None (Some m)"

definition operation_new_batch_mint :: "uuid \<Rightarrow> u64 \<Rightarrow> payment_method \<Rightarrow> operation" where
  "operation_new_batch_mint i issued m = operation_new i Op_BatchMint issued 0 0 None (Some m)"

definition operation_new_melt :: "uuid \<Rightarrow> u64 \<Rightarrow> u64 \<Rightarrow> payment_method \<Rightarrow> operation" where
  "operation_new_melt i redeemed fee m = operation_new i Op_Melt 0 redeemed fee None (Some m)"

definition operation_new_swap :: "uuid \<Rightarrow> u64 \<Rightarrow> u64 \<Rightarrow> u64 \<Rightarrow> operation" where
  "operation_new_swap i issued redeemed fee = operation_new i Op_Swap issued redeemed fee None None"

definition add_change :: "operation \<Rightarrow> u64 \<Rightarrow> operation" where
  "add_change d change = d\<lparr> op_total_issued := change \<rparr>"

definition set_payment_details :: "operation \<Rightarrow> u64 \<Rightarrow> u64 \<Rightarrow> operation" where
  "set_payment_details d amount fee = d\<lparr> op_payment_amount := Some amount, op_payment_fee := Some fee \<rparr>"

section \<open>Mint quotes\<close>

record incoming_payment =
  ip_amount :: typed_amount
  ip_time :: u64
  ip_payment_id :: string

record issuance =
  is_amount :: typed_amount
  is_time :: u64

record mint_quote_change =
  ch_payments :: "incoming_payment list option"
  ch_issuances :: "u64 list option"

record mint_quote =
  mq_id :: quote_id
  mq_amount :: "typed_amount option"
  mq_unit :: currency_unit
  mq_request :: string
  mq_expiry :: u64
  mq_request_lookup_id :: payment_identifier
  mq_pubkey :: "public_key option"
  mq_created_time :: u64
  mq_amount_paid :: typed_amount
  mq_amount_issued :: typed_amount
  mq_payments :: "incoming_payment list"
  mq_payment_method :: payment_method
  mq_issuance :: "issuance list"
  mq_extra_json :: "string option"
  mq_changes :: "mint_quote_change option"

definition incoming_payment_new :: "typed_amount \<Rightarrow> string \<Rightarrow> u64 \<Rightarrow> incoming_payment" where
  "incoming_payment_new amount payment_id time = \<lparr> ip_amount = amount, ip_time = time, ip_payment_id = payment_id \<rparr>"

definition get_or_default :: "'a \<Rightarrow> 'a option \<Rightarrow> 'a" where
  "get_or_default d m = (case m of None \<Rightarrow> d | Some x \<Rightarrow> x)"

abbreviation no_change :: mint_quote_change where
  "no_change \<equiv> \<lparr> ch_payments = None, ch_issuances = None \<rparr>"

definition push_payment :: "mint_quote_change option \<Rightarrow> incoming_payment \<Rightarrow> mint_quote_change option" where
  "push_payment c p = (let c' = get_or_default no_change c in
     Some (c'\<lparr> ch_payments := Some (get_or_default [] (ch_payments c') @ [p]) \<rparr>))"

definition push_issuance :: "mint_quote_change option \<Rightarrow> u64 \<Rightarrow> mint_quote_change option" where
  "push_issuance c a = (let c' = get_or_default no_change c in
     Some (c'\<lparr> ch_issuances := Some (get_or_default [] (ch_issuances c') @ [a]) \<rparr>))"

definition increment_amount_paid :: "mint_quote \<Rightarrow> typed_amount \<Rightarrow> cdk_error + u64 \<times> mint_quote" where
  "increment_amount_paid q additional_amount =
     rbind (map_err (\<lambda>_. E_AmountOverflow) (typed_checked_add (mq_amount_paid q) additional_amount)) (\<lambda>paid.
       Inr (ta_value paid, q\<lparr> mq_amount_paid := paid \<rparr>))"

definition add_issuance :: "mint_quote \<Rightarrow> typed_amount \<Rightarrow> cdk_error + typed_amount \<times> mint_quote" where
  "add_issuance q additional_amount =
     rbind (map_err (\<lambda>_. E_AmountOverflow) (typed_checked_add (mq_amount_issued q) additional_amount)) (\<lambda>new_amount_issued.
       if typed_partial_cmp_lt (mq_amount_paid q) new_amount_issued then Inl E_OverIssue
       else Inr (new_amount_issued,
              q\<lparr> mq_changes := push_issuance (mq_changes q) (ta_value additional_amount),
                 mq_amount_issued := new_amount_issued \<rparr>))"

definition payment_ids :: "mint_quote \<Rightarrow> string list" where
  "payment_ids q = map ip_payment_id (mq_payments q)"

definition amount_mintable :: "mint_quote \<Rightarrow> typed_amount" where
  "amount_mintable q = (case typed_checked_sub (mq_amount_paid q) (mq_amount_issued q) of
       Inr a \<Rightarrow> a | Inl e \<Rightarrow> new_amount 0 (mq_unit q))"

definition take_changes :: "mint_quote \<Rightarrow> mint_quote_change option \<times> mint_quote" where
  "take_changes q = (mq_changes q, q\<lparr> mq_changes := None \<rparr>)"

definition add_payment :: "u64 \<Rightarrow> mint_quote \<Rightarrow> typed_amount \<Rightarrow> string \<Rightarrow> u64 option \<Rightarrow> cdk_error + mint_quote" where
  "add_payment now q amount payment_id time =
     (if payment_id \<in> set (payment_ids q) then Inl E_DuplicatePaymentId
      else rbind (map_err (\<lambda>_. E_AmountOverflow) (typed_checked_add (mq_amount_paid q) amount)) (\<lambda>paid.
        let payment = incoming_payment_new amount payment_id (get_or_default now time)
        in Inr (q\<lparr> mq_amount_paid := paid,
                   mq_payments := mq_payments q @ [payment],
                   mq_changes := push_payment (mq_changes q) payment \<rparr>)))"

definition compute_quote_state :: "mint_quote \<Rightarrow> mint_quote_state" where
  "compute_quote_state q = (let zero_amount = new_amount 0 (mq_unit q) in
     if mq_amount_paid q = zero_amount \<and> mq_amount_issued q = zero_amount then NQ_Unpaid
     else if ta_value (mq_amount_paid q) < ta_value (mq_amount_issued q) then NQ_Issued
     else if ta_value (mq_amount_paid q) = ta_value (mq_amount_issued q) then NQ_Issued
     else NQ_Paid)"

section \<open>Melt quotes\<close>

datatype melt_payment_request =
    MP_Bolt11 string
  | MP_Bolt12 string
  | MP_Custom string string

datatype melt_options = Mpp u64 | Amountless u64

fun melt_options_amount_msat :: "melt_options \<Rightarrow> u64" where
  "melt_options_amount_msat (Mpp a) = a"
| "melt_options_amount_msat (Amountless a) = a"

fun melt_payment_request_display :: "melt_payment_request \<Rightarrow> string" where
  "melt_payment_request_display (MP_Bolt11 bolt11) = bolt11"
| "melt_payment_request_display (MP_Bolt12 offer) = offer"
| "melt_payment_request_display (MP_Custom m request) = request"

record melt_quote =
  lq_id :: quote_id
  lq_unit :: currency_unit
  lq_request :: melt_payment_request
  lq_amount :: typed_amount
  lq_fee_reserve :: typed_amount
  lq_state :: melt_quote_state
  lq_expiry :: u64
  lq_payment_preimage :: "string option"
  lq_request_lookup_id :: "payment_identifier option"
  lq_options :: "melt_options option"
  lq_created_time :: u64
  lq_paid_time :: "u64 option"
  lq_payment_method :: payment_method

definition melt_quote_new ::
  "u64 \<Rightarrow> quote_id \<Rightarrow> melt_payment_request \<Rightarrow> currency_unit \<Rightarrow> typed_amount \<Rightarrow> typed_amount \<Rightarrow> u64 \<Rightarrow>
   payment_identifier option \<Rightarrow> melt_options option \<Rightarrow> payment_method \<Rightarrow> melt_quote"
where
  "melt_quote_new now i request u amount fee_reserve expiry request_lookup_id options m = \<lparr>
     lq_id = i, lq_unit = u, lq_request = request, lq_amount = amount, lq_fee_reserve = fee_reserve,
     lq_state = MQ_Unpaid, lq_expiry = expiry, lq_payment_preimage = None,
     lq_request_lookup_id = request_lookup_id, lq_options = options, lq_created_time = now,
     lq_paid_time = None, lq_payment_method = m \<rparr>"

definition total_needed :: "melt_quote \<Rightarrow> cdk_error + u64" where
  "total_needed q = rmap ta_value
     (map_err (\<lambda>_. E_AmountOverflow) (typed_checked_add (lq_amount q) (lq_fee_reserve q)))"

section \<open>Text round trips\<close>

text \<open>Lower-case ASCII text is its own lower case.\<close>

definition lowercase_ascii :: "ext \<Rightarrow> bool" where
  "lowercase_ascii X \<longleftrightarrow>
     (\<forall>s. list_all (\<lambda>c. c = CHR ''_'' \<or> c \<in> set ''0123456789'' \<or> c \<in> set ''abcdefghijklmnopqrstuvwxyz'') s
        \<longrightarrow> x_to_lowercase X s = s)"

lemma demo_lowercase_ascii: "lowercase_ascii demo_ext"
  by (simp add: lowercase_ascii_def demo_ext_def)

lemma operation_kind_roundtrip:
  "lowercase_ascii X \<Longrightarrow> operation_kind_from_str X (operation_kind_display k) = Inr k"
  by (cases k) (simp_all add: operation_kind_from_str_def lowercase_ascii_def)

fun saga_kind :: "saga_state_enum \<Rightarrow> operation_kind" where
  "saga_kind (SagaSwap s) = Op_Swap"
| "saga_kind (SagaMelt s) = Op_Melt"

lemma saga_state_roundtrip:
  "lowercase_ascii X \<Longrightarrow> saga_state_new X (saga_kind s) (saga_state_str s) = Inr s"
  by (cases s rule: saga_state_str.cases)
     (simp_all add: swap_saga_state_from_str_def melt_saga_state_from_str_def lowercase_ascii_def)

fun payment_identifier_wf :: "payment_identifier \<Rightarrow> bool" where
  "payment_identifier_wf (PI_PaymentHash h) = (length h = 32)"
| "payment_identifier_wf (PI_Bolt12PaymentHash h) = (length h = 32)"
| "payment_identifier_wf (PI_PaymentId h) = (length h = 32)"
| "payment_identifier_wf _ = True"

lemma payment_identifier_roundtrip:
  assumes "lowercase_ascii X" and "payment_identifier_wf i"
  shows "payment_identifier_new X (payment_identifier_kind i) (payment_identifier_display i) = Inr i"
  using assms by (cases i) (simp_all add: payment_identifier_new_def lowercase_ascii_def hash32_def)

lemma payment_method_roundtrip:
  assumes "lowercase_ascii X" and "m = payment_method_from_str X s"
    and "x_to_lowercase X (x_to_lowercase X s) = x_to_lowercase X s"
  shows "payment_method_from_str X (payment_method_as_str m) = m"
  using assms by (auto simp: payment_method_from_str_def known_method_from_str_def lowercase_ascii_def Let_def)

section \<open>The accounting of a mint quote\<close>

text \<open>
  The invariant of a mint quote, the changes it carries for the database, and what a sequence of
  payments and issuances does to it; a call that returns an error leaves the quote as it was.
\<close>

definition quote_wf :: "mint_quote \<Rightarrow> bool" where
  "quote_wf q \<longleftrightarrow> ta_unit (mq_amount_paid q) = mq_unit q \<and> ta_unit (mq_amount_issued q) = mq_unit q \<and>
     ta_value (mq_amount_issued q) \<le> ta_value (mq_amount_paid q) \<and> distinct (payment_ids q)"

definition new_payments :: "mint_quote \<Rightarrow> incoming_payment list" where
  "new_payments q = (case mq_changes q of None \<Rightarrow> [] | Some c \<Rightarrow> get_or_default [] (ch_payments c))"

definition new_issuances :: "mint_quote \<Rightarrow> u64 list" where
  "new_issuances q = (case mq_changes q of None \<Rightarrow> [] | Some c \<Rightarrow> get_or_default [] (ch_issuances c))"

definition changes_of :: "mint_quote \<Rightarrow> mint_quote \<Rightarrow> bool" where
  "changes_of q0 q \<longleftrightarrow>
     mq_payments q = mq_payments q0 @ new_payments q \<and>
     unat (ta_value (mq_amount_paid q)) =
       unat (ta_value (mq_amount_paid q0)) + usum (map (ta_value \<circ> ip_amount) (new_payments q)) \<and>
     unat (ta_value (mq_amount_issued q)) =
       unat (ta_value (mq_amount_issued q0)) + usum (new_issuances q)"

datatype quote_event = Pay typed_amount string "u64 option" | Issue typed_amount

fun quote_event_apply :: "u64 \<Rightarrow> quote_event \<Rightarrow> mint_quote \<Rightarrow> mint_quote" where
  "quote_event_apply now (Pay a i t) q = (case add_payment now q a i t of Inr q' \<Rightarrow> q' | Inl e \<Rightarrow> q)"
| "quote_event_apply now (Issue a) q = (case add_issuance q a of Inr (n, q') \<Rightarrow> q' | Inl e \<Rightarrow> q)"

lemma new_push_payment:
  "new_payments (q\<lparr> mq_amount_paid := paid, mq_payments := ps, mq_changes := push_payment (mq_changes q) p \<rparr>)
     = new_payments q @ [p]"
  "new_issuances (q\<lparr> mq_amount_paid := paid, mq_payments := ps, mq_changes := push_payment (mq_changes q) p \<rparr>)
     = new_issuances q"
  by (auto simp: new_payments_def new_issuances_def push_payment_def get_or_default_def Let_def split: option.splits)

lemma new_push_issuance:
  "new_payments (q\<lparr> mq_changes := push_issuance (mq_changes q) a, mq_amount_issued := n \<rparr>) = new_payments q"
  "new_issuances (q\<lparr> mq_changes := push_issuance (mq_changes q) a, mq_amount_issued := n \<rparr>) = new_issuances q @ [a]"
  by (auto simp: new_payments_def new_issuances_def push_issuance_def get_or_default_def Let_def split: option.splits)

lemma add_payment_Ok:
  assumes "add_payment now q a i t = Inr q'"
  shows "i \<notin> set (payment_ids q)" "ta_unit a = ta_unit (mq_amount_paid q)"
    "unat (ta_value (mq_amount_paid q')) = unat (ta_value (mq_amount_paid q)) + unat (ta_value a)"
    "quote_wf q \<Longrightarrow> quote_wf q'" "changes_of q0 q \<Longrightarrow> changes_of q0 q'"
    "mq_amount_issued q' = mq_amount_issued q"
proof -
  from assms obtain paid where i: "i \<notin> set (payment_ids q)"
    and paid: "typed_checked_add (mq_amount_paid q) a = Inr paid"
    and q': "q' = q\<lparr> mq_amount_paid := paid,
                   mq_payments := mq_payments q @ [incoming_payment_new a i (get_or_default now t)],
                   mq_changes := push_payment (mq_changes q) (incoming_payment_new a i (get_or_default now t)) \<rparr>"
    by (auto simp: add_payment_def res_simps Let_def split: if_splits)
  show "i \<notin> set (payment_ids q)" by (rule i)
  from paid show "ta_unit a = ta_unit (mq_amount_paid q)"
    and sum: "unat (ta_value (mq_amount_paid q')) = unat (ta_value (mq_amount_paid q)) + unat (ta_value a)"
    using q' by (auto simp: typed_checked_add_Ok)
  show "quote_wf q \<Longrightarrow> quote_wf q'"
    using i paid sum by (auto simp: q' quote_wf_def payment_ids_def incoming_payment_new_def typed_checked_add_Ok word_le_nat_alt)
  show "changes_of q0 q \<Longrightarrow> changes_of q0 q'"
    using sum unfolding changes_of_def q' new_push_payment by (auto simp: incoming_payment_new_def)
  show "mq_amount_issued q' = mq_amount_issued q" by (simp add: q')
qed

lemma add_issuance_Ok:
  assumes "add_issuance q a = Inr (n, q')"
  shows "n = mq_amount_issued q'" "ta_unit a = ta_unit (mq_amount_issued q)"
    "unat (ta_value (mq_amount_issued q')) = unat (ta_value (mq_amount_issued q)) + unat (ta_value a)"
    "quote_wf q \<Longrightarrow> quote_wf q'" "changes_of q0 q \<Longrightarrow> changes_of q0 q'"
    "mq_amount_paid q' = mq_amount_paid q"
proof -
  from assms have issued: "typed_checked_add (mq_amount_issued q) a = Inr n"
    and bound: "\<not> typed_partial_cmp_lt (mq_amount_paid q) n"
    and q': "q' = q\<lparr> mq_changes := push_issuance (mq_changes q) (ta_value a), mq_amount_issued := n \<rparr>"
    by (auto simp: add_issuance_def res_simps split: if_splits)
  show "n = mq_amount_issued q'" by (simp add: q')
  from issued show "ta_unit a = ta_unit (mq_amount_issued q)"
    and sum: "unat (ta_value (mq_amount_issued q')) = unat (ta_value (mq_amount_issued q)) + unat (ta_value a)"
    using q' by (auto simp: typed_checked_add_Ok)
  show "quote_wf q \<Longrightarrow> quote_wf q'"
    using issued bound by (auto simp: q' quote_wf_def payment_ids_def typed_checked_add_Ok typed_partial_cmp_lt_def not_less)
  show "changes_of q0 q \<Longrightarrow> changes_of q0 q'"
    using sum unfolding changes_of_def q' new_push_issuance by auto
  show "mq_amount_paid q' = mq_amount_paid q" by (simp add: q')
qed

lemma quote_event_apply_invariant:
  assumes "quote_wf q" and "changes_of q0 q"
  shows "quote_wf (quote_event_apply now e q) \<and> changes_of q0 (quote_event_apply now e q)"
proof (cases e)
  case (Pay a i t)
  then show ?thesis using assms by (auto split: sum.split dest: add_payment_Ok(4,5))
next
  case (Issue a)
  then show ?thesis using assms by (auto split: sum.split dest: add_issuance_Ok(4,5))
qed

lemma amount_mintable_wf:
  "quote_wf q \<Longrightarrow> unat (ta_value (amount_mintable q)) = unat (ta_value (mq_amount_paid q)) - unat (ta_value (mq_amount_issued q))"
proof (cases "typed_checked_sub (mq_amount_paid q) (mq_amount_issued q)")
  case (Inr a)
  then have "amount_mintable q = a" by (simp add: amount_mintable_def)
  with Inr show ?thesis by (auto simp: typed_checked_sub_Ok)
next
  case (Inl e)
  assume wf: "quote_wf q"
  with Inl have "ta_value (mq_amount_paid q) < ta_value (mq_amount_issued q)"
    by (auto simp: typed_checked_sub_def quote_wf_def u64_simps ok_or_eq_Err word_less_nat_alt split: if_splits)
  with \<open>quote_wf q\<close> show ?thesis by (simp add: quote_wf_def not_less [symmetric])
qed

lemma compute_quote_state_wf:
  assumes "quote_wf q"
  shows "compute_quote_state q =
    (if mq_amount_paid q = new_amount 0 (mq_unit q) then NQ_Unpaid
     else if ta_value (amount_mintable q) = 0 then NQ_Issued else NQ_Paid)"
proof -
  from assms have le: "ta_value (mq_amount_issued q) \<le> ta_value (mq_amount_paid q)"
    and u: "ta_unit (mq_amount_issued q) = mq_unit q" by (auto simp: quote_wf_def)
  have zero: "mq_amount_issued q = new_amount 0 (mq_unit q)" if "mq_amount_paid q = new_amount 0 (mq_unit q)"
    using that le u by (cases "mq_amount_issued q") (simp add: new_amount_def)
  have "ta_value (amount_mintable q) = 0 \<longleftrightarrow> ta_value (mq_amount_paid q) = ta_value (mq_amount_issued q)"
    using amount_mintable_wf [OF assms] le by (auto simp: unat_eq_0 word_le_nat_alt word_unat_eq_iff)
  then show ?thesis
    using zero le by (auto simp: compute_quote_state_def Let_def)
qed

text \<open>
  The accounting of a mint quote under any sequence of payments and issuances: the amount issued
  never exceeds the amount paid and no payment identifier is recorded twice; the counters differ
  from the loaded quote by exactly the payments and issuances recorded for the database; the
  mintable amount is what was paid and not yet issued, and the state is unpaid, paid or issued as
  nothing was paid, something is mintable, or all is issued.
\<close>
theorem mint_quote_accounting:
  assumes "quote_wf q0" and "mq_changes q0 = None" and "q = fold (quote_event_apply now) es q0"
  shows "quote_wf q \<and> changes_of q0 q \<and>
    unat (ta_value (amount_mintable q)) + unat (ta_value (mq_amount_issued q)) = unat (ta_value (mq_amount_paid q)) \<and>
    compute_quote_state q =
      (if mq_amount_paid q = new_amount 0 (mq_unit q) then NQ_Unpaid
       else if ta_value (amount_mintable q) = 0 then NQ_Issued else NQ_Paid)"
proof -
  have "quote_wf (fold (quote_event_apply now) es r) \<and> changes_of q0 (fold (quote_event_apply now) es r)"
    if "quote_wf r" "changes_of q0 r" for r
    using that by (induction es arbitrary: r) (auto simp: quote_event_apply_invariant)
  moreover have "changes_of q0 q0"
    using assms(2) by (simp add: changes_of_def new_payments_def new_issuances_def)
  ultimately have inv: "quote_wf q" "changes_of q0 q" using assms(1,3) by auto
  then have "ta_value (mq_amount_issued q) \<le> ta_value (mq_amount_paid q)" by (simp add: quote_wf_def)
  with inv show ?thesis
    by (simp add: amount_mintable_wf compute_quote_state_wf word_le_nat_alt)
qed

definition demo_quote :: mint_quote where
  "demo_quote = \<lparr> mq_id = ''q'', mq_amount = None, mq_unit = Sat, mq_request = ''lnbc'', mq_expiry = 0,
     mq_request_lookup_id = PI_CustomId ''q'', mq_pubkey = None, mq_created_time = 0,
     mq_amount_paid = new_amount 0 Sat, mq_amount_issued = new_amount 0 Sat, mq_payments = [],
     mq_payment_method = KnownMethod Bolt11, mq_issuance = [], mq_extra_json = None, mq_changes = None \<rparr>"

theorem mint_quote_accounting_witness:
  "let q = fold (quote_event_apply 5) [Pay (new_amount 10 Sat) ''a'' None, Issue (new_amount 7 Sat),
      Pay (new_amount 9 Sat) ''a'' None, Issue (new_amount 4 Sat)] demo_quote
   in ta_value (mq_amount_paid q) = 10 \<and> ta_value (mq_amount_issued q) = 7 \<and>
      quote_wf q \<and> compute_quote_state q = NQ_Paid"
proof -
  let ?es = "[Pay (new_amount 10 Sat) ''a'' None, Issue (new_amount 7 Sat),
      Pay (new_amount 9 Sat) ''a'' None, Issue (new_amount 4 Sat)]"
  have "quote_wf demo_quote" "mq_changes demo_quote = None" by code_simp+
  then have "quote_wf (fold (quote_event_apply 5) ?es demo_quote)"
    using mint_quote_accounting [of demo_quote _ 5 ?es] by blast
  moreover have "ta_value (mq_amount_paid (fold (quote_event_apply 5) ?es demo_quote)) = 10"
    and "ta_value (mq_amount_issued (fold (quote_event_apply 5) ?es demo_quote)) = 7"
    and "compute_quote_state (fold (quote_event_apply 5) ?es demo_quote) = NQ_Paid" by code_simp+
  ultimately show ?thesis unfolding Let_def by blast
qed

text \<open>
  What the mint writes to its database as text is read back: operation kinds, saga states (with
  the kind stored beside them), payment identifiers with a 32-byte hash, and payment methods that
  were read from text, given that lower-casing is idempotent and fixes lower-case ASCII.
\<close>
theorem mint_text_roundtrip:
  assumes "lowercase_ascii X" and "payment_identifier_wf i"
    and "x_to_lowercase X (x_to_lowercase X t) = x_to_lowercase X t"
  shows "operation_kind_from_str X (operation_kind_display k) = Inr k \<and>
    saga_state_new X (saga_kind s) (saga_state_str s) = Inr s \<and>
    payment_identifier_new X (payment_identifier_kind i) (payment_identifier_display i) = Inr i \<and>
    payment_method_from_str X (payment_method_as_str (payment_method_from_str X t)) = payment_method_from_str X t"
  using assms by (simp add: operation_kind_roundtrip saga_state_roundtrip payment_identifier_roundtrip
      payment_method_roundtrip [OF assms(1) refl assms(3)])

theorem mint_text_roundtrip_witness:
  "payment_identifier_new demo_ext ''payment_hash'' (encode (replicate 32 7)) = Inr (PI_PaymentHash (replicate 32 7)) \<and>
   saga_state_new demo_ext Op_Melt ''finalizing'' = Inr (SagaMelt MeltFinalizing)"
  using mint_text_roundtrip [of demo_ext "PI_PaymentHash (replicate 32 7)" "''bolt11''" Op_Swap "SagaMelt MeltFinalizing"]
    demo_lowercase_ascii by (simp add: demo_ext_def)

end
