(* ===== verification/Signatory.thy ===== *)
theory Signatory
  imports Mint_Types
begin

text \<open>
  The signatory and the mint's view of its keysets: \<open>blind_sign\<close> and \<open>verify_proofs\<close> of
  \<open>crates/cdk-signatory/src/db_signatory.rs\<close>, and \<open>get_keyset_info\<close>, \<open>get_proofs_fee\<close>,
  \<open>blind_sign\<close> and \<open>verify_proofs\<close> of \<open>crates/cdk/src/mint/mod.rs\<close>. The record \<open>mint\<close> holds what
  the handlers read of the \<open>Mint\<close> struct: the cached keysets, the signatory's keys and the request
  limits. Keysets are created and rotated elsewhere; here they are fixed. The nonces of the proofs
  of equal logarithms are an argument, one per message, and \<open>m_witness_json\<close> stands for the JSON
  text of a witness, of which only the length matters.
\<close>

record mint_keyset_info =
  mk_id :: keyset_id
  mk_unit :: currency_unit
  mk_active :: bool
  mk_amounts :: "u64 list"
  mk_input_fee_ppk :: u64
  mk_final_expiry :: "u64 option"

record mint =
  m_ext :: ext
  m_keysets :: "mint_keyset_info list"
  m_signatory :: "(keyset_id \<times> mint_keyset_info \<times> (u64 \<times> secret_key) list) list"
  m_max_inputs :: nat
  m_max_outputs :: nat
  m_witness_json :: "witness \<Rightarrow> string option"

definition sign_one :: "mint \<Rightarrow> secret_key \<Rightarrow> blinded_message \<Rightarrow> cdk_error + blind_signature" where
  "sign_one M nonce m =
     rbind (ok_or E_UnknownKeySet (map_of (m_signatory M) (bm_keyset_id m))) (\<lambda>(info, keys).
     if \<not> mk_active info then Inl E_InactiveKeyset
     else rbind (ok_or E_UnknownKeySet (map_of keys (bm_amount m))) (\<lambda>k.
       rbind (map_err E_DHKE (sign_message (m_ext M) k (bm_blinded_secret m))) (\<lambda>c.
         map_err E_NUT12 (blind_signature_new (m_ext M) nonce (bm_amount m) c (bm_keyset_id m) (bm_blinded_secret m) k))))"

definition blind_sign :: "mint \<Rightarrow> secret_key list \<Rightarrow> blinded_message list \<Rightarrow> cdk_error + blind_signature list" where
  "blind_sign M nonces ms = collect_res (\<lambda>(nonce, m). sign_one M nonce m) (zip nonces ms)"

definition verify_one :: "mint \<Rightarrow> cashu_proof \<Rightarrow> cdk_error + unit" where
  "verify_one M p =
     rbind (ok_or E_UnknownKeySet (map_of (m_signatory M) (p_keyset_id p))) (\<lambda>(_, keys).
     rbind (ok_or E_UnknownKeySet (map_of keys (p_amount p))) (\<lambda>k.
       map_err E_DHKE (verify_message (m_ext M) k (p_c p) (str_bytes (p_secret p)))))"

definition verify_proofs :: "mint \<Rightarrow> cashu_proof list \<Rightarrow> cdk_error + unit" where
  "verify_proofs M ps = rmap (\<lambda>_. ()) (collect_res (verify_one M) ps)"

definition get_keyset_info :: "mint \<Rightarrow> keyset_id \<Rightarrow> mint_keyset_info option" where
  "get_keyset_info M i = List.find (\<lambda>k. mk_id k = i) (m_keysets M)"

definition get_active_keysets :: "mint \<Rightarrow> (currency_unit \<times> keyset_id) list" where
  "get_active_keysets M = map (\<lambda>k. (mk_unit k, mk_id k)) (filter mk_active (m_keysets M))"

fun fee_scan ::
  "mint \<Rightarrow> (keyset_id \<times> u64) list \<Rightarrow> (keyset_id \<times> u64) list \<Rightarrow> cashu_proof list \<Rightarrow>
   cdk_error + (keyset_id \<times> u64) list \<times> (keyset_id \<times> u64) list"
where
  "fee_scan M fees counts [] = Inr (fees, counts)"
| "fee_scan M fees counts (p # ps) =
     rbind (case map_of fees (p_keyset_id p) of
              Some _ \<Rightarrow> Inr fees
            | None \<Rightarrow> rmap (\<lambda>i. (p_keyset_id p, mk_input_fee_ppk i) # fees)
                (ok_or E_UnknownKeySet (get_keyset_info M (p_keyset_id p)))) (\<lambda>fees'.
       fee_scan M fees' (entry_add (p_keyset_id p) 1 counts) ps)"

definition get_proofs_fee :: "mint \<Rightarrow> cashu_proof list \<Rightarrow> cdk_error + proofs_fee_breakdown" where
  "get_proofs_fee M ps = rbind (fee_scan M [] [] ps) (\<lambda>(fees, counts). calculate_fee counts fees)"

section \<open>What signing and fees guarantee\<close>

lemma sign_one_Ok:
  "sign_one M nonce m = Inr s \<Longrightarrow> bs_amount s = bm_amount m \<and> bs_keyset_id s = bm_keyset_id m"
  by (auto simp: sign_one_def res_simps blind_signature_new_def split: if_splits)

lemma blind_sign_Ok:
  assumes "blind_sign M nonces ms = Inr sigs" and "length nonces = length ms"
  shows "list_all2 (\<lambda>m s. bs_amount s = bm_amount m \<and> bs_keyset_id s = bm_keyset_id m) ms sigs"
  using assms by (auto simp: blind_sign_def collect_res_eq_Ok list_all2_conv_all_nth dest!: sign_one_Ok)

lemma blind_sign_amounts:
  assumes "blind_sign M nonces ms = Inr sigs" and "length sigs = length ms"
  shows "map bs_amount sigs = map bm_amount ms"
proof -
  have "length sigs = length (zip nonces ms)" using assms(1) by (simp add: blind_sign_def collect_res_length)
  with assms(2) have len: "length (take (length ms) nonces) = length ms" by simp
  have "zip (take (length ms) nonces) ms = zip nonces ms" by (rule nth_equalityI) auto
  with assms(1) have "blind_sign M (take (length ms) nonces) ms = Inr sigs" by (simp add: blind_sign_def)
  from blind_sign_Ok [OF this len] show ?thesis by (auto simp: list_all2_conv_all_nth intro!: nth_equalityI)
qed

lemma verify_proofs_Ok: "verify_proofs M ps = Inr u \<longleftrightarrow> (\<forall>p \<in> set ps. verify_one M p = Inr ())"
proof -
  have "(\<exists>us. collect_res (verify_one M) ps = Inr us) \<longleftrightarrow> (\<forall>p \<in> set ps. verify_one M p = Inr ())"
    by (induction ps) (auto simp: rbind_eq_Ok)
  then show ?thesis by (auto simp: verify_proofs_def rmap_eq_Ok)
qed

definition keyset_fee :: "mint \<Rightarrow> keyset_id \<Rightarrow> nat" where
  "keyset_fee M k = (case get_keyset_info M k of None \<Rightarrow> 0 | Some i \<Rightarrow> unat (mk_input_fee_ppk i))"

definition input_fee :: "mint \<Rightarrow> cashu_proof list \<Rightarrow> nat" where
  "input_fee M ps = (sum_list (map (\<lambda>p. keyset_fee M (p_keyset_id p)) ps) + 999) div 1000"

definition fees_agree :: "mint \<Rightarrow> (keyset_id \<times> u64) list \<Rightarrow> bool" where
  "fees_agree M fees \<longleftrightarrow> (\<forall>k f. map_of fees k = Some f \<longrightarrow> keyset_fee M k = unat f)"

lemma fee_scan_Ok:
  assumes "fee_scan M fees counts ps = Inr (fees', counts')" and "fees_agree M fees"
  shows "fees_agree M fees' \<and> counts' = fold (\<lambda>p c. entry_add (p_keyset_id p) 1 c) ps counts"
  using assms
proof (induction M fees counts ps rule: fee_scan.induct)
  case (2 M fees counts p ps)
  then obtain fees1 where f1: "(case map_of fees (p_keyset_id p) of
              Some _ \<Rightarrow> Inr fees
            | None \<Rightarrow> rmap (\<lambda>i. (p_keyset_id p, mk_input_fee_ppk i) # fees)
                (ok_or E_UnknownKeySet (get_keyset_info M (p_keyset_id p)))) = Inr fees1"
    and rec: "fee_scan M fees1 (entry_add (p_keyset_id p) 1 counts) ps = Inr (fees', counts')"
    by (auto simp: rbind_eq_Ok)
  have "fees_agree M fees1"
  proof (cases "map_of fees (p_keyset_id p)")
    case None
    with f1 obtain i where i: "get_keyset_info M (p_keyset_id p) = Some i"
      "fees1 = (p_keyset_id p, mk_input_fee_ppk i) # fees" by (auto simp: rmap_eq_Ok ok_or_eq_Ok)
    then have "keyset_fee M (p_keyset_id p) = unat (mk_input_fee_ppk i)" by (simp add: keyset_fee_def)
    with i(2) 2(3) show ?thesis by (simp add: fees_agree_def)
  qed (use f1 2(3) in simp)
  from 2(1) [OF f1 rec this] show ?case by simp
qed simp

lemma sum_list_by_key:
  assumes "distinct ks" and "f ` set xs \<subseteq> set ks"
  shows "sum_list (map (\<lambda>k. g k * length (filter (\<lambda>x. f x = k) xs)) ks) = sum_list (map (\<lambda>x. g (f x)) xs)"
  using assms(2)
proof (induction xs)
  case (Cons x xs)
  have "sum_list (map (\<lambda>k. g k * length (filter (\<lambda>y. f y = k) (x # xs))) ks)
      = sum_list (map (\<lambda>k. (if k = f x then g k else 0) + g k * length (filter (\<lambda>y. f y = k) xs)) ks)"
    by (rule arg_cong [where f = sum_list]) (auto simp: algebra_simps)
  also have "\<dots> = sum_list (map (\<lambda>k. if k = f x then g k else 0) ks) + sum_list (map (\<lambda>x. g (f x)) xs)"
    using Cons by (simp add: sum_list_addf)
  also have "sum_list (map (\<lambda>k. if k = f x then g k else 0) ks) = g (f x)"
    using assms(1) Cons.prems by (simp add: sum_list_distinct_conv_sum_set sum.delta)
  finally show ?case by simp
qed simp

lemma raw_fee_sum_counts:
  assumes "fees_agree M fees" and "\<forall>k \<in> p_keyset_id ` set ps. map_of fees k \<noteq> None" and "length ps < 2 ^ 64"
  shows "raw_fee_sum fees (count_by_keyset ps) = sum_list (map (\<lambda>p. keyset_fee M (p_keyset_id p)) ps)"
proof -
  let ?n = "\<lambda>k. length (filter (\<lambda>p. p_keyset_id p = k) ps)"
  have "fee_of fees e = keyset_fee M (fst e) * ?n (fst e)" if "e \<in> set (count_by_keyset ps)" for e
  proof -
    from that have k: "fst e \<in> p_keyset_id ` set ps" using count_by_keyset_keys [of ps] by force
    have "map_of (count_by_keyset ps) (fst e) = Some (snd e)"
      using that count_by_keyset_distinct by (metis map_of_is_SomeI prod.collapse)
    with k have "snd e = of_nat (?n (fst e))" by (simp add: count_by_keyset_lookup)
    moreover have "?n (fst e) < 2 ^ 64" using assms(3) length_filter_le [of _ ps] by (rule le_less_trans [rotated])
    ultimately have "unat (snd e) = ?n (fst e)" by (simp add: unat_of_nat take_bit_nat_eq_self)
    moreover obtain f where "map_of fees (fst e) = Some f" using assms(2) k by auto
    ultimately show ?thesis using assms(1) by (simp add: fee_of_def fees_agree_def)
  qed
  then have "raw_fee_sum fees (count_by_keyset ps)
      = sum_list (map (\<lambda>k. keyset_fee M k * ?n k) (map fst (count_by_keyset ps)))"
    by (simp add: raw_fee_sum_def comp_def cong: map_cong)
  also have "\<dots> = sum_list (map (\<lambda>p. keyset_fee M (p_keyset_id p)) ps)"
    by (rule sum_list_by_key) (simp_all add: count_by_keyset_distinct count_by_keyset_keys [simplified])
  finally show ?thesis .
qed

lemma get_proofs_fee_Ok:
  assumes "get_proofs_fee M ps = Inr b" and "length ps < 2 ^ 64"
  shows "unat (fb_total b) = input_fee M ps" "usum (map snd (fb_per_keyset b)) = input_fee M ps"
    "fst ` set (fb_per_keyset b) \<subseteq> p_keyset_id ` set ps"
proof -
  from assms(1) obtain fees counts where scan: "fee_scan M [] [] ps = Inr (fees, counts)"
    and calc: "calculate_fee counts fees = Inr b" by (auto simp: get_proofs_fee_def rbind_eq_Ok)
  from fee_scan_Ok [OF scan] have agree: "fees_agree M fees" and counts: "counts = count_by_keyset ps"
    by (simp_all add: fees_agree_def count_by_keyset_def)
  from calculate_fee_Ok [OF calc] have B: "\<forall>k \<in> fst ` set counts. map_of fees k \<noteq> None"
    "unat (fb_total b) = (raw_fee_sum fees counts + 999) div 1000"
    "usum (map snd (fb_per_keyset b)) = unat (fb_total b)"
    "fst ` set (fb_per_keyset b) \<subseteq> fst ` set counts"
    using counts count_by_keyset_distinct by (auto split: if_splits)
  have "raw_fee_sum fees counts = sum_list (map (\<lambda>p. keyset_fee M (p_keyset_id p)) ps)"
    unfolding counts
    by (rule raw_fee_sum_counts [OF agree _ assms(2)]) (use B(1) counts count_by_keyset_keys [of ps] in \<open>metis set_map\<close>)
  with B counts count_by_keyset_keys [of ps] show "unat (fb_total b) = input_fee M ps"
    "usum (map snd (fb_per_keyset b)) = input_fee M ps"
    "fst ` set (fb_per_keyset b) \<subseteq> p_keyset_id ` set ps" by (simp_all add: input_fee_def)
qed

end
