(* ===== verification/Mint_Db.thy ===== *)
theory Mint_Db
  imports Mint_Types
begin

text \<open>
  The mint's SQL database (\<open>crates/cdk-sql-common/src/mint\<close>): the tables as lists of rows, and the
  statements of a transaction on proofs (\<open>proofs.rs\<close>), blind signatures (\<open>signatures.rs\<close> and the
  blinded-message part of \<open>quotes.rs\<close>), sagas (\<open>saga.rs\<close>), completed operations
  (\<open>completed_operations.rs\<close>) and the per-keyset ledger \<open>keyset_amounts\<close>. An operation takes the
  database inside the transaction and returns an error or its result with the changed database; a
  transaction that does not commit leaves the database it began with, so its callers return that
  one. Columns are typed values: their text forms are the subject of the round trips of
  \<open>Keyset_Id\<close>, \<open>Proof_State\<close> and \<open>Mint_Types\<close>. Signed 64-bit columns are integers: \<open>to_i64\<close> of an
  amount beyond the range is NULL, which the NOT NULL columns reject, and \<open>as i64\<close> wraps. The running
  totals of the ledger are unbounded: a total beyond the column's range is an error of the statement in
  PostgreSQL, which the faults cover, while SQLite would go on with a floating point number, which is
  not modelled.

  The results: primary keys stay unique, a spent proof stays spent and stays in the table under
  every operation, and the ledger equals the sums over the proof and signature tables.
\<close>

section \<open>Tables\<close>

record proof_row =
  pr_y :: public_key
  pr_proof :: cashu_proof
  pr_state :: proof_state
  pr_quote_id :: "quote_id option"
  pr_created_time :: u64
  pr_operation_kind :: operation_kind
  pr_operation_id :: uuid

record sig_row =
  sr_blinded_message :: public_key
  sr_amount :: int
  sr_keyset_id :: keyset_id
  sr_c :: "public_key option"
  sr_dleq :: "blind_signature_dleq option"
  sr_quote_id :: "quote_id option"
  sr_created_time :: u64
  sr_signed_time :: "u64 option"
  sr_operation :: "(operation_kind \<times> uuid) option"

record keyset_amount =
  ka_total_issued :: int
  ka_total_redeemed :: int
  ka_fee_collected :: int

record melt_request_row =
  mrr_quote_id :: quote_id
  mrr_inputs_amount :: u64
  mrr_inputs_fee :: u64

record payment_row =
  pay_quote_id :: quote_id
  pay_payment_id :: string
  pay_amount :: u64
  pay_time :: u64

record issued_row =
  isr_quote_id :: quote_id
  isr_amount :: u64
  isr_time :: u64

record mint_db =
  d_proofs :: "proof_row list"
  d_sigs :: "sig_row list"
  d_keyset_amounts :: "(keyset_id \<times> keyset_amount) list"
  d_sagas :: "saga list"
  d_completed :: "operation list"
  d_melt_quotes :: "melt_quote list"
  d_melt_requests :: "melt_request_row list"
  d_mint_quotes :: "mint_quote list"
  d_payments :: "payment_row list"
  d_issued :: "issued_row list"

definition empty_db :: mint_db where
  "empty_db = \<lparr> d_proofs = [], d_sigs = [], d_keyset_amounts = [], d_sagas = [], d_completed = [],
     d_melt_quotes = [], d_melt_requests = [], d_mint_quotes = [], d_payments = [], d_issued = [] \<rparr>"

section \<open>Statements that fail\<close>

text \<open>
  Each call of a transaction can fail for a reason outside the model (the connection, a lock, a full
  disk). A fault assignment gives the error of each call that fails so; a failed statement has no
  effect, and a commit that reports an error has not taken effect.
\<close>

datatype db_call =
    Begin_tx
  | Commit_tx
  | Rollback_tx
  | Add_proofs
  | Update_proofs_state
  | Remove_proofs
  | Get_proofs
  | Get_proof_ys
  | Add_blinded_messages
  | Delete_blinded_messages
  | Add_blind_signatures
  | Get_blinded_secrets
  | Add_saga
  | Update_saga
  | Delete_saga
  | Get_incomplete_sagas
  | Add_completed_operation
  | Get_melt_quote
  | Lock_melt_quotes
  | Update_melt_quote
  | Update_lookup_id
  | Add_mint_quote
  | Add_melt_quote
  | Get_mint_quote
  | Update_mint_quote
  | Get_signatures
  | Add_melt_request
  | Get_melt_request
  | Delete_melt_request

type_synonym faults = "db_call \<Rightarrow> db_error option"

definition faulty :: "db_error option \<Rightarrow> db_error + 'a \<Rightarrow> db_error + 'a" where
  "faulty flt r = (case flt of Some e \<Rightarrow> Inl e | None \<Rightarrow> r)"

definition no_faults :: faults where
  "no_faults c = None"

section \<open>Rows\<close>

text \<open>An insert that a primary key may reject, and an update of the rows that match.\<close>

definition insert_row :: "('r \<Rightarrow> 'k) \<Rightarrow> 'r \<Rightarrow> 'r list \<Rightarrow> db_error + 'r list" where
  "insert_row key r t = (if key r \<in> key ` set t then Inl Db_Duplicate else Inr (t @ [r]))"

definition update_rows :: "('r \<Rightarrow> bool) \<Rightarrow> ('r \<Rightarrow> 'r) \<Rightarrow> 'r list \<Rightarrow> 'r list" where
  "update_rows P f t = map (\<lambda>r. if P r then f r else r) t"

definition as_i64 :: "u64 \<Rightarrow> int" where
  "as_i64 a = (if uint a < 2 ^ 63 then uint a else uint a - 2 ^ 64)"

definition not_null_i64 :: "u64 \<Rightarrow> db_error + int" where
  "not_null_i64 a = ok_or (Db_Database ''NOT NULL constraint failed'') (amount_to_i64 a)"

definition column_as_u64 :: "int \<Rightarrow> db_error + u64" where
  "column_as_u64 v = ok_or (Db_Internal ''InvalidConversion'') (amount_from_i64 v)"

definition zero_amounts :: keyset_amount where
  "zero_amounts = \<lparr> ka_total_issued = 0, ka_total_redeemed = 0, ka_fee_collected = 0 \<rparr>"

text \<open>\<open>INSERT ... ON CONFLICT (keyset_id) DO UPDATE\<close>.\<close>

fun upsert_amounts ::
  "keyset_id \<Rightarrow> (keyset_amount \<Rightarrow> keyset_amount) \<Rightarrow> (keyset_id \<times> keyset_amount) list \<Rightarrow> (keyset_id \<times> keyset_amount) list"
where
  "upsert_amounts k f [] = [(k, f zero_amounts)]"
| "upsert_amounts k f ((k', a) # t) = (if k = k' then (k', f a) # t else (k', a) # upsert_amounts k f t)"

definition add_issued :: "int \<Rightarrow> keyset_amount \<Rightarrow> keyset_amount" where
  "add_issued v a = a\<lparr> ka_total_issued := ka_total_issued a + v \<rparr>"

definition add_redeemed :: "int \<Rightarrow> keyset_amount \<Rightarrow> keyset_amount" where
  "add_redeemed v a = a\<lparr> ka_total_redeemed := ka_total_redeemed a + v \<rparr>"

definition add_fee_collected :: "int \<Rightarrow> keyset_amount \<Rightarrow> keyset_amount" where
  "add_fee_collected v a = a\<lparr> ka_fee_collected := ka_fee_collected a + v \<rparr>"

text \<open>
  Looking up a list of keys by removing each from the hash map that was read: the second occurrence
  of a key finds nothing.
\<close>

fun take_each :: "('k \<Rightarrow> 'v option) \<Rightarrow> 'k list \<Rightarrow> 'k list \<Rightarrow> 'v option list" where
  "take_each m taken [] = []"
| "take_each m taken (k # ks) = (if k \<in> set taken then None else m k) # take_each m (k # taken) ks"

section \<open>Proofs\<close>

record proofs_with_state =
  ps_proofs :: "cashu_proof list"
  ps_state :: proof_state

definition rows_in :: "public_key list \<Rightarrow> mint_db \<Rightarrow> proof_row list" where
  "rows_in ys db = filter (\<lambda>r. pr_y r \<in> set ys) (d_proofs db)"

definition stored_proof :: "cashu_proof \<Rightarrow> cashu_proof" where
  "stored_proof p = p\<lparr> p_dleq := None, p_p2pk_e := None \<rparr>"

definition insert_proof ::
  "ext \<Rightarrow> u64 \<Rightarrow> quote_id option \<Rightarrow> operation \<Rightarrow> cashu_proof \<Rightarrow> proof_row list \<Rightarrow> db_error + proof_row list"
where
  "insert_proof X now quote_id d p t =
     rbind (map_err Db_NUT00 (proof_y X p)) (\<lambda>y.
     rbind (not_null_i64 (p_amount p)) (\<lambda>_.
       insert_row pr_y \<lparr> pr_y = y, pr_proof = stored_proof p, pr_state = Unspent, pr_quote_id = quote_id,
         pr_created_time = now, pr_operation_kind = op_kind d, pr_operation_id = op_id d \<rparr> t))"

fun insert_all :: "('a \<Rightarrow> 't \<Rightarrow> 'e + 't) \<Rightarrow> 'a list \<Rightarrow> 't \<Rightarrow> 'e + 't" where
  "insert_all f [] t = Inr t"
| "insert_all f (x # xs) t = rbind (f x t) (insert_all f xs)"

definition add_proofs ::
  "ext \<Rightarrow> u64 \<Rightarrow> cashu_proof list \<Rightarrow> quote_id option \<Rightarrow> operation \<Rightarrow> mint_db \<Rightarrow> db_error + proofs_with_state \<times> mint_db"
where
  "add_proofs X now ps quote_id d db =
     rbind (map_err Db_NUT00 (proofs_ys X ps)) (\<lambda>ys.
     rbind (case rows_in ys db of
              [] \<Rightarrow> Inr ()
            | r # _ \<Rightarrow> (if pr_state r = Spent then Inl Db_AttemptUpdateSpentProof else Inl Db_Duplicate)) (\<lambda>_.
     rbind (insert_all (insert_proof X now quote_id d) ps (d_proofs db)) (\<lambda>t.
       Inr (\<lparr> ps_proofs = ps, ps_state = Unspent \<rparr>, db\<lparr> d_proofs := t \<rparr>))))"

definition set_state :: "proof_state \<Rightarrow> proof_row \<Rightarrow> proof_row" where
  "set_state s r = r\<lparr> pr_state := s \<rparr>"

definition row_amount :: "proof_row \<Rightarrow> int" where
  "row_amount r = uint (p_amount (pr_proof r))"

definition row_keyset :: "proof_row \<Rightarrow> keyset_id" where
  "row_keyset r = p_keyset_id (pr_proof r)"

text \<open>The grouped insert of the redeemed sums of the selected rows.\<close>

definition redeem_rows :: "proof_row list \<Rightarrow> (keyset_id \<times> keyset_amount) list \<Rightarrow> (keyset_id \<times> keyset_amount) list" where
  "redeem_rows rows t = fold (\<lambda>k. upsert_amounts k (add_redeemed
       (sum_list (map row_amount (filter (\<lambda>r. row_keyset r = k) rows)))))
     (remdups (map row_keyset rows)) t"

definition db_update_proofs_state ::
  "ext \<Rightarrow> proofs_with_state \<Rightarrow> proof_state \<Rightarrow> mint_db \<Rightarrow> db_error + proofs_with_state \<times> mint_db"
where
  "db_update_proofs_state X ps new_state db =
     rbind (map_err Db_NUT00 (proofs_ys X (ps_proofs ps))) (\<lambda>ys.
       let db' = db\<lparr> d_proofs := update_rows (\<lambda>r. pr_y r \<in> set ys) (set_state new_state) (d_proofs db) \<rparr>;
           db'' = (if new_state = Spent
                   then db'\<lparr> d_keyset_amounts := redeem_rows (rows_in ys db') (d_keyset_amounts db') \<rparr>
                   else db')
       in Inr (ps\<lparr> ps_state := new_state \<rparr>, db''))"

definition remove_proofs :: "public_key list \<Rightarrow> mint_db \<Rightarrow> db_error + mint_db" where
  "remove_proofs ys db =
     (if ys = [] then Inr db
      else let deleted = (\<lambda>r. pr_y r \<in> set ys \<and> pr_state r \<noteq> Spent) in
        if length (filter deleted (d_proofs db)) \<noteq> length ys then Inl Db_AttemptRemoveSpentProof
        else Inr (db\<lparr> d_proofs := filter (\<lambda>r. \<not> deleted r) (d_proofs db) \<rparr>))"

definition get_proof_ys_by_quote_id :: "ext \<Rightarrow> quote_id \<Rightarrow> mint_db \<Rightarrow> db_error + public_key list" where
  "get_proof_ys_by_quote_id X quote_id db =
     map_err Db_NUT00 (proofs_ys X (map pr_proof (filter (\<lambda>r. pr_quote_id r = Some quote_id) (d_proofs db))))"

definition get_proof_ys_by_operation_id :: "uuid \<Rightarrow> mint_db \<Rightarrow> public_key list" where
  "get_proof_ys_by_operation_id operation_id db =
     map pr_y (filter (\<lambda>r. pr_operation_id r = operation_id) (d_proofs db))"

definition get_proofs :: "public_key list \<Rightarrow> mint_db \<Rightarrow> db_error + proofs_with_state" where
  "get_proofs ys db =
     (if ys = [] then Inl Db_ProofNotFound
      else let rows = rows_in ys db in
        if rows = [] \<or> length rows \<noteq> length ys then Inl Db_ProofNotFound
        else if \<exists>r \<in> set rows. pr_state r \<noteq> pr_state (hd rows) then Inl (Db_Internal ''Proofs have inconsistent states'')
        else Inr \<lparr> ps_proofs = map pr_proof rows, ps_state = pr_state (hd rows) \<rparr>)"

definition get_current_states :: "public_key list \<Rightarrow> mint_db \<Rightarrow> (public_key \<times> proof_state) list" where
  "get_current_states ys db = map (\<lambda>r. (pr_y r, pr_state r)) (rows_in ys db)"

definition get_proofs_states :: "public_key list \<Rightarrow> mint_db \<Rightarrow> proof_state option list" where
  "get_proofs_states ys db = take_each (map_of (get_current_states ys db)) [] ys"

definition get_proofs_by_ys :: "public_key list \<Rightarrow> mint_db \<Rightarrow> cashu_proof option list" where
  "get_proofs_by_ys ys db = take_each (map_of (map (\<lambda>r. (pr_y r, pr_proof r)) (rows_in ys db))) [] ys"

definition get_proofs_by_keyset_id :: "keyset_id \<Rightarrow> mint_db \<Rightarrow> cashu_proof list \<times> proof_state option list" where
  "get_proofs_by_keyset_id kid db = (let rows = filter (\<lambda>r. row_keyset r = kid) (d_proofs db)
     in (map pr_proof rows, map (Some \<circ> pr_state) rows))"

section \<open>Blinded messages and blind signatures\<close>

definition insert_blinded_message ::
  "u64 \<Rightarrow> quote_id option \<Rightarrow> operation \<Rightarrow> blinded_message \<Rightarrow> sig_row list \<Rightarrow> db_error + sig_row list"
where
  "insert_blinded_message now quote_id d m t =
     rbind (not_null_i64 (bm_amount m)) (\<lambda>v.
       insert_row sr_blinded_message \<lparr> sr_blinded_message = bm_blinded_secret m, sr_amount = v,
         sr_keyset_id = bm_keyset_id m, sr_c = None, sr_dleq = None, sr_quote_id = quote_id,
         sr_created_time = now, sr_signed_time = None, sr_operation = Some (op_kind d, op_id d) \<rparr> t)"

definition add_blinded_messages ::
  "u64 \<Rightarrow> quote_id option \<Rightarrow> blinded_message list \<Rightarrow> operation \<Rightarrow> mint_db \<Rightarrow> db_error + mint_db"
where
  "add_blinded_messages now quote_id ms d db =
     rmap (\<lambda>t. db\<lparr> d_sigs := t \<rparr>) (insert_all (insert_blinded_message now quote_id d) ms (d_sigs db))"

definition delete_blinded_messages :: "public_key list \<Rightarrow> mint_db \<Rightarrow> mint_db" where
  "delete_blinded_messages bs db =
     db\<lparr> d_sigs := filter (\<lambda>r. \<not> (sr_blinded_message r \<in> set bs \<and> sr_c r = None)) (d_sigs db) \<rparr>"

definition issue_amount :: "blind_signature \<Rightarrow> mint_db \<Rightarrow> mint_db" where
  "issue_amount s db = db\<lparr> d_keyset_amounts :=
     upsert_amounts (bs_keyset_id s) (add_issued (as_i64 (bs_amount s))) (d_keyset_amounts db) \<rparr>"

definition sign_row :: "u64 \<Rightarrow> blind_signature \<Rightarrow> sig_row \<Rightarrow> sig_row" where
  "sign_row now s r = r\<lparr> sr_c := Some (bs_c s), sr_dleq := bs_dleq s, sr_signed_time := Some now,
     sr_amount := as_i64 (bs_amount s) \<rparr>"

text \<open>
  The loop over messages and signatures. \<open>existing\<close> is what was read before the loop, the messages
  already present with their \<open>c\<close> column; an entry is removed as it is met, so a repeated message
  is taken for a new one and the primary key rejects it.
\<close>

fun add_signatures_loop ::
  "u64 \<Rightarrow> quote_id option \<Rightarrow> (public_key \<times> public_key option) list \<Rightarrow> (public_key \<times> blind_signature) list \<Rightarrow>
   mint_db \<Rightarrow> db_error + (public_key \<times> public_key option) list \<times> mint_db"
where
  "add_signatures_loop now quote_id existing [] db = Inr (existing, db)"
| "add_signatures_loop now quote_id existing ((m, s) # rest) db =
     rbind (case map_of existing m of
         None \<Rightarrow> rmap (\<lambda>t. db\<lparr> d_sigs := t \<rparr>) (insert_row sr_blinded_message
                   \<lparr> sr_blinded_message = m, sr_amount = as_i64 (bs_amount s), sr_keyset_id = bs_keyset_id s,
                     sr_c = Some (bs_c s), sr_dleq = bs_dleq s, sr_quote_id = quote_id,
                     sr_created_time = now, sr_signed_time = Some now, sr_operation = None \<rparr> (d_sigs db))
       | Some None \<Rightarrow> Inr (db\<lparr> d_sigs := update_rows (\<lambda>r. sr_blinded_message r = m) (sign_row now s) (d_sigs db) \<rparr>)
       | Some (Some c) \<Rightarrow> Inl Db_Duplicate) (\<lambda>db'.
       add_signatures_loop now quote_id (filter (\<lambda>(k, _). k \<noteq> m) existing) rest (issue_amount s db'))"

definition add_blind_signatures ::
  "u64 \<Rightarrow> public_key list \<Rightarrow> blind_signature list \<Rightarrow> quote_id option \<Rightarrow> mint_db \<Rightarrow> db_error + mint_db"
where
  "add_blind_signatures now ms sigs quote_id db =
     (if length ms \<noteq> length sigs
      then Inl (Db_Internal ''Mismatched array lengths for blinded messages and blind signatures'')
      else rbind (add_signatures_loop now quote_id
             (map (\<lambda>r. (sr_blinded_message r, sr_c r)) (filter (\<lambda>r. sr_blinded_message r \<in> set ms) (d_sigs db)))
             (zip ms sigs) db) (\<lambda>(existing, db').
           if existing \<noteq> [] then Inl (Db_Internal ''Did not check all existing rows'') else Inr db'))"

definition signature_of_row :: "sig_row \<Rightarrow> db_error + blind_signature" where
  "signature_of_row r =
     rbind (ok_or (Db_Internal ''InvalidType'') (sr_c r)) (\<lambda>c.
     rbind (column_as_u64 (sr_amount r)) (\<lambda>a.
       Inr \<lparr> bs_amount = a, bs_keyset_id = sr_keyset_id r, bs_c = c, bs_dleq = sr_dleq r \<rparr>))"

definition get_blind_signatures :: "public_key list \<Rightarrow> mint_db \<Rightarrow> db_error + blind_signature option list" where
  "get_blind_signatures ms db =
     rmap (\<lambda>found. take_each (map_of found) [] ms)
       (collect_res (\<lambda>r. rmap (Pair (sr_blinded_message r)) (signature_of_row r))
         (filter (\<lambda>r. sr_blinded_message r \<in> set ms \<and> sr_c r \<noteq> None) (d_sigs db)))"

definition get_blinded_secrets_by_operation_id :: "uuid \<Rightarrow> mint_db \<Rightarrow> public_key list" where
  "get_blinded_secrets_by_operation_id operation_id db =
     map sr_blinded_message (filter (\<lambda>r. map_option snd (sr_operation r) = Some operation_id) (d_sigs db))"

section \<open>Sagas and completed operations\<close>

definition saga_of_row :: "saga \<Rightarrow> saga" where
  "saga_of_row s = s\<lparr> sg_quote_id := (if sg_quote_id s = Some [] then None else sg_quote_id s) \<rparr>"

definition get_saga :: "uuid \<Rightarrow> mint_db \<Rightarrow> saga option" where
  "get_saga operation_id db = map_option saga_of_row (List.find (\<lambda>s. sg_operation_id s = operation_id) (d_sagas db))"

definition add_saga :: "u64 \<Rightarrow> saga \<Rightarrow> mint_db \<Rightarrow> db_error + mint_db" where
  "add_saga now s db = rmap (\<lambda>t. db\<lparr> d_sagas := t \<rparr>) (insert_row sg_operation_id (s\<lparr> sg_updated_at := now \<rparr>) (d_sagas db))"

definition update_saga :: "u64 \<Rightarrow> uuid \<Rightarrow> saga_state_enum \<Rightarrow> mint_db \<Rightarrow> mint_db" where
  "update_saga now operation_id new_state db = db\<lparr> d_sagas := update_rows (\<lambda>s. sg_operation_id s = operation_id)
     (\<lambda>s. s\<lparr> sg_state := new_state, sg_updated_at := now \<rparr>) (d_sagas db) \<rparr>"

definition delete_saga :: "uuid \<Rightarrow> mint_db \<Rightarrow> mint_db" where
  "delete_saga operation_id db = db\<lparr> d_sagas := filter (\<lambda>s. sg_operation_id s \<noteq> operation_id) (d_sagas db) \<rparr>"

definition get_incomplete_sagas :: "operation_kind \<Rightarrow> mint_db \<Rightarrow> saga list" where
  "get_incomplete_sagas k db =
     map saga_of_row (sort_key sg_created_at (filter (\<lambda>s. sg_operation_kind s = k) (d_sagas db)))"

definition add_completed_operation ::
  "u64 \<Rightarrow> operation \<Rightarrow> (keyset_id \<times> u64) list \<Rightarrow> mint_db \<Rightarrow> db_error + mint_db"
where
  "add_completed_operation now d fee_by_keyset db =
     rmap (\<lambda>t. db\<lparr> d_completed := t,
            d_keyset_amounts := fold (\<lambda>(kid, fee) a.
                if fee > 0 then upsert_amounts kid (add_fee_collected (as_i64 fee)) a else a)
              fee_by_keyset (d_keyset_amounts db) \<rparr>)
       (insert_row op_id (d\<lparr> op_complete_at := Some (get_or_default now (op_complete_at d)) \<rparr>) (d_completed db))"

definition get_completed_operation :: "uuid \<Rightarrow> mint_db \<Rightarrow> operation option" where
  "get_completed_operation operation_id db = map_option
     (\<lambda>d. d\<lparr> op_payment_amount := None, op_payment_fee := None \<rparr>) (List.find (\<lambda>d. op_id d = operation_id) (d_completed db))"

section \<open>Rows and keys\<close>

named_theorems db_simps \<open>what a successful database operation did\<close>

lemma faulty_Ok [db_simps]: "faulty flt r = Inr x \<longleftrightarrow> flt = None \<and> r = Inr x"
  by (simp add: faulty_def split: option.split)

lemma insert_row_Ok [db_simps]: "insert_row key r t = Inr t' \<longleftrightarrow> key r \<notin> key ` set t \<and> t' = t @ [r]"
  by (auto simp: insert_row_def)

lemma update_rows_keys:
  "(\<And>r. key (f r) = key r) \<Longrightarrow> map key (update_rows P f t) = map key t"
  by (auto simp: update_rows_def)

lemma update_rows_none: "(\<And>r. r \<in> set t \<Longrightarrow> \<not> P r) \<Longrightarrow> update_rows P f t = t"
  unfolding update_rows_def by (induction t) auto

lemma update_rows_append: "update_rows P f (t @ u) = update_rows P f t @ update_rows P f u"
  by (simp add: update_rows_def)

lemma update_rows_Cons: "update_rows P f (r # t) = (if P r then f r else r) # update_rows P f t"
  by (simp add: update_rows_def)

lemma distinct_key_unique:
  "distinct (map key t) \<Longrightarrow> r \<in> set t \<Longrightarrow> r' \<in> set t \<Longrightarrow> key r = key r' \<Longrightarrow> r = r'"
  by (meson distinct_map inj_onD)

lemma not_null_i64_Ok [db_simps]: "not_null_i64 a = Inr v \<longleftrightarrow> uint a < 2 ^ 63 \<and> v = uint a"
  by (auto simp: not_null_i64_def amount_to_i64_def)

lemma as_i64_id: "uint a < 2 ^ 63 \<Longrightarrow> as_i64 a = uint a"
  by (simp add: as_i64_def)

lemma take_each_distinct:
  "distinct ks \<Longrightarrow> set ks \<inter> set taken = {} \<Longrightarrow> take_each m taken ks = map m ks"
  by (induction ks arbitrary: taken) auto

lemma take_each_length: "length (take_each m taken ks) = length ks"
  by (induction ks arbitrary: taken) auto

lemma take_each_nth_dup:
  "i < length ks \<Longrightarrow> take_each m taken ks ! i = (if ks ! i \<in> set taken \<union> set (take i ks) then None else m (ks ! i))"
proof (induction ks arbitrary: taken i)
  case (Cons k ks)
  then show ?case by (cases i) auto
qed simp

text \<open>The rows that an insertion of proofs or of blinded messages appends.\<close>

definition new_proof_row :: "u64 \<Rightarrow> quote_id option \<Rightarrow> operation \<Rightarrow> public_key \<Rightarrow> cashu_proof \<Rightarrow> proof_row" where
  "new_proof_row now q d y p = \<lparr> pr_y = y, pr_proof = stored_proof p, pr_state = Unspent, pr_quote_id = q,
     pr_created_time = now, pr_operation_kind = op_kind d, pr_operation_id = op_id d \<rparr>"

definition new_sig_row :: "u64 \<Rightarrow> quote_id option \<Rightarrow> operation \<Rightarrow> blinded_message \<Rightarrow> sig_row" where
  "new_sig_row now q d m = \<lparr> sr_blinded_message = bm_blinded_secret m, sr_amount = uint (bm_amount m),
     sr_keyset_id = bm_keyset_id m, sr_c = None, sr_dleq = None, sr_quote_id = q,
     sr_created_time = now, sr_signed_time = None, sr_operation = Some (op_kind d, op_id d) \<rparr>"

lemma insert_proofs_Ok:
  "insert_all (insert_proof X now q d) ps t = Inr t' \<longleftrightarrow>
   (\<exists>ys. proofs_ys X ps = Inr ys \<and> distinct ys \<and> set ys \<inter> pr_y ` set t = {} \<and>
      (\<forall>p \<in> set ps. uint (p_amount p) < 2 ^ 63) \<and> t' = t @ map2 (new_proof_row now q d) ys ps)"
proof (induction ps arbitrary: t)
  case Nil
  show ?case by (auto simp: proofs_ys_def)
next
  case (Cons p ps)
  show ?case
    unfolding insert_all.simps rbind_eq_Ok Cons.IH
    by (auto simp: insert_proof_def proofs_ys_def res_simps db_simps new_proof_row_def)
qed

lemma insert_blinded_messages_Ok:
  "insert_all (insert_blinded_message now q d) ms t = Inr t' \<longleftrightarrow>
   distinct (map bm_blinded_secret ms) \<and> bm_blinded_secret ` set ms \<inter> sr_blinded_message ` set t = {} \<and>
   (\<forall>m \<in> set ms. uint (bm_amount m) < 2 ^ 63) \<and> t' = t @ map (new_sig_row now q d) ms"
proof (induction ms arbitrary: t)
  case (Cons m ms)
  show ?case
    unfolding insert_all.simps rbind_eq_Ok Cons.IH
    by (auto simp: insert_blinded_message_def res_simps db_simps new_sig_row_def)
qed auto

section \<open>What the operations did\<close>

lemma rows_in_empty: "rows_in ys db = [] \<longleftrightarrow> set ys \<inter> pr_y ` set (d_proofs db) = {}"
  by (auto simp: rows_in_def filter_empty_conv)

lemma set_rows_in: "set (rows_in ys db) = {r \<in> set (d_proofs db). pr_y r \<in> set ys}"
  by (auto simp: rows_in_def)

lemma add_proofs_Ok [db_simps]:
  "add_proofs X now ps q d db = Inr (a, db') \<longleftrightarrow>
   (\<exists>ys. proofs_ys X ps = Inr ys \<and> distinct ys \<and> set ys \<inter> pr_y ` set (d_proofs db) = {} \<and>
      (\<forall>p \<in> set ps. uint (p_amount p) < 2 ^ 63) \<and> a = \<lparr> ps_proofs = ps, ps_state = Unspent \<rparr> \<and>
      db' = db\<lparr> d_proofs := d_proofs db @ map2 (new_proof_row now q d) ys ps \<rparr>)"
proof -
  have "(case rows_in ys db of
              [] \<Rightarrow> Inr ()
            | r # _ \<Rightarrow> (if pr_state r = Spent then Inl Db_AttemptUpdateSpentProof else Inl Db_Duplicate)) = Inr u
      \<longleftrightarrow> set ys \<inter> pr_y ` set (d_proofs db) = {}" for ys u
    by (cases "rows_in ys db") (use rows_in_empty [of ys db] in auto)
  then show ?thesis
    by (auto simp: add_proofs_def res_simps insert_proofs_Ok)
qed

lemma add_blinded_messages_Ok [db_simps]:
  "add_blinded_messages now q ms d db = Inr db' \<longleftrightarrow>
   distinct (map bm_blinded_secret ms) \<and> bm_blinded_secret ` set ms \<inter> sr_blinded_message ` set (d_sigs db) = {} \<and>
   (\<forall>m \<in> set ms. uint (bm_amount m) < 2 ^ 63) \<and>
   db' = db\<lparr> d_sigs := d_sigs db @ map (new_sig_row now q d) ms \<rparr>"
  by (auto simp: add_blinded_messages_def res_simps insert_blinded_messages_Ok)

lemma add_saga_Ok [db_simps]:
  "add_saga now s db = Inr db' \<longleftrightarrow> sg_operation_id s \<notin> sg_operation_id ` set (d_sagas db) \<and>
     db' = db\<lparr> d_sagas := d_sagas db @ [s\<lparr> sg_updated_at := now \<rparr>] \<rparr>"
  by (auto simp: add_saga_def res_simps db_simps)

lemma get_proofs_Ok [db_simps]:
  "get_proofs ys db = Inr a \<longleftrightarrow>
   ys \<noteq> [] \<and> rows_in ys db \<noteq> [] \<and> length (rows_in ys db) = length ys \<and>
   (\<forall>r \<in> set (rows_in ys db). pr_state r = ps_state a) \<and> ps_proofs a = map pr_proof (rows_in ys db)"
proof (cases "rows_in ys db")
  case (Cons r rs)
  then show ?thesis by (cases a) (auto simp: get_proofs_def Let_def split: if_splits)
qed (auto simp: get_proofs_def)

lemma rows_in_append: "rows_in ys (db\<lparr> d_proofs := t @ u \<rparr>) = rows_in ys (db\<lparr> d_proofs := t \<rparr>) @ rows_in ys (db\<lparr> d_proofs := u \<rparr>)"
  by (simp add: rows_in_def)

text \<open>
  Deleting after inserting: rows that were appended under fresh keys and still have the state they
  were given are exactly what the deletion takes out.
\<close>

lemma remove_proofs_appended:
  assumes "set ys \<inter> pr_y ` set t = {}" and "\<forall>r \<in> set rows. pr_state r \<noteq> Spent" and "map pr_y rows = ys"
    and "d_proofs db = t @ rows"
  shows "remove_proofs ys db = Inr (db\<lparr> d_proofs := t \<rparr>)"
proof -
  let ?del = "\<lambda>r. pr_y r \<in> set ys \<and> pr_state r \<noteq> Spent"
  have t: "filter ?del t = []" "filter (\<lambda>r. \<not> ?del r) t = t"
    using assms(1) by (auto simp: filter_empty_conv filter_id_conv)
  have rows: "filter ?del rows = rows" "filter (\<lambda>r. \<not> ?del r) rows = []"
    using assms(2,3) by (auto simp: filter_id_conv filter_empty_conv)
  have "length rows = length ys" using assms(3) by auto
  then show ?thesis
    using assms(4) t rows by (cases ys) (auto simp: remove_proofs_def Let_def)
qed

lemma delete_blinded_messages_appended:
  assumes "bs = map sr_blinded_message rows" and "set bs \<inter> sr_blinded_message ` set t = {}"
    and "\<forall>r \<in> set rows. sr_c r = None" and "d_sigs db = t @ rows"
  shows "delete_blinded_messages bs db = db\<lparr> d_sigs := t \<rparr>"
proof -
  let ?keep = "\<lambda>r. \<not> (sr_blinded_message r \<in> set bs \<and> sr_c r = None)"
  have "filter ?keep t = t" using assms(2) by (auto simp: filter_id_conv)
  moreover have "filter ?keep rows = []" using assms(1,3) by (auto simp: filter_empty_conv)
  ultimately show ?thesis using assms(4) by (simp add: delete_blinded_messages_def)
qed

lemma delete_saga_appended:
  assumes "i \<notin> sg_operation_id ` set t" and "sg_operation_id s = i" and "d_sagas db = t @ [s]"
  shows "delete_saga i db = db\<lparr> d_sagas := t \<rparr>"
proof -
  have "filter (\<lambda>s. sg_operation_id s \<noteq> i) t = t" using assms(1) by (auto simp: filter_id_conv)
  then show ?thesis using assms(2,3) by (simp add: delete_saga_def)
qed

section \<open>The ledger of a keyset\<close>

definition amounts_of :: "mint_db \<Rightarrow> keyset_id \<Rightarrow> keyset_amount" where
  "amounts_of db k = (case map_of (d_keyset_amounts db) k of None \<Rightarrow> zero_amounts | Some a \<Rightarrow> a)"

definition spent_sum :: "proof_row list \<Rightarrow> keyset_id \<Rightarrow> int" where
  "spent_sum t k = sum_list (map row_amount (filter (\<lambda>r. pr_state r = Spent \<and> row_keyset r = k) t))"

definition signed_sum :: "sig_row list \<Rightarrow> keyset_id \<Rightarrow> int" where
  "signed_sum t k = sum_list (map sr_amount (filter (\<lambda>r. sr_c r \<noteq> None \<and> sr_keyset_id r = k) t))"

definition ledger_ok :: "mint_db \<Rightarrow> bool" where
  "ledger_ok db \<longleftrightarrow> (\<forall>k. ka_total_redeemed (amounts_of db k) = spent_sum (d_proofs db) k \<and>
     ka_total_issued (amounts_of db k) = signed_sum (d_sigs db) k)"

lemma map_of_upsert:
  "map_of (upsert_amounts k f t) j =
   (if j = k then Some (f (case map_of t k of None \<Rightarrow> zero_amounts | Some a \<Rightarrow> a)) else map_of t j)"
  by (induction k f t rule: upsert_amounts.induct) auto

lemma amounts_of_upsert [simp]:
  "amounts_of (db\<lparr> d_keyset_amounts := upsert_amounts k f t \<rparr>) j =
   (if j = k then f (amounts_of (db\<lparr> d_keyset_amounts := t \<rparr>) k) else amounts_of (db\<lparr> d_keyset_amounts := t \<rparr>) j)"
  by (simp add: amounts_of_def map_of_upsert)

lemma amounts_of_other [simp]:
  "amounts_of (db\<lparr> d_proofs := t \<rparr>) k = amounts_of db k"
  "amounts_of (db\<lparr> d_sigs := u \<rparr>) k = amounts_of db k"
  "amounts_of (db\<lparr> d_sagas := sg \<rparr>) k = amounts_of db k"
  by (simp_all add: amounts_of_def)

lemma add_amounts_simps [simp]:
  "ka_total_issued (add_issued v a) = ka_total_issued a + v" "ka_total_redeemed (add_issued v a) = ka_total_redeemed a"
  "ka_fee_collected (add_issued v a) = ka_fee_collected a"
  "ka_total_redeemed (add_redeemed v a) = ka_total_redeemed a + v" "ka_total_issued (add_redeemed v a) = ka_total_issued a"
  "ka_fee_collected (add_redeemed v a) = ka_fee_collected a"
  "ka_fee_collected (add_fee_collected v a) = ka_fee_collected a + v"
  "ka_total_issued (add_fee_collected v a) = ka_total_issued a" "ka_total_redeemed (add_fee_collected v a) = ka_total_redeemed a"
  by (simp_all add: add_issued_def add_redeemed_def add_fee_collected_def)

lemma redeem_fold:
  assumes "distinct ks"
  shows "map_of (fold (\<lambda>k. upsert_amounts k (add_redeemed (v k))) ks t) j =
    (if j \<in> set ks then Some (add_redeemed (v j) (case map_of t j of None \<Rightarrow> zero_amounts | Some a \<Rightarrow> a)) else map_of t j)"
  using assms by (induction ks arbitrary: t) (auto simp: map_of_upsert)

lemma amounts_of_redeem:
  "amounts_of (db\<lparr> d_keyset_amounts := redeem_rows rows t \<rparr>) k =
   add_redeemed (sum_list (map row_amount (filter (\<lambda>r. row_keyset r = k) rows))) (amounts_of (db\<lparr> d_keyset_amounts := t \<rparr>) k)"
proof (cases "k \<in> row_keyset ` set rows")
  case True
  then show ?thesis by (simp add: amounts_of_def redeem_rows_def redeem_fold)
next
  case False
  then have "filter (\<lambda>r. row_keyset r = k) rows = []" by (auto simp: filter_empty_conv)
  with False show ?thesis by (simp add: amounts_of_def redeem_rows_def redeem_fold add_redeemed_def)
qed

lemma set_state_simps [simp]:
  "pr_y (set_state s r) = pr_y r" "pr_proof (set_state s r) = pr_proof r" "pr_state (set_state s r) = s"
  "row_amount (set_state s r) = row_amount r" "row_keyset (set_state s r) = row_keyset r"
  "pr_operation_id (set_state s r) = pr_operation_id r" "pr_quote_id (set_state s r) = pr_quote_id r"
  "pr_operation_kind (set_state s r) = pr_operation_kind r"
  by (simp_all add: set_state_def row_amount_def row_keyset_def)

lemma spent_sum_update:
  assumes "\<forall>r \<in> set t. pr_y r \<in> Y \<longrightarrow> pr_state r \<noteq> Spent"
  shows "spent_sum (update_rows (\<lambda>r. pr_y r \<in> Y) (set_state s) t) k =
    spent_sum t k + (if s = Spent then sum_list (map row_amount (filter (\<lambda>r. pr_y r \<in> Y \<and> row_keyset r = k) t)) else 0)"
  using assms by (induction t) (auto simp: spent_sum_def update_rows_def)

lemma spent_sum_append: "spent_sum (t @ u) k = spent_sum t k + spent_sum u k"
  by (simp add: spent_sum_def)

lemma spent_sum_unspent: "\<forall>r \<in> set t. pr_state r \<noteq> Spent \<Longrightarrow> spent_sum t k = 0"
  by (induction t) (auto simp: spent_sum_def)

lemma signed_sum_append: "signed_sum (t @ u) k = signed_sum t k + signed_sum u k"
  by (simp add: signed_sum_def)

lemma signed_sum_unsigned: "\<forall>r \<in> set t. sr_c r = None \<Longrightarrow> signed_sum t k = 0"
  by (induction t) (auto simp: signed_sum_def)

lemma spent_sum_filter: "(\<And>r. r \<in> set t \<Longrightarrow> pr_state r = Spent \<Longrightarrow> P r) \<Longrightarrow> spent_sum (filter P t) k = spent_sum t k"
  by (induction t) (auto simp: spent_sum_def)

lemma signed_sum_filter: "(\<And>r. r \<in> set t \<Longrightarrow> sr_c r \<noteq> None \<Longrightarrow> P r) \<Longrightarrow> signed_sum (filter P t) k = signed_sum t k"
  by (induction t) (auto simp: signed_sum_def)

section \<open>What adding signatures did\<close>

definition signed_row :: "u64 \<Rightarrow> quote_id option \<Rightarrow> public_key \<times> blind_signature \<Rightarrow> sig_row" where
  "signed_row now q z = \<lparr> sr_blinded_message = fst z, sr_amount = as_i64 (bs_amount (snd z)), sr_keyset_id = bs_keyset_id (snd z),
     sr_c = Some (bs_c (snd z)), sr_dleq = bs_dleq (snd z), sr_quote_id = q,
     sr_created_time = now, sr_signed_time = Some now, sr_operation = None \<rparr>"

definition sign_pending :: "u64 \<Rightarrow> (public_key \<times> blind_signature) list \<Rightarrow> sig_row \<Rightarrow> sig_row" where
  "sign_pending now zs r = (case map_of zs (sr_blinded_message r) of None \<Rightarrow> r | Some s \<Rightarrow> sign_row now s r)"

definition signed_rows :: "u64 \<Rightarrow> quote_id option \<Rightarrow> (public_key \<times> blind_signature) list \<Rightarrow> sig_row list \<Rightarrow> sig_row list" where
  "signed_rows now q zs t = map (sign_pending now zs) t @
     map (signed_row now q) (filter (\<lambda>z. fst z \<notin> sr_blinded_message ` set t) zs)"

definition issue_all :: "blind_signature list \<Rightarrow> (keyset_id \<times> keyset_amount) list \<Rightarrow> (keyset_id \<times> keyset_amount) list" where
  "issue_all sigs a = fold (\<lambda>s. upsert_amounts (bs_keyset_id s) (add_issued (as_i64 (bs_amount s)))) sigs a"

definition pending_of :: "public_key set \<Rightarrow> sig_row list \<Rightarrow> (public_key \<times> public_key option) list" where
  "pending_of K t = map (\<lambda>r. (sr_blinded_message r, sr_c r)) (filter (\<lambda>r. sr_blinded_message r \<in> K) t)"

lemma sign_row_simps [simp]:
  "sr_blinded_message (sign_row now s r) = sr_blinded_message r" "sr_keyset_id (sign_row now s r) = sr_keyset_id r"
  "sr_c (sign_row now s r) = Some (bs_c s)" "sr_amount (sign_row now s r) = as_i64 (bs_amount s)"
  by (simp_all add: sign_row_def)

lemma signed_row_simps [simp]:
  "sr_blinded_message (signed_row now q z) = fst z" "sr_keyset_id (signed_row now q z) = bs_keyset_id (snd z)"
  "sr_c (signed_row now q z) = Some (bs_c (snd z))" "sr_amount (signed_row now q z) = as_i64 (bs_amount (snd z))"
  by (simp_all add: signed_row_def)

lemma sign_pending_key [simp]: "sr_blinded_message (sign_pending now zs r) = sr_blinded_message r"
  by (simp add: sign_pending_def split: option.split)

lemma map_of_pending:
  assumes "distinct (map sr_blinded_message t)"
  shows "map_of (pending_of K t) m =
    (if m \<in> K then map_option sr_c (map_of (map (\<lambda>r. (sr_blinded_message r, r)) t) m) else None)"
  using assms by (induction t) (auto simp: pending_of_def)

lemma map_of_rows_None: "map_of (map (\<lambda>r. (key r, r)) t) m = None \<longleftrightarrow> m \<notin> key ` set t"
  by (induction t) auto

lemma map_of_rows_Some:
  "distinct (map key t) \<Longrightarrow> map_of (map (\<lambda>r. (key r, r)) t) m = Some r \<longleftrightarrow> r \<in> set t \<and> key r = m"
  by (induction t) (auto simp: image_iff)

lemma signed_rows_append:
  assumes "m \<notin> sr_blinded_message ` set t" and "m \<notin> fst ` set zs"
  shows "signed_rows now q zs (t @ [signed_row now q (m, s)]) = signed_rows now q ((m, s) # zs) t"
proof -
  have "sign_pending now zs r = sign_pending now ((m, s) # zs) r" if "r \<in> set t" for r
    using assms(1) that by (auto simp: sign_pending_def)
  moreover have "sign_pending now zs (signed_row now q (m, s)) = signed_row now q (m, s)"
    using assms(2) map_of_eq_None_iff [of zs m] by (simp add: sign_pending_def signed_row_def)
  moreover have "filter (\<lambda>z. fst z \<noteq> m \<and> fst z \<notin> sr_blinded_message ` set t) zs
      = filter (\<lambda>z. fst z \<notin> sr_blinded_message ` set t) zs"
    using assms(2) by (intro filter_cong) auto
  ultimately show ?thesis
    using assms(1) by (auto simp: signed_rows_def signed_row_def conj_commute cong: map_cong)
qed

lemma signed_rows_update:
  assumes "m \<in> sr_blinded_message ` set t" and "m \<notin> fst ` set zs"
  shows "signed_rows now q zs (update_rows (\<lambda>r. sr_blinded_message r = m) (sign_row now s) t) = signed_rows now q ((m, s) # zs) t"
proof -
  have "map_of zs m = None" using assms(2) by (simp add: map_of_eq_None_iff)
  then have "sign_pending now zs (if sr_blinded_message r = m then sign_row now s r else r) = sign_pending now ((m, s) # zs) r" for r
    by (simp add: sign_pending_def)
  moreover have "sr_blinded_message ` set (update_rows (\<lambda>r. sr_blinded_message r = m) (sign_row now s) t) = sr_blinded_message ` set t"
    using update_rows_keys [of sr_blinded_message "sign_row now s" "\<lambda>r. sr_blinded_message r = m" t]
    by (metis set_map sign_row_simps(1))
  ultimately show ?thesis
    using assms(1) by (simp add: signed_rows_def update_rows_def comp_def)
qed

lemma pending_of_filter:
  assumes "m \<notin> K"
  shows "filter (\<lambda>(k, _). k \<noteq> m) (pending_of (insert m K) t) = pending_of K t"
    "pending_of K (t @ [signed_row now q (m, s)]) = pending_of K t"
    "pending_of K (update_rows (\<lambda>r. sr_blinded_message r = m) (sign_row now s) t) = pending_of K t"
  using assms by (induction t) (auto simp: pending_of_def update_rows_def signed_row_def)

lemma add_signatures_loop_Ok:
  assumes "add_signatures_loop now q (pending_of (fst ` set zs) (d_sigs db)) zs db = Inr (ex', db')"
    and "distinct (map fst zs)" and "distinct (map sr_blinded_message (d_sigs db))"
  shows "ex' = [] \<and> db' = db\<lparr> d_sigs := signed_rows now q zs (d_sigs db),
        d_keyset_amounts := issue_all (map snd zs) (d_keyset_amounts db) \<rparr> \<and>
      (\<forall>r \<in> set (d_sigs db). sr_blinded_message r \<in> fst ` set zs \<longrightarrow> sr_c r = None)"
  using assms
proof (induction zs arbitrary: db)
  case Nil
  have "map (sign_pending now []) t = t" for t
    by (rule map_idI) (simp add: sign_pending_def)
  with Nil show ?case
    by (auto simp: pending_of_def signed_rows_def issue_all_def)
next
  case (Cons z zs)
  obtain m s where z: "z = (m, s)" by (cases z)
  let ?t = "d_sigs db" and ?K = "fst ` set zs"
  have m: "m \<notin> ?K" using Cons.prems(2) z by auto
  note rows = map_of_rows_None [of sr_blinded_message ?t m] map_of_rows_Some [OF Cons.prems(3), of m]
  show ?case
  proof (cases "m \<in> sr_blinded_message ` set ?t")
    case False
    let ?db = "issue_amount s (db\<lparr> d_sigs := ?t @ [signed_row now q (m, s)] \<rparr>)"
    have row: "\<lparr> sr_blinded_message = m, sr_amount = as_i64 (bs_amount s), sr_keyset_id = bs_keyset_id s,
        sr_c = Some (bs_c s), sr_dleq = bs_dleq s, sr_quote_id = q, sr_created_time = now,
        sr_signed_time = Some now, sr_operation = None \<rparr> = signed_row now q (m, s)" by (simp add: signed_row_def)
    have "map_of (pending_of (insert m ?K) ?t) m = None"
      using False rows(1) by (simp add: map_of_pending [OF Cons.prems(3)])
    then have rec: "add_signatures_loop now q (pending_of ?K (d_sigs ?db)) zs ?db = Inr (ex', db')"
      using Cons.prems(1) False
      by (simp add: z insert_row_def pending_of_filter [OF m] issue_amount_def row)
    have "distinct (map sr_blinded_message (d_sigs ?db))"
      using Cons.prems(3) False by (simp add: issue_amount_def signed_row_def)
    from Cons.IH [OF rec _ this] Cons.prems(2) show ?thesis
      using False m by (auto simp: z issue_amount_def issue_all_def signed_rows_append)
  next
    case True
    then obtain r where r: "r \<in> set ?t" "sr_blinded_message r = m" by auto
    then have look: "map_of (pending_of (insert m ?K) ?t) m = Some (sr_c r)"
      using rows(2) [of r] by (simp add: map_of_pending [OF Cons.prems(3)])
    let ?u = "update_rows (\<lambda>r. sr_blinded_message r = m) (sign_row now s) ?t"
    let ?db = "issue_amount s (db\<lparr> d_sigs := ?u \<rparr>)"
    from look have c: "sr_c r = None" and rec: "add_signatures_loop now q (pending_of ?K (d_sigs ?db)) zs ?db = Inr (ex', db')"
      using Cons.prems(1) by (auto simp: z pending_of_filter [OF m] issue_amount_def rbind_eq_Ok split: option.splits)
    have keys: "map sr_blinded_message ?u = map sr_blinded_message ?t" by (rule update_rows_keys) simp
    then have "distinct (map sr_blinded_message (d_sigs ?db))"
      using Cons.prems(3) by (simp add: issue_amount_def)
    from Cons.IH [OF rec _ this] Cons.prems(2)
    have IH: "ex' = []" "db' = ?db\<lparr> d_sigs := signed_rows now q zs ?u, d_keyset_amounts := issue_all (map snd zs) (d_keyset_amounts ?db) \<rparr>"
      "\<forall>r' \<in> set ?u. sr_blinded_message r' \<in> ?K \<longrightarrow> sr_c r' = None"
      by (auto simp: z issue_amount_def)
    have "sr_c r' = None" if r': "r' \<in> set ?t" "sr_blinded_message r' \<in> insert m ?K" for r'
    proof (cases "sr_blinded_message r' = m")
      case True
      then have "r' = r" using r r' distinct_key_unique [OF Cons.prems(3)] by auto
      then show ?thesis using c by simp
    next
      case False
      then have "r' \<in> set ?u" using r' by (force simp: update_rows_def)
      then show ?thesis using IH(3) r' False by auto
    qed
    then show ?thesis
      using IH(1,2) True m by (auto simp: z issue_amount_def issue_all_def signed_rows_update)
  qed
qed

lemma add_blind_signatures_Ok:
  assumes "add_blind_signatures now ms sigs q db = Inr db'" and "distinct ms"
    and "distinct (map sr_blinded_message (d_sigs db))"
  shows "length ms = length sigs"
    "db' = db\<lparr> d_sigs := signed_rows now q (zip ms sigs) (d_sigs db), d_keyset_amounts := issue_all sigs (d_keyset_amounts db) \<rparr>"
    "\<forall>r \<in> set (d_sigs db). sr_blinded_message r \<in> set ms \<longrightarrow> sr_c r = None"
proof -
  from assms(1) show len: "length ms = length sigs" by (simp add: add_blind_signatures_def split: if_splits)
  then have fst: "fst ` set (zip ms sigs) = set ms" by (metis map_fst_zip set_map)
  from assms(1) len obtain ex' where
    "add_signatures_loop now q (pending_of (fst ` set (zip ms sigs)) (d_sigs db)) (zip ms sigs) db = Inr (ex', db')"
    by (auto simp: add_blind_signatures_def rbind_eq_Ok pending_of_def fst split: if_splits)
  from add_signatures_loop_Ok [OF this _ assms(3)] assms(2) len
  show "db' = db\<lparr> d_sigs := signed_rows now q (zip ms sigs) (d_sigs db), d_keyset_amounts := issue_all sigs (d_keyset_amounts db) \<rparr>"
    "\<forall>r \<in> set (d_sigs db). sr_blinded_message r \<in> set ms \<longrightarrow> sr_c r = None"
    by (auto simp: fst)
qed

definition sigs_sum :: "blind_signature list \<Rightarrow> keyset_id \<Rightarrow> int" where
  "sigs_sum sigs k = sum_list (map (\<lambda>s. as_i64 (bs_amount s)) (filter (\<lambda>s. bs_keyset_id s = k) sigs))"

lemma amounts_of_issue_all:
  "ka_total_issued (amounts_of (db\<lparr> d_keyset_amounts := issue_all sigs t \<rparr>) k) =
     ka_total_issued (amounts_of (db\<lparr> d_keyset_amounts := t \<rparr>) k) + sigs_sum sigs k"
  "ka_total_redeemed (amounts_of (db\<lparr> d_keyset_amounts := issue_all sigs t \<rparr>) k) =
     ka_total_redeemed (amounts_of (db\<lparr> d_keyset_amounts := t \<rparr>) k)"
  "ka_fee_collected (amounts_of (db\<lparr> d_keyset_amounts := issue_all sigs t \<rparr>) k) =
     ka_fee_collected (amounts_of (db\<lparr> d_keyset_amounts := t \<rparr>) k)"
  by (induction sigs arbitrary: t) (auto simp: issue_all_def sigs_sum_def)

text \<open>
  The signed amounts grow by the amounts of the signatures, provided the row a signature completes
  has the keyset of the signature.
\<close>

lemma signed_sum_signed_rows:
  assumes "distinct (map fst zs)" and "distinct (map sr_blinded_message t)"
    and "\<forall>r \<in> set t. sr_blinded_message r \<in> fst ` set zs \<longrightarrow> sr_c r = None"
    and "\<forall>r \<in> set t. \<forall>s. (sr_blinded_message r, s) \<in> set zs \<longrightarrow> sr_keyset_id r = bs_keyset_id s"
  shows "signed_sum (signed_rows now q zs t) k = signed_sum t k + sigs_sum (map snd zs) k"
  using assms
proof (induction zs arbitrary: t)
  case Nil
  have "map (sign_pending now []) t = t" by (rule map_idI) (simp add: sign_pending_def)
  then show ?case by (simp add: signed_rows_def sigs_sum_def)
next
  case (Cons z zs)
  obtain m s where z: "z = (m, s)" by (cases z)
  have m: "m \<notin> fst ` set zs" using Cons.prems(1) z by auto
  let ?v = "if bs_keyset_id s = k then as_i64 (bs_amount s) else 0"
  define u where "u = (if m \<in> sr_blinded_message ` set t
    then update_rows (\<lambda>r. sr_blinded_message r = m) (sign_row now s) t else t @ [signed_row now q (m, s)])"
  have rows: "signed_rows now q (z # zs) t = signed_rows now q zs u"
    unfolding z u_def using m by (simp add: signed_rows_append signed_rows_update)
  have uk: "map sr_blinded_message u = (if m \<in> sr_blinded_message ` set t then map sr_blinded_message t else map sr_blinded_message t @ [m])"
    by (simp add: u_def update_rows_keys)
  have in_u: "r \<in> set t \<or> sr_blinded_message r = m" if "r \<in> set u" for r
    using that by (auto simp: u_def update_rows_def split: if_splits)
  have sum: "signed_sum u k = signed_sum t k + ?v"
  proof (cases "m \<in> sr_blinded_message ` set t")
    case False
    then show ?thesis by (simp add: u_def signed_sum_append) (simp add: signed_sum_def)
  next
    case True
    have "\<forall>r \<in> set t. sr_blinded_message r = m \<longrightarrow> sr_c r = None \<and> sr_keyset_id r = bs_keyset_id s"
      using Cons.prems(3,4) z by auto
    with Cons.prems(2) True have "signed_sum (update_rows (\<lambda>r. sr_blinded_message r = m) (sign_row now s) t) k = signed_sum t k + ?v"
    proof (induction t)
      case (Cons r t)
      show ?case
      proof (cases "sr_blinded_message r = m")
        case True
        then have "m \<notin> sr_blinded_message ` set t" using Cons.prems(1) by simp
        then have "update_rows (\<lambda>r. sr_blinded_message r = m) (sign_row now s) t = t"
          by (intro update_rows_none) (metis imageI)
        then show ?thesis using True Cons.prems(3) by (simp add: signed_sum_def update_rows_Cons)
      next
        case False
        then show ?thesis using Cons by (auto simp: signed_sum_def update_rows_Cons)
      qed
    qed simp
    then show ?thesis using True by (simp add: u_def)
  qed
  have "signed_sum (signed_rows now q zs u) k = signed_sum u k + sigs_sum (map snd zs) k"
  proof (rule Cons.IH)
    show "distinct (map fst zs)" using Cons.prems(1) by simp
    show "distinct (map sr_blinded_message u)" using Cons.prems(2) by (auto simp: uk)
    show "\<forall>r \<in> set u. sr_blinded_message r \<in> fst ` set zs \<longrightarrow> sr_c r = None"
      using in_u Cons.prems(3) m by fastforce
    show "\<forall>r \<in> set u. \<forall>s. (sr_blinded_message r, s) \<in> set zs \<longrightarrow> sr_keyset_id r = bs_keyset_id s"
      using in_u Cons.prems(4) m by (metis fst_conv image_eqI list.set_intros(2))
  qed
  then show ?case unfolding rows sum by (simp add: z sigs_sum_def)
qed

end
