(* ===== verification/Verification.thy ===== *)
theory Verification
  imports Signatory Mint_Db
begin

text \<open>
  The mint's checks of a transaction, after \<open>crates/cdk/src/mint/verification.rs\<close>, the guarded
  state update of \<open>crates/cdk/src/mint/proofs.rs\<close>, and the read-only handlers \<open>check_state\<close>
  (\<open>check_spendable.rs\<close>) and \<open>restore\<close> (\<open>mod.rs\<close>). A hash set of keyset identifiers is the list of
  distinct identifiers in the order of the request, which only decides which of several errors is
  reported.
\<close>

record verification =
  v_amount :: typed_amount

definition MAX_PROOF_CONTENT_LEN :: nat where
  "MAX_PROOF_CONTENT_LEN = 1024"

definition check_inputs_unique :: "ext \<Rightarrow> cashu_proof list \<Rightarrow> cdk_error + unit" where
  "check_inputs_unique X inputs =
     rbind (map_err E_NUT00 (proofs_ys X inputs)) (\<lambda>ys.
       if length (remdups ys) \<noteq> length inputs then Inl E_DuplicateInputs else Inr ())"

definition check_outputs_unique :: "blinded_message list \<Rightarrow> cdk_error + unit" where
  "check_outputs_unique outputs =
     (if length (remdups (map bm_blinded_secret outputs)) \<noteq> length outputs then Inl E_DuplicateOutputs else Inr ())"

definition single_unit :: "currency_unit list \<Rightarrow> cdk_error + currency_unit" where
  "single_unit us = (let keyset_units = remdups us in
     if length keyset_units \<noteq> 1 then Inl E_MultipleUnits
     else (case keyset_units of [] \<Rightarrow> Inl E_Internal | u # _ \<Rightarrow> Inr u))"

definition verify_outputs_keyset :: "mint \<Rightarrow> blinded_message list \<Rightarrow> cdk_error + currency_unit" where
  "verify_outputs_keyset M outputs =
     rbind (collect_res (\<lambda>i. case get_keyset_info M i of
              Some keyset \<Rightarrow> (if \<not> mk_active keyset then Inl E_InactiveKeyset else Inr (mk_unit keyset))
            | None \<Rightarrow> Inl E_UnknownKeySet) (remdups (map bm_keyset_id outputs))) single_unit"

definition verify_inputs_keyset :: "mint \<Rightarrow> cashu_proof list \<Rightarrow> cdk_error + currency_unit" where
  "verify_inputs_keyset M inputs =
     rbind (collect_res (\<lambda>i. case get_keyset_info M i of
              Some keyset \<Rightarrow> Inr (mk_unit keyset)
            | None \<Rightarrow> Inl E_UnknownKeySet) (remdups (map p_keyset_id inputs))) single_unit"

definition verify_outputs :: "mint \<Rightarrow> blinded_message list \<Rightarrow> cdk_error + verification" where
  "verify_outputs M outputs =
     (if outputs = [] then Inl (E_TransactionUnbalanced 0 0 0)
      else if length outputs > m_max_outputs M then Inl (E_MaxOutputsExceeded (length outputs) (m_max_outputs M))
      else rbind (check_outputs_unique outputs) (\<lambda>_.
        rbind (verify_outputs_keyset M outputs) (\<lambda>u.
        rbind (map_err E_AmountError (try_sum (map bm_amount outputs))) (\<lambda>a.
          Inr \<lparr> v_amount = new_amount a u \<rparr>))))"

definition check_content_len :: "mint \<Rightarrow> cashu_proof \<Rightarrow> cdk_error + unit" where
  "check_content_len M p =
     (if length (p_secret p) > MAX_PROOF_CONTENT_LEN
      then Inl (E_ProofContentTooLarge (length (p_secret p)) MAX_PROOF_CONTENT_LEN)
      else (case p_witness p of
          None \<Rightarrow> Inr ()
        | Some w \<Rightarrow> rbind (ok_or E_SerdeJson (m_witness_json M w)) (\<lambda>witness_str.
            if length witness_str > MAX_PROOF_CONTENT_LEN
            then Inl (E_ProofContentTooLarge (length witness_str) MAX_PROOF_CONTENT_LEN)
            else Inr ())))"

definition verify_inputs :: "mint \<Rightarrow> cashu_proof list \<Rightarrow> cdk_error + verification" where
  "verify_inputs M inputs =
     (if length inputs > m_max_inputs M then Inl (E_MaxInputsExceeded (length inputs) (m_max_inputs M))
      else rbind (collect_res (check_content_len M) inputs) (\<lambda>_.
        rbind (check_inputs_unique (m_ext M) inputs) (\<lambda>_.
        rbind (verify_inputs_keyset M inputs) (\<lambda>u.
        if u = Auth then Inl E_UnsupportedUnit
        else rbind (map_err E_NUT00 (total_amount inputs)) (\<lambda>a.
          rbind (verify_proofs M inputs) (\<lambda>_.
            Inr \<lparr> v_amount = new_amount a u \<rparr>))))))"

definition verify_transaction_balanced ::
  "mint \<Rightarrow> verification \<Rightarrow> verification \<Rightarrow> cashu_proof list \<Rightarrow> cdk_error + unit"
where
  "verify_transaction_balanced M input_verification output_verification inputs =
     rbind (get_proofs_fee M inputs) (\<lambda>fee_breakdown.
     if ta_unit (v_amount output_verification) \<noteq> ta_unit (v_amount input_verification) then Inl E_UnitMismatch
     else rbind (map_err E_AmountError (typed_checked_sub (v_amount input_verification)
              (new_amount (fb_total fee_breakdown) (ta_unit (v_amount input_verification))))) (\<lambda>expected_output.
        if v_amount output_verification \<noteq> expected_output
        then Inl (E_TransactionUnbalanced (ta_value (v_amount input_verification))
               (ta_value (v_amount output_verification)) (fb_total fee_breakdown))
        else Inr ()))"

text \<open>\<open>Mint::update_proofs_state\<close>, with the fault of its statement.\<close>

definition update_proofs_state ::
  "ext \<Rightarrow> db_error option \<Rightarrow> proofs_with_state \<Rightarrow> proof_state \<Rightarrow> mint_db \<Rightarrow> cdk_error + proofs_with_state \<times> mint_db"
where
  "update_proofs_state X flt ps new_state db =
     rbind (map_err (\<lambda>e. case e of SE_AlreadySpent \<Rightarrow> E_TokenAlreadySpent | SE_Pending \<Rightarrow> E_TokenPending
                          | _ \<Rightarrow> E_UnexpectedProofState) (check_state_transition (ps_state ps) new_state)) (\<lambda>_.
       map_err (\<lambda>e. case e of
            Db_AttemptUpdateSpentProof \<Rightarrow> E_TokenAlreadySpent
          | Db_AttemptRemoveSpentProof \<Rightarrow> E_TokenAlreadySpent
          | e \<Rightarrow> cdk_of_db e) (faulty flt (db_update_proofs_state X ps new_state db)))"

section \<open>Checking states and restoring signatures\<close>

record proof_state_info =
  psi_y :: public_key
  psi_state :: proof_state
  psi_witness :: "witness option"

definition witness_entries :: "ext \<Rightarrow> cashu_proof option \<Rightarrow> (public_key \<times> witness option) list" where
  "witness_entries X m = (case m of None \<Rightarrow> []
     | Some p \<Rightarrow> (case proof_y X p of Inr y \<Rightarrow> [(y, p_witness p)] | Inl _ \<Rightarrow> []))"

definition witness_map :: "mint \<Rightarrow> public_key list \<Rightarrow> proof_state option list \<Rightarrow> mint_db \<Rightarrow> (public_key \<times> witness option) list" where
  "witness_map M ys states db =
     (let ys_needing_witness = map fst (filter (\<lambda>(y, s). s \<noteq> None) (zip ys states)) in
      if ys_needing_witness = [] then []
      else rev (concat (map (witness_entries (m_ext M)) (get_proofs_by_ys ys_needing_witness db))))"

definition proof_state_entry :: "(public_key \<times> witness option) list \<Rightarrow> public_key \<times> proof_state option \<Rightarrow> proof_state_info" where
  "proof_state_entry witnesses e = \<lparr> psi_y = fst e,
     psi_state = (case snd e of None \<Rightarrow> Unspent | Some t \<Rightarrow> t),
     psi_witness = (case map_of witnesses (fst e) of None \<Rightarrow> None | Some w \<Rightarrow> w) \<rparr>"

definition check_state :: "mint \<Rightarrow> public_key list \<Rightarrow> mint_db \<Rightarrow> cdk_error + proof_state_info list" where
  "check_state M ys db =
     (if length ys > m_max_inputs M then Inl (E_MaxInputsExceeded (length ys) (m_max_inputs M))
      else let states = get_proofs_states ys db in
        if length ys \<noteq> length states then Inl E_UnknownPaymentState
        else Inr (map (proof_state_entry (witness_map M ys states db)) (zip ys states)))"

fun last_index :: "'a \<Rightarrow> 'a list \<Rightarrow> nat \<Rightarrow> nat option" where
  "last_index x [] i = None"
| "last_index x (y # ys) i = (case last_index x ys (i + 1) of Some j \<Rightarrow> Some j | None \<Rightarrow> if x = y then Some i else None)"

fun order_check :: "public_key list \<Rightarrow> blinded_message list \<Rightarrow> nat option \<Rightarrow> cdk_error + unit" where
  "order_check request [] last_position = Inr ()"
| "order_check request (m # ms) last_position =
     rbind (ok_or E_Internal (last_index (bm_blinded_secret m) request 0)) (\<lambda>current_position.
       if (case last_position of None \<Rightarrow> False | Some last_pos \<Rightarrow> current_position \<le> last_pos) then Inl E_Internal
       else order_check request ms (Some current_position))"

definition restore :: "mint \<Rightarrow> blinded_message list \<Rightarrow> mint_db \<Rightarrow> cdk_error + blinded_message list \<times> blind_signature list" where
  "restore M outputs db =
     (if length outputs > m_max_outputs M then Inl (E_MaxOutputsExceeded (length outputs) (m_max_outputs M))
      else rbind (map_err cdk_of_db (get_blind_signatures (map bm_blinded_secret outputs) db)) (\<lambda>sigs.
        if length sigs \<noteq> length outputs then Inl E_Internal
        else let found = concat (map (\<lambda>(m, s). case s of None \<Rightarrow> [] | Some s \<Rightarrow> [(m, s)]) (zip outputs sigs)) in
          rbind (order_check (map bm_blinded_secret outputs) (map fst found) None) (\<lambda>_.
            Inr (map fst found, map snd found))))"

section \<open>What the checks guarantee\<close>

lemma remdups_length_distinct: "length (remdups xs) = length xs \<longleftrightarrow> distinct xs"
  by (metis length_remdups_card_conv distinct_card card_distinct)

lemma check_inputs_unique_Ok:
  "check_inputs_unique X ps = Inr u \<longleftrightarrow> (\<exists>ys. proofs_ys X ps = Inr ys \<and> distinct ys)"
proof -
  have "length (remdups ys) = length ps \<longleftrightarrow> distinct ys" if "proofs_ys X ps = Inr ys" for ys
    using proofs_ys_length [OF that] by (metis remdups_length_distinct)
  then show ?thesis by (auto simp: check_inputs_unique_def res_simps)
qed

lemma check_outputs_unique_Ok:
  "check_outputs_unique ms = Inr u \<longleftrightarrow> distinct (map bm_blinded_secret ms)"
  using remdups_length_distinct [of "map bm_blinded_secret ms"] by (simp add: check_outputs_unique_def)

lemma single_unit_Ok: "single_unit us = Inr u \<Longrightarrow> us \<noteq> [] \<and> (\<forall>v \<in> set us. v = u)"
proof -
  assume "single_unit us = Inr u"
  then have "remdups us = [u]"
    by (cases "remdups us") (auto simp: single_unit_def Let_def split: if_splits)
  then have "set us = {u}" by (metis list.set(1) list.simps(15) set_remdups)
  then show ?thesis by auto
qed

definition has_unit :: "mint \<Rightarrow> currency_unit \<Rightarrow> keyset_id \<Rightarrow> bool" where
  "has_unit M u k \<longleftrightarrow> (\<exists>i. get_keyset_info M k = Some i \<and> mk_unit i = u)"

lemma collect_units:
  assumes "rbind (collect_res f (remdups ks)) single_unit = Inr u"
    and "\<And>k v. f k = Inr v \<Longrightarrow> has_unit M v k \<and> P k"
  shows "ks \<noteq> [] \<and> (\<forall>k \<in> set ks. has_unit M u k \<and> P k)"
proof -
  from assms(1) obtain us where us: "list_all2 (\<lambda>k v. f k = Inr v) (remdups ks) us" and u: "single_unit us = Inr u"
    by (auto simp: rbind_eq_Ok collect_res_eq_Ok)
  have "\<exists>v \<in> set us. f k = Inr v" if "k \<in> set ks" for k
  proof -
    from that obtain i where i: "i < length (remdups ks)" "remdups ks ! i = k"
      unfolding in_set_conv_nth [symmetric] by (metis in_set_conv_nth set_remdups)
    then have "f k = Inr (us ! i)" "i < length us" using us by (auto simp: list_all2_conv_all_nth)
    then show ?thesis using nth_mem by blast
  qed
  moreover have "v = u" if "v \<in> set us" for v using single_unit_Ok [OF u] that by blast
  ultimately have "\<forall>k \<in> set ks. has_unit M u k \<and> P k" using assms(2) by metis
  moreover have "ks \<noteq> []" using us single_unit_Ok [OF u] by auto
  ultimately show ?thesis by blast
qed

lemma verify_inputs_Ok:
  assumes "verify_inputs M ps = Inr v"
  shows "\<exists>ys. proofs_ys (m_ext M) ps = Inr ys \<and> distinct ys" "length ps \<le> m_max_inputs M" "ps \<noteq> []"
    "\<forall>p \<in> set ps. verify_one M p = Inr () \<and> has_unit M (ta_unit (v_amount v)) (p_keyset_id p)"
    "ta_unit (v_amount v) \<noteq> Auth" "unat (ta_value (v_amount v)) = usum (map p_amount ps)"
proof -
  from assms obtain u a where len: "length ps \<le> m_max_inputs M"
    and uniq: "check_inputs_unique (m_ext M) ps = Inr ()" and u: "verify_inputs_keyset M ps = Inr u" "u \<noteq> Auth"
    and a: "total_amount ps = Inr a" and vp: "verify_proofs M ps = Inr ()" and v: "v = \<lparr> v_amount = new_amount a u \<rparr>"
    by (auto simp: verify_inputs_def rbind_eq_Ok map_err_eq_Ok split: if_splits)
  have "map p_keyset_id ps \<noteq> [] \<and> (\<forall>k \<in> set (map p_keyset_id ps). has_unit M u k \<and> True)"
    by (rule collect_units [OF u(1) [unfolded verify_inputs_keyset_def]]) (auto simp: has_unit_def split: option.splits)
  then show "ps \<noteq> []"
    "\<forall>p \<in> set ps. verify_one M p = Inr () \<and> has_unit M (ta_unit (v_amount v)) (p_keyset_id p)"
    using vp v by (auto simp: verify_proofs_Ok new_amount_def)
  show "\<exists>ys. proofs_ys (m_ext M) ps = Inr ys \<and> distinct ys" using uniq by (simp add: check_inputs_unique_Ok)
  show "length ps \<le> m_max_inputs M" by (rule len)
  show "ta_unit (v_amount v) \<noteq> Auth" "unat (ta_value (v_amount v)) = usum (map p_amount ps)"
    using u(2) v a by (auto simp: new_amount_def total_amount_Ok)
qed

definition active_keyset :: "mint \<Rightarrow> keyset_id \<Rightarrow> bool" where
  "active_keyset M k \<longleftrightarrow> (\<exists>i. get_keyset_info M k = Some i \<and> mk_active i)"

lemma verify_outputs_Ok:
  assumes "verify_outputs M ms = Inr v"
  shows "distinct (map bm_blinded_secret ms)" "length ms \<le> m_max_outputs M" "ms \<noteq> []"
    "\<forall>m \<in> set ms. has_unit M (ta_unit (v_amount v)) (bm_keyset_id m) \<and> active_keyset M (bm_keyset_id m)"
    "unat (ta_value (v_amount v)) = usum (map bm_amount ms)"
proof -
  from assms obtain u a where "ms \<noteq> []" "length ms \<le> m_max_outputs M"
    and uniq: "check_outputs_unique ms = Inr ()" and u: "verify_outputs_keyset M ms = Inr u"
    and a: "try_sum (map bm_amount ms) = Inr a" and v: "v = \<lparr> v_amount = new_amount a u \<rparr>"
    by (auto simp: verify_outputs_def rbind_eq_Ok map_err_eq_Ok split: if_splits)
  then show "length ms \<le> m_max_outputs M" "ms \<noteq> []" "unat (ta_value (v_amount v)) = usum (map bm_amount ms)"
    by (auto simp: new_amount_def try_sum_Ok)
  show "distinct (map bm_blinded_secret ms)" using uniq by (simp add: check_outputs_unique_Ok)
  have "map bm_keyset_id ms \<noteq> [] \<and> (\<forall>k \<in> set (map bm_keyset_id ms). has_unit M u k \<and> active_keyset M k)"
    by (rule collect_units [OF u [unfolded verify_outputs_keyset_def]])
       (auto simp: has_unit_def active_keyset_def split: option.splits if_splits)
  then show "\<forall>m \<in> set ms. has_unit M (ta_unit (v_amount v)) (bm_keyset_id m) \<and> active_keyset M (bm_keyset_id m)"
    using v by (auto simp: new_amount_def)
qed

lemma verify_transaction_balanced_Ok:
  assumes "verify_transaction_balanced M iv ov ps = Inr ()" and "length ps < 2 ^ 64"
  shows "ta_unit (v_amount ov) = ta_unit (v_amount iv) \<and>
    unat (ta_value (v_amount iv)) = unat (ta_value (v_amount ov)) + input_fee M ps"
proof -
  from assms(1) obtain b where b: "get_proofs_fee M ps = Inr b" and u: "ta_unit (v_amount ov) = ta_unit (v_amount iv)"
    and e: "typed_checked_sub (v_amount iv) (new_amount (fb_total b) (ta_unit (v_amount iv))) = Inr (v_amount ov)"
    by (auto simp: verify_transaction_balanced_def rbind_eq_Ok map_err_eq_Ok split: if_splits)
  from e have "unat (ta_value (v_amount iv)) = unat (fb_total b) + unat (ta_value (v_amount ov))"
    by (simp add: typed_checked_sub_Ok new_amount_def)
  with get_proofs_fee_Ok(1) [OF b assms(2)] u show ?thesis by simp
qed

text \<open>
  C36. What a transaction that passes the mint's checks satisfies: its inputs have distinct hash
  points, carry valid signatures of the mint and belong to known keysets of one unit; its outputs
  have distinct blinded secrets and belong to active keysets of the same unit; and the inputs are
  worth exactly the outputs plus the input fee, the fee being the sum of the per-proof fees rounded
  up to the next thousandth.
\<close>
theorem transaction_checks_safe:
  assumes "verify_inputs M inputs = Inr iv" and "verify_outputs M outputs = Inr ov"
    and "verify_transaction_balanced M iv ov inputs = Inr ()" and "m_max_inputs M < 2 ^ 64"
  shows "(\<exists>ys. proofs_ys (m_ext M) inputs = Inr ys \<and> distinct ys) \<and>
    distinct (map bm_blinded_secret outputs) \<and>
    (\<forall>p \<in> set inputs. verify_one M p = Inr () \<and> has_unit M (ta_unit (v_amount iv)) (p_keyset_id p)) \<and>
    (\<forall>m \<in> set outputs. active_keyset M (bm_keyset_id m) \<and> has_unit M (ta_unit (v_amount iv)) (bm_keyset_id m)) \<and>
    usum (map p_amount inputs) = usum (map bm_amount outputs) + input_fee M inputs"
  using verify_inputs_Ok [OF assms(1)] verify_outputs_Ok [OF assms(2)]
    verify_transaction_balanced_Ok [OF assms(3)] assms(4) by simp

section \<open>A small mint\<close>

definition demo_kid :: keyset_id where
  "demo_kid = Id Version00 (V1 (replicate 7 0))"

definition demo_info :: mint_keyset_info where
  "demo_info = \<lparr> mk_id = demo_kid, mk_unit = Sat, mk_active = True, mk_amounts = [1, 8], mk_input_fee_ppk = 400,
     mk_final_expiry = None \<rparr>"

definition demo_mint :: mint where
  "demo_mint = \<lparr> m_ext = demo_ext, m_keysets = [demo_info],
     m_signatory = [(demo_kid, demo_info, [(1, [2]), (7, [3]), (8, [4])])], m_max_inputs = 10, m_max_outputs = 10,
     m_witness_json = (\<lambda>w. Some []) \<rparr>"

definition demo_input :: cashu_proof where
  "demo_input = new_proof 8 demo_kid [CHR 0x05] (demo_pt 268)"

definition demo_output :: blinded_message where
  "demo_output = new_blinded_message 7 demo_kid (demo_pt 5)"

theorem transaction_checks_safe_witness:
  "\<exists>iv ov. verify_inputs demo_mint [demo_input] = Inr iv \<and> verify_outputs demo_mint [demo_output] = Inr ov \<and>
     verify_transaction_balanced demo_mint iv ov [demo_input] = Inr () \<and>
     usum [8] = usum [7] + input_fee demo_mint [demo_input]"
proof -
  let ?iv = "\<lparr> v_amount = new_amount 8 Sat \<rparr>" and ?ov = "\<lparr> v_amount = new_amount 7 Sat \<rparr>"
  have iv: "verify_inputs demo_mint [demo_input] = Inr ?iv" by code_simp
  have ov: "verify_outputs demo_mint [demo_output] = Inr ?ov" by code_simp
  have bal: "verify_transaction_balanced demo_mint ?iv ?ov [demo_input] = Inr ()" by code_simp
  have "m_max_inputs demo_mint < 2 ^ 64" by (simp add: demo_mint_def)
  from transaction_checks_safe [OF iv ov bal this] iv ov bal show ?thesis
    by (auto simp: demo_input_def demo_output_def new_proof_def new_blinded_message_def)
qed

section \<open>The read-only handlers\<close>

definition state_of :: "mint_db \<Rightarrow> public_key \<Rightarrow> proof_state" where
  "state_of db y = (case map_of (map (\<lambda>r. (pr_y r, pr_state r)) (d_proofs db)) y of None \<Rightarrow> Unspent | Some s \<Rightarrow> s)"

lemma map_of_filter_key:
  "y \<in> K \<Longrightarrow> map_of (map (\<lambda>r. (key r, f r)) (filter (\<lambda>r. key r \<in> K) t)) y = map_of (map (\<lambda>r. (key r, f r)) t) y"
  by (induction t) auto

lemma check_state_Ok:
  assumes "check_state M ys db = Inr infos"
  shows "length infos = length ys"
    "i < length ys \<Longrightarrow> psi_y (infos ! i) = ys ! i"
    "i < length ys \<Longrightarrow> psi_state (infos ! i) = (if ys ! i \<in> set (take i ys) then Unspent else state_of db (ys ! i))"
proof -
  let ?states = "get_proofs_states ys db"
  have len: "length ?states = length ys" by (simp add: get_proofs_states_def take_each_length)
  from assms have infos: "infos = map (proof_state_entry (witness_map M ys ?states db)) (zip ys ?states)"
    by (auto simp: check_state_def Let_def split: if_splits)
  show "length infos = length ys" by (simp add: infos len)
  assume i: "i < length ys"
  then show "psi_y (infos ! i) = ys ! i" by (simp add: infos len proof_state_entry_def)
  have "?states ! i = (if ys ! i \<in> set (take i ys) then None
      else map_of (map (\<lambda>r. (pr_y r, pr_state r)) (d_proofs db)) (ys ! i))"
    using i unfolding get_proofs_states_def get_current_states_def rows_in_def
    by (simp add: take_each_nth_dup map_of_filter_key)
  then show "psi_state (infos ! i) = (if ys ! i \<in> set (take i ys) then Unspent else state_of db (ys ! i))"
    using i by (simp add: infos len state_of_def proof_state_entry_def)
qed

text \<open>
  C37. What \<open>check_state\<close> answers: one entry per requested point, in order, with the state the
  database has for the point, unspent when it has none -- except that a point requested a second
  time is always reported unspent, whatever its state.
\<close>
theorem check_state_answers:
  assumes "check_state M ys db = Inr infos"
  shows "map psi_y infos = ys \<and>
    (\<forall>i < length ys. psi_state (infos ! i) = (if ys ! i \<in> set (take i ys) then Unspent else state_of db (ys ! i)))"
  using check_state_Ok [OF assms] by (auto simp: list_eq_iff_nth_eq)

definition demo_spent_db :: mint_db where
  "demo_spent_db = empty_db\<lparr> d_proofs := [\<lparr> pr_y = demo_pt 67, pr_proof = demo_input, pr_state = Spent,
     pr_quote_id = None, pr_created_time = 0, pr_operation_kind = Op_Swap, pr_operation_id = ''a'' \<rparr>] \<rparr>"

theorem check_state_answers_witness:
  "\<exists>infos. check_state demo_mint [demo_pt 67, demo_pt 67] demo_spent_db = Inr infos \<and>
     state_of demo_spent_db (demo_pt 67) = Spent \<and> psi_state (infos ! 0) = Spent \<and> psi_state (infos ! 1) = Unspent"
proof -
  have "is_ok (check_state demo_mint [demo_pt 67, demo_pt 67] demo_spent_db)" by code_simp
  then obtain infos where infos: "check_state demo_mint [demo_pt 67, demo_pt 67] demo_spent_db = Inr infos"
    by (auto simp: is_ok_iff)
  have "state_of demo_spent_db (demo_pt 67) = Spent" by code_simp
  with check_state_answers [OF infos] infos show ?thesis by auto
qed

end
