(* ===== verification/Reservation.thy ===== *)
theory Reservation
  imports Verification
begin

text \<open>
  What an operation of the mint owns in the database while it is under way: the rows of the proof,
  signature and saga tables that carry its identifier. A setup transaction appends such rows and the
  compensation takes them out again; the interface between the two is the locale
  \<open>compensated_operation\<close>, whose client result is that any number of concurrent setups is undone
  exactly, in whatever order they are compensated.
\<close>

section \<open>The rows of an operation\<close>

definition proofs_of :: "uuid \<Rightarrow> mint_db \<Rightarrow> proof_row list" where
  "proofs_of i db = filter (\<lambda>r. pr_operation_id r = i) (d_proofs db)"

definition sig_of_op :: "uuid \<Rightarrow> sig_row \<Rightarrow> bool" where
  "sig_of_op i r \<longleftrightarrow> map_option snd (sr_operation r) = Some i"

definition sigs_of :: "uuid \<Rightarrow> mint_db \<Rightarrow> sig_row list" where
  "sigs_of i db = filter (sig_of_op i) (d_sigs db)"

definition unused :: "uuid \<Rightarrow> mint_db \<Rightarrow> bool" where
  "unused i db \<longleftrightarrow> proofs_of i db = [] \<and> sigs_of i db = [] \<and> i \<notin> sg_operation_id ` set (d_sagas db)"

definition drop_rows :: "uuid \<Rightarrow> mint_db \<Rightarrow> mint_db" where
  "drop_rows i db = db\<lparr> d_proofs := filter (\<lambda>r. pr_operation_id r \<noteq> i) (d_proofs db),
     d_sigs := filter (\<lambda>r. \<not> sig_of_op i r) (d_sigs db) \<rparr>"

definition drop_operation :: "uuid \<Rightarrow> mint_db \<Rightarrow> mint_db" where
  "drop_operation i db = delete_saga i (drop_rows i db)"

text \<open>The rows are still as the setup left them: nothing spent, nothing signed.\<close>

definition reserved :: "uuid \<Rightarrow> mint_db \<Rightarrow> bool" where
  "reserved i db \<longleftrightarrow> (\<forall>r \<in> set (proofs_of i db). pr_state r = Pending) \<and> (\<forall>r \<in> set (sigs_of i db). sr_c r = None)"

definition db_wf :: "ext \<Rightarrow> mint_db \<Rightarrow> bool" where
  "db_wf X db \<longleftrightarrow> distinct (map pr_y (d_proofs db)) \<and> distinct (map sr_blinded_message (d_sigs db)) \<and>
     distinct (map sg_operation_id (d_sagas db)) \<and> (\<forall>r \<in> set (d_proofs db). proof_y X (pr_proof r) = Inr (pr_y r))"

text \<open>
  The effect of a setup transaction on the three tables: fresh rows that belong to the operation,
  and its saga.
\<close>

definition pending_row :: "u64 \<Rightarrow> quote_id option \<Rightarrow> operation \<Rightarrow> public_key \<Rightarrow> cashu_proof \<Rightarrow> proof_row" where
  "pending_row now q d y p = set_state Pending (new_proof_row now q d y p)"

definition reserve ::
  "u64 \<Rightarrow> quote_id option \<Rightarrow> operation \<Rightarrow> public_key list \<Rightarrow> cashu_proof list \<Rightarrow> blinded_message list \<Rightarrow> saga \<Rightarrow> mint_db \<Rightarrow> mint_db"
where
  "reserve now q d ys ps ms s db = db\<lparr> d_proofs := d_proofs db @ map2 (pending_row now q d) ys ps,
     d_sigs := d_sigs db @ map (new_sig_row now q d) ms, d_sagas := d_sagas db @ [s] \<rparr>"

definition reservable :: "ext \<Rightarrow> public_key list \<Rightarrow> cashu_proof list \<Rightarrow> blinded_message list \<Rightarrow> mint_db \<Rightarrow> bool" where
  "reservable X ys ps ms db \<longleftrightarrow> proofs_ys X ps = Inr ys \<and> distinct ys \<and> set ys \<inter> pr_y ` set (d_proofs db) = {} \<and>
     (\<forall>p \<in> set ps. uint (p_amount p) < 2 ^ 63) \<and>
     distinct (map bm_blinded_secret ms) \<and> bm_blinded_secret ` set ms \<inter> sr_blinded_message ` set (d_sigs db) = {} \<and>
     (\<forall>m \<in> set ms. uint (bm_amount m) < 2 ^ 63)"

section \<open>The contract of setup and compensation\<close>

locale compensated_operation =
  fixes wf :: "'s \<Rightarrow> bool"
    and free :: "'i \<Rightarrow> 's \<Rightarrow> bool"
    and prepare :: "'i \<Rightarrow> 's \<Rightarrow> 's \<Rightarrow> bool"
    and undo :: "'i \<Rightarrow> 's \<Rightarrow> 's"
  assumes setup_wf: "wf s \<Longrightarrow> free i s \<Longrightarrow> prepare i s s' \<Longrightarrow> wf s'"
    and undo_setup: "wf s \<Longrightarrow> free i s \<Longrightarrow> prepare i s s' \<Longrightarrow> undo i s' = s"
    and undo_commute: "undo i (undo j s) = undo j (undo i s)"
begin

inductive setups :: "'i list \<Rightarrow> 's \<Rightarrow> 's \<Rightarrow> bool" where
  none: "setups [] s s"
| more: "setups ids s s' \<Longrightarrow> free i s' \<Longrightarrow> prepare i s' s'' \<Longrightarrow> setups (i # ids) s s''"

lemma setups_wf: "setups ids s s' \<Longrightarrow> wf s \<Longrightarrow> wf s'"
  by (induction rule: setups.induct) (auto intro: setup_wf)

lemma undo_setups: "setups ids s s' \<Longrightarrow> wf s \<Longrightarrow> fold undo ids s' = s"
proof (induction rule: setups.induct)
  case (more ids s s' i s'')
  then have "undo i s'' = s'" by (intro undo_setup) (auto intro: setups_wf)
  with more show ?case by simp
qed simp

lemma fold_undo_commute: "fold undo js (undo i s) = undo i (fold undo js s)"
proof (induction js arbitrary: s)
  case (Cons j js)
  show ?case unfolding fold_simps undo_commute [of j i] Cons.IH ..
qed simp

lemma fold_undo_mset: "mset ids = mset js \<Longrightarrow> fold undo ids s = fold undo js s"
proof (induction ids arbitrary: js s)
  case (Cons i ids)
  then have i: "i \<in> set js" by (metis list.set_intros(1) mset_eq_setD)
  then obtain us vs where js: "js = us @ i # vs" by (metis split_list)
  with Cons.prems have "mset ids = mset (us @ vs)" by simp
  from Cons.IH [OF this] show ?case by (simp add: js fold_undo_commute)
qed simp

theorem undo_in_any_order:
  "setups ids s s' \<Longrightarrow> wf s \<Longrightarrow> mset js = mset ids \<Longrightarrow> fold undo js s' = s"
  using undo_setups fold_undo_mset by metis

end

section \<open>Reserving and dropping\<close>

lemma drop_operation_commute: "drop_operation i (drop_operation j db) = drop_operation j (drop_operation i db)"
  by (simp add: drop_operation_def drop_rows_def delete_saga_def conj_commute)

lemma pending_row_simps [simp]:
  "pr_y (pending_row now q d y p) = y" "pr_state (pending_row now q d y p) = Pending"
  "pr_operation_id (pending_row now q d y p) = op_id d" "pr_proof (pending_row now q d y p) = stored_proof p"
  "pr_quote_id (pending_row now q d y p) = q"
  by (simp_all add: pending_row_def new_proof_row_def)

lemma new_sig_row_simps [simp]:
  "sr_blinded_message (new_sig_row now q d m) = bm_blinded_secret m" "sr_c (new_sig_row now q d m) = None"
  "sig_of_op i (new_sig_row now q d m) \<longleftrightarrow> op_id d = i" "sr_keyset_id (new_sig_row now q d m) = bm_keyset_id m"
  "sr_amount (new_sig_row now q d m) = uint (bm_amount m)"
  by (simp_all add: new_sig_row_def sig_of_op_def)

lemma proof_y_stored [simp]: "proof_y X (stored_proof p) = proof_y X p"
  by (simp add: proof_y_def stored_proof_def)

lemma map2_keys: "length ys = length ps \<Longrightarrow> (\<And>y p. key (f y p) = y) \<Longrightarrow> map key (map2 f ys ps) = ys"
  by (induction ys ps rule: list_induct2) auto

lemma in_map2_pending:
  assumes "r \<in> set (map2 (pending_row now q d) ys ps)"
  shows "pr_operation_id r = op_id d" "pr_state r = Pending" "pr_y r \<in> set ys"
    "\<exists>p \<in> set ps. pr_proof r = stored_proof p \<and> (pr_y r, p) \<in> set (zip ys ps)"
proof -
  from assms obtain y p where "(y, p) \<in> set (zip ys ps)" "r = pending_row now q d y p" by auto
  then show "pr_operation_id r = op_id d" "pr_state r = Pending" "pr_y r \<in> set ys"
    "\<exists>p \<in> set ps. pr_proof r = stored_proof p \<and> (pr_y r, p) \<in> set (zip ys ps)"
    by (auto dest: set_zip_leftD set_zip_rightD)
qed

lemma reservable_length: "reservable X ys ps ms db \<Longrightarrow> length ys = length ps"
  by (auto simp: reservable_def dest: proofs_ys_length)

lemma filter_none: "(\<And>x. x \<in> set xs \<Longrightarrow> \<not> P x) \<Longrightarrow> filter P xs = []"
  by (simp add: filter_empty_conv)

lemma filter_all: "(\<And>x. x \<in> set xs \<Longrightarrow> P x) \<Longrightarrow> filter P xs = xs"
  by (simp add: filter_id_conv)

lemma reserve_tables:
  "proofs_of i (reserve now q d ys ps ms s db) =
     proofs_of i db @ (if i = op_id d then map2 (pending_row now q d) ys ps else [])"
  "sigs_of i (reserve now q d ys ps ms s db) = sigs_of i db @ (if i = op_id d then map (new_sig_row now q d) ms else [])"
  "d_sagas (reserve now q d ys ps ms s db) = d_sagas db @ [s]"
  using in_map2_pending(1) [of _ now q d ys ps]
  by (auto simp: proofs_of_def sigs_of_def reserve_def intro!: filter_none filter_all)

lemma drop_operation_reserve:
  assumes "unused (op_id d) db" and "sg_operation_id s = op_id d"
  shows "drop_operation (op_id d) (reserve now q d ys ps ms s db) = db"
proof -
  let ?i = "op_id d"
  have "filter (\<lambda>r. pr_operation_id r \<noteq> ?i) (map2 (pending_row now q d) ys ps) = []"
    by (rule filter_none) (use in_map2_pending(1) in blast)
  moreover have "filter (\<lambda>r. pr_operation_id r \<noteq> ?i) (d_proofs db) = d_proofs db"
    using assms(1) by (intro filter_all) (auto simp: unused_def proofs_of_def filter_empty_conv)
  moreover have "filter (\<lambda>r. \<not> sig_of_op ?i r) (d_sigs db) = d_sigs db"
    using assms(1) by (intro filter_all) (auto simp: unused_def sigs_of_def filter_empty_conv)
  moreover have "filter (\<lambda>s. sg_operation_id s \<noteq> ?i) (d_sagas db) = d_sagas db"
    using assms(1) by (intro filter_all) (metis imageI unused_def)
  ultimately show ?thesis
    using assms(2) by (simp add: drop_operation_def drop_rows_def delete_saga_def reserve_def)
qed

lemma reserve_wf:
  assumes "db_wf X db" and "reservable X ys ps ms db" and "sg_operation_id s \<notin> sg_operation_id ` set (d_sagas db)"
  shows "db_wf X (reserve now q d ys ps ms s db)"
proof -
  have len: "length ys = length ps" by (rule reservable_length [OF assms(2)])
  have ys: "list_all2 (\<lambda>p y. proof_y X p = Inr y) ps ys"
    using assms(2) by (simp add: reservable_def proofs_ys_def collect_res_eq_Ok)
  have "proof_y X (pr_proof r) = Inr (pr_y r)" if r: "r \<in> set (map2 (pending_row now q d) ys ps)" for r
  proof -
    from in_map2_pending(4) [OF r] obtain p where "pr_proof r = stored_proof p" "(pr_y r, p) \<in> set (zip ys ps)" by blast
    with ys show ?thesis by (auto simp: list_all2_conv_all_nth in_set_zip)
  qed
  moreover have "map pr_y (map2 (pending_row now q d) ys ps) = ys" by (rule map2_keys [OF len]) simp
  ultimately show ?thesis
    using assms len by (auto simp: db_wf_def reservable_def reserve_def comp_def simp flip: set_map)
qed

lemma reserve_reserved:
  assumes "unused (op_id d) db"
  shows "reserved (op_id d) (reserve now q d ys ps ms s db)"
  using assms in_map2_pending(2) [of _ now q d ys ps] by (auto simp: reserved_def reserve_tables unused_def)

section \<open>Dropping what is reserved\<close>

lemma proofs_of_ys:
  assumes "db_wf X db" and "r \<in> set (d_proofs db)"
  shows "pr_y r \<in> set (map pr_y (proofs_of i db)) \<longleftrightarrow> pr_operation_id r = i"
proof -
  have "distinct (map pr_y (d_proofs db))" using assms(1) by (simp add: db_wf_def)
  from distinct_key_unique [OF this assms(2)] assms(2) show ?thesis by (auto simp: proofs_of_def)
qed

lemma sigs_of_keys:
  assumes "db_wf X db" and "r \<in> set (d_sigs db)"
  shows "sr_blinded_message r \<in> set (map sr_blinded_message (sigs_of i db)) \<longleftrightarrow> sig_of_op i r"
proof -
  have "distinct (map sr_blinded_message (d_sigs db))" using assms(1) by (simp add: db_wf_def)
  from distinct_key_unique [OF this assms(2)] assms(2) show ?thesis by (auto simp: sigs_of_def)
qed

lemma delete_reserved_messages:
  assumes "db_wf X db" and "\<forall>r \<in> set (sigs_of i db). sr_c r = None"
  shows "delete_blinded_messages (map sr_blinded_message (sigs_of i db)) db = db\<lparr> d_sigs := filter (\<lambda>r. \<not> sig_of_op i r) (d_sigs db) \<rparr>"
proof -
  have "(sr_blinded_message r \<in> set (map sr_blinded_message (sigs_of i db)) \<and> sr_c r = None) = sig_of_op i r"
    if "r \<in> set (d_sigs db)" for r
    using sigs_of_keys [OF assms(1) that, of i] assms(2) that by (auto simp: sigs_of_def)
  then show ?thesis unfolding delete_blinded_messages_def by (simp cong: filter_cong)
qed

lemma remove_reserved_proofs:
  assumes "db_wf X db" and "\<forall>r \<in> set (proofs_of i db). pr_state r \<noteq> Spent"
  shows "remove_proofs (map pr_y (proofs_of i db)) db = Inr (db\<lparr> d_proofs := filter (\<lambda>r. pr_operation_id r \<noteq> i) (d_proofs db) \<rparr>)"
proof -
  let ?ys = "map pr_y (proofs_of i db)"
  have sel: "(pr_y r \<in> set ?ys \<and> pr_state r \<noteq> Spent) = (pr_operation_id r = i)" if "r \<in> set (d_proofs db)" for r
    using proofs_of_ys [OF assms(1) that, of i] assms(2) that by (auto simp: proofs_of_def)
  then have "filter (\<lambda>r. pr_y r \<in> set ?ys \<and> pr_state r \<noteq> Spent) (d_proofs db) = proofs_of i db"
    unfolding proofs_of_def by (rule filter_cong [OF refl])
  moreover have "filter (\<lambda>r. \<not> (pr_y r \<in> set ?ys \<and> pr_state r \<noteq> Spent)) (d_proofs db) = filter (\<lambda>r. pr_operation_id r \<noteq> i) (d_proofs db)"
    by (rule filter_cong) (use sel in auto)
  moreover have "filter (\<lambda>r. pr_operation_id r \<noteq> i) (d_proofs db) = d_proofs db" if "proofs_of i db = []"
    using that by (intro filter_all) (auto simp: proofs_of_def filter_empty_conv)
  ultimately show ?thesis
    unfolding remove_proofs_def Let_def by auto
qed

lemma drop_wf: "db_wf X db \<Longrightarrow> db_wf X (drop_rows i db)" "db_wf X db \<Longrightarrow> db_wf X (delete_saga j db)"
  by (auto simp: db_wf_def drop_rows_def delete_saga_def distinct_map_filter)

lemma drop_tables:
  "i \<noteq> j \<Longrightarrow> proofs_of i (drop_rows j db) = proofs_of i db" "i \<noteq> j \<Longrightarrow> sigs_of i (drop_rows j db) = sigs_of i db"
  "proofs_of i (delete_saga j db) = proofs_of i db" "sigs_of i (delete_saga j db) = sigs_of i db"
  by (auto simp: proofs_of_def sigs_of_def drop_rows_def delete_saga_def sig_of_op_def intro!: filter_cong)

lemma reserve_frame:
  assumes "j \<noteq> op_id d"
  shows "proofs_of j (reserve now q d ys ps ms s db) = proofs_of j db" "sigs_of j (reserve now q d ys ps ms s db) = sigs_of j db"
  using assms by (simp_all add: reserve_tables)

lemma get_secrets_sigs_of: "get_blinded_secrets_by_operation_id i db = map sr_blinded_message (sigs_of i db)"
  unfolding get_blinded_secrets_by_operation_id_def sigs_of_def sig_of_op_def [abs_def] ..

lemma get_ys_proofs_of: "get_proof_ys_by_operation_id i db = map pr_y (proofs_of i db)"
  by (simp add: get_proof_ys_by_operation_id_def proofs_of_def)

lemma mset_map_sort_key: "mset (map f (map g (sort_key k xs))) = mset (map (f \<circ> g) xs)"
  by (simp flip: mset_map) (simp add: multiset.map_comp)

end
