(* ===== verification/Swap.thy ===== *)
theory Swap
  imports Reservation
begin

text \<open>
  The swap saga of the mint: \<open>process_swap_request\<close> (\<open>crates/cdk/src/mint/swap/mod.rs\<close>), its steps
  \<open>setup_swap\<close>, \<open>sign_outputs\<close> and \<open>finalize\<close> (\<open>swap_saga/mod.rs\<close>), the compensating action
  (\<open>swap_saga/compensation.rs\<close>) and the recovery at start-up
  (\<open>recover_from_incomplete_sagas\<close> of \<open>start_up_check.rs\<close>). Every statement of the transactions may
  fail by the fault assignment it is given. The random operation identifier, the clock and the
  nonces of the signatures are arguments. Publishing state changes and metrics are left out.
\<close>

section \<open>The saga\<close>

record remove_swap_setup =
  rs_blinded_secrets :: "public_key list"
  rs_input_ys :: "public_key list"
  rs_operation_id :: uuid

record setup_complete =
  sc_blinded_messages :: "blinded_message list"
  sc_ys :: "public_key list"
  sc_operation :: operation
  sc_fee_breakdown :: proofs_fee_breakdown

record signed_swap = setup_complete +
  sg_signatures :: "blind_signature list"

record 'a swap_saga =
  ss_compensations :: "remove_swap_setup list"
  ss_operation_id :: uuid
  ss_state_data :: 'a

definition remove_swap_setup_execute :: "faults \<Rightarrow> remove_swap_setup \<Rightarrow> mint_db \<Rightarrow> cdk_error + mint_db" where
  "remove_swap_setup_execute f c db =
     (if rs_blinded_secrets c = [] \<and> rs_input_ys c = [] then Inr db
      else rbind (map_err cdk_of_db (faulty (f Begin_tx) (Inr ()))) (\<lambda>_.
        rbind (if rs_blinded_secrets c = [] then Inr db
               else map_err cdk_of_db (faulty (f Delete_blinded_messages)
                      (Inr (delete_blinded_messages (rs_blinded_secrets c) db)))) (\<lambda>db1.
        rbind (if rs_input_ys c = [] then Inr db1
               else map_err cdk_of_db (faulty (f Remove_proofs) (remove_proofs (rs_input_ys c) db1))) (\<lambda>db2.
        let db3 = (case f Delete_saga of None \<Rightarrow> delete_saga (rs_operation_id c) db2 | Some _ \<Rightarrow> db2) in
        rbind (map_err cdk_of_db (faulty (f Commit_tx) (Inr ()))) (\<lambda>_. Inr db3)))))"

fun compensate_all :: "faults \<Rightarrow> remove_swap_setup list \<Rightarrow> mint_db \<Rightarrow> mint_db" where
  "compensate_all f [] db = db"
| "compensate_all f (c # cs) db =
     compensate_all f cs (case remove_swap_setup_execute f c db of Inr db' \<Rightarrow> db' | Inl _ \<Rightarrow> db)"

definition add_proofs_error :: "db_error \<Rightarrow> cdk_error" where
  "add_proofs_error e = (case e of Db_Duplicate \<Rightarrow> E_TokenPending
     | Db_AttemptUpdateSpentProof \<Rightarrow> E_TokenAlreadySpent | _ \<Rightarrow> E_Database e)"

definition add_messages_error :: "db_error \<Rightarrow> cdk_error" where
  "add_messages_error e = (case e of Db_Duplicate \<Rightarrow> E_DuplicateOutputs | _ \<Rightarrow> E_Database e)"

text \<open>\<open>tx.rollback().await?\<close> before an error is returned: a failing rollback replaces the error.\<close>

definition after_rollback :: "faults \<Rightarrow> cdk_error \<Rightarrow> cdk_error" where
  "after_rollback f err = (case f Rollback_tx of None \<Rightarrow> err | Some e \<Rightarrow> cdk_of_db e)"

definition setup_swap ::
  "mint \<Rightarrow> faults \<Rightarrow> u64 \<Rightarrow> uuid \<Rightarrow> cashu_proof list \<Rightarrow> blinded_message list \<Rightarrow> quote_id option \<Rightarrow> verification \<Rightarrow>
   mint_db \<Rightarrow> cdk_error + setup_complete swap_saga \<times> mint_db"
where
  "setup_swap M f now i input_proofs ms quote_id input_verification db =
     rbind (verify_outputs M ms) (\<lambda>output_verification.
     rbind (verify_transaction_balanced M input_verification output_verification input_proofs) (\<lambda>_.
     rbind (get_proofs_fee M input_proofs) (\<lambda>fee_breakdown.
     let d = operation_new i Op_Swap (ta_value (v_amount output_verification)) (ta_value (v_amount input_verification))
               (fb_total fee_breakdown) None None in
     rbind (map_err cdk_of_db (faulty (f Begin_tx) (Inr ()))) (\<lambda>_.
     rbind (map_err (\<lambda>e. after_rollback f (add_proofs_error e))
              (faulty (f Add_proofs) (add_proofs (m_ext M) now input_proofs quote_id d db))) (\<lambda>(new_proofs, db1).
     rbind (map_err E_NUT00 (proofs_ys (m_ext M) input_proofs)) (\<lambda>ys.
     rbind (map_err (after_rollback f)
              (update_proofs_state (m_ext M) (f Update_proofs_state) new_proofs Pending db1)) (\<lambda>(_, db2).
     rbind (map_err (\<lambda>e. after_rollback f (add_messages_error e))
              (faulty (f Add_blinded_messages) (add_blinded_messages now quote_id ms d db2))) (\<lambda>db3.
     rbind (map_err (\<lambda>e. after_rollback f (cdk_of_db e))
              (faulty (f Add_saga) (add_saga now (saga_new_swap now i SwapSetupComplete) db3))) (\<lambda>db4.
     rbind (map_err cdk_of_db (faulty (f Commit_tx) (Inr ()))) (\<lambda>_.
       Inr (\<lparr> ss_compensations = [\<lparr> rs_blinded_secrets = map bm_blinded_secret ms, rs_input_ys = ys,
                                   rs_operation_id = i \<rparr>],
             ss_operation_id = i,
             ss_state_data = \<lparr> sc_blinded_messages = ms, sc_ys = ys, sc_operation = d,
                               sc_fee_breakdown = fee_breakdown \<rparr> \<rparr>, db4)))))))))))"

definition sign_outputs ::
  "mint \<Rightarrow> faults \<Rightarrow> secret_key list \<Rightarrow> setup_complete swap_saga \<Rightarrow> mint_db \<Rightarrow>
   (cdk_error + signed_swap swap_saga) \<times> mint_db"
where
  "sign_outputs M f nonces s db =
     (case blind_sign M nonces (sc_blinded_messages (ss_state_data s)) of
        Inr signatures \<Rightarrow> (Inr \<lparr> ss_compensations = ss_compensations s, ss_operation_id = ss_operation_id s,
            ss_state_data = setup_complete.extend (ss_state_data s) \<lparr> sg_signatures = signatures \<rparr> \<rparr>, db)
      | Inl err \<Rightarrow> (Inl err, compensate_all f (ss_compensations s) db))"

text \<open>The error branches of \<open>finalize\<close>: roll back, compensate, return the error.\<close>

definition abort_swap ::
  "faults \<Rightarrow> faults \<Rightarrow> remove_swap_setup list \<Rightarrow> mint_db \<Rightarrow> cdk_error \<Rightarrow> (cdk_error + blind_signature list) \<times> mint_db"
where
  "abort_swap f fc cs db err = (case f Rollback_tx of
       Some e \<Rightarrow> (Inl (cdk_of_db e), db)
     | None \<Rightarrow> (Inl err, compensate_all fc cs db))"

definition finalize ::
  "mint \<Rightarrow> faults \<Rightarrow> faults \<Rightarrow> u64 \<Rightarrow> signed_swap swap_saga \<Rightarrow> mint_db \<Rightarrow> (cdk_error + blind_signature list) \<times> mint_db"
where
  "finalize M f fc now s db =
     (let d = ss_state_data s; abort = abort_swap f fc (ss_compensations s) db in
      case f Begin_tx of Some e \<Rightarrow> (Inl (cdk_of_db e), db) | None \<Rightarrow>
     (case faulty (f Add_blind_signatures)
             (add_blind_signatures now (map bm_blinded_secret (sc_blinded_messages d)) (sg_signatures d) None db) of
        Inl e \<Rightarrow> abort (cdk_of_db e)
      | Inr db1 \<Rightarrow> (case faulty (f Get_proofs) (get_proofs (sc_ys d) db1) of
        Inl e \<Rightarrow> abort (cdk_of_db e)
      | Inr ps \<Rightarrow> (case update_proofs_state (m_ext M) (f Update_proofs_state) ps Spent db1 of
        Inl e \<Rightarrow> abort e
      | Inr (_, db2) \<Rightarrow> (case faulty (f Add_completed_operation)
             (add_completed_operation now (sc_operation d) (fb_per_keyset (sc_fee_breakdown d)) db2) of
        Inl e \<Rightarrow> abort (cdk_of_db e)
      | Inr db3 \<Rightarrow>
          let db4 = (case f Delete_saga of None \<Rightarrow> delete_saga (ss_operation_id s) db3 | Some _ \<Rightarrow> db3) in
          (case f Commit_tx of
             Some e \<Rightarrow> (Inl (cdk_of_db e), db)
           | None \<Rightarrow> (Inr (sg_signatures d), db4)))))))"

text \<open>
  The whole request. \<open>f1\<close>, \<open>f2\<close> and \<open>fc\<close> are the faults of the setup transaction, of the final one
  and of the compensation.
\<close>

definition process_swap_request ::
  "mint \<Rightarrow> bool \<Rightarrow> faults \<Rightarrow> faults \<Rightarrow> faults \<Rightarrow> u64 \<Rightarrow> uuid \<Rightarrow> secret_key list \<Rightarrow> swap_request \<Rightarrow> mint_db \<Rightarrow>
   (cdk_error + blind_signature list) \<times> mint_db"
where
  "process_swap_request M legacy f1 f2 fc now i nonces req db =
     (case swap_input_amount req of Inl e \<Rightarrow> (Inl (E_NUT03_Amount e), db) | Inr _ \<Rightarrow>
     (case swap_output_amount req of Inl e \<Rightarrow> (Inl (E_NUT03_Amount e), db) | Inr output_amount \<Rightarrow>
      if sw_inputs req = [] then (Inl (E_TransactionUnbalanced 0 output_amount 0), db)
      else
     (case verify_inputs M (sw_inputs req) of Inl e \<Rightarrow> (Inl e, db) | Inr input_verification \<Rightarrow>
     (case verify_swap_conditions (m_ext M) legacy now req of Inl e \<Rightarrow> (Inl (E_NUT11 e), db) | Inr _ \<Rightarrow>
     (case setup_swap M f1 now i (sw_inputs req) (sw_outputs req) None input_verification db of
        Inl e \<Rightarrow> (Inl e, db)
      | Inr (setup_saga, db1) \<Rightarrow>
     (case sign_outputs M fc nonces setup_saga db1 of
        (Inl e, db2) \<Rightarrow> (Inl e, db2)
      | (Inr signed_saga, db2) \<Rightarrow> finalize M f2 fc now signed_saga db2))))))"

section \<open>Recovery at start-up\<close>

fun recover_sagas :: "(uuid \<Rightarrow> faults) \<Rightarrow> saga list \<Rightarrow> mint_db \<Rightarrow> (cdk_error + unit) \<times> mint_db" where
  "recover_sagas fs [] db = (Inr (), db)"
| "recover_sagas fs (s # ss) db =
     (let i = sg_operation_id s in
      case faulty (fs i Get_proof_ys) (Inr (get_proof_ys_by_operation_id i db)) of Inl e \<Rightarrow> (Inl (cdk_of_db e), db)
    | Inr input_ys \<Rightarrow>
     (case faulty (fs i Get_blinded_secrets) (Inr (get_blinded_secrets_by_operation_id i db)) of Inl e \<Rightarrow> (Inl (cdk_of_db e), db)
    | Inr blinded_secrets \<Rightarrow>
     recover_sagas fs ss (case remove_swap_setup_execute (fs i) \<lparr> rs_blinded_secrets = blinded_secrets,
          rs_input_ys = input_ys, rs_operation_id = i \<rparr> db of Inr db' \<Rightarrow> db' | Inl _ \<Rightarrow> db)))"

definition recover_from_incomplete_sagas :: "db_error option \<Rightarrow> (uuid \<Rightarrow> faults) \<Rightarrow> mint_db \<Rightarrow> (cdk_error + unit) \<times> mint_db" where
  "recover_from_incomplete_sagas flt fs db =
     (case faulty flt (Inr (get_incomplete_sagas Op_Swap db)) of
        Inl e \<Rightarrow> (Inl (cdk_of_db e), db)
      | Inr incomplete_sagas \<Rightarrow> recover_sagas fs incomplete_sagas db)"

section \<open>What the steps do\<close>

lemma update_pending_appended:
  assumes "db_update_proofs_state X \<lparr> ps_proofs = ps, ps_state = s0 \<rparr> Pending
      (db\<lparr> d_proofs := t @ map2 (new_proof_row now q d) ys ps \<rparr>) = Inr (a, db')"
    and "proofs_ys X ps = Inr ys" and "set ys \<inter> pr_y ` set t = {}"
  shows "db' = db\<lparr> d_proofs := t @ map2 (pending_row now q d) ys ps \<rparr>"
proof -
  have "update_rows (\<lambda>r. pr_y r \<in> set ys) (set_state Pending) t = t"
    by (rule update_rows_none) (use assms(3) in auto)
  moreover have "update_rows (\<lambda>r. pr_y r \<in> set ys) (set_state Pending) (map2 (new_proof_row now q d) ys ps)
      = map2 (pending_row now q d) ys ps"
    unfolding update_rows_def by (auto simp: pending_row_def new_proof_row_def dest: set_zip_leftD)
  ultimately show ?thesis
    using assms(1,2) by (simp add: db_update_proofs_state_def update_rows_append)
qed

definition swap_operation :: "uuid \<Rightarrow> verification \<Rightarrow> verification \<Rightarrow> proofs_fee_breakdown \<Rightarrow> operation" where
  "swap_operation i iv ov fb = operation_new i Op_Swap (ta_value (v_amount ov)) (ta_value (v_amount iv)) (fb_total fb) None None"

lemma swap_operation_simps [simp]: "op_id (swap_operation i iv ov fb) = i" "op_kind (swap_operation i iv ov fb) = Op_Swap"
  by (simp_all add: swap_operation_def operation_new_def)

definition swap_saga_of :: "uuid \<Rightarrow> public_key list \<Rightarrow> blinded_message list \<Rightarrow> operation \<Rightarrow> proofs_fee_breakdown \<Rightarrow> setup_complete swap_saga" where
  "swap_saga_of i ys ms d fb = \<lparr> ss_compensations = [\<lparr> rs_blinded_secrets = map bm_blinded_secret ms, rs_input_ys = ys,
       rs_operation_id = i \<rparr>], ss_operation_id = i,
     ss_state_data = \<lparr> sc_blinded_messages = ms, sc_ys = ys, sc_operation = d, sc_fee_breakdown = fb \<rparr> \<rparr>"

lemma setup_swap_Ok:
  assumes "setup_swap M f now i ps ms q iv db = Inr (s, db')"
  shows "\<exists>ov fb ys. verify_outputs M ms = Inr ov \<and> verify_transaction_balanced M iv ov ps = Inr () \<and>
    get_proofs_fee M ps = Inr fb \<and> reservable (m_ext M) ys ps ms db \<and>
    i \<notin> sg_operation_id ` set (d_sagas db) \<and> s = swap_saga_of i ys ms (swap_operation i iv ov fb) fb \<and>
    db' = reserve now q (swap_operation i iv ov fb) ys ps ms (saga_new_swap now i SwapSetupComplete) db"
proof -
  note db_simps = db_simps saga_new_swap_def
  from assms obtain ov fb np db1 ys a db2 db3 where
      vo: "verify_outputs M ms = Inr ov" "verify_transaction_balanced M iv ov ps = Inr ()" "get_proofs_fee M ps = Inr fb"
    and ap: "add_proofs (m_ext M) now ps q (swap_operation i iv ov fb) db = Inr (np, db1)"
    and ys: "proofs_ys (m_ext M) ps = Inr ys"
    and up: "db_update_proofs_state (m_ext M) np Pending db1 = Inr (a, db2)"
    and am: "add_blinded_messages now q ms (swap_operation i iv ov fb) db2 = Inr db3"
    and ag: "add_saga now (saga_new_swap now i SwapSetupComplete) db3 = Inr db'"
    and s: "s = swap_saga_of i ys ms (swap_operation i iv ov fb) fb"
    unfolding setup_swap_def swap_operation_def [symmetric] swap_saga_of_def
    by (auto simp: rbind_eq_Ok map_err_eq_Ok faulty_Ok update_proofs_state_def Let_def)
  from ap ys have np: "np = \<lparr> ps_proofs = ps, ps_state = Unspent \<rparr>" "distinct ys" "set ys \<inter> pr_y ` set (d_proofs db) = {}"
    "\<forall>p \<in> set ps. uint (p_amount p) < 2 ^ 63"
    "db1 = db\<lparr> d_proofs := d_proofs db @ map2 (new_proof_row now q (swap_operation i iv ov fb)) ys ps \<rparr>"
    by (auto simp: add_proofs_Ok)
  have db2: "db2 = db\<lparr> d_proofs := d_proofs db @ map2 (pending_row now q (swap_operation i iv ov fb)) ys ps \<rparr>"
    by (rule update_pending_appended [OF _ ys np(3)]) (use up np(1,5) in simp)
  from am ag db2 have "reservable (m_ext M) ys ps ms db" "i \<notin> sg_operation_id ` set (d_sagas db)"
    "db' = reserve now q (swap_operation i iv ov fb) ys ps ms (saga_new_swap now i SwapSetupComplete) db"
    using ys np by (auto simp: add_blinded_messages_Ok add_saga_Ok reservable_def reserve_def saga_new_swap_def)
  with vo s show ?thesis by blast
qed

lemma execute_reserved:
  assumes "db_wf X db" and "reserved i db" and "proofs_of i db \<noteq> [] \<or> sigs_of i db \<noteq> []"
    and c: "c = \<lparr> rs_blinded_secrets = map sr_blinded_message (sigs_of i db), rs_input_ys = map pr_y (proofs_of i db), rs_operation_id = i \<rparr>"
  shows "remove_swap_setup_execute f c db = Inr db' \<Longrightarrow>
      db' = (if f Delete_saga = None then drop_operation i db else drop_rows i db)"
    and "(\<And>c. f c = None) \<Longrightarrow> remove_swap_setup_execute f c db = Inr (drop_operation i db)"
proof -
  let ?db1 = "db\<lparr> d_sigs := filter (\<lambda>r. \<not> sig_of_op i r) (d_sigs db) \<rparr>"
  have del: "delete_blinded_messages (map sr_blinded_message (sigs_of i db)) db = ?db1"
    by (rule delete_reserved_messages [OF assms(1)]) (use assms(2) in \<open>simp add: reserved_def\<close>)
  have none: "db = ?db1" if "sigs_of i db = []"
  proof -
    have "filter (\<lambda>r. \<not> sig_of_op i r) (d_sigs db) = d_sigs db"
      using that by (intro filter_all) (auto simp: sigs_of_def filter_empty_conv)
    then show ?thesis by simp
  qed
  have wf1: "db_wf X ?db1" using assms(1) by (auto simp: db_wf_def distinct_map_filter)
  have same: "proofs_of i ?db1 = proofs_of i db" by (simp add: proofs_of_def)
  have rem: "remove_proofs (map pr_y (proofs_of i db)) ?db1 = Inr (drop_rows i db)"
    using remove_reserved_proofs [OF wf1, of i] assms(2) unfolding same by (simp add: reserved_def drop_rows_def)
  have noneP: "?db1 = drop_rows i db" if "proofs_of i db = []"
  proof -
    have "filter (\<lambda>r. pr_operation_id r \<noteq> i) (d_proofs db) = d_proofs db"
      using that by (intro filter_all) (auto simp: proofs_of_def filter_empty_conv)
    then show ?thesis by (simp add: drop_rows_def)
  qed
  show "remove_swap_setup_execute f c db = Inr db' \<Longrightarrow> db' = (if f Delete_saga = None then drop_operation i db else drop_rows i db)"
    using assms(3) del none rem noneP
    by (auto simp: remove_swap_setup_execute_def c rbind_eq_Ok map_err_eq_Ok faulty_Ok drop_operation_def
        split: if_splits option.splits)
  show "(\<And>c. f c = None) \<Longrightarrow> remove_swap_setup_execute f c db = Inr (drop_operation i db)"
    using assms(3) del none rem noneP
    by (auto simp: remove_swap_setup_execute_def c faulty_def drop_operation_def)
qed

section \<open>Setup and compensation\<close>

definition swap_setup :: "ext \<Rightarrow> uuid \<Rightarrow> mint_db \<Rightarrow> mint_db \<Rightarrow> bool" where
  "swap_setup X i db db' \<longleftrightarrow> (\<exists>M f now ps ms q iv s. m_ext M = X \<and> setup_swap M f now i ps ms q iv db = Inr (s, db'))"

lemma swap_setupE:
  assumes "swap_setup X i db db'"
  obtains now q d ys ps ms where "op_id d = i" "op_kind d = Op_Swap" "reservable X ys ps ms db" "ms \<noteq> []"
    "i \<notin> sg_operation_id ` set (d_sagas db)" "db' = reserve now q d ys ps ms (saga_new_swap now i SwapSetupComplete) db"
proof -
  from assms obtain M f now ps ms q iv s where X: "m_ext M = X" and s: "setup_swap M f now i ps ms q iv db = Inr (s, db')"
    by (auto simp: swap_setup_def)
  from setup_swap_Ok [OF s] X that [of "swap_operation i iv _ _" _ ps ms now q] verify_outputs_Ok(3) show thesis
    by (metis swap_operation_simps)
qed

interpretation swap: compensated_operation "db_wf X" unused "swap_setup X" drop_operation for X :: ext
proof
  fix db db' i j
  assume wf: "db_wf X db" and free: "unused i db" and "swap_setup X i db db'"
  then obtain now q d ys ps ms where d: "op_id d = i" and r: "reservable X ys ps ms db"
    and db': "db' = reserve now q d ys ps ms (saga_new_swap now i SwapSetupComplete) db"
    by (elim swap_setupE)
  show "db_wf X db'"
    unfolding db' by (rule reserve_wf [OF wf r]) (use free in \<open>simp add: unused_def saga_new_swap_def\<close>)
  show "drop_operation i db' = db"
    using drop_operation_reserve [of d db "saga_new_swap now i SwapSetupComplete" now q ys ps ms] free d
    by (simp add: db' saga_new_swap_def)
next
  show "drop_operation i (drop_operation j db) = drop_operation j (drop_operation i db)" for i j db
    by (rule drop_operation_commute)
qed

end
