(* ===== verification/Swap_Ledger.thy ===== *)
theory Swap_Ledger
  imports Swap
begin

text \<open>
  What the steps of a swap saga do to the tables it owns and to the ledger: a saga that is set up
  holds its rows, its completion spends and signs exactly those, keeps the ledger of every keyset
  equal to the sums over the tables and the balance of every unit unchanged, and compensation and
  recovery only take away rows that are neither spent nor signed.
\<close>

section \<open>A saga and its rows\<close>

text \<open>
  The reserved inputs are worth the outputs and the fees, all in one unit, and the amounts fit the
  columns of the ledger.
\<close>

definition balanced :: "mint \<Rightarrow> proof_row list \<Rightarrow> blinded_message list \<Rightarrow> (keyset_id \<times> u64) list \<Rightarrow> bool" where
  "balanced M rows ms fees \<longleftrightarrow> (\<exists>u. (\<forall>r \<in> set rows. has_unit M u (row_keyset r)) \<and>
     (\<forall>m \<in> set ms. has_unit M u (bm_keyset_id m)) \<and> (\<forall>e \<in> set fees. has_unit M u (fst e))) \<and>
     (\<forall>m \<in> set ms. uint (bm_amount m) < 2 ^ 63) \<and> (\<forall>e \<in> set fees. uint (snd e) < 2 ^ 63) \<and>
     sum_list (map row_amount rows) = sum_list (map (\<lambda>m. uint (bm_amount m)) ms) + sum_list (map (\<lambda>e. uint (snd e)) fees)"

definition swap_holds :: "mint \<Rightarrow> 'a setup_complete_scheme swap_saga \<Rightarrow> mint_db \<Rightarrow> bool" where
  "swap_holds M s db \<longleftrightarrow> (let i = ss_operation_id s; d = ss_state_data s in
     ss_compensations s = [\<lparr> rs_blinded_secrets = map bm_blinded_secret (sc_blinded_messages d), rs_input_ys = sc_ys d,
        rs_operation_id = i \<rparr>] \<and>
     op_id (sc_operation d) = i \<and> reserved i db \<and> map pr_y (proofs_of i db) = sc_ys d \<and>
     map sr_blinded_message (sigs_of i db) = map bm_blinded_secret (sc_blinded_messages d) \<and>
     map sr_keyset_id (sigs_of i db) = map bm_keyset_id (sc_blinded_messages d) \<and>
     sc_blinded_messages d \<noteq> [] \<and>
     balanced M (proofs_of i db) (sc_blinded_messages d) (fb_per_keyset (sc_fee_breakdown d)))"

lemma swap_holds_frame:
  assumes "proofs_of (ss_operation_id s) db' = proofs_of (ss_operation_id s) db"
    and "sigs_of (ss_operation_id s) db' = sigs_of (ss_operation_id s) db"
  shows "swap_holds M s db' = swap_holds M s db"
  using assms by (simp add: swap_holds_def reserved_def Let_def)

lemma compensate_holds:
  assumes "db_wf X db" and "swap_holds M s db"
  shows "compensate_all f (ss_compensations s) db
    \<in> {db, drop_rows (ss_operation_id s) db, drop_operation (ss_operation_id s) db}"
proof -
  let ?i = "ss_operation_id s"
  from assms(2) have r: "reserved ?i db" and ne: "sigs_of ?i db \<noteq> []"
    and c: "ss_compensations s = [\<lparr> rs_blinded_secrets = map sr_blinded_message (sigs_of ?i db),
        rs_input_ys = map pr_y (proofs_of ?i db), rs_operation_id = ?i \<rparr>]"
    by (auto simp: swap_holds_def Let_def)
  show ?thesis
  proof (cases "remove_swap_setup_execute f (hd (ss_compensations s)) db")
    case (Inr db')
    have "db' = (if f Delete_saga = None then drop_operation ?i db else drop_rows ?i db)"
      by (rule execute_reserved(1) [OF assms(1) r _ refl]) (use ne Inr c in auto)
    with Inr show ?thesis by (simp add: c)
  qed (simp add: c)
qed

text \<open>The two ways the rows of a saga leave their reserved state.\<close>

definition completed ::
  "uuid \<Rightarrow> u64 \<Rightarrow> operation \<Rightarrow> (keyset_id \<times> u64) list \<Rightarrow> (public_key \<times> blind_signature) list \<Rightarrow> mint_db \<Rightarrow> mint_db"
where
  "completed i now d fees zs db = db\<lparr>
     d_proofs := update_rows (\<lambda>r. pr_operation_id r = i) (set_state Spent) (d_proofs db),
     d_sigs := map (sign_pending now zs) (d_sigs db),
     d_completed := d_completed db @ [d\<lparr> op_complete_at := Some (get_or_default now (op_complete_at d)) \<rparr>],
     d_keyset_amounts := fold (\<lambda>(kid, fee) a. if fee > 0 then upsert_amounts kid (add_fee_collected (as_i64 fee)) a else a) fees
       (redeem_rows (map (set_state Spent) (proofs_of i db)) (issue_all (map snd zs) (d_keyset_amounts db))) \<rparr>"

lemma update_op_rows:
  assumes "db_wf X db"
  shows "update_rows (\<lambda>r. pr_y r \<in> set (map pr_y (proofs_of i db))) f (d_proofs db) = update_rows (\<lambda>r. pr_operation_id r = i) f (d_proofs db)"
  unfolding update_rows_def using proofs_of_ys [OF assms, of _ i] by (intro map_cong) auto

lemma rows_in_op:
  assumes "db_wf X db"
  shows "rows_in (map pr_y (proofs_of i db)) db = proofs_of i db"
  unfolding rows_in_def proofs_of_def [of i] by (rule filter_cong) (use proofs_of_ys [OF assms, of _ i] in \<open>auto simp: proofs_of_def\<close>)

lemma filter_update_rows:
  "(\<And>r. P (f r) = P r) \<Longrightarrow> filter P (update_rows P f t) = map f (filter P t)"
  by (induction t) (auto simp: update_rows_def)

lemma sc_proofs_ys:
  assumes "db_wf X db" shows "proofs_ys X (map pr_proof (proofs_of i db)) = Inr (map pr_y (proofs_of i db))"
proof -
  have "\<forall>r \<in> set (proofs_of i db). proof_y X (pr_proof r) = Inr (pr_y r)"
    using assms by (auto simp: db_wf_def proofs_of_def)
  then show ?thesis by (auto simp: proofs_ys_def collect_res_eq_Ok list_all2_conv_all_nth)
qed

lemma signed_rows_present:
  assumes "fst ` set zs \<subseteq> sr_blinded_message ` set t"
  shows "signed_rows now q zs t = map (sign_pending now zs) t"
proof -
  have "filter (\<lambda>z. fst z \<notin> sr_blinded_message ` set t) zs = []" using assms by (intro filter_none) auto
  then show ?thesis by (simp add: signed_rows_def)
qed

lemma redeem_op_rows:
  assumes "db_wf X db" and "db_update_proofs_state X ps Spent db = Inr (a, db')"
    and "ps_proofs ps = map pr_proof (proofs_of i db)"
  shows "db' = db\<lparr> d_proofs := update_rows (\<lambda>r. pr_operation_id r = i) (set_state Spent) (d_proofs db),
    d_keyset_amounts := redeem_rows (map (set_state Spent) (proofs_of i db)) (d_keyset_amounts db) \<rparr>"
proof -
  let ?ys = "map pr_y (proofs_of i db)"
  let ?up = "update_rows (\<lambda>r. pr_y r \<in> set ?ys) (set_state Spent) (d_proofs db)"
  have "rows_in ?ys (db\<lparr> d_proofs := ?up \<rparr>) = map (set_state Spent) (rows_in ?ys db)"
    by (simp add: rows_in_def filter_update_rows)
  then have "rows_in ?ys (db\<lparr> d_proofs := ?up \<rparr>) = map (set_state Spent) (proofs_of i db)"
    by (simp add: rows_in_op [OF assms(1)])
  moreover have "?up = update_rows (\<lambda>r. pr_operation_id r = i) (set_state Spent) (d_proofs db)"
    by (rule update_op_rows [OF assms(1)])
  ultimately show ?thesis
    using assms(2,3) sc_proofs_ys [OF assms(1), of i] by (simp add: db_update_proofs_state_def)
qed

lemma finalize_outcome:
  fixes t :: "signed_swap swap_saga"
  defines "d \<equiv> ss_state_data t" and "i \<equiv> ss_operation_id t"
  assumes wf: "db_wf (m_ext M) db" and h: "swap_holds M t db" and fin: "finalize M f fc now t db = (r, db')"
  shows "(case r of
      Inl _ \<Rightarrow> db' \<in> {db, drop_rows i db, drop_operation i db}
    | Inr sigs \<Rightarrow> sigs = sg_signatures d \<and> length (sc_blinded_messages d) = length sigs \<and>
        db' = (if f Delete_saga = None then delete_saga i else id)
          (completed i now (sc_operation d) (fb_per_keyset (sc_fee_breakdown d)) (zip (map bm_blinded_secret (sc_blinded_messages d)) sigs) db))"
proof -
  have comp: "compensate_all fc (ss_compensations t) db \<in> {db, drop_rows i db, drop_operation i db}"
    using compensate_holds [OF wf h, of fc] by (simp add: i_def)
  then have abort: "fst (abort_swap f fc (ss_compensations t) db e) \<noteq> Inr sigs"
     "snd (abort_swap f fc (ss_compensations t) db e) \<in> {db, drop_rows i db, drop_operation i db}" for e sigs
    by (auto simp: abort_swap_def split: option.split)
  show ?thesis
  proof (cases r)
    case (Inl e)
    then show ?thesis
      using fin abort(2) unfolding finalize_def Let_def
      by (auto split: option.splits sum.splits prod.splits simp: prod_eq_iff)
  next
    case (Inr sigs)
    let ?bs = "map bm_blinded_secret (sc_blinded_messages d)" and ?fees = "fb_per_keyset (sc_fee_breakdown d)"
    from h have rows: "map sr_blinded_message (sigs_of i db) = ?bs" "map pr_y (proofs_of i db) = sc_ys d"
      by (simp_all add: swap_holds_def Let_def i_def d_def)
    have dist: "distinct (map sr_blinded_message (d_sigs db))" using wf by (simp add: db_wf_def)
    then have "distinct ?bs" unfolding rows(1) [symmetric] sigs_of_def by (rule distinct_map_filter)
    have sub: "set ?bs \<subseteq> sr_blinded_message ` set (d_sigs db)"
      unfolding rows(1) [symmetric] by (auto simp: sigs_of_def)
    from fin Inr abort(1) obtain db1 ps a db2 db3 where sigs: "sigs = sg_signatures d"
      and s1: "add_blind_signatures now ?bs sigs None db = Inr db1"
      and s2: "get_proofs (sc_ys d) db1 = Inr ps"
      and s3: "db_update_proofs_state (m_ext M) ps Spent db1 = Inr (a, db2)"
      and s4: "add_completed_operation now (sc_operation d) ?fees db2 = Inr db3"
      and s5: "db' = (if f Delete_saga = None then delete_saga i db3 else db3)"
      unfolding finalize_def Let_def d_def i_def
      by (auto split: option.splits sum.splits prod.splits simp: prod_eq_iff faulty_def update_proofs_state_def res_simps)
    note a1 = add_blind_signatures_Ok [OF s1 \<open>distinct ?bs\<close> dist]
    have "signed_rows now None (zip ?bs sigs) (d_sigs db) = map (sign_pending now (zip ?bs sigs)) (d_sigs db)"
      by (rule signed_rows_present) (use sub a1(1) in \<open>force dest: set_zip_leftD\<close>)
    with a1(2) have db1: "db1 = db\<lparr> d_sigs := map (sign_pending now (zip ?bs sigs)) (d_sigs db),
        d_keyset_amounts := issue_all sigs (d_keyset_amounts db) \<rparr>" by simp
    then have wf1: "db_wf (m_ext M) db1" and po: "proofs_of i db1 = proofs_of i db"
      using wf by (simp_all add: db_wf_def proofs_of_def comp_def)
    have "ps_proofs ps = map pr_proof (rows_in (sc_ys d) db1)" using s2 by (simp add: get_proofs_Ok)
    then have "ps_proofs ps = map pr_proof (proofs_of i db1)"
      using rows_in_op [OF wf1, of i] by (simp add: po rows(2))
    note db2 = redeem_op_rows [OF wf1 s3 this]
    have "db3 = completed i now (sc_operation d) ?fees (zip ?bs sigs) db"
      using s4 a1(1) unfolding db2 po
      by (auto simp: db1 add_completed_operation_def rmap_eq_Ok insert_row_Ok completed_def)
    with Inr sigs a1(1) s5 show ?thesis by simp
  qed
qed

section \<open>Frames\<close>

lemma drop_frame:
  assumes "db' \<in> {db, drop_rows i db, drop_operation i db}"
  shows "j \<noteq> i \<Longrightarrow> proofs_of j db' = proofs_of j db" "j \<noteq> i \<Longrightarrow> sigs_of j db' = sigs_of j db"
    "db_wf X db \<Longrightarrow> db_wf X db'"
  using assms by (auto simp: drop_operation_def drop_tables drop_wf)

lemma sign_pending_op [simp]: "sig_of_op j (sign_pending now zs r) = sig_of_op j r" "sr_keyset_id (sign_pending now zs r) = sr_keyset_id r"
  by (simp_all add: sign_pending_def sign_row_def sig_of_op_def split: option.split)

lemma filter_update_other:
  "(\<And>r. r \<in> set t \<Longrightarrow> P r \<Longrightarrow> \<not> Q r) \<Longrightarrow> (\<And>r. P (f r) = P r) \<Longrightarrow> filter P (update_rows Q f t) = filter P t"
  by (induction t) (auto simp: update_rows_def)

lemma sigs_of_signed:
  "sigs_of j (completed i now d fees zs db) = map (sign_pending now zs) (sigs_of j db)"
  by (simp add: sigs_of_def completed_def filter_map comp_def)

lemma completed_frame:
  assumes wf: "db_wf X db" and zs: "fst ` set zs \<subseteq> set (map sr_blinded_message (sigs_of i db))"
  shows "j \<noteq> i \<Longrightarrow> proofs_of j (completed i now d fees zs db) = proofs_of j db"
    "j \<noteq> i \<Longrightarrow> sigs_of j (completed i now d fees zs db) = sigs_of j db"
    "db_wf X (completed i now d fees zs db)"
proof -
  show "j \<noteq> i \<Longrightarrow> proofs_of j (completed i now d fees zs db) = proofs_of j db"
    by (auto simp: proofs_of_def completed_def intro!: filter_update_other)
  assume "j \<noteq> i"
  have "sign_pending now zs r = r" if r: "r \<in> set (sigs_of j db)" for r
  proof -
    from r \<open>j \<noteq> i\<close> have "r \<in> set (d_sigs db)" "\<not> sig_of_op i r" by (auto simp: sigs_of_def sig_of_op_def)
    then have "sr_blinded_message r \<notin> fst ` set zs" using sigs_of_keys [OF wf, of r i] zs by blast
    then have "map_of zs (sr_blinded_message r) = None" by (simp add: map_of_eq_None_iff)
    then show ?thesis by (simp add: sign_pending_def)
  qed
  then show "sigs_of j (completed i now d fees zs db) = sigs_of j db" by (simp add: sigs_of_signed map_idI)
next
  show "db_wf X (completed i now d fees zs db)"
    using wf by (auto simp: db_wf_def completed_def update_rows_keys comp_def) (auto simp: update_rows_def)
qed

section \<open>The ledger\<close>

lemma fee_fold:
  "ka_total_issued (amounts_of (db\<lparr> d_keyset_amounts := fold (\<lambda>(kid, fee) a. if fee > 0 then upsert_amounts kid (add_fee_collected (as_i64 fee)) a else a) fees t \<rparr>) k)
     = ka_total_issued (amounts_of (db\<lparr> d_keyset_amounts := t \<rparr>) k)"
  "ka_total_redeemed (amounts_of (db\<lparr> d_keyset_amounts := fold (\<lambda>(kid, fee) a. if fee > 0 then upsert_amounts kid (add_fee_collected (as_i64 fee)) a else a) fees t \<rparr>) k)
     = ka_total_redeemed (amounts_of (db\<lparr> d_keyset_amounts := t \<rparr>) k)"
  "ka_fee_collected (amounts_of (db\<lparr> d_keyset_amounts := fold (\<lambda>(kid, fee) a. if fee > 0 then upsert_amounts kid (add_fee_collected (as_i64 fee)) a else a) fees t \<rparr>) k)
     = ka_fee_collected (amounts_of (db\<lparr> d_keyset_amounts := t \<rparr>) k) + sum_list (map (\<lambda>e. as_i64 (snd e)) (filter (\<lambda>e. fst e = k) fees))"
proof (induction fees arbitrary: t)
  case (Cons e fees)
  {
    case 1 show ?case using Cons(1) by (cases e) simp
  next
    case 2 show ?case using Cons(2) by (cases e) simp
  next
    case 3
    obtain kid fee where e: "e = (kid, fee)" by (cases e)
    have "as_i64 0 = 0" by (simp add: as_i64_def)
    then show ?case using Cons(3) [of "if fee > 0 then upsert_amounts kid (add_fee_collected (as_i64 fee)) t else t"]
      by (auto simp: e word_gt_0)
  }
qed simp_all

lemma completed_amounts:
  "ka_total_issued (amounts_of (completed i now d fees zs db) k) = ka_total_issued (amounts_of db k) + sigs_sum (map snd zs) k"
  "ka_total_redeemed (amounts_of (completed i now d fees zs db) k) =
     ka_total_redeemed (amounts_of db k) + sum_list (map row_amount (filter (\<lambda>r. row_keyset r = k) (proofs_of i db)))"
  "ka_fee_collected (amounts_of (completed i now d fees zs db) k) =
     ka_fee_collected (amounts_of db k) + sum_list (map (\<lambda>e. as_i64 (snd e)) (filter (\<lambda>e. fst e = k) fees))"
proof -
  let ?t = "redeem_rows (map (set_state Spent) (proofs_of i db)) (issue_all (map snd zs) (d_keyset_amounts db))"
  have eq: "amounts_of (completed i now d fees zs db) k =
      amounts_of (db\<lparr> d_keyset_amounts := fold (\<lambda>(kid, fee) a. if fee > 0 then upsert_amounts kid (add_fee_collected (as_i64 fee)) a else a) fees ?t \<rparr>) k"
    by (simp add: amounts_of_def completed_def)
  have rows: "sum_list (map row_amount (filter (\<lambda>r. row_keyset r = k) (map (set_state Spent) (proofs_of i db))))
      = sum_list (map row_amount (filter (\<lambda>r. row_keyset r = k) (proofs_of i db)))"
    by (simp add: filter_map comp_def)
  show "ka_total_issued (amounts_of (completed i now d fees zs db) k) = ka_total_issued (amounts_of db k) + sigs_sum (map snd zs) k"
    "ka_total_redeemed (amounts_of (completed i now d fees zs db) k) =
     ka_total_redeemed (amounts_of db k) + sum_list (map row_amount (filter (\<lambda>r. row_keyset r = k) (proofs_of i db)))"
    "ka_fee_collected (amounts_of (completed i now d fees zs db) k) =
     ka_fee_collected (amounts_of db k) + sum_list (map (\<lambda>e. as_i64 (snd e)) (filter (\<lambda>e. fst e = k) fees))"
    unfolding eq fee_fold amounts_of_redeem by (simp_all add: amounts_of_issue_all rows)
qed

lemma ledger_ok_completed:
  assumes wf: "db_wf X db" and res: "reserved i db" and ok: "ledger_ok db"
    and zs: "map fst zs = map sr_blinded_message (sigs_of i db)"
    and ks: "map (\<lambda>z. bs_keyset_id (snd z)) zs = map sr_keyset_id (sigs_of i db)"
  shows "ledger_ok (completed i now d fees zs db)"
  unfolding ledger_ok_def
proof (intro allI conjI)
  fix k
  let ?c = "completed i now d fees zs db"
  have op: "pr_state r \<noteq> Spent" if "r \<in> set (d_proofs db)" "pr_operation_id r = i" for r
    using res that by (auto simp: reserved_def proofs_of_def)
  have up: "update_rows (\<lambda>r. pr_operation_id r = i) (set_state Spent) (d_proofs db)
      = update_rows (\<lambda>r. pr_y r \<in> set (map pr_y (proofs_of i db))) (set_state Spent) (d_proofs db)"
    by (rule update_op_rows [OF wf, symmetric])
  have "spent_sum (d_proofs ?c) k = spent_sum (d_proofs db) k +
      sum_list (map row_amount (filter (\<lambda>r. pr_y r \<in> set (map pr_y (proofs_of i db)) \<and> row_keyset r = k) (d_proofs db)))"
    unfolding completed_def using proofs_of_ys [OF wf, of _ i] op
    by (simp add: up spent_sum_update del: set_map)
  also have "filter (\<lambda>r. pr_y r \<in> set (map pr_y (proofs_of i db)) \<and> row_keyset r = k) (d_proofs db)
      = filter (\<lambda>r. row_keyset r = k) (proofs_of i db)"
    unfolding proofs_of_def [of i db] filter_filter
    by (rule filter_cong) (use proofs_of_ys [OF wf, of _ i] in \<open>auto simp: proofs_of_def\<close>)
  finally show "ka_total_redeemed (amounts_of ?c k) = spent_sum (d_proofs ?c) k"
    using ok by (simp add: completed_amounts ledger_ok_def)
  have dist: "distinct (map sr_blinded_message (d_sigs db))" using wf by (simp add: db_wf_def)
  have dz: "distinct (map fst zs)" unfolding zs sigs_of_def by (rule distinct_map_filter [OF dist])
  have key: "sig_of_op i r" if "r \<in> set (d_sigs db)" "sr_blinded_message r \<in> fst ` set zs" for r
    using sigs_of_keys [OF wf that(1), of i] that(2) zs by (metis list.set_map)
  have "sr_keyset_id r = bs_keyset_id s" if r: "r \<in> set (d_sigs db)" "(sr_blinded_message r, s) \<in> set zs" for r s
  proof -
    from r(2) obtain n where n: "n < length zs" "zs ! n = (sr_blinded_message r, s)" by (auto simp: in_set_conv_nth)
    have len: "length zs = length (sigs_of i db)" using zs by (metis length_map)
    have "sr_blinded_message (sigs_of i db ! n) = sr_blinded_message r"
      using zs n len by (metis fst_conv nth_map)
    moreover have "sigs_of i db ! n \<in> set (d_sigs db)" using n len nth_mem [of n "sigs_of i db"] by (auto simp: sigs_of_def)
    ultimately have "sigs_of i db ! n = r" using distinct_key_unique [OF dist] r(1) by blast
    with ks n len show ?thesis by (metis nth_map snd_conv)
  qed
  moreover have "\<forall>r \<in> set (d_sigs db). sr_blinded_message r \<in> fst ` set zs \<longrightarrow> sr_c r = None"
    using key res by (auto simp: reserved_def sigs_of_def)
  ultimately have "signed_sum (signed_rows now None zs (d_sigs db)) k = signed_sum (d_sigs db) k + sigs_sum (map snd zs) k"
    by (intro signed_sum_signed_rows [OF dz dist]) auto
  moreover have "signed_rows now None zs (d_sigs db) = d_sigs ?c"
  proof -
    have "fst ` set zs = sr_blinded_message ` set (sigs_of i db)" using zs by (metis list.set_map)
    then show ?thesis by (subst signed_rows_present) (auto simp: completed_def sigs_of_def)
  qed
  ultimately show "ka_total_issued (amounts_of ?c k) = signed_sum (d_sigs ?c) k"
    using ok by (simp add: completed_amounts ledger_ok_def)
qed

lemma ledger_ok_drop:
  assumes "reserved i db" and "ledger_ok db" and "db' \<in> {db, drop_rows i db, drop_operation i db}"
  shows "ledger_ok db'" "amounts_of db' k = amounts_of db k"
proof -
  have "spent_sum (filter (\<lambda>r. pr_operation_id r \<noteq> i) (d_proofs db)) k = spent_sum (d_proofs db) k" for k
    using assms(1) by (intro spent_sum_filter) (auto simp: reserved_def proofs_of_def)
  moreover have "signed_sum (filter (\<lambda>r. \<not> sig_of_op i r) (d_sigs db)) k = signed_sum (d_sigs db) k" for k
    using assms(1) by (intro signed_sum_filter) (auto simp: reserved_def sigs_of_def)
  ultimately show "ledger_ok db'" "amounts_of db' k = amounts_of db k"
    using assms(2,3) by (auto simp: ledger_ok_def amounts_of_def drop_operation_def drop_rows_def delete_saga_def)
qed

section \<open>Conservation of value\<close>

definition mint_ok :: "mint \<Rightarrow> bool" where
  "mint_ok M \<longleftrightarrow> distinct (map mk_id (m_keysets M)) \<and> m_max_inputs M < 2 ^ 64 \<and>
     (\<forall>k \<in> set (m_keysets M). unat (mk_input_fee_ppk k) * m_max_inputs M + 999 < 1000 * 2 ^ 63)"

definition unit_keysets :: "mint \<Rightarrow> currency_unit \<Rightarrow> keyset_id list" where
  "unit_keysets M u = map mk_id (filter (\<lambda>k. mk_unit k = u) (m_keysets M))"

text \<open>What the keysets of a unit have issued and kept as fees, less what was redeemed.\<close>

definition unit_balance :: "mint \<Rightarrow> currency_unit \<Rightarrow> mint_db \<Rightarrow> int" where
  "unit_balance M u db = sum_list (map (\<lambda>k. ka_total_issued (amounts_of db k) + ka_fee_collected (amounts_of db k)
     - ka_total_redeemed (amounts_of db k)) (unit_keysets M u))"

lemma has_unit_iff:
  assumes "distinct (map mk_id (m_keysets M))"
  shows "has_unit M u k \<longleftrightarrow> k \<in> set (unit_keysets M u)"
proof
  assume "has_unit M u k"
  then obtain i where "List.find (\<lambda>j. mk_id j = k) (m_keysets M) = Some i" "mk_unit i = u"
    by (auto simp: has_unit_def get_keyset_info_def)
  then show "k \<in> set (unit_keysets M u)" using find_SomeD by (fastforce simp: unit_keysets_def)
next
  assume "k \<in> set (unit_keysets M u)"
  then obtain i where "i \<in> set (m_keysets M)" "mk_id i = k" "mk_unit i = u" by (auto simp: unit_keysets_def)
  with find_key [OF assms, of i] show "has_unit M u k" by (auto simp: has_unit_def get_keyset_info_def)
qed

lemma has_unit_unique: "has_unit M u k \<Longrightarrow> has_unit M v k \<Longrightarrow> u = v"
  by (auto simp: has_unit_def)

lemma sum_by_key:
  fixes g :: "'a \<Rightarrow> int"
  assumes "distinct ks"
  shows "sum_list (map (\<lambda>k. sum_list (map g (filter (\<lambda>x. f x = k) xs))) ks) = sum_list (map g (filter (\<lambda>x. f x \<in> set ks) xs))"
proof (induction xs)
  case (Cons x xs)
  have "sum_list (map (\<lambda>k. sum_list (map g (filter (\<lambda>y. f y = k) (x # xs)))) ks)
      = sum_list (map (\<lambda>k. (if k = f x then g x else 0) + sum_list (map g (filter (\<lambda>y. f y = k) xs))) ks)"
    by (rule arg_cong [where f = sum_list]) auto
  also have "\<dots> = sum_list (map (\<lambda>k. if k = f x then g x else 0) ks) + sum_list (map g (filter (\<lambda>y. f y \<in> set ks) xs))"
    using Cons by (simp add: sum_list_addf)
  also have "sum_list (map (\<lambda>k. if k = f x then g x else 0) ks) = (if f x \<in> set ks then g x else 0)"
    using assms by (simp add: sum_list_distinct_conv_sum_set sum.delta')
  finally show ?case by simp
qed simp

lemma unit_filter:
  assumes "distinct (map mk_id (m_keysets M))" and "\<forall>x \<in> set xs. has_unit M v (f x)"
  shows "filter (\<lambda>x. f x \<in> set (unit_keysets M u)) xs = (if u = v then xs else [])"
  using assms(2) has_unit_unique unfolding has_unit_iff [OF assms(1), symmetric]
  by (auto simp: filter_id_conv filter_empty_conv)

lemma completed_balance:
  assumes ids: "distinct (map mk_id (m_keysets M))" and bal: "balanced M (proofs_of i db) ms fees"
    and zs: "list_all2 (\<lambda>m s. bs_amount s = bm_amount m \<and> bs_keyset_id s = bm_keyset_id m) ms (map snd zs)"
  shows "unit_balance M u (completed i now d fees zs db) = unit_balance M u db"
proof -
  let ?ks = "unit_keysets M u"
  from bal obtain v where v: "\<forall>r \<in> set (proofs_of i db). has_unit M v (row_keyset r)"
      "\<forall>m \<in> set ms. has_unit M v (bm_keyset_id m)" "\<forall>e \<in> set fees. has_unit M v (fst e)"
    and lim: "\<forall>m \<in> set ms. uint (bm_amount m) < 2 ^ 63" "\<forall>e \<in> set fees. uint (snd e) < 2 ^ 63"
    and eq: "sum_list (map row_amount (proofs_of i db)) =
      sum_list (map (\<lambda>m. uint (bm_amount m)) ms) + sum_list (map (\<lambda>e. uint (snd e)) fees)"
    by (auto simp: balanced_def)
  have dist: "distinct ?ks" using ids unfolding unit_keysets_def by (rule distinct_map_filter)
  have sigs: "\<forall>s \<in> set (map snd zs). has_unit M v (bs_keyset_id s)"
    using list_all2_right [OF zs] v(2) by metis
  have amounts: "sum_list (map (\<lambda>s. as_i64 (bs_amount s)) (map snd zs)) = sum_list (map (\<lambda>m. uint (bm_amount m)) ms)"
    using zs lim(1) by (induction rule: list_all2_induct) (auto simp: as_i64_id)
  have fee: "sum_list (map (\<lambda>e. as_i64 (snd e)) fees) = sum_list (map (\<lambda>e. uint (snd e)) fees)"
    using lim(2) by (induction fees) (auto simp: as_i64_id)
  let ?x = "\<lambda>k. sigs_sum (map snd zs) k" and ?r = "\<lambda>k. sum_list (map row_amount (filter (\<lambda>r. row_keyset r = k) (proofs_of i db)))"
    and ?f = "\<lambda>k. sum_list (map (\<lambda>e. as_i64 (snd e)) (filter (\<lambda>e. fst e = k) fees))"
  have "unit_balance M u (completed i now d fees zs db) =
      unit_balance M u db + (sum_list (map ?x ?ks) + sum_list (map ?f ?ks) - sum_list (map ?r ?ks))"
    unfolding unit_balance_def completed_amounts sum_list_addf [symmetric] sum_list_subtractf [symmetric]
    by (rule arg_cong [where f = sum_list]) (simp add: algebra_simps)
  moreover have "sum_list (map ?x ?ks) + sum_list (map ?f ?ks) - sum_list (map ?r ?ks) = 0"
    unfolding sigs_sum_def sum_by_key [OF dist] unit_filter [OF ids v(1)] unit_filter [OF ids v(3)] unit_filter [OF ids sigs]
    using eq amounts fee by simp
  ultimately show ?thesis by simp
qed

section \<open>What compensation and recovery may take away\<close>

text \<open>Rows may go, but no spent proof and no given signature.\<close>

definition shrinks :: "mint_db \<Rightarrow> mint_db \<Rightarrow> bool" where
  "shrinks db db' \<longleftrightarrow> (\<exists>P Q R. (\<forall>r \<in> set (d_proofs db). pr_state r = Spent \<longrightarrow> P r) \<and>
     (\<forall>r \<in> set (d_sigs db). sr_c r \<noteq> None \<longrightarrow> Q r) \<and>
     db' = db\<lparr> d_proofs := filter P (d_proofs db), d_sigs := filter Q (d_sigs db), d_sagas := filter R (d_sagas db) \<rparr>)"

lemma shrinksI:
  assumes "\<And>r. r \<in> set (d_proofs db) \<Longrightarrow> pr_state r = Spent \<Longrightarrow> P r"
    and "\<And>r. r \<in> set (d_sigs db) \<Longrightarrow> sr_c r \<noteq> None \<Longrightarrow> Q r"
    and "db' = db\<lparr> d_proofs := filter P (d_proofs db), d_sigs := filter Q (d_sigs db), d_sagas := filter R (d_sagas db) \<rparr>"
  shows "shrinks db db'"
  using assms unfolding shrinks_def by blast

lemma shrinks_refl: "shrinks db db"
  by (rule shrinksI [where P = "\<lambda>_. True" and Q = "\<lambda>_. True" and R = "\<lambda>_. True"]) auto

lemma shrinks_trans:
  assumes "shrinks db db'" and "shrinks db' db''"
  shows "shrinks db db''"
proof -
  from assms(1) obtain P Q R where 1: "\<forall>r \<in> set (d_proofs db). pr_state r = Spent \<longrightarrow> P r"
    "\<forall>r \<in> set (d_sigs db). sr_c r \<noteq> None \<longrightarrow> Q r"
    "db' = db\<lparr> d_proofs := filter P (d_proofs db), d_sigs := filter Q (d_sigs db), d_sagas := filter R (d_sagas db) \<rparr>"
    unfolding shrinks_def by blast
  from assms(2) obtain P' Q' R' where 2: "\<forall>r \<in> set (d_proofs db'). pr_state r = Spent \<longrightarrow> P' r"
    "\<forall>r \<in> set (d_sigs db'). sr_c r \<noteq> None \<longrightarrow> Q' r"
    "db'' = db'\<lparr> d_proofs := filter P' (d_proofs db'), d_sigs := filter Q' (d_sigs db'), d_sagas := filter R' (d_sagas db') \<rparr>"
    unfolding shrinks_def by blast
  show ?thesis
    by (rule shrinksI [where P = "\<lambda>r. P r \<and> P' r" and Q = "\<lambda>r. Q r \<and> Q' r" and R = "\<lambda>r. R r \<and> R' r"])
       (use 1 2 in \<open>auto simp: conj_commute\<close>)
qed

lemma shrinks_wf: "shrinks db db' \<Longrightarrow> db_wf X db \<Longrightarrow> db_wf X db'"
  by (auto simp: shrinks_def db_wf_def distinct_map_filter)

lemma shrinks_ledger:
  assumes "shrinks db db'"
  shows "amounts_of db' k = amounts_of db k" "ledger_ok db \<Longrightarrow> ledger_ok db'"
proof -
  from assms obtain P Q R where 1: "\<forall>r \<in> set (d_proofs db). pr_state r = Spent \<longrightarrow> P r"
    "\<forall>r \<in> set (d_sigs db). sr_c r \<noteq> None \<longrightarrow> Q r"
    and db': "db' = db\<lparr> d_proofs := filter P (d_proofs db), d_sigs := filter Q (d_sigs db), d_sagas := filter R (d_sagas db) \<rparr>"
    unfolding shrinks_def by blast
  show "amounts_of db' k = amounts_of db k" by (simp add: db' amounts_of_def)
  have "spent_sum (filter P (d_proofs db)) k = spent_sum (d_proofs db) k" for k
    using 1(1) by (intro spent_sum_filter) auto
  moreover have "signed_sum (filter Q (d_sigs db)) k = signed_sum (d_sigs db) k" for k
    using 1(2) by (intro signed_sum_filter) auto
  ultimately show "ledger_ok db \<Longrightarrow> ledger_ok db'" by (simp add: db' ledger_ok_def amounts_of_def)
qed

lemma filter_True: "filter (\<lambda>_. True) xs = xs"
  by simp

lemma delete_blinded_messages_shrinks: "shrinks db (delete_blinded_messages bs db)"
  by (rule shrinksI [where P = "\<lambda>_. True" and R = "\<lambda>_. True"
        and Q = "\<lambda>r. \<not> (sr_blinded_message r \<in> set bs \<and> sr_c r = None)"]) (auto simp: delete_blinded_messages_def)

lemma delete_saga_shrinks: "shrinks db (delete_saga i db)"
  by (rule shrinksI [where P = "\<lambda>_. True" and Q = "\<lambda>_. True" and R = "\<lambda>s. sg_operation_id s \<noteq> i"]) (auto simp: delete_saga_def)

lemma remove_proofs_shrinks: "remove_proofs ys db = Inr db' \<Longrightarrow> shrinks db db'"
proof (cases "ys = []")
  case False
  assume "remove_proofs ys db = Inr db'"
  with False have "db' = db\<lparr> d_proofs := filter (\<lambda>r. \<not> (pr_y r \<in> set ys \<and> pr_state r \<noteq> Spent)) (d_proofs db) \<rparr>"
    by (auto simp: remove_proofs_def Let_def split: if_splits)
  then show ?thesis
    by (intro shrinksI [where P = "\<lambda>r. \<not> (pr_y r \<in> set ys \<and> pr_state r \<noteq> Spent)" and Q = "\<lambda>_. True" and R = "\<lambda>_. True"]) auto
qed (simp add: remove_proofs_def shrinks_refl)

lemma execute_shrinks: "remove_swap_setup_execute f c db = Inr db' \<Longrightarrow> shrinks db db'"
  unfolding remove_swap_setup_execute_def
  by (auto simp: res_simps faulty_Ok Let_def split: if_splits option.splits
      intro: shrinks_refl shrinks_trans delete_blinded_messages_shrinks delete_saga_shrinks dest!: remove_proofs_shrinks)
     (meson delete_blinded_messages_shrinks delete_saga_shrinks shrinks_trans)

lemma compensate_all_shrinks: "shrinks db (compensate_all f cs db)"
proof (induction f cs db rule: compensate_all.induct)
  case (2 f c cs db)
  then show ?case
    by (cases "remove_swap_setup_execute f c db") (auto dest!: execute_shrinks intro: shrinks_trans)
qed (simp add: shrinks_refl)

lemma recover_sagas_shrinks: "shrinks db (snd (recover_sagas fs ss db))"
proof (induction fs ss db rule: recover_sagas.induct)
  case (2 fs s ss db)
  let ?i = "sg_operation_id s"
  let ?db = "case remove_swap_setup_execute (fs ?i) \<lparr> rs_blinded_secrets = get_blinded_secrets_by_operation_id ?i db,
          rs_input_ys = get_proof_ys_by_operation_id ?i db, rs_operation_id = ?i \<rparr> db of Inr db' \<Rightarrow> db' | Inl _ \<Rightarrow> db"
  have step: "shrinks db ?db"
    by (auto split: sum.split intro: shrinks_refl execute_shrinks)
  show ?case
  proof (cases "fs ?i Get_proof_ys = None \<and> fs ?i Get_blinded_secrets = None")
    case True
    then have "recover_sagas fs (s # ss) db = recover_sagas fs ss ?db" by (simp add: faulty_def Let_def)
    moreover have "shrinks ?db (snd (recover_sagas fs ss ?db))"
      using 2 [OF refl, of "get_proof_ys_by_operation_id ?i db" "get_blinded_secrets_by_operation_id ?i db"] True
      by (simp add: faulty_def)
    ultimately show ?thesis using step shrinks_trans by metis
  qed (auto simp: faulty_def Let_def shrinks_refl split: option.split)
qed (simp add: shrinks_refl)

lemma recover_shrinks: "recover_from_incomplete_sagas flt fs db = (r, db') \<Longrightarrow> shrinks db db'"
  using recover_sagas_shrinks [of db fs "get_incomplete_sagas Op_Swap db"]
  by (auto simp: recover_from_incomplete_sagas_def faulty_def shrinks_refl split: option.splits)

section \<open>Setting up a saga\<close>

lemma reserve_ledger:
  "amounts_of (reserve now q d ys ps ms s db) k = amounts_of db k" "ledger_ok db \<Longrightarrow> ledger_ok (reserve now q d ys ps ms s db)"
proof -
  have "spent_sum (map2 (pending_row now q d) ys ps) k = 0" for k
    by (rule spent_sum_unspent) (use in_map2_pending(2) in fastforce)
  moreover have "signed_sum (map (new_sig_row now q d) ms) k = 0" for k
    by (rule signed_sum_unsigned) auto
  ultimately show "amounts_of (reserve now q d ys ps ms s db) k = amounts_of db k"
    "ledger_ok db \<Longrightarrow> ledger_ok (reserve now q d ys ps ms s db)"
    by (simp_all add: ledger_ok_def reserve_def amounts_of_def spent_sum_append signed_sum_append)
qed

lemma sum_row_amounts:
  assumes "length ys = length ps"
  shows "sum_list (map row_amount (map2 (pending_row now q d) ys ps)) = int (usum (map p_amount ps))"
  using assms by (induction ys ps rule: list_induct2) (simp_all add: row_amount_def stored_proof_def)

lemma sum_uint_usum: "sum_list (map (\<lambda>x. uint (f x)) xs) = int (usum (map f xs))"
  by (induction xs) (simp_all add:)

lemma keyset_fee_bound:
  assumes "mint_ok M" and "length ps \<le> m_max_inputs M"
  shows "input_fee M ps < 2 ^ 63"
proof (cases "m_max_inputs M = 0")
  case True
  with assms(2) show ?thesis by (simp add: input_fee_def)
next
  case False
  define b where "b = (1000 * 2 ^ 63 - 1000) div m_max_inputs M"
  have "keyset_fee M k \<le> b" for k
  proof (cases "get_keyset_info M k")
    case (Some i)
    then have "i \<in> set (m_keysets M)" by (auto simp: get_keyset_info_def dest: find_SomeD)
    then have "unat (mk_input_fee_ppk i) * m_max_inputs M + 999 < 1000 * 2 ^ 63" using assms(1) by (simp add: mint_ok_def)
    then have "unat (mk_input_fee_ppk i) * m_max_inputs M \<le> 1000 * 2 ^ 63 - 1000" by linarith
    then have "unat (mk_input_fee_ppk i) \<le> b" unfolding b_def using False by (simp add: less_eq_div_iff_mult_less_eq)
    with Some show ?thesis by (simp add: keyset_fee_def)
  qed (simp add: keyset_fee_def)
  then have "sum_list (map (\<lambda>p. keyset_fee M (p_keyset_id p)) ps) \<le> length ps * b"
    by (induction ps) (auto simp: add_mono)
  also have "\<dots> \<le> m_max_inputs M * b" using assms(2) by simp
  also have "\<dots> \<le> 1000 * 2 ^ 63 - 1000" unfolding b_def by (rule times_div_less_eq_dividend)
  finally show ?thesis by (simp add: input_fee_def)
qed

lemma usum_member: "x \<in> set xs \<Longrightarrow> unat x \<le> usum xs"
  by (induction xs) (auto simp:)

lemma setup_swap_holds:
  assumes ok: "mint_ok M" and wf: "db_wf (m_ext M) db" and iv: "verify_inputs M ps = Inr iv" and new: "unused i db"
    and set: "setup_swap M f now i ps ms q iv db = Inr (s, db')"
  shows "swap_holds M s db' \<and> ss_operation_id s = i \<and> db_wf (m_ext M) db' \<and>
    (\<forall>j. j \<noteq> i \<longrightarrow> proofs_of j db' = proofs_of j db \<and> sigs_of j db' = sigs_of j db)"
proof -
  from setup_swap_Ok [OF set] obtain ov fb ys where ov: "verify_outputs M ms = Inr ov"
    and bal: "verify_transaction_balanced M iv ov ps = Inr ()" and fb: "get_proofs_fee M ps = Inr fb"
    and r: "reservable (m_ext M) ys ps ms db" and s: "s = swap_saga_of i ys ms (swap_operation i iv ov fb) fb"
    and db': "db' = reserve now q (swap_operation i iv ov fb) ys ps ms (saga_new_swap now i SwapSetupComplete) db" by blast
  let ?d = "swap_operation i iv ov fb"
  have len: "length ys = length ps" by (rule reservable_length [OF r])
  have small: "length ps < 2 ^ 64" using verify_inputs_Ok(2) [OF iv] ok by (simp add: mint_ok_def)
  note fee = get_proofs_fee_Ok [OF fb small] and bal = verify_transaction_balanced_Ok [OF bal small]
  have P: "proofs_of i db' = map2 (pending_row now q ?d) ys ps" and S: "sigs_of i db' = map (new_sig_row now q ?d) ms"
    using new by (simp_all add: db' reserve_tables unused_def)
  have keys: "map pr_y (proofs_of i db') = ys" unfolding P by (rule map2_keys [OF len]) simp
  have rows: "has_unit M (ta_unit (v_amount iv)) (row_keyset x)" if "x \<in> set (proofs_of i db')" for x
  proof -
    from in_map2_pending(4) [OF that [unfolded P]] obtain p where "p \<in> set ps" "pr_proof x = stored_proof p" by blast
    then show ?thesis using verify_inputs_Ok(4) [OF iv] by (simp add: row_keyset_def stored_proof_def)
  qed
  have fees: "has_unit M (ta_unit (v_amount iv)) (fst e) \<and> uint (snd e) < 2 ^ 63" if "e \<in> set (fb_per_keyset fb)" for e
  proof
    from that fee(3) obtain p where "p \<in> set ps" "fst e = p_keyset_id p" by blast
    then show "has_unit M (ta_unit (v_amount iv)) (fst e)" using verify_inputs_Ok(4) [OF iv] by simp
    have "unat (snd e) \<le> usum (map snd (fb_per_keyset fb))" by (rule usum_member) (use that in simp)
    also note fee(2)
    also have "input_fee M ps < 2 ^ 63" by (rule keyset_fee_bound [OF ok verify_inputs_Ok(2) [OF iv]])
    finally have "unat (snd e) < 2 ^ 63" .
    then have "int (unat (snd e)) < int (2 ^ 63)" by (rule of_nat_less_iff [THEN iffD2])
    then show "uint (snd e) < 2 ^ 63" by simp
  qed
  have "sum_list (map row_amount (proofs_of i db')) =
      sum_list (map (\<lambda>m. uint (bm_amount m)) ms) + sum_list (map (\<lambda>e. uint (snd e)) (fb_per_keyset fb))"
    unfolding P sum_row_amounts [OF len] sum_uint_usum
    using verify_inputs_Ok(6) [OF iv] verify_outputs_Ok(5) [OF ov] bal fee(2) by simp
  then have "balanced M (proofs_of i db') ms (fb_per_keyset fb)"
    using rows fees verify_outputs_Ok(4) [OF ov] bal r unfolding balanced_def reservable_def by metis
  moreover have "reserved i db'" using reserve_reserved [of ?d db now q ys ps ms] new by (simp add: db')
  moreover have "db_wf (m_ext M) db'"
    unfolding db' by (rule reserve_wf [OF wf r]) (use new in \<open>simp add: unused_def saga_new_swap_def\<close>)
  moreover have "\<forall>j. j \<noteq> i \<longrightarrow> proofs_of j db' = proofs_of j db \<and> sigs_of j db' = sigs_of j db"
    by (simp add: db' reserve_frame)
  ultimately show ?thesis
    using verify_outputs_Ok(3) [OF ov] keys by (simp add: swap_holds_def s swap_saga_of_def S comp_def)
qed

lemma setup_swap_ledger:
  assumes "setup_swap M f now i ps ms q iv db = Inr (s, db')"
  shows "amounts_of db' k = amounts_of db k" "ledger_ok db \<Longrightarrow> ledger_ok db'"
  using setup_swap_Ok [OF assms] by (auto simp: reserve_ledger)

end
