(* ===== verification/Swap_System.thy ===== *)
theory Swap_System
  imports Swap_Ledger
begin

text \<open>
  Swaps under way together: the sagas of concurrent requests act on one database, in any order and
  with any faults, the process may crash between any two transactions and recover. The results are
  the invariants of that system: the ledger of every keyset equals the sums over the proofs spent
  and the signatures given, value is conserved per unit, and every run refines a specification in
  which a swap is one atomic step that spends unspent inputs and signs fresh outputs.
\<close>

section \<open>The system of concurrent swaps\<close>

text \<open>
  The database with the sagas that have been set up and those that are signed. A label is the
  outcome of a request that answers with signatures: the inputs it spent and the outputs it signed.
\<close>

type_synonym swap_sys = "mint_db \<times> setup_complete swap_saga list \<times> signed_swap swap_saga list"

type_synonym swap_event = "public_key list \<times> (public_key \<times> public_key) list"

definition swap_event_of :: "signed_swap swap_saga \<Rightarrow> swap_event" where
  "swap_event_of t = (sc_ys (ss_state_data t),
     zip (map bm_blinded_secret (sc_blinded_messages (ss_state_data t))) (map bs_c (sg_signatures (ss_state_data t))))"

inductive swap_step :: "mint \<Rightarrow> swap_sys \<Rightarrow> swap_event option \<Rightarrow> swap_sys \<Rightarrow> bool" for M where
  begin_swap: "verify_inputs M ps = Inr iv \<Longrightarrow> unused i db \<Longrightarrow> setup_swap M f now i ps ms None iv db = Inr (s, db') \<Longrightarrow>
    swap_step M (db, A, B) None (db', s # A, B)"
| sign: "length nonces = length (sc_blinded_messages (ss_state_data s)) \<Longrightarrow> sign_outputs M fc nonces s db = (Inr t, db') \<Longrightarrow>
    swap_step M (db, A1 @ s # A2, B) None (db', A1 @ A2, t # B)"
| sign_error: "sign_outputs M fc nonces s db = (Inl e, db') \<Longrightarrow> swap_step M (db, A1 @ s # A2, B) None (db', A1 @ A2, B)"
| answer: "finalize M f fc now t db = (Inr sigs, db') \<Longrightarrow>
    swap_step M (db, A, B1 @ t # B2) (Some (swap_event_of t)) (db', A, B1 @ B2)"
| finalize_error: "finalize M f fc now t db = (Inl e, db') \<Longrightarrow> swap_step M (db, A, B1 @ t # B2) None (db', A, B1 @ B2)"
| crash: "swap_step M (db, A, B) None (db, [], [])"
| recover: "recover_from_incomplete_sagas flt fs db = (r, db') \<Longrightarrow> swap_step M (db, [], []) None (db', [], [])"

inductive swap_run :: "mint \<Rightarrow> swap_sys \<Rightarrow> swap_event list \<Rightarrow> swap_sys \<Rightarrow> bool" for M where
  start: "swap_run M c [] c"
| more: "swap_run M c es c' \<Longrightarrow> swap_step M c' l c'' \<Longrightarrow> swap_run M c (es @ (case l of None \<Rightarrow> [] | Some e \<Rightarrow> [e])) c''"

definition signs :: "signed_swap swap_saga \<Rightarrow> bool" where
  "signs t \<longleftrightarrow> list_all2 (\<lambda>m s. bs_amount s = bm_amount m \<and> bs_keyset_id s = bm_keyset_id m)
     (sc_blinded_messages (ss_state_data t)) (sg_signatures (ss_state_data t))"

fun sys_ok :: "mint \<Rightarrow> swap_sys \<Rightarrow> bool" where
  "sys_ok M (db, A, B) \<longleftrightarrow> db_wf (m_ext M) db \<and> ledger_ok db \<and> (\<forall>s \<in> set A. swap_holds M s db) \<and>
     (\<forall>t \<in> set B. swap_holds M t db \<and> signs t) \<and> distinct (map ss_operation_id A @ map ss_operation_id B)"

text \<open>The specification: a swap is one step.\<close>

record spec_state =
  sp_spent :: "public_key set"
  sp_signed :: "(public_key \<times> public_key) set"

inductive atomic_swap :: "swap_event \<Rightarrow> spec_state \<Rightarrow> spec_state \<Rightarrow> bool" where
  "distinct ys \<Longrightarrow> set ys \<inter> sp_spent S = {} \<Longrightarrow> distinct (map fst outs) \<Longrightarrow> fst ` set outs \<inter> fst ` sp_signed S = {} \<Longrightarrow>
   atomic_swap (ys, outs) S (S\<lparr> sp_spent := sp_spent S \<union> set ys, sp_signed := sp_signed S \<union> set outs \<rparr>)"

inductive_simps atomic_swap_simps: "atomic_swap (ys, outs) S S'"

inductive spec_run :: "swap_event list \<Rightarrow> spec_state \<Rightarrow> spec_state \<Rightarrow> bool" where
  "spec_run [] S S"
| "spec_run es S S' \<Longrightarrow> atomic_swap e S' S'' \<Longrightarrow> spec_run (es @ [e]) S S''"

definition spec_of :: "mint_db \<Rightarrow> spec_state" where
  "spec_of db = \<lparr> sp_spent = pr_y ` set (filter (\<lambda>r. pr_state r = Spent) (d_proofs db)),
     sp_signed = (\<lambda>r. (sr_blinded_message r, the (sr_c r))) ` set (filter (\<lambda>r. sr_c r \<noteq> None) (d_sigs db)) \<rparr>"

subsection \<open>The specification state of each effect\<close>

lemma spec_of_shrinks:
  assumes "shrinks db db'" shows "spec_of db' = spec_of db"
proof -
  from assms obtain P Q R where "\<forall>r \<in> set (d_proofs db). pr_state r = Spent \<longrightarrow> P r"
    "\<forall>r \<in> set (d_sigs db). sr_c r \<noteq> None \<longrightarrow> Q r"
    "db' = db\<lparr> d_proofs := filter P (d_proofs db), d_sigs := filter Q (d_sigs db), d_sagas := filter R (d_sagas db) \<rparr>"
    unfolding shrinks_def by blast
  then have "filter (\<lambda>r. pr_state r = Spent) (d_proofs db') = filter (\<lambda>r. pr_state r = Spent) (d_proofs db)"
    "filter (\<lambda>r. sr_c r \<noteq> None) (d_sigs db') = filter (\<lambda>r. sr_c r \<noteq> None) (d_sigs db)"
    by (auto intro: filter_cong)
  then show ?thesis by (simp add: spec_of_def)
qed

lemma spec_of_reserve: "spec_of (reserve now q d ys ps ms s db) = spec_of db"
proof -
  have "filter (\<lambda>r. pr_state r = Spent) (map2 (pending_row now q d) ys ps) = []"
    by (rule filter_none) (use in_map2_pending(2) in fastforce)
  then show ?thesis by (simp add: spec_of_def reserve_def)
qed

lemma spent_rows_update:
  "map pr_y (filter (\<lambda>r. pr_state r = Spent) (update_rows P (set_state Spent) t)) = map pr_y (filter (\<lambda>r. P r \<or> pr_state r = Spent) t)"
  by (induction t) (auto simp: update_rows_def)

lemma in_sp_signed: "r \<in> set (d_sigs db) \<Longrightarrow> sr_c r = Some c \<Longrightarrow> (sr_blinded_message r, c) \<in> sp_signed (spec_of db)"
  by (force simp: spec_of_def)

lemma spec_of_completed:
  assumes wf: "db_wf X db" and res: "reserved i db" and zs: "map fst zs = map sr_blinded_message (sigs_of i db)"
  shows "atomic_swap (map pr_y (proofs_of i db), map (\<lambda>z. (fst z, bs_c (snd z))) zs) (spec_of db) (spec_of (completed i now d fees zs db))"
proof -
  let ?c = "completed i now d fees zs db" and ?ys = "map pr_y (proofs_of i db)" and ?outs = "map (\<lambda>z. (fst z, bs_c (snd z))) zs"
  have dist: "distinct (map pr_y (d_proofs db))" "distinct (map sr_blinded_message (d_sigs db))" using wf by (simp_all add: db_wf_def)
  have dz: "distinct (map fst zs)" unfolding zs sigs_of_def by (rule distinct_map_filter [OF dist(2)])
  have keys: "sr_blinded_message r \<in> fst ` set zs \<longleftrightarrow> sig_of_op i r" if "r \<in> set (d_sigs db)" for r
    using sigs_of_keys [OF wf that, of i] zs by (metis list.set_map)
  have "sp_spent (spec_of ?c) = set (map pr_y (filter (\<lambda>r. pr_operation_id r = i \<or> pr_state r = Spent) (d_proofs db)))"
    unfolding spent_rows_update [symmetric] by (simp add: spec_of_def completed_def)
  then have "sp_spent (spec_of ?c) = sp_spent (spec_of db) \<union> set ?ys" by (auto simp: spec_of_def proofs_of_def)
  moreover have "sp_signed (spec_of ?c) = sp_signed (spec_of db) \<union> set ?outs"
  proof (intro equalityI subsetI)
    fix x assume "x \<in> sp_signed (spec_of ?c)"
    then obtain r where r: "r \<in> set (d_sigs db)" "sr_c (sign_pending now zs r) \<noteq> None"
      "x = (sr_blinded_message r, the (sr_c (sign_pending now zs r)))" by (auto simp: spec_of_def completed_def)
    then show "x \<in> sp_signed (spec_of db) \<union> set ?outs"
      by (cases "map_of zs (sr_blinded_message r)") (force simp: sign_pending_def spec_of_def dest: map_of_SomeD)+
  next
    fix x assume "x \<in> sp_signed (spec_of db) \<union> set ?outs"
    then consider r where "r \<in> set (d_sigs db)" "sr_c r \<noteq> None" "x = (sr_blinded_message r, the (sr_c r))"
      | m s where "(m, s) \<in> set zs" "x = (m, bs_c s)" by (auto simp: spec_of_def)
    then show "x \<in> sp_signed (spec_of ?c)"
    proof cases
      case 1
      then have "\<not> sig_of_op i r" using res by (auto simp: reserved_def sigs_of_def)
      then have "map_of zs (sr_blinded_message r) = None" using keys [OF 1(1)] by (simp add: map_of_eq_None_iff)
      then have "sign_pending now zs r = r" by (simp add: sign_pending_def)
      with 1 show ?thesis by (force simp: spec_of_def completed_def)
    next
      case 2
      then have "m \<in> set (map fst zs)" by force
      then obtain r where r: "r \<in> set (d_sigs db)" "sr_blinded_message r = m" unfolding zs by (auto simp: sigs_of_def)
      have "map_of zs m = Some s" using 2 dz by simp
      then have "sr_c (sign_pending now zs r) = Some (bs_c s)" using r by (simp add: sign_pending_def)
      moreover have "sign_pending now zs r \<in> set (d_sigs ?c)" using r by (simp add: completed_def)
      ultimately show ?thesis using in_sp_signed [of "sign_pending now zs r" ?c "bs_c s"] r 2 by simp
    qed
  qed
  moreover have "distinct ?ys" unfolding proofs_of_def by (rule distinct_map_filter [OF dist(1)])
  moreover have "set ?ys \<inter> sp_spent (spec_of db) = {}"
  proof -
    have False if "xa \<in> set (d_proofs db)" "pr_operation_id xa = i" "xb \<in> set (d_proofs db)" "pr_state xb = Spent" "pr_y xa = pr_y xb" for xa xb
      using distinct_key_unique [OF dist(1) that(1,3,5)] res that by (auto simp: reserved_def proofs_of_def)
    then show ?thesis by (auto simp: spec_of_def proofs_of_def)
  qed
  moreover have "distinct (map fst ?outs)" using dz by (simp add: comp_def)
  moreover have "fst ` set ?outs \<inter> fst ` sp_signed (spec_of db) = {}"
    using keys res by (force simp: spec_of_def reserved_def sigs_of_def)
  ultimately show ?thesis unfolding atomic_swap_simps by (simp add: spec_of_def)
qed

section \<open>Every step keeps the invariant and refines the specification\<close>

lemma holds_rows:
  assumes "swap_holds M s db"
  shows "reserved (ss_operation_id s) db" "sigs_of (ss_operation_id s) db \<noteq> []"
    "map pr_y (proofs_of (ss_operation_id s) db) = sc_ys (ss_state_data s)"
    "map sr_blinded_message (sigs_of (ss_operation_id s) db) = map bm_blinded_secret (sc_blinded_messages (ss_state_data s))"
    "map sr_keyset_id (sigs_of (ss_operation_id s) db) = map bm_keyset_id (sc_blinded_messages (ss_state_data s))"
    "balanced M (proofs_of (ss_operation_id s) db) (sc_blinded_messages (ss_state_data s)) (fb_per_keyset (sc_fee_breakdown (ss_state_data s)))"
  using assms by (auto simp: swap_holds_def Let_def)

text \<open>The effect of a final answer.\<close>

lemma answer_effect:
  fixes t :: "signed_swap swap_saga"
  defines "i \<equiv> ss_operation_id t"
  assumes ids: "distinct (map mk_id (m_keysets M))" and wf: "db_wf (m_ext M) db" and h: "swap_holds M t db" and sg: "signs t"
    and fin: "finalize M f fc now t db = (Inr sigs, db')" and ok: "ledger_ok db"
  shows "db_wf (m_ext M) db' \<and> ledger_ok db' \<and> (\<forall>u. unit_balance M u db' = unit_balance M u db) \<and>
    atomic_swap (swap_event_of t) (spec_of db) (spec_of db') \<and>
    (\<forall>j. j \<noteq> i \<longrightarrow> proofs_of j db' = proofs_of j db \<and> sigs_of j db' = sigs_of j db)"
proof -
  let ?d = "ss_state_data t" let ?ms = "sc_blinded_messages ?d" let ?zs = "zip (map bm_blinded_secret ?ms) sigs"
  let ?c = "completed i now (sc_operation ?d) (fb_per_keyset (sc_fee_breakdown ?d)) ?zs db"
  note rows = holds_rows [OF h, folded i_def]
  from finalize_outcome [OF wf h fin] have sigs: "sigs = sg_signatures ?d" "length ?ms = length sigs"
    and db': "db' = (if f Delete_saga = None then delete_saga i else id) ?c" by (simp_all add: i_def)
  have fst: "map fst ?zs = map sr_blinded_message (sigs_of i db)" and snd: "map snd ?zs = sigs"
    using sigs(2) rows(4) by simp_all
  from sg have L: "list_all2 (\<lambda>m s. bs_amount s = bm_amount m \<and> bs_keyset_id s = bm_keyset_id m) ?ms sigs"
    by (simp add: signs_def sigs(1))
  then have "map bs_keyset_id sigs = map bm_keyset_id ?ms" by (induction rule: list_all2_induct) auto
  then have ks: "map (\<lambda>z. bs_keyset_id (snd z)) ?zs = map sr_keyset_id (sigs_of i db)"
    using rows(5) snd by (metis (no_types, lifting) list.map_comp comp_def map_eq_conv)
  have sub: "fst ` set ?zs \<subseteq> set (map sr_blinded_message (sigs_of i db))" using fst by (metis list.set_map order_refl)
  have shr: "shrinks ?c db'" by (simp add: db' shrinks_refl delete_saga_shrinks)
  have ev: "swap_event_of t = (map pr_y (proofs_of i db), map (\<lambda>z. (fst z, bs_c (snd z))) ?zs)"
    using rows(3) sigs by (simp add: swap_event_of_def map_zip_map2 zip_map2 case_prod_beta')
  have c1: "db_wf (m_ext M) ?c" by (rule completed_frame(3) [OF wf sub])
  have c2: "ledger_ok ?c" by (rule ledger_ok_completed [OF wf rows(1) ok fst ks])
  have c3: "unit_balance M u ?c = unit_balance M u db" for u
    by (rule completed_balance [OF ids rows(6)]) (use L snd in simp)
  have c4: "unit_balance M u db' = unit_balance M u ?c" for u
    by (simp add: unit_balance_def shrinks_ledger(1) [OF shr])
  have c5: "proofs_of j db' = proofs_of j db \<and> sigs_of j db' = sigs_of j db" if "j \<noteq> i" for j
    using completed_frame(1,2) [OF wf sub that] by (simp add: db' drop_tables)
  have c6: "atomic_swap (swap_event_of t) (spec_of db) (spec_of db')"
    unfolding ev spec_of_shrinks [OF shr] by (rule spec_of_completed [OF wf rows(1) fst])
  show ?thesis using shrinks_wf [OF shr c1] shrinks_ledger(2) [OF shr c2] c3 c4 c5 c6 by simp
qed

lemma error_effect:
  assumes "db' \<in> {db, drop_rows i db, drop_operation i db}" and "reserved i db"
  shows "shrinks db db'"
proof -
  have "shrinks db (drop_rows i db)"
    by (rule shrinksI [where P = "\<lambda>r. pr_operation_id r \<noteq> i" and Q = "\<lambda>r. \<not> sig_of_op i r" and R = "\<lambda>_. True"])
       (use assms(2) in \<open>auto simp: drop_rows_def reserved_def proofs_of_def sigs_of_def\<close>)
  then show ?thesis using assms(1) by (auto simp: shrinks_refl drop_operation_def intro: shrinks_trans delete_saga_shrinks)
qed

lemma quiet_effect:
  assumes "shrinks db db'" and "sys_ok M (db, A, B)"
  shows "db_wf (m_ext M) db'" "ledger_ok db'" "spec_of db' = spec_of db" "unit_balance M u db' = unit_balance M u db"
  using assms by (auto simp: shrinks_wf shrinks_ledger spec_of_shrinks unit_balance_def)

lemma sys_ok_frame:
  assumes ok: "sys_ok M (db, A, B)" and wf: "db_wf (m_ext M) db'" "ledger_ok db'"
    and fr: "\<And>j. j \<noteq> i \<Longrightarrow> proofs_of j db' = proofs_of j db \<and> sigs_of j db' = sigs_of j db"
    and sub: "set A' \<subseteq> set A" "set B' \<subseteq> set B" "distinct (map ss_operation_id A' @ map ss_operation_id B')"
    and out: "i \<notin> ss_operation_id ` set A'" "i \<notin> ss_operation_id ` set B'"
  shows "sys_ok M (db', A', B')"
proof -
  have "swap_holds M s db'" if "s \<in> set A'" for s
    using swap_holds_frame [of s db' db M] fr [of "ss_operation_id s"] that out(1) sub(1) ok by (auto simp: image_iff)
  moreover have "swap_holds M t db' \<and> signs t" if "t \<in> set B'" for t
    using swap_holds_frame [of t db' db M] fr [of "ss_operation_id t"] that out(2) sub(2) ok by (auto simp: image_iff)
  ultimately show ?thesis using wf sub(3) by auto
qed

definition step_good :: "mint \<Rightarrow> swap_sys \<Rightarrow> swap_event option \<Rightarrow> swap_sys \<Rightarrow> bool" where
  "step_good M c l c' \<longleftrightarrow> sys_ok M c' \<and> (\<forall>u. unit_balance M u (fst c') = unit_balance M u (fst c)) \<and>
     (case l of None \<Rightarrow> spec_of (fst c') = spec_of (fst c) | Some e \<Rightarrow> atomic_swap e (spec_of (fst c)) (spec_of (fst c')))"

lemma step_good_drop:
  assumes ok: "sys_ok M (db, A, B)" and db': "db' \<in> {db, drop_rows i db, drop_operation i db}" and res: "reserved i db"
    and sub: "set A' \<subseteq> set A" "set B' \<subseteq> set B" "distinct (map ss_operation_id A' @ map ss_operation_id B')"
    and out: "i \<notin> ss_operation_id ` set A'" "i \<notin> ss_operation_id ` set B'"
  shows "step_good M (db, A, B) None (db', A', B')"
proof -
  note shr = error_effect [OF db' res]
  have "sys_ok M (db', A', B')"
    by (rule sys_ok_frame [OF ok quiet_effect(1,2) [OF shr ok] _ sub out]) (use drop_frame(1,2) [OF db'] in blast)
  then show ?thesis using quiet_effect(3,4) [OF shr ok] by (simp add: step_good_def)
qed

lemma begin_good:
  assumes m: "mint_ok M" and ok: "sys_ok M (db, A, B)" and iv: "verify_inputs M ps = Inr iv" and new: "unused i db"
    and set: "setup_swap M f now i ps ms None iv db = Inr (s, db')"
  shows "step_good M (db, A, B) None (db', s # A, B)"
proof -
  have wf: "db_wf (m_ext M) db" and led: "ledger_ok db" using ok by simp_all
  from setup_swap_holds [OF m wf iv new set] have s: "swap_holds M s db'" "ss_operation_id s = i" "db_wf (m_ext M) db'"
    and fr: "\<And>j. j \<noteq> i \<Longrightarrow> proofs_of j db' = proofs_of j db \<and> sigs_of j db' = sigs_of j db" by blast+
  have out: "i \<notin> ss_operation_id ` set A" "i \<notin> ss_operation_id ` set B"
    using ok new holds_rows(2) by (fastforce simp: unused_def)+
  have "sys_ok M (db', A, B)"
    by (rule sys_ok_frame [OF ok s(3) setup_swap_ledger(2) [OF set led] fr]) (use ok out in auto)
  with s out have "sys_ok M (db', s # A, B)" by (auto simp: image_iff)
  moreover have "unit_balance M u db' = unit_balance M u db" for u
    by (simp add: unit_balance_def setup_swap_ledger(1) [OF set])
  moreover have "spec_of db' = spec_of db" using setup_swap_Ok [OF set] by (auto simp: spec_of_reserve)
  ultimately show ?thesis by (simp add: step_good_def)
qed

lemma sign_holds:
  assumes "sign_outputs M fc nonces s db = (Inr t, db')" and "swap_holds M s db"
    and "length nonces = length (sc_blinded_messages (ss_state_data s))"
  shows "db' = db \<and> swap_holds M t db \<and> signs t \<and> ss_operation_id t = ss_operation_id s \<and>
    sc_ys (ss_state_data t) = sc_ys (ss_state_data s) \<and> sc_blinded_messages (ss_state_data t) = sc_blinded_messages (ss_state_data s)"
proof -
  from assms(1) obtain sigs where sigs: "blind_sign M nonces (sc_blinded_messages (ss_state_data s)) = Inr sigs" and db': "db' = db"
    and t: "t = \<lparr> ss_compensations = ss_compensations s, ss_operation_id = ss_operation_id s,
            ss_state_data = setup_complete.extend (ss_state_data s) \<lparr> sg_signatures = sigs \<rparr> \<rparr>"
    by (auto simp: sign_outputs_def split: sum.splits)
  have "swap_holds M t db \<longleftrightarrow> swap_holds M s db"
    by (simp add: swap_holds_def t setup_complete.defs Let_def)
  moreover have "signs t" using blind_sign_Ok [OF sigs assms(3)] by (simp add: signs_def t setup_complete.defs)
  ultimately show ?thesis using assms(2) by (simp add: db' t setup_complete.defs)
qed

lemma sign_good:
  assumes ok: "sys_ok M (db, A1 @ s # A2, B)" and n: "length nonces = length (sc_blinded_messages (ss_state_data s))"
    and sg: "sign_outputs M fc nonces s db = (Inr t, db')"
  shows "step_good M (db, A1 @ s # A2, B) None (db', A1 @ A2, t # B)"
proof -
  have "swap_holds M s db" using ok by simp
  from sign_holds [OF sg this n] ok show ?thesis by (auto simp: step_good_def)
qed

lemma swap_step_good:
  assumes "swap_step M c l c'" and m: "mint_ok M" and "sys_ok M c"
  shows "step_good M c l c'"
  using assms(1,3)
proof cases
  case (begin_swap ps iv i db f now ms s db' A B)
  with assms(3) show ?thesis by (auto intro: begin_good [OF m])
next
  case (sign nonces s fc db t db' A1 A2 B)
  with assms(3) show ?thesis by (auto intro: sign_good)
next
  case (sign_error fc nonces s db e db' A1 A2 B)
  have h: "swap_holds M s db" and wf: "db_wf (m_ext M) db" using assms(3) sign_error by auto
  have "db' = compensate_all fc (ss_compensations s) db"
    using sign_error by (auto simp: sign_outputs_def split: sum.splits)
  with compensate_holds [OF wf h, of fc]
  have "db' \<in> {db, drop_rows (ss_operation_id s) db, drop_operation (ss_operation_id s) db}" by simp
  then show ?thesis
    unfolding sign_error by (intro step_good_drop [OF _ _ holds_rows(1) [OF h]]) (use assms(3) sign_error in auto)
next
  case (answer f fc now t db sigs db' A B1 B2)
  have ok: "sys_ok M (db, A, B1 @ t # B2)" using assms(3) answer by simp
  have ids: "distinct (map mk_id (m_keysets M))" using m by (simp add: mint_ok_def)
  have "swap_holds M t db" "signs t" "db_wf (m_ext M) db" "ledger_ok db" using ok by auto
  note E = answer_effect [OF ids this(3,1,2) answer(4) this(4)]
  have "sys_ok M (db', A, B1 @ B2)"
    by (rule sys_ok_frame [OF ok, where i = "ss_operation_id t"]) (use E ok in auto)
  with E show ?thesis unfolding answer by (simp add: step_good_def)
next
  case (finalize_error f fc now t db e db' A B1 B2)
  have h: "swap_holds M t db" and wf: "db_wf (m_ext M) db" using assms(3) finalize_error by auto
  from finalize_outcome [OF wf h finalize_error(4)]
  have "db' \<in> {db, drop_rows (ss_operation_id t) db, drop_operation (ss_operation_id t) db}" by simp
  then show ?thesis
    unfolding finalize_error by (intro step_good_drop [OF _ _ holds_rows(1) [OF h]]) (use assms(3) finalize_error in auto)
next
  case (crash db A B)
  with assms(3) show ?thesis by (auto simp: step_good_def)
next
  case (recover flt fs db r db')
  have "sys_ok M (db, [], [])" using assms(3) recover by simp
  from quiet_effect [OF recover_shrinks [OF recover(4)] this] show ?thesis unfolding recover by (simp add: step_good_def)
qed

lemma swap_run_good:
  assumes "swap_run M c es c'" and "mint_ok M" and "sys_ok M c"
  shows "sys_ok M c' \<and> (\<forall>u. unit_balance M u (fst c') = unit_balance M u (fst c)) \<and> spec_run es (spec_of (fst c)) (spec_of (fst c'))"
  using assms
proof (induction rule: swap_run.induct)
  case (start c)
  then show ?case by (simp add: spec_run.intros)
next
  case (more c es c' l c'')
  from swap_step_good [OF more.hyps(2) more.prems(1)] more
  have "step_good M c' l c''" "spec_run es (spec_of (fst c)) (spec_of (fst c'))" "\<forall>u. unit_balance M u (fst c') = unit_balance M u (fst c)"
    by auto
  then show ?case by (cases l) (auto simp: step_good_def intro: spec_run.intros(2))
qed

lemma spec_run_fresh:
  assumes "spec_run es S S'"
  shows "distinct (concat (map fst es)) \<and> set (concat (map fst es)) \<inter> sp_spent S = {} \<and>
      sp_spent S' = sp_spent S \<union> set (concat (map fst es)) \<and>
    distinct (map fst (concat (map snd es))) \<and> fst ` set (concat (map snd es)) \<inter> fst ` sp_signed S = {} \<and>
      sp_signed S' = sp_signed S \<union> set (concat (map snd es))"
  using assms
proof (induction rule: spec_run.induct)
  case (2 es S S' e S'')
  obtain ys outs where e: "e = (ys, outs)" by (cases e)
  from 2(2) have A: "distinct ys" "set ys \<inter> sp_spent S' = {}" "distinct (map fst outs)" "fst ` set outs \<inter> fst ` sp_signed S' = {}"
    "sp_spent S'' = sp_spent S' \<union> set ys" "sp_signed S'' = sp_signed S' \<union> set outs"
    unfolding e atomic_swap_simps by auto
  then show ?case unfolding e using 2(3)
    by (simp add: Int_Un_distrib Int_Un_distrib2 image_Un Un_assoc Int_commute)
qed simp

section \<open>Properties of the system\<close>

text \<open>
  C3. Conservation: over every run of concurrent swaps, with any interleaving, database failures,
  crashes and recoveries, the redeemed and issued columns of the keyset ledger stay equal to the
  sums over the proofs that are spent and the signatures that were given, and for every unit the
  issued amounts plus the fees kept minus the redeemed amounts do not change.
\<close>
theorem swaps_conserve_value:
  assumes "mint_ok M" and "db_wf (m_ext M) db" and "ledger_ok db" and "swap_run M (db, [], []) es (db', A, B)"
  shows "ledger_ok db' \<and> (\<forall>u. unit_balance M u db' = unit_balance M u db)"
  using swap_run_good [OF assms(4,1)] assms(2,3) by simp

text \<open>
  C4. Refinement: the answers of the mint over such a run are a run of the specification in which
  each swap is one atomic step from the state before to the state after; steps that do not answer
  with signatures leave the specification state alone.
\<close>
theorem swaps_refine_atomic_swaps:
  assumes "mint_ok M" and "db_wf (m_ext M) db" and "ledger_ok db" and "swap_run M (db, [], []) es (db', A, B)"
  shows "spec_run es (spec_of db) (spec_of db')"
  using swap_run_good [OF assms(4,1)] assms(2,3) by simp

text \<open>
  C2. No double spend and no double signature: the inputs of all answered swaps of a run are
  pairwise distinct and none was spent before, all of them are spent afterwards, and the same holds
  of the outputs signed.
\<close>
theorem swaps_never_double_spend:
  assumes "mint_ok M" and "db_wf (m_ext M) db" and "ledger_ok db" and "swap_run M (db, [], []) es (db', A, B)"
  shows "distinct (concat (map fst es)) \<and> set (concat (map fst es)) \<inter> sp_spent (spec_of db) = {} \<and>
    sp_spent (spec_of db') = sp_spent (spec_of db) \<union> set (concat (map fst es)) \<and>
    distinct (map fst (concat (map snd es))) \<and> sp_signed (spec_of db') = sp_signed (spec_of db) \<union> set (concat (map snd es))"
proof -
  have "spec_run es (spec_of db) (spec_of db')" using swap_run_good [OF assms(4,1)] assms(2,3) by simp
  from spec_run_fresh [OF this] show ?thesis by blast
qed

text \<open>One swap on an empty database, to its end.\<close>

definition demo_trace where
  "demo_trace = (case setup_swap demo_mint no_faults 0 ''op'' [demo_input] [demo_output] None \<lparr> v_amount = new_amount 8 Sat \<rparr> empty_db of
      Inl _ \<Rightarrow> None
    | Inr (s, db1) \<Rightarrow> (case sign_outputs demo_mint no_faults [[1]] s db1 of
        (Inl _, _) \<Rightarrow> None
      | (Inr t, db2) \<Rightarrow> (case finalize demo_mint no_faults no_faults 0 t db2 of
          (Inl _, _) \<Rightarrow> None
        | (Inr sigs, db3) \<Rightarrow> if length (sc_blinded_messages (ss_state_data s)) = 1 \<and> sc_ys (ss_state_data t) = [demo_pt 67]
            then Some (s, db1, t, db2, sigs, db3) else None)))"

lemma demo_trace_run: "\<exists>outs db'. swap_run demo_mint (empty_db, [], []) [([demo_pt 67], outs)] (db', [], [])"
proof -
  have "demo_trace \<noteq> None" by code_simp
  then obtain s db1 t db2 sigs db3 where
      st: "setup_swap demo_mint no_faults 0 ''op'' [demo_input] [demo_output] None \<lparr> v_amount = new_amount 8 Sat \<rparr> empty_db = Inr (s, db1)"
    and sg: "sign_outputs demo_mint no_faults [[1]] s db1 = (Inr t, db2)"
    and fn: "finalize demo_mint no_faults no_faults 0 t db2 = (Inr sigs, db3)"
    and len: "length (sc_blinded_messages (ss_state_data s)) = 1" and ys: "sc_ys (ss_state_data t) = [demo_pt 67]"
    by (auto simp: demo_trace_def split: sum.splits prod.splits if_splits)
  have iv: "verify_inputs demo_mint [demo_input] = Inr \<lparr> v_amount = new_amount 8 Sat \<rparr>" by code_simp
  have un: "unused ''op'' empty_db" by (simp add: unused_def proofs_of_def sigs_of_def empty_db_def)
  have r1: "swap_run demo_mint (empty_db, [], []) [] (db1, [s], [])"
    using swap_run.more [OF swap_run.start swap_step.begin_swap [OF iv un st]] by simp
  have r2: "swap_run demo_mint (empty_db, [], []) [] (db2, [], [t])"
    using swap_run.more [OF r1 swap_step.sign [of _ s _ _ _ _ _ "[]" "[]" "[]", simplified, OF _ sg]] len by simp
  have "swap_run demo_mint (empty_db, [], []) [swap_event_of t] (db3, [], [])"
    using swap_run.more [OF r2 swap_step.answer [OF fn, of "[]" "[]" "[]", simplified]] by simp
  with ys show ?thesis by (auto simp: swap_event_of_def)
qed

lemma demo_start: "mint_ok demo_mint" "db_wf (m_ext demo_mint) empty_db" "ledger_ok empty_db"
  by (simp_all add: mint_ok_def demo_mint_def demo_info_def db_wf_def empty_db_def ledger_ok_def amounts_of_def
      zero_amounts_def spent_sum_def signed_sum_def)

theorem swaps_conserve_value_witness:
  "\<exists>es db'. swap_run demo_mint (empty_db, [], []) es (db', [], []) \<and> es \<noteq> [] \<and>
     ledger_ok db' \<and> unit_balance demo_mint Sat db' = unit_balance demo_mint Sat empty_db"
proof -
  from demo_trace_run obtain outs db' where r: "swap_run demo_mint (empty_db, [], []) [([demo_pt 67], outs)] (db', [], [])" by blast
  from swaps_conserve_value [OF demo_start r] r show ?thesis by blast
qed

theorem swaps_refine_atomic_swaps_witness:
  "\<exists>outs db'. swap_run demo_mint (empty_db, [], []) [([demo_pt 67], outs)] (db', [], []) \<and>
     spec_run [([demo_pt 67], outs)] (spec_of empty_db) (spec_of db')"
proof -
  from demo_trace_run obtain outs db' where r: "swap_run demo_mint (empty_db, [], []) [([demo_pt 67], outs)] (db', [], [])" by blast
  from swaps_refine_atomic_swaps [OF demo_start r] r show ?thesis by blast
qed

theorem swaps_never_double_spend_witness:
  "\<exists>outs db'. swap_run demo_mint (empty_db, [], []) [([demo_pt 67], outs)] (db', [], []) \<and> demo_pt 67 \<in> sp_spent (spec_of db')"
proof -
  from demo_trace_run obtain outs db' where r: "swap_run demo_mint (empty_db, [], []) [([demo_pt 67], outs)] (db', [], [])" by blast
  from swaps_never_double_spend [OF demo_start r] r show ?thesis by auto
qed

section \<open>One request\<close>

lemma drop_operation_unused:
  assumes "unused i db" shows "drop_operation i db = db"
proof -
  have "filter (\<lambda>r. pr_operation_id r \<noteq> i) (d_proofs db) = d_proofs db" "filter (\<lambda>r. \<not> sig_of_op i r) (d_sigs db) = d_sigs db"
    "filter (\<lambda>s. sg_operation_id s \<noteq> i) (d_sagas db) = d_sagas db"
    using assms by (auto simp: unused_def proofs_of_def sigs_of_def filter_empty_conv filter_id_conv)
  then show ?thesis by (simp add: drop_operation_def drop_rows_def delete_saga_def)
qed

lemma drop_operation_again: "db' \<in> {db, drop_rows i db, drop_operation i db} \<Longrightarrow> drop_operation i db' = drop_operation i db"
  by (auto simp: drop_operation_def drop_rows_def delete_saga_def)

lemma compensate_clean:
  assumes "db_wf X db" and "swap_holds M s db" and "\<And>c. f c = None"
  shows "compensate_all f (ss_compensations s) db = drop_operation (ss_operation_id s) db"
proof -
  have c: "ss_compensations s = [\<lparr> rs_blinded_secrets = map sr_blinded_message (sigs_of (ss_operation_id s) db),
      rs_input_ys = map pr_y (proofs_of (ss_operation_id s) db), rs_operation_id = ss_operation_id s \<rparr>]"
    using assms(2) by (simp add: swap_holds_def Let_def)
  show ?thesis
    using execute_reserved(2) [OF assms(1) holds_rows(1) [OF assms(2)] _ refl, of f] holds_rows(2) [OF assms(2)] assms(3)
    by (simp add: c)
qed

text \<open>Faults that can leave a reservation behind: a failing compensation, or a final transaction that cannot begin, roll back or commit.\<close>

definition clean_faults :: "faults \<Rightarrow> faults \<Rightarrow> bool" where
  "clean_faults f2 fc \<longleftrightarrow> (\<forall>c. fc c = None) \<and> f2 Begin_tx = None \<and> f2 Rollback_tx = None \<and> f2 Commit_tx = None"

lemma finalize_clean:
  assumes "db_wf X db" and "swap_holds M t db" and "clean_faults f2 fc" and "finalize M f2 fc now t db = (Inl e, db')"
  shows "db' = drop_operation (ss_operation_id t) db"
proof -
  have "compensate_all fc (ss_compensations t) db = drop_operation (ss_operation_id t) db"
    using compensate_clean [OF assms(1,2)] assms(3) by (simp add: clean_faults_def)
  then show ?thesis
    using assms(3,4) unfolding finalize_def Let_def clean_faults_def abort_swap_def
    by (auto split: option.splits sum.splits prod.splits)
qed

text \<open>
  C1. A swap request is atomic. When it answers with signatures, the specification state made the
  atomic step that spends the inputs of the request and signs its outputs. When it answers with an
  error, nothing was spent or signed, what the request left in the database is exactly its own
  reservation (dropping the operation gives the database before the request), and it left nothing
  at all unless the compensation failed or the final transaction could not begin, commit or roll
  back.
\<close>
theorem swap_request_atomic:
  assumes "mint_ok M" and "db_wf (m_ext M) db" and "ledger_ok db" and "unused i db" and "length nonces = length (sw_outputs req)"
    and "process_swap_request M legacy f1 f2 fc now i nonces req db = (r, db')"
  shows "case r of
      Inr sigs \<Rightarrow> (\<exists>ys. proofs_ys (m_ext M) (sw_inputs req) = Inr ys \<and>
        atomic_swap (ys, zip (map bm_blinded_secret (sw_outputs req)) (map bs_c sigs)) (spec_of db) (spec_of db'))
    | Inl e \<Rightarrow> spec_of db' = spec_of db \<and> drop_operation i db' = db \<and> (clean_faults f2 fc \<longrightarrow> db' = db)"
proof (cases "\<exists>iv s db1. verify_inputs M (sw_inputs req) = Inr iv \<and>
    setup_swap M f1 now i (sw_inputs req) (sw_outputs req) None iv db = Inr (s, db1) \<and>
    (r, db') = (case sign_outputs M fc nonces s db1 of (Inl e, db2) \<Rightarrow> (Inl e, db2) | (Inr t, db2) \<Rightarrow> finalize M f2 fc now t db2)")
  case False
  then have "db' = db \<and> (\<exists>e. r = Inl e)"
    using assms(6) unfolding process_swap_request_def by (auto split: sum.splits if_splits)
  then show ?thesis using drop_operation_unused [OF assms(4)] by auto
next
  case True
  then obtain iv s db1 where iv: "verify_inputs M (sw_inputs req) = Inr iv"
    and st: "setup_swap M f1 now i (sw_inputs req) (sw_outputs req) None iv db = Inr (s, db1)"
    and rest: "(r, db') = (case sign_outputs M fc nonces s db1 of (Inl e, db2) \<Rightarrow> (Inl e, db2) | (Inr t, db2) \<Rightarrow> finalize M f2 fc now t db2)"
    by blast
  from setup_swap_holds [OF assms(1,2) iv assms(4) st] have h: "swap_holds M s db1" and id: "ss_operation_id s = i"
    and wf: "db_wf (m_ext M) db1" by auto
  from setup_swap_Ok [OF st] obtain ys where ys: "proofs_ys (m_ext M) (sw_inputs req) = Inr ys" "sc_ys (ss_state_data s) = ys"
    and ms: "sc_blinded_messages (ss_state_data s) = sw_outputs req" and spec: "spec_of db1 = spec_of db"
    by (auto simp: reservable_def swap_saga_of_def spec_of_reserve)
  have swp: "swap_setup (m_ext M) i db db1" using st unfolding swap_setup_def by blast
  note undone = swap.undo_setup [OF assms(2,4) swp]
  have err: ?thesis if e: "r = Inl e" "db' \<in> {db1, drop_rows i db1, drop_operation i db1}"
    "clean_faults f2 fc \<Longrightarrow> db' = drop_operation i db1" for e
    using e drop_operation_again [OF e(2)] undone spec spec_of_shrinks [OF error_effect [OF e(2)]] holds_rows(1) [OF h] id by simp
  show ?thesis
  proof (cases "sign_outputs M fc nonces s db1")
    case (Pair x db2)
    show ?thesis
    proof (cases x)
      case (Inl e)
      then have "db' = compensate_all fc (ss_compensations s) db1" "r = Inl e"
        using rest Pair by (auto simp: sign_outputs_def split: sum.splits)
      then show ?thesis
        using compensate_holds [OF wf h, of fc] compensate_clean [OF wf h, of fc]
        by (intro err [of e]) (simp_all add: id clean_faults_def)
    next
      case (Inr t)
      from sign_holds [OF _ h, of fc nonces t db2] Pair Inr assms(5) ms have t: "db2 = db1" "swap_holds M t db1" "signs t"
        "ss_operation_id t = i" "sc_ys (ss_state_data t) = ys" "sc_blinded_messages (ss_state_data t) = sw_outputs req"
        by (auto simp: id ys)
      have fin: "finalize M f2 fc now t db1 = (r, db')" using rest Pair Inr t(1) by simp
      show ?thesis
      proof (cases r)
        case (Inl e)
        with fin finalize_outcome [OF wf t(2), of f2 fc now] finalize_clean [OF wf t(2), of f2 fc now e db'] show ?thesis
          by (intro err [of e]) (auto simp: t(4) split: sum.splits)
      next
        case (Inr sigs)
        have ids: "distinct (map mk_id (m_keysets M))" using assms(1) by (simp add: mint_ok_def)
        from answer_effect [OF ids wf t(2,3) fin [unfolded Inr] setup_swap_ledger(2) [OF st assms(3)]]
        have "atomic_swap (swap_event_of t) (spec_of db1) (spec_of db')" by blast
        moreover have "sg_signatures (ss_state_data t) = sigs"
          using finalize_outcome [OF wf t(2) fin] Inr by simp
        ultimately show ?thesis using ys Inr by (simp add: swap_event_of_def t spec)
      qed
    qed
  qed
qed

section \<open>Crash and recovery\<close>

lemma recover_sagas_reserved:
  assumes "db_wf X db" and "distinct (map sg_operation_id ss)"
    and "\<forall>s \<in> set ss. reserved (sg_operation_id s) db \<and> sigs_of (sg_operation_id s) db \<noteq> []"
  shows "recover_sagas (\<lambda>_. no_faults) ss db = (Inr (), fold drop_operation (map sg_operation_id ss) db)"
  using assms
proof (induction ss arbitrary: db)
  case (Cons s ss)
  let ?i = "sg_operation_id s"
  have ex: "remove_swap_setup_execute no_faults \<lparr> rs_blinded_secrets = get_blinded_secrets_by_operation_id ?i db,
      rs_input_ys = get_proof_ys_by_operation_id ?i db, rs_operation_id = ?i \<rparr> db = Inr (drop_operation ?i db)"
    unfolding get_secrets_sigs_of get_ys_proofs_of
    by (rule execute_reserved(2) [OF Cons.prems(1) _ _ refl]) (use Cons.prems(3) in \<open>auto simp: no_faults_def\<close>)
  have other: "reserved j (drop_operation ?i db) = reserved j db \<and> sigs_of j (drop_operation ?i db) = sigs_of j db" if "j \<noteq> ?i" for j
    using that by (simp add: reserved_def drop_operation_def drop_tables)
  have "recover_sagas (\<lambda>_. no_faults) ss (drop_operation ?i db) = (Inr (), fold drop_operation (map sg_operation_id ss) (drop_operation ?i db))"
  proof (rule Cons.IH)
    show "db_wf X (drop_operation ?i db)" using Cons.prems(1) by (simp add: drop_operation_def drop_wf)
    show "distinct (map sg_operation_id ss)" using Cons.prems(2) by simp
    show "\<forall>s \<in> set ss. reserved (sg_operation_id s) (drop_operation ?i db) \<and> sigs_of (sg_operation_id s) (drop_operation ?i db) \<noteq> []"
    proof
      fix t assume t: "t \<in> set ss"
      then have "sg_operation_id t \<noteq> ?i" using Cons.prems(2) by (metis distinct.simps(2) image_eqI list.set_map list.simps(9))
      then show "reserved (sg_operation_id t) (drop_operation ?i db) \<and> sigs_of (sg_operation_id t) (drop_operation ?i db) \<noteq> []"
        using other Cons.prems(3) t by simp
    qed
  qed
  then show ?case using ex by (simp add: faulty_def no_faults_def [of Get_proof_ys] no_faults_def [of Get_blinded_secrets] Let_def)
qed simp

lemma setups_reserved:
  assumes "swap.setups X ids db db'" and "db_wf X db" and "\<forall>s \<in> set (d_sagas db). sg_operation_kind s \<noteq> Op_Swap"
  shows "\<exists>ss. d_sagas db' = d_sagas db @ ss \<and> map sg_operation_id ss = rev ids \<and> distinct ids \<and>
    (\<forall>s \<in> set ss. sg_operation_kind s = Op_Swap \<and> reserved (sg_operation_id s) db' \<and> sigs_of (sg_operation_id s) db' \<noteq> [])"
  using assms
proof (induction rule: swap.setups.induct)
  case (none db)
  then show ?case by simp
next
  case (more ids db db' i db'')
  from more obtain ss where ss: "d_sagas db' = d_sagas db @ ss" "map sg_operation_id ss = rev ids" "distinct ids"
    "\<forall>s \<in> set ss. sg_operation_kind s = Op_Swap \<and> reserved (sg_operation_id s) db' \<and> sigs_of (sg_operation_id s) db' \<noteq> []"
    by blast
  from more(3) obtain now q d ys ps ms where d: "op_id d = i" and ms: "ms \<noteq> []"
    and db'': "db'' = reserve now q d ys ps ms (saga_new_swap now i SwapSetupComplete) db'"
    by (rule swap_setupE)
  let ?s = "saga_new_swap now i SwapSetupComplete"
  have kind: "sg_operation_kind ?s = Op_Swap" "sg_operation_id ?s = i" by (simp_all add: saga_new_swap_def)
  have i: "i \<notin> set ids"
  proof -
    have "i \<notin> sg_operation_id ` set (d_sagas db')" using more(2) by (simp add: unused_def)
    then have "i \<notin> set (map sg_operation_id ss)" using ss(1) by auto
    then show ?thesis by (simp add: ss(2))
  qed
  have "reserved i db''" using reserve_reserved [of d db' now q ys ps ms ?s] more(2) by (simp add: d db'')
  moreover have "sigs_of i db'' \<noteq> []" using ms by (simp add: db'' reserve_tables d)
  moreover have "reserved (sg_operation_id s) db'' \<and> sigs_of (sg_operation_id s) db'' \<noteq> []" if "s \<in> set ss" for s
  proof -
    have "sg_operation_id s \<in> set (map sg_operation_id ss)" using that by simp
    then have "sg_operation_id s \<noteq> op_id d" using i by (metis d set_rev ss(2))
    then show ?thesis using ss(4) that by (simp add: db'' reserved_def reserve_frame)
  qed
  ultimately show ?case
    using ss kind i by (intro exI [of _ "ss @ [?s]"]) (auto simp: db'' reserve_tables)
qed

text \<open>
  C5. Crash recovery: after any number of concurrent swap requests that got through their setup
  transaction and no further, the recovery at start-up (without database failures) returns the
  database exactly as it was before all of them, provided no other swap saga was in it.
\<close>
theorem crash_recovery_restores:
  assumes "db_wf X db" and "\<forall>s \<in> set (d_sagas db). sg_operation_kind s \<noteq> Op_Swap" and "swap.setups X ids db db'"
  shows "recover_from_incomplete_sagas None (\<lambda>_. no_faults) db' = (Inr (), db)"
proof -
  from setups_reserved [OF assms(3,1,2)] obtain ss where ss: "d_sagas db' = d_sagas db @ ss" "map sg_operation_id ss = rev ids"
    "distinct ids" "\<forall>s \<in> set ss. sg_operation_kind s = Op_Swap \<and> reserved (sg_operation_id s) db' \<and> sigs_of (sg_operation_id s) db' \<noteq> []"
    by blast
  have inc: "get_incomplete_sagas Op_Swap db' = map saga_of_row (sort_key sg_created_at ss)"
    using assms(2) ss(1,4) by (simp add: get_incomplete_sagas_def filter_none filter_all)
  have ops: "sg_operation_id (saga_of_row s) = sg_operation_id s" for s by (simp add: saga_of_row_def)
  let ?l = "map saga_of_row (sort_key sg_created_at ss)"
  have "mset (map sg_operation_id ?l) = mset (map sg_operation_id ss)"
    unfolding mset_map_sort_key by (simp add: comp_def ops)
  then have ms: "mset (map sg_operation_id ?l) = mset ids" by (simp only: ss(2) mset_rev)
  then have "distinct (map sg_operation_id ?l)" using ss(3) by (metis mset_eq_imp_distinct_iff)
  then have "recover_sagas (\<lambda>_. no_faults) ?l db' = (Inr (), fold drop_operation (map sg_operation_id ?l) db')"
    by (rule recover_sagas_reserved [OF swap.setups_wf [OF assms(3,1)]]) (use ss(4) in \<open>auto simp: ops\<close>)
  also have "fold drop_operation (map sg_operation_id ?l) db' = db"
    by (rule swap.undo_in_any_order [OF assms(3,1) ms])
  finally show ?thesis by (simp add: recover_from_incomplete_sagas_def faulty_def inc)
qed

theorem crash_recovery_restores_witness:
  "\<exists>db'. swap.setups demo_ext [''op''] empty_db db' \<and> d_proofs db' \<noteq> [] \<and>
     recover_from_incomplete_sagas None (\<lambda>_. no_faults) db' = (Inr (), empty_db)"
proof -
  have "case setup_swap demo_mint no_faults 0 ''op'' [demo_input] [demo_output] None \<lparr> v_amount = new_amount 8 Sat \<rparr> empty_db of
      Inr (s, db') \<Rightarrow> \<not> List.null (d_proofs db') | Inl _ \<Rightarrow> False" by code_simp
  then obtain s db' where s: "setup_swap demo_mint no_faults 0 ''op'' [demo_input] [demo_output] None \<lparr> v_amount = new_amount 8 Sat \<rparr> empty_db = Inr (s, db')"
    and ne: "d_proofs db' \<noteq> []" by (auto split: sum.splits prod.splits)
  have "m_ext demo_mint = demo_ext" by (simp add: demo_mint_def)
  with s have "swap_setup demo_ext ''op'' empty_db db'" unfolding swap_setup_def by blast
  moreover have "unused ''op'' empty_db" by (simp add: unused_def proofs_of_def sigs_of_def empty_db_def)
  ultimately have r: "swap.setups demo_ext [''op''] empty_db db'" using swap.setups.more [OF swap.setups.none] by blast
  have "db_wf demo_ext empty_db" "\<forall>s \<in> set (d_sagas empty_db). sg_operation_kind s \<noteq> Op_Swap"
    by (simp_all add: db_wf_def empty_db_def)
  from crash_recovery_restores [OF this r] r ne show ?thesis by blast
qed

section \<open>Orphaned sagas\<close>

text \<open>
  The saga of a swap that was finished or already compensated, left behind because deleting it
  failed.
\<close>

definition orphaned :: "uuid \<Rightarrow> mint_db \<Rightarrow> bool" where
  "orphaned i db \<longleftrightarrow> i \<in> sg_operation_id ` set (d_sagas db) \<and>
     ((\<exists>r \<in> set (proofs_of i db). pr_state r = Spent) \<or> (proofs_of i db = [] \<and> sigs_of i db = []))"

lemma execute_sagas:
  "remove_swap_setup_execute f c db = Inr db' \<Longrightarrow> d_sagas db' \<in> {d_sagas db, filter (\<lambda>s. sg_operation_id s \<noteq> rs_operation_id c) (d_sagas db)}"
  by (auto simp: remove_swap_setup_execute_def res_simps faulty_Ok Let_def delete_saga_def remove_proofs_def delete_blinded_messages_def
      split: if_splits option.splits)

lemma remove_spent_fails:
  assumes "db_wf X db" and "r \<in> set (proofs_of i db)" and "pr_state r = Spent"
  shows "\<exists>e. remove_proofs (map pr_y (proofs_of i db)) db = Inl e"
proof -
  let ?ys = "map pr_y (proofs_of i db)"
  have "filter (\<lambda>r. pr_y r \<in> set ?ys \<and> pr_state r \<noteq> Spent) (d_proofs db) = filter (\<lambda>r. pr_state r \<noteq> Spent) (proofs_of i db)"
    unfolding proofs_of_def [of i db] filter_filter
    by (rule filter_cong) (use proofs_of_ys [OF assms(1), of _ i] in \<open>auto simp: proofs_of_def\<close>)
  moreover have "length (filter (\<lambda>r. pr_state r \<noteq> Spent) (proofs_of i db)) < length (proofs_of i db)"
    using assms(2,3) by (intro length_filter_less) auto
  moreover have "?ys \<noteq> []" using assms(2) by auto
  ultimately show ?thesis by (simp add: remove_proofs_def Let_def del: set_map)
qed

lemma execute_orphan:
  assumes "db_wf X db" and "orphaned i db"
    and "remove_swap_setup_execute f \<lparr> rs_blinded_secrets = map sr_blinded_message (sigs_of j db),
      rs_input_ys = map pr_y (proofs_of j db), rs_operation_id = j \<rparr> db = Inr db'"
  shows "orphaned i db'"
proof (cases "j = i")
  case False
  from execute_shrinks [OF assms(3)] obtain P Q where P: "\<forall>r \<in> set (d_proofs db). pr_state r = Spent \<longrightarrow> P r"
    and t: "d_proofs db' = filter P (d_proofs db)" "d_sigs db' = filter Q (d_sigs db)"
    unfolding shrinks_def by auto
  have "i \<in> sg_operation_id ` set (d_sagas db')"
    using execute_sagas [OF assms(3)] assms(2) False by (auto simp: orphaned_def)
  then show ?thesis using assms(2) P t by (auto simp: orphaned_def proofs_of_def sigs_of_def filter_empty_conv)
next
  case True
  show ?thesis
  proof (cases "proofs_of i db = [] \<and> sigs_of i db = []")
    case True
    then have "db' = db" using assms(3) \<open>j = i\<close> by (simp add: remove_swap_setup_execute_def)
    then show ?thesis using assms(2) by simp
  next
    case False
    then obtain r where r: "r \<in> set (proofs_of i db)" "pr_state r = Spent" using assms(2) by (auto simp: orphaned_def)
    have "\<exists>e. remove_proofs (map pr_y (proofs_of i db)) db1 = Inl e" if "d_proofs db1 = d_proofs db" for db1
      using remove_spent_fails [OF assms(1) r] that by (simp add: remove_proofs_def split: if_splits)
    then have "remove_proofs (map pr_y (proofs_of i db)) db1 \<noteq> Inr db2" if "d_proofs db1 = d_proofs db" for db1 db2
      using that by fastforce
    then show ?thesis
      using assms(3) r \<open>j = i\<close> by (auto simp: remove_swap_setup_execute_def res_simps faulty_Ok delete_blinded_messages_def split: if_splits)
  qed
qed

lemma recover_sagas_orphan:
  assumes "db_wf X db" and "orphaned i db"
  shows "orphaned i (snd (recover_sagas fs ss db))"
  using assms
proof (induction ss arbitrary: db)
  case (Cons s ss)
  let ?j = "sg_operation_id s"
  let ?db = "case remove_swap_setup_execute (fs ?j) \<lparr> rs_blinded_secrets = get_blinded_secrets_by_operation_id ?j db,
          rs_input_ys = get_proof_ys_by_operation_id ?j db, rs_operation_id = ?j \<rparr> db of Inr db' \<Rightarrow> db' | Inl _ \<Rightarrow> db"
  have "db_wf X ?db" "orphaned i ?db"
    using Cons.prems execute_orphan [OF Cons.prems, of "fs ?j" ?j] shrinks_wf [OF execute_shrinks, of "fs ?j"]
    by (auto simp: get_secrets_sigs_of get_ys_proofs_of split: sum.split)
  from Cons.IH [OF this] Cons.prems show ?case by (auto simp: faulty_def Let_def split: option.split)
qed simp

text \<open>
  A swap saga whose operation has a spent input, or has no rows left, is in the database after
  every recovery as it was before: the compensation of the first fails at the spent proof, that of
  the second returns before the saga is deleted.
\<close>
theorem orphaned_saga_stays:
  assumes "db_wf X db" and "orphaned i db" and "recover_from_incomplete_sagas flt fs db = (r, db')"
  shows "i \<in> sg_operation_id ` set (d_sagas db')"
proof -
  have "orphaned i db'"
    using recover_sagas_orphan [OF assms(1,2), of fs "get_incomplete_sagas Op_Swap db"] assms(2,3)
    by (auto simp: recover_from_incomplete_sagas_def faulty_def split: option.splits)
  then show ?thesis by (simp add: orphaned_def)
qed

definition demo_orphan_db :: mint_db where
  "demo_orphan_db = demo_spent_db\<lparr> d_sagas := [saga_new_swap 0 ''a'' SwapSetupComplete] \<rparr>"

theorem orphaned_saga_stays_witness:
  "\<exists>db'. recover_from_incomplete_sagas None (\<lambda>_. no_faults) demo_orphan_db = (Inr (), db') \<and> ''a'' \<in> sg_operation_id ` set (d_sagas db')"
proof -
  obtain r db' where r: "recover_from_incomplete_sagas None (\<lambda>_. no_faults) demo_orphan_db = (r, db')" by fastforce
  have "is_ok (fst (recover_from_incomplete_sagas None (\<lambda>_. no_faults) demo_orphan_db))" by code_simp
  with r have ok: "r = Inr ()" by (auto simp: is_ok_iff)
  have "proof_y demo_ext demo_input = Inr (demo_pt 67)" by code_simp
  then have "db_wf demo_ext demo_orphan_db" "orphaned ''a'' demo_orphan_db"
    by (simp_all add: db_wf_def orphaned_def demo_orphan_db_def demo_spent_db_def empty_db_def proofs_of_def saga_new_swap_def)
  from orphaned_saga_stays [OF this r] r ok show ?thesis by blast
qed

definition demo_request :: swap_request where
  "demo_request = \<lparr> sw_inputs = [demo_input], sw_outputs = [demo_output] \<rparr>"

theorem swap_request_atomic_witness:
  "\<exists>sigs db'. process_swap_request demo_mint False no_faults no_faults no_faults 0 ''op'' [[1]] demo_request empty_db = (Inr sigs, db') \<and>
     atomic_swap ([demo_pt 67], zip [demo_pt 5] (map bs_c sigs)) (spec_of empty_db) (spec_of db')"
proof -
  let ?p = "process_swap_request demo_mint False no_faults no_faults no_faults 0 ''op'' [[1]] demo_request empty_db"
  have "is_ok (fst ?p)" by code_simp
  then obtain sigs db' where p: "?p = (Inr sigs, db')" by (cases ?p) (auto simp: is_ok_iff)
  have un: "unused ''op'' empty_db" by (simp add: unused_def proofs_of_def sigs_of_def empty_db_def)
  have "proofs_ys (m_ext demo_mint) (sw_inputs demo_request) = Inr [demo_pt 67]" by code_simp
  with swap_request_atomic [OF demo_start un _ p] p show ?thesis
    by (simp add: demo_request_def demo_output_def new_blinded_message_def)
qed

end
