(* ===== verification/Mint_Db_Quotes.thy ===== *)
theory Mint_Db_Quotes
  imports Mint_Db "HOL-Library.Char_ord"
begin

text \<open>
  The quote tables of the mint's database (\<open>crates/cdk-sql-common/src/mint/quotes.rs\<close>): mint quotes
  with their payments and issuances, melt quotes with the exclusive lock on the quotes of one payment
  request, and melt requests. The constraints are those of the SQLite schema: primary keys, the
  uniqueness of a mint quote's lookup identifier and of a payment identifier, NOT NULL amounts and the
  CHECK on the state of a melt quote, which admits neither Failed nor Unknown. Times are written
  \<open>as i64\<close> and read back as unsigned numbers, so one beyond the signed range makes the row unreadable.
  A row lock is the ordering of the transactions themselves; \<open>Acquired\<close> adds nothing to a value.
\<close>

section \<open>Reading quotes\<close>

definition readable_time :: "u64 \<Rightarrow> bool" where
  "readable_time t \<longleftrightarrow> uint t < 2 ^ 63"

definition sql_row_to_melt_quote :: "melt_quote \<Rightarrow> db_error + melt_quote" where
  "sql_row_to_melt_quote q =
     (if \<not> readable_time (lq_expiry q) \<or> (case lq_paid_time q of None \<Rightarrow> False | Some t \<Rightarrow> \<not> readable_time t)
      then Inl (Db_Internal ''InvalidConversion'')
      else Inr (q\<lparr> lq_amount := new_amount (ta_value (lq_amount q)) (lq_unit q),
                  lq_fee_reserve := new_amount (ta_value (lq_fee_reserve q)) (lq_unit q) \<rparr>))"

definition sql_row_to_mint_quote :: "mint_quote \<Rightarrow> incoming_payment list \<Rightarrow> issuance list \<Rightarrow> db_error + mint_quote" where
  "sql_row_to_mint_quote q payments issuances =
     (if \<not> readable_time (mq_expiry q) \<or> \<not> readable_time (mq_created_time q)
      then Inl (Db_Internal ''InvalidConversion'')
      else Inr (q\<lparr> mq_amount := map_option (\<lambda>a. new_amount (ta_value a) (mq_unit q)) (mq_amount q),
                  mq_amount_paid := new_amount (ta_value (mq_amount_paid q)) (mq_unit q),
                  mq_amount_issued := new_amount (ta_value (mq_amount_issued q)) (mq_unit q),
                  mq_payments := payments, mq_issuance := issuances, mq_extra_json := None, mq_changes := None \<rparr>))"

definition mint_quote_row :: "quote_id \<Rightarrow> mint_db \<Rightarrow> mint_quote option" where
  "mint_quote_row quote_id db = List.find (\<lambda>q. mq_id q = quote_id) (d_mint_quotes db)"

definition get_mint_quote_payments :: "quote_id \<Rightarrow> mint_db \<Rightarrow> db_error + incoming_payment list" where
  "get_mint_quote_payments quote_id db = (case mint_quote_row quote_id db of
       None \<Rightarrow> Inr []
     | Some q \<Rightarrow> collect_res (\<lambda>r.
         if \<not> readable_time (pay_time r) then Inl (Db_Internal ''InvalidConversion'')
         else Inr (incoming_payment_new (new_amount (pay_amount r) (mq_unit q)) (pay_payment_id r) (pay_time r)))
         (filter (\<lambda>r. pay_quote_id r = quote_id) (d_payments db)))"

definition get_mint_quote_issuance :: "quote_id \<Rightarrow> mint_db \<Rightarrow> db_error + issuance list" where
  "get_mint_quote_issuance quote_id db = (case mint_quote_row quote_id db of
       None \<Rightarrow> Inr []
     | Some q \<Rightarrow> collect_res (\<lambda>r.
         if \<not> readable_time (isr_time r) then Inl (Db_Internal ''InvalidConversion'')
         else Inr \<lparr> is_amount = new_amount (isr_amount r) (mq_unit q), is_time = isr_time r \<rparr>)
         (filter (\<lambda>r. isr_quote_id r = quote_id) (d_issued db)))"

definition get_mint_quote :: "quote_id \<Rightarrow> mint_db \<Rightarrow> db_error + mint_quote option" where
  "get_mint_quote quote_id db =
     rbind (get_mint_quote_payments quote_id db) (\<lambda>payments.
     rbind (get_mint_quote_issuance quote_id db) (\<lambda>issuance.
       case mint_quote_row quote_id db of
         None \<Rightarrow> Inr None
       | Some row \<Rightarrow> rmap Some (sql_row_to_mint_quote row payments issuance)))"

text \<open>The other look-ups of a mint quote read the row first and its payments and issuances after.\<close>

definition with_history :: "mint_db \<Rightarrow> mint_quote \<Rightarrow> db_error + mint_quote" where
  "with_history db row =
     rbind (sql_row_to_mint_quote row [] []) (\<lambda>q.
     rbind (get_mint_quote_payments (mq_id q) db) (\<lambda>payments.
     rbind (get_mint_quote_issuance (mq_id q) db) (\<lambda>issuance.
       Inr (q\<lparr> mq_issuance := issuance, mq_payments := payments \<rparr>))))"

definition get_mint_quote_by_request :: "string \<Rightarrow> mint_db \<Rightarrow> db_error + mint_quote option" where
  "get_mint_quote_by_request request db = (case List.find (\<lambda>q. mq_request q = request) (d_mint_quotes db) of
       None \<Rightarrow> Inr None
     | Some row \<Rightarrow> rmap Some (with_history db row))"

definition same_lookup_id :: "payment_identifier \<Rightarrow> payment_identifier \<Rightarrow> bool" where
  "same_lookup_id a b \<longleftrightarrow> payment_identifier_display a = payment_identifier_display b \<and>
     payment_identifier_kind a = payment_identifier_kind b"

definition get_mint_quote_by_request_lookup_id :: "payment_identifier \<Rightarrow> mint_db \<Rightarrow> db_error + mint_quote option" where
  "get_mint_quote_by_request_lookup_id lookup_id db =
     (case List.find (\<lambda>q. same_lookup_id (mq_request_lookup_id q) lookup_id) (d_mint_quotes db) of
        None \<Rightarrow> Inr None
      | Some row \<Rightarrow> rmap Some (with_history db row))"

definition get_mint_quotes_by_ids :: "quote_id list \<Rightarrow> mint_db \<Rightarrow> db_error + mint_quote option list" where
  "get_mint_quotes_by_ids ids db =
     (if ids = [] then Inr []
      else let rows = filter (\<lambda>q. mq_id q \<in> set ids) (d_mint_quotes db) in
        rbind (collect_res (\<lambda>row. sql_row_to_mint_quote row [] []) rows) (\<lambda>_.
        rbind (collect_res (with_history db) rows) (\<lambda>quotes.
          Inr (take_each (map_of (map (\<lambda>q. (mq_id q, q)) quotes)) [] ids))))"

definition get_mint_quotes :: "mint_db \<Rightarrow> db_error + mint_quote list" where
  "get_mint_quotes db =
     rbind (collect_res (\<lambda>row. sql_row_to_mint_quote row [] []) (d_mint_quotes db)) (\<lambda>_.
       collect_res (with_history db) (d_mint_quotes db))"

definition get_melt_quote :: "quote_id \<Rightarrow> mint_db \<Rightarrow> db_error + melt_quote option" where
  "get_melt_quote quote_id db = (case List.find (\<lambda>q. lq_id q = quote_id) (d_melt_quotes db) of
       None \<Rightarrow> Inr None
     | Some row \<Rightarrow> rmap Some (sql_row_to_melt_quote row))"

definition get_melt_quotes :: "mint_db \<Rightarrow> db_error + melt_quote list" where
  "get_melt_quotes db = collect_res sql_row_to_melt_quote (d_melt_quotes db)"

definition get_melt_quotes_by_request_lookup_id :: "payment_identifier \<Rightarrow> mint_db \<Rightarrow> db_error + melt_quote list" where
  "get_melt_quotes_by_request_lookup_id lookup_id db = collect_res sql_row_to_melt_quote
     (filter (\<lambda>q. case lq_request_lookup_id q of None \<Rightarrow> False | Some l \<Rightarrow> same_lookup_id l lookup_id) (d_melt_quotes db))"

record locked_melt_quotes =
  lk_target :: "melt_quote option"
  lk_all_related :: "melt_quote list"

text \<open>
  The rows of the locking query: those that share the lookup identifier of the quote, or the quote
  alone when it has none, by identifier.
\<close>

definition related_to :: "quote_id \<Rightarrow> mint_db \<Rightarrow> melt_quote \<Rightarrow> bool" where
  "related_to quote_id db q = (case List.find (\<lambda>q. lq_id q = quote_id) (d_melt_quotes db) of
       None \<Rightarrow> False
     | Some target \<Rightarrow> (case lq_request_lookup_id target of
         None \<Rightarrow> lq_id q = quote_id
       | Some l \<Rightarrow> (case lq_request_lookup_id q of None \<Rightarrow> False | Some l' \<Rightarrow> same_lookup_id l' l)))"

definition lock_melt_quote_and_related :: "quote_id \<Rightarrow> mint_db \<Rightarrow> db_error + locked_melt_quotes" where
  "lock_melt_quote_and_related quote_id db =
     rbind (collect_res sql_row_to_melt_quote (sort_key lq_id (filter (related_to quote_id db) (d_melt_quotes db)))) (\<lambda>all_quotes.
       Inr \<lparr> lk_target = List.find (\<lambda>q. lq_id q = quote_id) all_quotes, lk_all_related = all_quotes \<rparr>)"

section \<open>Writing quotes\<close>

definition add_mint_quote :: "mint_quote \<Rightarrow> mint_db \<Rightarrow> db_error + mint_db" where
  "add_mint_quote q db =
     (if payment_identifier_display (mq_request_lookup_id q) \<in>
           (payment_identifier_display \<circ> mq_request_lookup_id) ` set (d_mint_quotes db)
      then Inl Db_Duplicate
      else rmap (\<lambda>t. db\<lparr> d_mint_quotes := t \<rparr>) (insert_row mq_id
        (q\<lparr> mq_amount := (case mq_amount q of None \<Rightarrow> None
              | Some a \<Rightarrow> if amount_to_i64 (ta_value a) = None then None else Some a),
            mq_amount_paid := new_amount 0 (mq_unit q), mq_amount_issued := new_amount 0 (mq_unit q),
            mq_payments := [], mq_issuance := [], mq_extra_json := None, mq_changes := None \<rparr>) (d_mint_quotes db)))"

definition insert_payment :: "quote_id \<Rightarrow> incoming_payment \<Rightarrow> payment_row list \<Rightarrow> db_error + payment_row list" where
  "insert_payment quote_id p t = rbind (not_null_i64 (ta_value (ip_amount p))) (\<lambda>_.
     insert_row pay_payment_id \<lparr> pay_quote_id = quote_id, pay_payment_id = ip_payment_id p,
       pay_amount = ta_value (ip_amount p), pay_time = ip_time p \<rparr> t)"

definition insert_issued :: "quote_id \<Rightarrow> u64 \<Rightarrow> u64 \<Rightarrow> issued_row list \<Rightarrow> db_error + issued_row list" where
  "insert_issued quote_id now a t = rmap (\<lambda>_. t @ [\<lparr> isr_quote_id = quote_id, isr_amount = a, isr_time = now \<rparr>])
     (not_null_i64 a)"

definition set_amounts :: "mint_quote \<Rightarrow> mint_quote \<Rightarrow> mint_quote" where
  "set_amounts q row = row\<lparr> mq_amount_paid := mq_amount_paid q, mq_amount_issued := mq_amount_issued q \<rparr>"

definition update_mint_quote :: "u64 \<Rightarrow> mint_quote \<Rightarrow> mint_db \<Rightarrow> db_error + mint_quote \<times> mint_db" where
  "update_mint_quote now quote db = (case take_changes quote of
       (None, q) \<Rightarrow> Inr (q, db)
     | (Some changes, q) \<Rightarrow>
       if ch_issuances changes = None \<and> ch_payments changes = None then Inr (q, db)
       else rbind (insert_all (insert_payment (mq_id q)) (get_or_default [] (ch_payments changes)) (d_payments db)) (\<lambda>payments.
         rbind (insert_all (insert_issued (mq_id q) now) (get_or_default [] (ch_issuances changes)) (d_issued db)) (\<lambda>issued.
         rbind (not_null_i64 (ta_value (mq_amount_issued q))) (\<lambda>_.
         rbind (not_null_i64 (ta_value (mq_amount_paid q))) (\<lambda>_.
           Inr (q, db\<lparr> d_payments := payments, d_issued := issued,
              d_mint_quotes := update_rows (\<lambda>row. mq_id row = mq_id q) (set_amounts q) (d_mint_quotes db) \<rparr>))))))"

definition stored_melt_state :: "melt_quote_state \<Rightarrow> db_error + unit" where
  "stored_melt_state s = (if s \<in> {MQ_Unpaid, MQ_Pending, MQ_Paid} then Inr ()
     else Inl (Db_Database ''CHECK constraint failed''))"

definition add_melt_quote :: "melt_quote \<Rightarrow> mint_db \<Rightarrow> db_error + mint_db" where
  "add_melt_quote q db =
     rbind (not_null_i64 (ta_value (lq_amount q))) (\<lambda>_.
     rbind (not_null_i64 (ta_value (lq_fee_reserve q))) (\<lambda>_.
     rbind (stored_melt_state (lq_state q)) (\<lambda>_.
       rmap (\<lambda>t. db\<lparr> d_melt_quotes := t \<rparr>) (insert_row lq_id q (d_melt_quotes db)))))"

definition update_melt_row :: "quote_id \<Rightarrow> (melt_quote \<Rightarrow> melt_quote) \<Rightarrow> mint_db \<Rightarrow> mint_db" where
  "update_melt_row quote_id g db = db\<lparr> d_melt_quotes := update_rows (\<lambda>q. lq_id q = quote_id) g (d_melt_quotes db) \<rparr>"

definition update_melt_quote_request_lookup_id ::
  "melt_quote \<Rightarrow> payment_identifier \<Rightarrow> mint_db \<Rightarrow> melt_quote \<times> mint_db"
where
  "update_melt_quote_request_lookup_id q new_id db = (let g = (\<lambda>r. r\<lparr> lq_request_lookup_id := Some new_id \<rparr>)
     in (g q, update_melt_row (lq_id q) g db))"

section \<open>Melt requests\<close>

definition add_melt_request :: "quote_id \<Rightarrow> typed_amount \<Rightarrow> typed_amount \<Rightarrow> mint_db \<Rightarrow> db_error + mint_db" where
  "add_melt_request quote_id inputs_amount inputs_fee db =
     rbind (not_null_i64 (ta_value inputs_amount)) (\<lambda>_.
     rbind (not_null_i64 (ta_value inputs_fee)) (\<lambda>_.
       rmap (\<lambda>t. db\<lparr> d_melt_requests := t \<rparr>) (insert_row mrr_quote_id
         \<lparr> mrr_quote_id = quote_id, mrr_inputs_amount = ta_value inputs_amount, mrr_inputs_fee = ta_value inputs_fee \<rparr>
         (d_melt_requests db))))"

record melt_request_info =
  mi_inputs_amount :: typed_amount
  mi_inputs_fee :: typed_amount
  mi_change_outputs :: "blinded_message list"

definition message_of_row :: "sig_row \<Rightarrow> db_error + blinded_message" where
  "message_of_row r = rmap (\<lambda>a. new_blinded_message a (sr_keyset_id r) (sr_blinded_message r)) (column_as_u64 (sr_amount r))"

definition unsigned_for_quote :: "quote_id \<Rightarrow> sig_row \<Rightarrow> bool" where
  "unsigned_for_quote quote_id r \<longleftrightarrow> sr_quote_id r = Some quote_id \<and> sr_c r = None"

definition get_melt_request_and_blinded_messages :: "quote_id \<Rightarrow> mint_db \<Rightarrow> db_error + melt_request_info option" where
  "get_melt_request_and_blinded_messages quote_id db =
     (case (List.find (\<lambda>r. mrr_quote_id r = quote_id) (d_melt_requests db),
            List.find (\<lambda>q. lq_id q = quote_id) (d_melt_quotes db)) of
        (Some r, Some q) \<Rightarrow>
          rmap (\<lambda>ms. Some \<lparr> mi_inputs_amount = new_amount (mrr_inputs_amount r) (lq_unit q),
                 mi_inputs_fee = new_amount (mrr_inputs_fee r) (lq_unit q), mi_change_outputs = ms \<rparr>)
            (collect_res message_of_row (filter (unsigned_for_quote quote_id) (d_sigs db)))
      | _ \<Rightarrow> Inr None)"

definition delete_melt_request :: "quote_id \<Rightarrow> mint_db \<Rightarrow> mint_db" where
  "delete_melt_request quote_id db =
     db\<lparr> d_melt_requests := filter (\<lambda>r. mrr_quote_id r \<noteq> quote_id) (d_melt_requests db),
        d_sigs := filter (\<lambda>r. \<not> unsigned_for_quote quote_id r) (d_sigs db) \<rparr>"

definition update_melt_quote_state ::
  "u64 \<Rightarrow> melt_quote \<Rightarrow> melt_quote_state \<Rightarrow> string option \<Rightarrow> mint_db \<Rightarrow>
   db_error + melt_quote_state \<times> melt_quote \<times> mint_db"
where
  "update_melt_quote_state now quote state payment_proof db =
     rbind (map_err db_of_state (check_melt_quote_state_transition (lq_state quote) state)) (\<lambda>_.
     rbind (stored_melt_state state) (\<lambda>_.
       let g = (\<lambda>r. if state = MQ_Paid
                    then r\<lparr> lq_state := state, lq_paid_time := Some now, lq_payment_preimage := payment_proof \<rparr>
                    else r\<lparr> lq_state := state \<rparr>);
           db1 = update_melt_row (lq_id quote) g db;
           db2 = (if state = MQ_Unpaid \<or> state = MQ_Failed then delete_melt_request (lq_id quote) db1 else db1)
       in Inr (lq_state quote, g quote, db2)))"

definition get_blind_signatures_for_quote :: "quote_id \<Rightarrow> mint_db \<Rightarrow> db_error + blind_signature list" where
  "get_blind_signatures_for_quote quote_id db = collect_res signature_of_row
     (filter (\<lambda>r. sr_quote_id r = Some quote_id \<and> sr_c r \<noteq> None) (d_sigs db))"

text \<open>The statement of \<open>remove_proofs\<close>, whose effect stays in the transaction when the count it reports is wrong.\<close>

definition delete_unspent_proofs :: "public_key list \<Rightarrow> mint_db \<Rightarrow> mint_db" where
  "delete_unspent_proofs ys db =
     db\<lparr> d_proofs := filter (\<lambda>r. \<not> (pr_y r \<in> set ys \<and> pr_state r \<noteq> Spent)) (d_proofs db) \<rparr>"

end
