(* ===== verification/Melt.thy ===== *)
theory Melt
  imports Swap Mint_Db_Quotes
begin

text \<open>
  Melting: the steps shared by the saga and the recovery (\<open>crates/cdk/src/mint/melt/shared.rs\<close>), the
  melt saga (\<open>melt_saga/mod.rs\<close>, \<open>state.rs\<close>, \<open>compensation.rs\<close>) and the handlers \<open>melt\<close> and
  \<open>melt_async\<close> (\<open>melt/mod.rs\<close>). The payment backend is a parameter: the answers its \<open>make_payment\<close>
  and \<open>check_outgoing_payment\<close> give in this run. Every call of a transaction may fail by the fault
  assignment it is given; a transaction that is dropped without a commit has no effect. As in a
  release build, the debug assertion on an overpaid quote is not there. Publishing state changes and
  metrics are left out.
\<close>

section \<open>The payment backend\<close>

record make_payment_response =
  mp_payment_lookup_id :: payment_identifier
  mp_payment_proof :: "string option"
  mp_status :: melt_quote_state
  mp_total_spent :: typed_amount

text \<open>The request, the maximal fee, the time-out and the options of an outgoing payment.\<close>

datatype outgoing_payment_options =
    OP_Bolt11 string "typed_amount option" "u64 option" "melt_options option"
  | OP_Bolt12 string "typed_amount option" "u64 option" "melt_options option"
  | OP_Custom string string "typed_amount option" "u64 option" "melt_options option" "string option"

definition from_melt_quote_with_fee :: "melt_quote \<Rightarrow> payment_error + outgoing_payment_options" where
  "from_melt_quote_with_fee q = (let fee = Some (lq_fee_reserve q) in case lq_request q of
       MP_Bolt11 bolt11 \<Rightarrow> Inr (OP_Bolt11 bolt11 fee None (lq_options q))
     | MP_Bolt12 offer \<Rightarrow> (case lq_options q of
         Some (Mpp a) \<Rightarrow> Inl PE_UnsupportedUnit
       | options \<Rightarrow> Inr (OP_Bolt12 offer fee None options))
     | MP_Custom m request \<Rightarrow> Inr (OP_Custom m request fee None (lq_options q) None))"

record payment_backend =
  pb_make_payment :: "currency_unit \<Rightarrow> outgoing_payment_options \<Rightarrow> payment_error + make_payment_response"
  pb_check_outgoing_payment :: "payment_identifier \<Rightarrow> payment_error + make_payment_response"

type_synonym processors = "currency_unit \<Rightarrow> payment_method \<Rightarrow> payment_backend option"

section \<open>Shared steps\<close>

definition default_fee_and_amounts :: fee_and_amounts where
  "default_fee_and_amounts = \<lparr> fa_fee = 0, fa_amounts = map (\<lambda>x. 2 ^ x) [0..<32] \<rparr>"

definition get_keyset_fee_and_amounts :: "mint \<Rightarrow> blinded_message list \<Rightarrow> fee_and_amounts" where
  "get_keyset_fee_and_amounts M outputs =
     (case List.find (\<lambda>k. mk_active k \<and> (case outputs of [] \<Rightarrow> False | m # _ \<Rightarrow> mk_id k = bm_keyset_id m)) (m_keysets M) of
        Some k \<Rightarrow> \<lparr> fa_fee = mk_input_fee_ppk k, fa_amounts = mk_amounts k \<rparr>
      | None \<Rightarrow> default_fee_and_amounts)"

definition rollback_proofs :: "faults \<Rightarrow> public_key list \<Rightarrow> mint_db \<Rightarrow> cdk_error + mint_db" where
  "rollback_proofs f input_ys db =
     (if input_ys = [] then Inr db
      else (case faulty (f Remove_proofs) (remove_proofs input_ys db) of
          Inr db1 \<Rightarrow> Inr db1
        | Inl Db_AttemptRemoveSpentProof \<Rightarrow>
            Inr (if f Remove_proofs = None then delete_unspent_proofs input_ys db else db)
        | Inl e \<Rightarrow> Inl (cdk_of_db e)))"

definition rollback_melt_quote ::
  "faults \<Rightarrow> u64 \<Rightarrow> quote_id \<Rightarrow> public_key list \<Rightarrow> public_key list \<Rightarrow> uuid \<Rightarrow> mint_db \<Rightarrow> cdk_error + mint_db"
where
  "rollback_melt_quote f now quote_id input_ys blinded_secrets operation_id db =
     (if input_ys = [] \<and> blinded_secrets = [] then Inr db
      else rbind (map_err cdk_of_db (faulty (f Begin_tx) (Inr ()))) (\<lambda>_.
        rbind (rollback_proofs f input_ys db) (\<lambda>db1.
        rbind (if blinded_secrets = [] then Inr db1
               else map_err cdk_of_db (faulty (f Delete_blinded_messages)
                      (Inr (delete_blinded_messages blinded_secrets db1)))) (\<lambda>db2.
        rbind (map_err cdk_of_db (faulty (f Get_melt_quote) (get_melt_quote quote_id db2))) (\<lambda>m.
        rbind (case m of
                 None \<Rightarrow> Inr db2
               | Some quote \<Rightarrow> rmap (\<lambda>(_, _, db3). db3) (map_err cdk_of_db (faulty (f Update_melt_quote)
                   (update_melt_quote_state now quote MQ_Unpaid None db2)))) (\<lambda>db3.
        rbind (map_err cdk_of_db (faulty (f Delete_melt_request) (Inr (delete_melt_request quote_id db3)))) (\<lambda>db4.
        let db5 = (case f Delete_saga of None \<Rightarrow> delete_saga operation_id db4 | Some _ \<Rightarrow> db4) in
        rbind (map_err cdk_of_db (faulty (f Commit_tx) (Inr ()))) (\<lambda>_. Inr db5))))))))"

text \<open>
  The change of a melt: signed outside any transaction, stored in a new one that the caller commits.
  The result carries the database inside that transaction.
\<close>

definition change_messages :: "mint \<Rightarrow> u64 \<Rightarrow> blinded_message list \<Rightarrow> amount_error + blinded_message list" where
  "change_messages M change_target change_outputs =
     rmap (\<lambda>amounts.
       let amounts' = (if length change_outputs < length amounts then rev (sort amounts) else amounts)
       in map2 (\<lambda>a m. m\<lparr> bm_amount := a \<rparr>) amounts' change_outputs)
     (amount_split (get_keyset_fee_and_amounts M change_outputs) change_target)"

definition process_melt_change ::
  "mint \<Rightarrow> faults \<Rightarrow> u64 \<Rightarrow> secret_key list \<Rightarrow> quote_id \<Rightarrow> typed_amount \<Rightarrow> typed_amount \<Rightarrow> typed_amount \<Rightarrow>
   blinded_message list \<Rightarrow> mint_db \<Rightarrow> cdk_error + blind_signature list option \<times> mint_db"
where
  "process_melt_change M f now nonces quote_id inputs_amount total_spent inputs_fee change_outputs db =
     (if \<not> typed_partial_cmp_lt total_spent inputs_amount \<or> change_outputs = []
      then rbind (map_err cdk_of_db (faulty (f Begin_tx) (Inr ()))) (\<lambda>_. Inr (None, db))
      else rbind (map_err E_AmountError (typed_checked_sub inputs_amount total_spent)) (\<lambda>rest.
        rbind (map_err E_AmountError (typed_checked_sub rest inputs_fee)) (\<lambda>change_target.
        rbind (map_err E_AmountError (change_messages M (ta_value change_target) change_outputs)) (\<lambda>to_sign.
        rbind (blind_sign M nonces to_sign) (\<lambda>change_sigs.
        rbind (map_err cdk_of_db (faulty (f Begin_tx) (Inr ()))) (\<lambda>_.
        rbind (map_err cdk_of_db (faulty (f Add_blind_signatures)
                 (add_blind_signatures now (map bm_blinded_secret to_sign) change_sigs (Some quote_id) db))) (\<lambda>db1.
          Inr (Some change_sigs, db1))))))))"

definition conflicts :: "melt_quote \<Rightarrow> melt_quote \<Rightarrow> bool" where
  "conflicts quote q \<longleftrightarrow> lq_id q \<noteq> lq_id quote \<and> (lq_state q = MQ_Pending \<or> lq_state q = MQ_Paid)"

definition load_melt_quotes_exclusively :: "faults \<Rightarrow> quote_id \<Rightarrow> mint_db \<Rightarrow> cdk_error + melt_quote" where
  "load_melt_quotes_exclusively f quote_id db =
     rbind (map_err (\<lambda>e. cdk_of_db (case e of Db_Locked \<Rightarrow> Db_Duplicate | _ \<Rightarrow> e))
              (faulty (f Lock_melt_quotes) (lock_melt_quote_and_related quote_id db))) (\<lambda>locked.
     rbind (ok_or E_UnknownQuote (lk_target locked)) (\<lambda>quote.
       case List.find (conflicts quote) (lk_all_related locked) of
         None \<Rightarrow> Inr quote
       | Some q \<Rightarrow> Inl (if lq_state q = MQ_Pending then E_PendingQuote else E_RequestAlreadyPaid)))"

definition finalize_melt_core ::
  "ext \<Rightarrow> faults \<Rightarrow> u64 \<Rightarrow> melt_quote \<Rightarrow> public_key list \<Rightarrow> typed_amount \<Rightarrow> typed_amount \<Rightarrow> typed_amount \<Rightarrow>
   string option \<Rightarrow> payment_identifier \<Rightarrow> mint_db \<Rightarrow> cdk_error + melt_quote \<times> mint_db"
where
  "finalize_melt_core X f now quote input_ys inputs_amount inputs_fee total_spent payment_preimage payment_lookup_id db =
     (if typed_partial_cmp_lt total_spent (lq_amount quote) then Inl E_IncorrectQuoteAmount
      else rbind (map_err E_AmountError (typed_checked_sub inputs_amount inputs_fee)) (\<lambda>net_inputs.
        rbind (map_err E_AmountError (convert_to total_spent (ta_unit net_inputs))) (\<lambda>_.
        rbind (map_err cdk_of_db (faulty (f Update_melt_quote)
                 (update_melt_quote_state now quote MQ_Paid payment_preimage db))) (\<lambda>(_, quote1, db1).
        rbind (if lq_request_lookup_id quote1 \<noteq> Some payment_lookup_id
               then map_err cdk_of_db (faulty (f Update_lookup_id)
                      (Inr (update_melt_quote_request_lookup_id quote1 payment_lookup_id db1)))
               else Inr (quote1, db1)) (\<lambda>(quote2, db2).
        rbind (map_err cdk_of_db (faulty (f Get_proofs) (get_proofs input_ys db2))) (\<lambda>proofs.
        rbind (update_proofs_state X (f Update_proofs_state) proofs Spent db2) (\<lambda>(_, db3).
          Inr (quote2, db3))))))))"

text \<open>
  The finalization of the recovery. \<open>f1\<close> and \<open>f2\<close> are the faults of its two transactions, and
  \<open>fr\<close> those of the read in between.
\<close>

definition finalize_first_tx ::
  "ext \<Rightarrow> faults \<Rightarrow> u64 \<Rightarrow> quote_id \<Rightarrow> typed_amount \<Rightarrow> string option \<Rightarrow> payment_identifier \<Rightarrow> mint_db \<Rightarrow>
   cdk_error + (melt_request_info \<times> mint_db) option"
where
  "finalize_first_tx X f quote_now quote_id total_spent payment_preimage payment_lookup_id db =
     rbind (map_err cdk_of_db (faulty (f Begin_tx) (Inr ()))) (\<lambda>_.
     rbind (load_melt_quotes_exclusively f quote_id db) (\<lambda>locked_quote.
     rbind (map_err cdk_of_db (faulty (f Get_melt_request) (get_melt_request_and_blinded_messages quote_id db))) (\<lambda>m.
     case m of
       None \<Rightarrow> rbind (map_err cdk_of_db (faulty (f Rollback_tx) (Inr ()))) (\<lambda>_. Inr None)
     | Some info \<Rightarrow>
        rbind (map_err cdk_of_db (faulty (f Get_proof_ys) (get_proof_ys_by_quote_id X quote_id db))) (\<lambda>input_ys.
        if input_ys = [] then rbind (map_err cdk_of_db (faulty (f Rollback_tx) (Inr ()))) (\<lambda>_. Inr None)
        else rbind (if lq_state locked_quote = MQ_Paid then Inr db
                    else rmap snd (finalize_melt_core X f quote_now locked_quote input_ys (mi_inputs_amount info)
                           (mi_inputs_fee info) total_spent payment_preimage payment_lookup_id db)) (\<lambda>db1.
             rbind (map_err cdk_of_db (faulty (f Commit_tx) (Inr ()))) (\<lambda>_. Inr (Some (info, db1))))))))"

definition finalize_melt_quote ::
  "mint \<Rightarrow> faults \<Rightarrow> faults \<Rightarrow> faults \<Rightarrow> u64 \<Rightarrow> secret_key list \<Rightarrow> quote_id \<Rightarrow> typed_amount \<Rightarrow> string option \<Rightarrow>
   payment_identifier \<Rightarrow> mint_db \<Rightarrow> (cdk_error + blind_signature list option) \<times> mint_db"
where
  "finalize_melt_quote M f1 fr f2 now nonces quote_id total_spent payment_preimage payment_lookup_id db =
     (case finalize_first_tx (m_ext M) f1 now quote_id total_spent payment_preimage payment_lookup_id db of
        Inl e \<Rightarrow> (Inl e, db)
      | Inr None \<Rightarrow> (Inr None, db)
      | Inr (Some (info, db1)) \<Rightarrow>
     (case map_err cdk_of_db (faulty (fr Get_signatures) (get_blind_signatures_for_quote quote_id db1)) of
        Inl e \<Rightarrow> (Inl e, db1)
      | Inr existing_sigs \<Rightarrow>
     (case (if typed_partial_cmp_lt total_spent (mi_inputs_amount info) \<and> existing_sigs \<noteq> []
            then rbind (map_err cdk_of_db (faulty (f2 Begin_tx) (Inr ()))) (\<lambda>_. Inr (Some existing_sigs, db1))
            else process_melt_change M f2 now nonces quote_id (mi_inputs_amount info) total_spent
                   (mi_inputs_fee info) (mi_change_outputs info) db1) of
        Inl e \<Rightarrow> (Inl e, db1)
      | Inr (change_sigs, db2) \<Rightarrow>
     (case rbind (map_err cdk_of_db (faulty (f2 Delete_melt_request) (Inr (delete_melt_request quote_id db2)))) (\<lambda>db3.
             rbind (map_err cdk_of_db (faulty (f2 Commit_tx) (Inr ()))) (\<lambda>_. Inr db3)) of
        Inl e \<Rightarrow> (Inl e, db1)
      | Inr db3 \<Rightarrow> (Inr change_sigs, db3)))))"

section \<open>The saga\<close>

record remove_melt_setup =
  rm_input_ys :: "public_key list"
  rm_blinded_secrets :: "public_key list"
  rm_quote_id :: quote_id
  rm_operation_id :: uuid

definition remove_melt_setup_execute :: "faults \<Rightarrow> u64 \<Rightarrow> remove_melt_setup \<Rightarrow> mint_db \<Rightarrow> cdk_error + mint_db" where
  "remove_melt_setup_execute f now c db =
     rollback_melt_quote f now (rm_quote_id c) (rm_input_ys c) (rm_blinded_secrets c) (rm_operation_id c) db"

record melt_setup_complete =
  mc_quote :: melt_quote
  mc_input_ys :: "public_key list"
  mc_blinded_messages :: "blinded_message list"
  mc_operation :: operation
  mc_fee_breakdown :: proofs_fee_breakdown

record payment_confirmed = melt_setup_complete +
  mc_payment_result :: make_payment_response

datatype settlement_decision = SD_Internal typed_amount | SD_RequiresExternalPayment

record 'a melt_saga =
  ms_compensations :: "remove_melt_setup list"
  ms_operation_id :: uuid
  ms_state_data :: 'a

fun melt_compensate_all :: "faults \<Rightarrow> u64 \<Rightarrow> remove_melt_setup list \<Rightarrow> mint_db \<Rightarrow> mint_db" where
  "melt_compensate_all f now [] db = db"
| "melt_compensate_all f now (c # cs) db =
     melt_compensate_all f now cs (case remove_melt_setup_execute f now c db of Inr db' \<Rightarrow> db' | Inl _ \<Rightarrow> db)"

text \<open>
  The setup transaction. Where the code leaves it through the question mark it drops the open
  transaction, and where it rolls back first a failing rollback replaces the error.
\<close>

definition check_change_outputs :: "mint \<Rightarrow> verification \<Rightarrow> blinded_message list option \<Rightarrow> cdk_error + unit" where
  "check_change_outputs M input_verification outputs = (case outputs of
       None \<Rightarrow> Inr ()
     | Some ms \<Rightarrow> if ms = [] then Inr ()
         else rbind (verify_outputs M ms) (\<lambda>ov.
           if ta_unit (v_amount input_verification) \<noteq> ta_unit (v_amount ov) then Inl E_UnitMismatch else Inr ()))"

definition check_quote_open :: "melt_quote_state \<Rightarrow> cdk_error + unit" where
  "check_quote_open s = (case s of
       MQ_Unpaid \<Rightarrow> Inr () | MQ_Failed \<Rightarrow> Inr () | MQ_Pending \<Rightarrow> Inl E_PendingQuote
     | MQ_Paid \<Rightarrow> Inl E_PaidQuote | MQ_Unknown \<Rightarrow> Inl E_UnknownPaymentState)"

text \<open>The amounts a melt needs: the quote, its fee reserve and the input fee.\<close>

definition check_melt_balance :: "faults \<Rightarrow> typed_amount \<Rightarrow> melt_quote \<Rightarrow> typed_amount \<Rightarrow> cdk_error + unit" where
  "check_melt_balance f input_amount quote inputs_fee =
     rbind (map_err E_AmountError (typed_checked_add (lq_amount quote) (lq_fee_reserve quote))) (\<lambda>needed.
     rbind (map_err E_AmountError (typed_checked_add needed inputs_fee)) (\<lambda>required_total.
       if typed_partial_cmp_lt input_amount required_total
       then rbind (map_err cdk_of_db (faulty (f Rollback_tx) (Inr ()))) (\<lambda>_.
         rbind (map_err E_AmountError (typed_checked_add inputs_fee (lq_fee_reserve quote))) (\<lambda>fees.
           Inl (E_TransactionUnbalanced (ta_value input_amount) (ta_value (lq_amount quote)) (ta_value fees))))
       else Inr ()))"

definition setup_melt ::
  "mint \<Rightarrow> bool \<Rightarrow> faults \<Rightarrow> u64 \<Rightarrow> uuid \<Rightarrow> melt_request \<Rightarrow> verification \<Rightarrow> payment_method \<Rightarrow> mint_db \<Rightarrow>
   cdk_error + melt_setup_complete melt_saga \<times> mint_db"
where
  "setup_melt M legacy f now i req input_verification payment_method db =
     (let X = m_ext M; input_amount = v_amount input_verification; outputs = get_or_default [] (mr_outputs req) in
      rbind (check_change_outputs M input_verification (mr_outputs req)) (\<lambda>_.
      rbind (map_err E_NUT11 (verify_melt_conditions X legacy now req)) (\<lambda>_.
      rbind (map_err cdk_of_db (faulty (f Begin_tx) (Inr ()))) (\<lambda>_.
      rbind (map_err (after_rollback f) (load_melt_quotes_exclusively f (mr_quote req) db)) (\<lambda>quote.
      rbind (get_proofs_fee M (mr_inputs req)) (\<lambda>fee_breakdown.
      let d = operation_new i Op_Melt 0 (ta_value input_amount) (fb_total fee_breakdown) None (Some payment_method) in
      rbind (map_err (\<lambda>e. after_rollback f (add_proofs_error e))
               (faulty (f Add_proofs) (add_proofs X now (mr_inputs req) (Some (mr_quote req)) d db))) (\<lambda>(_, db1).
      rbind (map_err E_NUT00 (proofs_ys X (mr_inputs req))) (\<lambda>input_ys.
      rbind (map_err cdk_of_db (faulty (f Get_proofs) (get_proofs input_ys db1))) (\<lambda>proofs.
      rbind (map_err (after_rollback f) (update_proofs_state X (f Update_proofs_state) proofs Pending db1)) (\<lambda>(_, db2).
      rbind (if ta_unit input_amount \<noteq> lq_unit quote then Inl (after_rollback f E_UnitMismatch) else Inr ()) (\<lambda>_.
      rbind (map_err (after_rollback f) (check_quote_open (lq_state quote))) (\<lambda>_.
      rbind (map_err (\<lambda>e. after_rollback f (cdk_of_db e)) (faulty (f Update_melt_quote)
               (update_melt_quote_state now quote MQ_Pending None db2))) (\<lambda>(_, quote1, db3).
      rbind (get_proofs_fee M (mr_inputs req)) (\<lambda>inputs_fee_breakdown.
      let inputs_fee = new_amount (fb_total inputs_fee_breakdown) (lq_unit quote1) in
      rbind (check_melt_balance f input_amount quote1 inputs_fee) (\<lambda>_.
      rbind (map_err (\<lambda>_. E_NUT05_AmountOverflow) (melt_inputs_amount req)) (\<lambda>inputs_amount.
      rbind (map_err cdk_of_db (faulty (f Add_melt_request)
               (add_melt_request (mr_quote req) (new_amount inputs_amount (lq_unit quote1)) inputs_fee db3))) (\<lambda>db4.
      rbind (map_err cdk_of_db (faulty (f Add_blinded_messages)
               (add_blinded_messages now (Some (mr_quote req)) outputs d db4))) (\<lambda>db5.
      rbind (map_err (\<lambda>e. after_rollback f (cdk_of_db e))
               (faulty (f Add_saga) (add_saga now (saga_new_melt now i MeltSetupComplete (lq_id quote1)) db5))) (\<lambda>db6.
      rbind (map_err cdk_of_db (faulty (f Commit_tx) (Inr ()))) (\<lambda>_.
        Inr (\<lparr> ms_compensations = [\<lparr> rm_input_ys = input_ys, rm_blinded_secrets = map bm_blinded_secret outputs,
                                    rm_quote_id = lq_id quote1, rm_operation_id = i \<rparr>],
              ms_operation_id = i,
              ms_state_data = \<lparr> mc_quote = quote1, mc_input_ys = input_ys, mc_blinded_messages = outputs,
                                mc_operation = d, mc_fee_breakdown = fee_breakdown \<rparr> \<rparr>, db6)))))))))))))))))))))"

text \<open>Roll back, compensate and return the error; a failing rollback returns before the compensation.\<close>

definition abort_melt ::
  "faults \<Rightarrow> faults \<Rightarrow> u64 \<Rightarrow> remove_melt_setup list \<Rightarrow> mint_db \<Rightarrow> cdk_error \<Rightarrow> (cdk_error + 'a) \<times> mint_db"
where
  "abort_melt f fc now cs db err = (case f Rollback_tx of
       Some e \<Rightarrow> (Inl (cdk_of_db e), db)
     | None \<Rightarrow> (Inl err, melt_compensate_all fc now cs db))"

definition settle_mint_quote ::
  "faults \<Rightarrow> u64 \<Rightarrow> uuid \<Rightarrow> melt_quote \<Rightarrow> mint_quote \<Rightarrow> mint_db \<Rightarrow> cdk_error + mint_db"
where
  "settle_mint_quote f now i quote mint_quote db =
     rbind (map_err cdk_of_db (faulty (f Update_saga) (Inr (update_saga now i (SagaMelt MeltPaymentAttempted) db)))) (\<lambda>db1.
     rbind (add_payment now mint_quote (lq_amount quote) (lq_id quote) None) (\<lambda>mint_quote1.
     rbind (map_err cdk_of_db (faulty (f Update_mint_quote) (update_mint_quote now mint_quote1 db1))) (\<lambda>(_, db2).
     rbind (map_err cdk_of_db (faulty (f Commit_tx) (Inr ()))) (\<lambda>_. Inr db2))))"

definition attempt_internal_settlement ::
  "faults \<Rightarrow> faults \<Rightarrow> u64 \<Rightarrow> melt_request \<Rightarrow> melt_setup_complete melt_saga \<Rightarrow> mint_db \<Rightarrow>
   (cdk_error + settlement_decision) \<times> mint_db"
where
  "attempt_internal_settlement f fc now req s db =
     (let quote = mc_quote (ms_state_data s); abort = abort_melt f fc now (ms_compensations s) db in
      case f Begin_tx of Some e \<Rightarrow> (Inl (cdk_of_db e), db) | None \<Rightarrow>
      (case faulty (f Get_mint_quote) (get_mint_quote_by_request (melt_payment_request_display (lq_request quote)) db) of
         Inl _ \<Rightarrow> abort E_Internal
       | Inr m \<Rightarrow>
         (case m of
            None \<Rightarrow> (map_err cdk_of_db (faulty (f Rollback_tx) (Inr SD_RequiresExternalPayment)), db)
          | Some mint_quote \<Rightarrow>
            if mq_unit mint_quote \<noteq> lq_unit quote
            then (map_err cdk_of_db (faulty (f Rollback_tx) (Inr SD_RequiresExternalPayment)), db)
            else if (compute_quote_state mint_quote = NQ_Issued \<or> compute_quote_state mint_quote = NQ_Paid)
                    \<and> mq_payment_method mint_quote = KnownMethod Bolt11
            then abort E_RequestAlreadyPaid
            else (case melt_inputs_amount req of
                Inl _ \<Rightarrow> (Inl E_AmountOverflow, db)
              | Inr inputs_amount \<Rightarrow>
                if (case mq_amount mint_quote of None \<Rightarrow> False
                    | Some a \<Rightarrow> typed_partial_cmp_lt (new_amount inputs_amount (mq_unit mint_quote)) a)
                then abort E_InsufficientFunds
                else (case settle_mint_quote f now (ms_operation_id s) quote mint_quote db of
                    Inl e \<Rightarrow> (Inl e, db)
                  | Inr db' \<Rightarrow> (Inr (SD_Internal (lq_amount quote)), db'))))))"

definition own_lookup_id :: "melt_quote \<Rightarrow> payment_identifier" where
  "own_lookup_id quote = get_or_default (PI_CustomId (lq_id quote)) (lq_request_lookup_id quote)"

definition handle_internal_payment :: "melt_quote \<Rightarrow> typed_amount \<Rightarrow> make_payment_response" where
  "handle_internal_payment quote amount = \<lparr> mp_payment_lookup_id = own_lookup_id quote, mp_payment_proof = None,
     mp_status = MQ_Paid, mp_total_spent = amount \<rparr>"

definition check_payment_state :: "payment_backend \<Rightarrow> payment_identifier \<Rightarrow> cdk_error + make_payment_response" where
  "check_payment_state ln lookup_id = map_err (\<lambda>_. E_Internal) (pb_check_outgoing_payment ln lookup_id)"

definition unknown_as_failed :: "make_payment_response \<Rightarrow> make_payment_response" where
  "unknown_as_failed r = (if mp_status r = MQ_Unknown then r\<lparr> mp_status := MQ_Failed \<rparr> else r)"

definition verify_ambiguous_payment :: "payment_backend \<Rightarrow> make_payment_response \<Rightarrow> cdk_error + make_payment_response" where
  "verify_ambiguous_payment ln pay =
     rbind (check_payment_state ln (mp_payment_lookup_id pay)) (\<lambda>check_response.
       if mp_status check_response = MQ_Paid then Inr check_response
       else if mp_status pay = MQ_Pending \<and> mp_status check_response = MQ_Unknown then Inr pay
       else Inr (unknown_as_failed check_response))"

definition handle_payment_error :: "payment_backend \<Rightarrow> melt_quote \<Rightarrow> payment_error \<Rightarrow> cdk_error + make_payment_response" where
  "handle_payment_error ln quote err =
     rbind (ok_or E_Internal (lq_request_lookup_id quote)) (\<lambda>lookup_id.
       rmap unknown_as_failed (check_payment_state ln lookup_id))"

definition execute_payment_and_verify :: "payment_backend \<Rightarrow> melt_quote \<Rightarrow> cdk_error + make_payment_response" where
  "execute_payment_and_verify ln quote =
     rbind (map_err E_Payment (from_melt_quote_with_fee quote)) (\<lambda>payment_options.
       case pb_make_payment ln (lq_unit quote) payment_options of
         Inr pay \<Rightarrow> if mp_status pay = MQ_Paid then Inr pay else verify_ambiguous_payment ln pay
       | Inl err \<Rightarrow> handle_payment_error ln quote err)"

definition attempt_external_payment ::
  "processors \<Rightarrow> faults \<Rightarrow> u64 \<Rightarrow> uuid \<Rightarrow> melt_quote \<Rightarrow> mint_db \<Rightarrow> (cdk_error + make_payment_response) \<times> mint_db"
where
  "attempt_external_payment P f now i quote db = (case P (lq_unit quote) (lq_payment_method quote) of
       None \<Rightarrow> (Inl E_UnsupportedUnit, db)
     | Some ln \<Rightarrow>
       (case rbind (map_err cdk_of_db (faulty (f Begin_tx) (Inr ()))) (\<lambda>_.
               rbind (map_err cdk_of_db (faulty (f Update_saga) (Inr (update_saga now i (SagaMelt MeltPaymentAttempted) db)))) (\<lambda>db1.
               map_err cdk_of_db (faulty (f Commit_tx) (Inr db1)))) of
          Inl e \<Rightarrow> (Inl e, db)
        | Inr db1 \<Rightarrow> (execute_payment_and_verify ln quote, db1)))"

definition confirm :: "melt_setup_complete melt_saga \<Rightarrow> make_payment_response \<Rightarrow> payment_confirmed melt_saga" where
  "confirm s r = \<lparr> ms_compensations = ms_compensations s, ms_operation_id = ms_operation_id s,
     ms_state_data = melt_setup_complete.extend (ms_state_data s) \<lparr> mc_payment_result = r \<rparr> \<rparr>"

definition make_payment ::
  "processors \<Rightarrow> faults \<Rightarrow> faults \<Rightarrow> u64 \<Rightarrow> settlement_decision \<Rightarrow> melt_setup_complete melt_saga \<Rightarrow> mint_db \<Rightarrow>
   (cdk_error + payment_confirmed melt_saga) \<times> mint_db"
where
  "make_payment P f fc now settlement s db = (let quote = mc_quote (ms_state_data s) in case settlement of
       SD_Internal amount \<Rightarrow> (Inr (confirm s (handle_internal_payment quote amount)), db)
     | SD_RequiresExternalPayment \<Rightarrow>
       (case attempt_external_payment P f now (ms_operation_id s) quote db of
          (Inl e, db1) \<Rightarrow> (Inl e, db1)
        | (Inr response, db1) \<Rightarrow> (case mp_status response of
            MQ_Paid \<Rightarrow> (Inr (confirm s response), db1)
          | MQ_Unpaid \<Rightarrow> (Inl E_PaymentFailed, melt_compensate_all fc now (ms_compensations s) db1)
          | MQ_Failed \<Rightarrow> (Inl E_PaymentFailed, melt_compensate_all fc now (ms_compensations s) db1)
          | MQ_Unknown \<Rightarrow> (Inl E_PendingQuote, db1)
          | MQ_Pending \<Rightarrow> (Inl E_PendingQuote, db1))))"

record melt_quote_response =
  qr_amount :: u64
  qr_payment_preimage :: "string option"
  qr_change :: "blind_signature list option"
  qr_quote :: quote_id
  qr_fee_reserve :: u64
  qr_state :: melt_quote_state
  qr_expiry :: u64
  qr_request :: "string option"
  qr_unit :: "currency_unit option"

definition melt_response ::
  "melt_quote \<Rightarrow> melt_quote_state \<Rightarrow> string option \<Rightarrow> blind_signature list option \<Rightarrow> melt_quote_response"
where
  "melt_response quote state payment_preimage change = \<lparr> qr_amount = ta_value (lq_amount quote),
     qr_payment_preimage = payment_preimage, qr_change = change, qr_quote = lq_id quote,
     qr_fee_reserve = ta_value (lq_fee_reserve quote), qr_state = state, qr_expiry = lq_expiry quote,
     qr_request = Some (melt_payment_request_display (lq_request quote)), qr_unit = Some (lq_unit quote) \<rparr>"

text \<open>
  The end of \<open>finalize\<close>, in the transaction that is open then. The sum of the change is within the
  range of an amount whenever this is reached; the error of that sum stands for the panic of
  \<open>expect\<close>.
\<close>

definition finish_melt ::
  "faults \<Rightarrow> u64 \<Rightarrow> typed_amount \<Rightarrow> blind_signature list option \<Rightarrow> payment_confirmed melt_saga \<Rightarrow> mint_db \<Rightarrow>
   cdk_error + melt_quote_response \<times> mint_db"
where
  "finish_melt f now total_spent change s db =
     (let d = ms_state_data s; quote = mc_quote d in
      rbind (map_err cdk_of_db (faulty (f Delete_melt_request) (Inr (delete_melt_request (lq_id quote) db)))) (\<lambda>db1.
      let db2 = (case f Delete_saga of None \<Rightarrow> delete_saga (ms_operation_id s) db1 | Some _ \<Rightarrow> db1) in
      rbind (map_err E_AmountError (try_sum (map bs_amount (get_or_default [] change)))) (\<lambda>change_amount.
      rbind (map_err E_AmountError (typed_checked_sub total_spent (lq_amount quote))) (\<lambda>payment_fee.
      let op = set_payment_details (add_change (mc_operation d) change_amount)
                 (ta_value (lq_amount quote)) (ta_value payment_fee) in
      rbind (map_err cdk_of_db (faulty (f Add_completed_operation)
               (add_completed_operation now op (fb_per_keyset (mc_fee_breakdown d)) db2))) (\<lambda>db3.
      rbind (map_err cdk_of_db (faulty (f Commit_tx) (Inr ()))) (\<lambda>_.
        Inr (melt_response quote MQ_Paid (mp_payment_proof (mc_payment_result d)) change, db3)))))))"

definition finalize_melt_first ::
  "ext \<Rightarrow> faults \<Rightarrow> u64 \<Rightarrow> typed_amount \<Rightarrow> payment_confirmed melt_saga \<Rightarrow> mint_db \<Rightarrow> cdk_error + melt_request_info \<times> mint_db"
where
  "finalize_melt_first X f now total_spent s db =
     (let d = ms_state_data s; quote_id = lq_id (mc_quote d) in
      rbind (map_err cdk_of_db (faulty (f Begin_tx) (Inr ()))) (\<lambda>_.
      rbind (load_melt_quotes_exclusively f quote_id db) (\<lambda>quote.
      rbind (map_err cdk_of_db (faulty (f Get_melt_request) (get_melt_request_and_blinded_messages quote_id db))) (\<lambda>m.
      rbind (ok_or E_UnknownQuote m) (\<lambda>info.
      rbind (map_err (after_rollback f) (finalize_melt_core X f now quote (mc_input_ys d) (mi_inputs_amount info)
               (mi_inputs_fee info) total_spent (mp_payment_proof (mc_payment_result d))
               (mp_payment_lookup_id (mc_payment_result d)) db)) (\<lambda>(_, db1).
        Inr (info, db1)))))))"

definition finalize_melt ::
  "mint \<Rightarrow> faults \<Rightarrow> faults \<Rightarrow> u64 \<Rightarrow> secret_key list \<Rightarrow> payment_confirmed melt_saga \<Rightarrow> mint_db \<Rightarrow>
   (cdk_error + melt_quote_response) \<times> mint_db"
where
  "finalize_melt M f1 f2 now nonces s db =
     (let quote = mc_quote (ms_state_data s) in
      case map_err (\<lambda>_. E_UnitMismatch) (convert_to (mp_total_spent (mc_payment_result (ms_state_data s))) (lq_unit quote)) of
        Inl e \<Rightarrow> (Inl e, db)
      | Inr total_spent \<Rightarrow>
      (case finalize_melt_first (m_ext M) f1 now total_spent s db of
         Inl e \<Rightarrow> (Inl e, db)
       | Inr (info, db1) \<Rightarrow>
         if \<not> typed_partial_cmp_lt total_spent (mi_inputs_amount info)
         then (case finish_melt f1 now total_spent None s db1 of
             Inl e \<Rightarrow> (Inl e, db) | Inr (response, db2) \<Rightarrow> (Inr response, db2))
         else (case rbind (map_err cdk_of_db (faulty (f1 Update_saga)
                        (Inr (update_saga now (ms_operation_id s) (SagaMelt MeltFinalizing) db1)))) (\<lambda>db2.
                    map_err cdk_of_db (faulty (f1 Commit_tx) (Inr db2))) of
             Inl e \<Rightarrow> (Inl e, db)
           | Inr db2 \<Rightarrow>
             (case rbind (process_melt_change M f2 now nonces (lq_id quote) (mi_inputs_amount info) total_spent
                            (mi_inputs_fee info) (mi_change_outputs info) db2) (\<lambda>(change, db3).
                     finish_melt f2 now total_spent change s db3) of
                Inl e \<Rightarrow> (Inl e, db2)
              | Inr (response, db4) \<Rightarrow> (Inr response, db4)))))"

section \<open>The handlers\<close>

text \<open>
  The faults of a melt: reading the quote, the setup transaction, the internal settlement, the
  write-ahead of the payment, the two transactions of \<open>finalize\<close>, and the compensation.
\<close>

record melt_faults =
  mf_read :: "db_error option"
  mf_setup :: faults
  mf_settle :: faults
  mf_attempt :: faults
  mf_first :: faults
  mf_second :: faults
  mf_compensate :: faults

definition no_melt_faults :: melt_faults where
  "no_melt_faults = \<lparr> mf_read = None, mf_setup = no_faults, mf_settle = no_faults, mf_attempt = no_faults,
     mf_first = no_faults, mf_second = no_faults, mf_compensate = no_faults \<rparr>"

definition begin_melt ::
  "mint \<Rightarrow> bool \<Rightarrow> melt_faults \<Rightarrow> u64 \<Rightarrow> uuid \<Rightarrow> melt_request \<Rightarrow> mint_db \<Rightarrow>
   cdk_error + melt_quote \<times> melt_setup_complete melt_saga \<times> mint_db"
where
  "begin_melt M legacy F now i req db =
     rbind (case mr_outputs req of
              None \<Rightarrow> Inr ()
            | Some ms \<Rightarrow> if length ms > m_max_outputs M then Inl (E_MaxOutputsExceeded (length ms) (m_max_outputs M))
                         else Inr ()) (\<lambda>_.
     rbind (verify_inputs M (mr_inputs req)) (\<lambda>verification.
     rbind (map_err cdk_of_db (faulty (mf_read F) (get_melt_quote (mr_quote req) db))) (\<lambda>m.
     rbind (ok_or E_UnknownQuote m) (\<lambda>quote.
     rbind (setup_melt M legacy (mf_setup F) now i req verification (lq_payment_method quote) db) (\<lambda>(s, db1).
       Inr (quote, s, db1))))))"

definition complete_melt ::
  "mint \<Rightarrow> processors \<Rightarrow> melt_faults \<Rightarrow> u64 \<Rightarrow> secret_key list \<Rightarrow> melt_request \<Rightarrow> melt_setup_complete melt_saga \<Rightarrow> mint_db \<Rightarrow>
   (cdk_error + melt_quote_response) \<times> mint_db"
where
  "complete_melt M P F now nonces req s db =
     (case attempt_internal_settlement (mf_settle F) (mf_compensate F) now req s db of
        (Inl e, db1) \<Rightarrow> (Inl e, db1)
      | (Inr settlement, db1) \<Rightarrow>
     (case make_payment P (mf_attempt F) (mf_compensate F) now settlement s db1 of
        (Inl e, db2) \<Rightarrow> (Inl e, db2)
      | (Inr payment_saga, db2) \<Rightarrow> finalize_melt M (mf_first F) (mf_second F) now nonces payment_saga db2))"

definition melt ::
  "mint \<Rightarrow> processors \<Rightarrow> bool \<Rightarrow> melt_faults \<Rightarrow> u64 \<Rightarrow> uuid \<Rightarrow> secret_key list \<Rightarrow> melt_request \<Rightarrow> mint_db \<Rightarrow>
   (cdk_error + melt_quote_response) \<times> mint_db"
where
  "melt M P legacy F now i nonces req db = (case begin_melt M legacy F now i req db of
       Inl e \<Rightarrow> (Inl e, db)
     | Inr (_, s, db1) \<Rightarrow> complete_melt M P F now nonces req s db1)"

text \<open>
  The asynchronous form answers after the setup; the background task then is \<open>complete_melt\<close> on the
  database of that time, with its result logged.
\<close>

definition melt_async ::
  "mint \<Rightarrow> bool \<Rightarrow> melt_faults \<Rightarrow> u64 \<Rightarrow> uuid \<Rightarrow> melt_request \<Rightarrow> mint_db \<Rightarrow>
   cdk_error + melt_quote_response \<times> melt_setup_complete melt_saga \<times> mint_db"
where
  "melt_async M legacy F now i req db = rmap (\<lambda>(quote, s, db1). (melt_response quote MQ_Pending None None, s, db1))
     (begin_melt M legacy F now i req db)"

end
