(* ===== verification/Melt_Recovery.thy ===== *)
theory Melt_Recovery
  imports Melt
begin

text \<open>
  Melts that were interrupted: the recovery at start-up (\<open>crates/cdk/src/mint/start_up_check.rs\<close>), the
  decision it shares with the check of a pending quote (\<open>saga_recovery.rs\<close>) and the handler
  \<open>check_melt_quote\<close> (\<open>melt/mod.rs\<close>). A step of the recovery loop returns an error where the question
  mark ends the loop, and unit where the code logs and goes on to the next saga. Whether a text
  parses as a quote identifier is a parameter, as are the nonces of the signatures.
\<close>

record recovery_faults =
  rf_read :: faults
  rf_search :: faults
  rf_first :: faults
  rf_between :: faults
  rf_second :: faults
  rf_delete :: faults
  rf_rollback :: faults

definition no_recovery_faults :: recovery_faults where
  "no_recovery_faults = \<lparr> rf_read = no_faults, rf_search = no_faults, rf_first = no_faults, rf_between = no_faults,
     rf_second = no_faults, rf_delete = no_faults, rf_rollback = no_faults \<rparr>"

definition get_melt_saga_by_quote_id :: "db_error option \<Rightarrow> quote_id \<Rightarrow> mint_db \<Rightarrow> cdk_error + saga option" where
  "get_melt_saga_by_quote_id flt quote_id db =
     rbind (map_err cdk_of_db (faulty flt (Inr (get_incomplete_sagas Op_Melt db)))) (\<lambda>incomplete_sagas.
       Inr (List.find (\<lambda>s. sg_quote_id s = Some quote_id) incomplete_sagas))"

definition check_melt_payment_status :: "processors \<Rightarrow> melt_quote \<Rightarrow> cdk_error + make_payment_response" where
  "check_melt_payment_status P quote =
     rbind (ok_or E_UnsupportedUnit (P (lq_unit quote) (lq_payment_method quote))) (\<lambda>ln_backend.
     rbind (ok_or E_Internal (lq_request_lookup_id quote)) (\<lambda>lookup_id.
       map_err (\<lambda>_. E_Internal) (pb_check_outgoing_payment ln_backend lookup_id)))"

definition finalize_paid_melt_quote ::
  "mint \<Rightarrow> recovery_faults \<Rightarrow> u64 \<Rightarrow> secret_key list \<Rightarrow> melt_quote \<Rightarrow> typed_amount \<Rightarrow> string option \<Rightarrow> payment_identifier \<Rightarrow>
   mint_db \<Rightarrow> (cdk_error + unit) \<times> mint_db"
where
  "finalize_paid_melt_quote M F now nonces quote total_spent payment_preimage payment_lookup_id db =
     map_prod (rmap (\<lambda>_. ())) id (finalize_melt_quote M (rf_first F) (rf_between F) (rf_second F) now nonces (lq_id quote)
       total_spent payment_preimage payment_lookup_id db)"

text \<open>\<open>process_melt_saga_outcome\<close>: the quote of the caller changes only when the melt is rolled back.\<close>

definition process_melt_saga_outcome ::
  "mint \<Rightarrow> recovery_faults \<Rightarrow> u64 \<Rightarrow> secret_key list \<Rightarrow> saga \<Rightarrow> melt_quote \<Rightarrow> make_payment_response \<Rightarrow> mint_db \<Rightarrow>
   (cdk_error + melt_quote) \<times> mint_db"
where
  "process_melt_saga_outcome M F now nonces s quote payment_response db = (case mp_status payment_response of
       MQ_Paid \<Rightarrow>
         (case finalize_melt_quote M (rf_first F) (rf_between F) (rf_second F) now nonces (lq_id quote)
                 (mp_total_spent payment_response) (mp_payment_proof payment_response)
                 (mp_payment_lookup_id payment_response) db of
            (Inl e, db1) \<Rightarrow> (Inl e, db1)
          | (Inr _, db1) \<Rightarrow>
            (case rbind (map_err cdk_of_db (faulty (rf_delete F Begin_tx) (Inr ()))) (\<lambda>_.
                    rbind (map_err cdk_of_db (faulty (rf_delete F Delete_saga) (Inr (delete_saga (sg_operation_id s) db1)))) (\<lambda>db2.
                    map_err cdk_of_db (faulty (rf_delete F Commit_tx) (Inr db2)))) of
               Inl e \<Rightarrow> (Inl e, db1)
             | Inr db2 \<Rightarrow> (Inr quote, db2)))
     | MQ_Pending \<Rightarrow> (Inr quote, db)
     | MQ_Unknown \<Rightarrow> (Inr quote, db)
     | _ \<Rightarrow>
         (case rbind (map_err cdk_of_db (faulty (rf_read F Get_proof_ys)
                        (Inr (get_proof_ys_by_operation_id (sg_operation_id s) db)))) (\<lambda>input_ys.
               rbind (map_err cdk_of_db (faulty (rf_read F Get_blinded_secrets)
                        (Inr (get_blinded_secrets_by_operation_id (sg_operation_id s) db)))) (\<lambda>blinded_secrets.
                 rollback_melt_quote (rf_rollback F) now (lq_id quote) input_ys blinded_secrets (sg_operation_id s) db)) of
            Inl e \<Rightarrow> (Inl e, db)
          | Inr db1 \<Rightarrow> (Inr (quote\<lparr> lq_state := MQ_Unpaid \<rparr>), db1)))"

section \<open>Recovery at start-up\<close>

definition delete_saga_tx :: "faults \<Rightarrow> uuid \<Rightarrow> mint_db \<Rightarrow> (cdk_error + unit) \<times> mint_db" where
  "delete_saga_tx f i db = (case f Begin_tx of Some e \<Rightarrow> (Inl (cdk_of_db e), db) | None \<Rightarrow>
     (case f Delete_saga of
        Some _ \<Rightarrow> (map_err cdk_of_db (faulty (f Rollback_tx) (Inr ())), db)
      | None \<Rightarrow> (case f Commit_tx of Some e \<Rightarrow> (Inl (cdk_of_db e), db) | None \<Rightarrow> (Inr (), delete_saga i db))))"

fun find_quote_by_inputs :: "ext \<Rightarrow> faults \<Rightarrow> public_key list \<Rightarrow> melt_quote list \<Rightarrow> mint_db \<Rightarrow> cdk_error + quote_id option" where
  "find_quote_by_inputs X f input_ys [] db = Inr None"
| "find_quote_by_inputs X f input_ys (quote # quotes) db =
     rbind (map_err cdk_of_db (faulty (f Begin_tx) (Inr ()))) (\<lambda>_.
     rbind (map_err cdk_of_db (faulty (f Get_proof_ys) (get_proof_ys_by_quote_id X (lq_id quote) db))) (\<lambda>proof_ys.
     rbind (map_err cdk_of_db (faulty (f Rollback_tx) (Inr ()))) (\<lambda>_.
       if input_ys \<noteq> [] \<and> proof_ys \<noteq> [] \<and> list_ex (\<lambda>y. y \<in> set proof_ys) input_ys then Inr (Some (lq_id quote))
       else find_quote_by_inputs X f input_ys quotes db)))"

text \<open>The finalization of a melt whose payment needs no question to the backend.\<close>

definition finalize_settled ::
  "mint \<Rightarrow> recovery_faults \<Rightarrow> u64 \<Rightarrow> secret_key list \<Rightarrow> saga \<Rightarrow> melt_quote \<Rightarrow> mint_db \<Rightarrow> (cdk_error + unit) \<times> mint_db"
where
  "finalize_settled M F now nonces s quote db =
     (case finalize_paid_melt_quote M F now nonces quote (lq_amount quote) None (own_lookup_id quote) db of
        (Inl _, db1) \<Rightarrow> (Inr (), db1)
      | (Inr _, db1) \<Rightarrow> delete_saga_tx (rf_delete F) (sg_operation_id s) db1)"

definition is_internal_settlement :: "db_error option \<Rightarrow> melt_quote \<Rightarrow> mint_db \<Rightarrow> bool" where
  "is_internal_settlement flt quote db =
     (case faulty flt (get_mint_quote_by_request (melt_payment_request_display (lq_request quote)) db) of
        Inr (Some mint_quote) \<Rightarrow> lq_id quote \<in> set (payment_ids mint_quote)
      | _ \<Rightarrow> False)"

definition compensate_melt_saga ::
  "recovery_faults \<Rightarrow> u64 \<Rightarrow> quote_id \<Rightarrow> public_key list \<Rightarrow> public_key list \<Rightarrow> saga \<Rightarrow> mint_db \<Rightarrow> (cdk_error + unit) \<times> mint_db"
where
  "compensate_melt_saga F now quote_id input_ys blinded_secrets s db =
     (Inr (), case rollback_melt_quote (rf_rollback F) now quote_id input_ys blinded_secrets (sg_operation_id s) db of
        Inr db1 \<Rightarrow> db1 | Inl _ \<Rightarrow> db)"

text \<open>A payment was attempted and was not settled internally.\<close>

definition resolve_attempted ::
  "mint \<Rightarrow> processors \<Rightarrow> recovery_faults \<Rightarrow> u64 \<Rightarrow> secret_key list \<Rightarrow> saga \<Rightarrow> melt_quote \<Rightarrow> public_key list \<Rightarrow> public_key list \<Rightarrow>
   mint_db \<Rightarrow> (cdk_error + unit) \<times> mint_db"
where
  "resolve_attempted M P F now nonces s quote input_ys blinded_secrets db =
     (if lq_request_lookup_id quote = None
      then compensate_melt_saga F now (lq_id quote) input_ys blinded_secrets s db
      else (case check_melt_payment_status P quote of
          Inl _ \<Rightarrow> (Inr (), db)
        | Inr payment_response \<Rightarrow>
          if mp_status payment_response \<in> {MQ_Paid, MQ_Unpaid, MQ_Failed}
          then (Inr (), snd (process_melt_saga_outcome M F now nonces s quote payment_response db))
          else (Inr (), db)))"

definition recover_known_melt ::
  "mint \<Rightarrow> processors \<Rightarrow> recovery_faults \<Rightarrow> u64 \<Rightarrow> secret_key list \<Rightarrow> saga \<Rightarrow> melt_quote \<Rightarrow> public_key list \<Rightarrow> public_key list \<Rightarrow>
   mint_db \<Rightarrow> (cdk_error + unit) \<times> mint_db"
where
  "recover_known_melt M P F now nonces s quote input_ys blinded_secrets db = (case sg_state s of
       SagaMelt MeltSetupComplete \<Rightarrow> compensate_melt_saga F now (lq_id quote) input_ys blinded_secrets s db
     | SagaMelt MeltFinalizing \<Rightarrow> finalize_settled M F now nonces s quote db
     | SagaMelt MeltPaymentAttempted \<Rightarrow>
         if is_internal_settlement (rf_read F Get_mint_quote) quote db then finalize_settled M F now nonces s quote db
         else resolve_attempted M P F now nonces s quote input_ys blinded_secrets db
     | SagaSwap _ \<Rightarrow> (Inr (), db))"

definition recover_quote ::
  "mint \<Rightarrow> processors \<Rightarrow> (string \<Rightarrow> bool) \<Rightarrow> recovery_faults \<Rightarrow> u64 \<Rightarrow> secret_key list \<Rightarrow> saga \<Rightarrow> quote_id \<Rightarrow> public_key list \<Rightarrow>
   public_key list \<Rightarrow> mint_db \<Rightarrow> (cdk_error + unit) \<times> mint_db"
where
  "recover_quote M P parses F now nonces s quote_id input_ys blinded_secrets db =
     (if \<not> parses quote_id then (Inr (), db)
      else (case faulty (rf_read F Get_melt_quote) (get_melt_quote quote_id db) of
          Inl _ \<Rightarrow> (Inr (), db)
        | Inr None \<Rightarrow> delete_saga_tx (rf_delete F) (sg_operation_id s) db
        | Inr (Some quote) \<Rightarrow> recover_known_melt M P F now nonces s quote input_ys blinded_secrets db))"

definition recover_melt_saga ::
  "mint \<Rightarrow> processors \<Rightarrow> (string \<Rightarrow> bool) \<Rightarrow> recovery_faults \<Rightarrow> u64 \<Rightarrow> secret_key list \<Rightarrow> saga \<Rightarrow> mint_db \<Rightarrow>
   (cdk_error + unit) \<times> mint_db"
where
  "recover_melt_saga M P parses F now nonces s db =
     (let i = sg_operation_id s in
      case faulty (rf_read F Get_proof_ys) (Inr (get_proof_ys_by_operation_id i db)) of
        Inl e \<Rightarrow> (Inl (cdk_of_db e), db)
      | Inr input_ys \<Rightarrow>
      (case faulty (rf_read F Get_blinded_secrets) (Inr (get_blinded_secrets_by_operation_id i db)) of
         Inl e \<Rightarrow> (Inl (cdk_of_db e), db)
       | Inr blinded_secrets \<Rightarrow>
       (case sg_quote_id s of
          Some quote_id \<Rightarrow> recover_quote M P parses F now nonces s quote_id input_ys blinded_secrets db
        | None \<Rightarrow>
          (case faulty (rf_read F Get_melt_quote) (get_melt_quotes db) of
             Inl _ \<Rightarrow> (Inr (), db)
           | Inr melt_quotes \<Rightarrow>
             (case find_quote_by_inputs (m_ext M) (rf_search F) input_ys melt_quotes db of
                Inl e \<Rightarrow> (Inl e, db)
              | Inr (Some quote_id) \<Rightarrow> recover_quote M P parses F now nonces s quote_id input_ys blinded_secrets db
              | Inr None \<Rightarrow> delete_saga_tx (rf_delete F) i db)))))"

fun recover_melt_sagas ::
  "mint \<Rightarrow> processors \<Rightarrow> (string \<Rightarrow> bool) \<Rightarrow> (uuid \<Rightarrow> recovery_faults) \<Rightarrow> u64 \<Rightarrow> (uuid \<Rightarrow> secret_key list) \<Rightarrow> saga list \<Rightarrow> mint_db \<Rightarrow>
   (cdk_error + unit) \<times> mint_db"
where
  "recover_melt_sagas M P parses Fs now nonces [] db = (Inr (), db)"
| "recover_melt_sagas M P parses Fs now nonces (s # ss) db =
     (case recover_melt_saga M P parses (Fs (sg_operation_id s)) now (nonces (sg_operation_id s)) s db of
        (Inl e, db1) \<Rightarrow> (Inl e, db1)
      | (Inr _, db1) \<Rightarrow> recover_melt_sagas M P parses Fs now nonces ss db1)"

definition recover_from_incomplete_melt_sagas ::
  "mint \<Rightarrow> processors \<Rightarrow> (string \<Rightarrow> bool) \<Rightarrow> db_error option \<Rightarrow> (uuid \<Rightarrow> recovery_faults) \<Rightarrow> u64 \<Rightarrow> (uuid \<Rightarrow> secret_key list) \<Rightarrow>
   mint_db \<Rightarrow> (cdk_error + unit) \<times> mint_db"
where
  "recover_from_incomplete_melt_sagas M P parses flt Fs now nonces db =
     (case faulty flt (Inr (get_incomplete_sagas Op_Melt db)) of
        Inl e \<Rightarrow> (Inl (cdk_of_db e), db)
      | Inr incomplete_sagas \<Rightarrow> recover_melt_sagas M P parses Fs now nonces incomplete_sagas db)"

section \<open>Checking a quote\<close>

definition handle_pending_melt_quote ::
  "mint \<Rightarrow> processors \<Rightarrow> recovery_faults \<Rightarrow> u64 \<Rightarrow> secret_key list \<Rightarrow> melt_quote \<Rightarrow> mint_db \<Rightarrow> (cdk_error + melt_quote) \<times> mint_db"
where
  "handle_pending_melt_quote M P F now nonces quote db =
     (if lq_state quote \<noteq> MQ_Pending then (Inr quote, db)
      else (case get_melt_saga_by_quote_id (rf_read F Get_incomplete_sagas) (lq_id quote) db of
          Inl e \<Rightarrow> (Inl e, db)
        | Inr None \<Rightarrow> (Inr quote, db)
        | Inr (Some s) \<Rightarrow> (case check_melt_payment_status P quote of
            Inl e \<Rightarrow> (Inl e, db)
          | Inr payment_response \<Rightarrow> process_melt_saga_outcome M F now nonces s quote payment_response db)))"

definition check_melt_quote ::
  "mint \<Rightarrow> processors \<Rightarrow> recovery_faults \<Rightarrow> u64 \<Rightarrow> secret_key list \<Rightarrow> quote_id \<Rightarrow> mint_db \<Rightarrow>
   (cdk_error + melt_quote_response) \<times> mint_db"
where
  "check_melt_quote M P F now nonces quote_id db =
     (case faulty (rf_read F Get_melt_quote) (get_melt_quote quote_id db) of
        Inl e \<Rightarrow> (Inl (cdk_of_db e), db)
      | Inr None \<Rightarrow> (Inl E_UnknownQuote, db)
      | Inr (Some quote) \<Rightarrow>
      (case handle_pending_melt_quote M P F now nonces quote db of
         (Inl e, db1) \<Rightarrow> (Inl e, db1)
       | (Inr quote1, db1) \<Rightarrow>
         (case faulty (rf_read F Get_signatures) (get_blind_signatures_for_quote quote_id db1) of
            Inl e \<Rightarrow> (Inl (cdk_of_db e), db1)
          | Inr blind_signatures \<Rightarrow>
            (Inr (melt_response quote1 (lq_state quote1) (lq_payment_preimage quote1)
                    (if blind_signatures = [] then None else Some blind_signatures)), db1))))"

end
