(* ===== verification/Melt_Setup.thy ===== *)
theory Melt_Setup
  imports Melt_Recovery
begin

text \<open>
  What the setup of a melt leaves in the database and how the rollback takes it out again: the melt
  is another instance of the contract \<open>compensated_operation\<close>, so any number of melts that got
  through their setup are undone exactly, in any order, and the recovery at start-up restores the
  database they began with.
\<close>

section \<open>The effect of the setup\<close>

definition melt_row :: "quote_id \<Rightarrow> u64 \<Rightarrow> u64 \<Rightarrow> melt_request_row" where
  "melt_row q a fee = \<lparr> mrr_quote_id = q, mrr_inputs_amount = a, mrr_inputs_fee = fee \<rparr>"

definition set_melt_state :: "melt_quote_state \<Rightarrow> melt_quote \<Rightarrow> melt_quote" where
  "set_melt_state s q = q\<lparr> lq_state := s \<rparr>"

lemma set_melt_state_simps [simp]:
  "lq_id (set_melt_state s q) = lq_id q" "lq_state (set_melt_state s q) = s" "lq_unit (set_melt_state s q) = lq_unit q"
  "lq_amount (set_melt_state s q) = lq_amount q" "lq_fee_reserve (set_melt_state s q) = lq_fee_reserve q"
  "lq_request_lookup_id (set_melt_state s q) = lq_request_lookup_id q" "set_melt_state s (set_melt_state t q) = set_melt_state s q"
  by (simp_all add: set_melt_state_def)

definition melt_reserve ::
  "u64 \<Rightarrow> quote_id \<Rightarrow> u64 \<Rightarrow> u64 \<Rightarrow> operation \<Rightarrow> public_key list \<Rightarrow> cashu_proof list \<Rightarrow> blinded_message list \<Rightarrow> saga \<Rightarrow> mint_db \<Rightarrow> mint_db"
where
  "melt_reserve now q a fee d ys ps ms s db = reserve now (Some q) d ys ps ms s
     (db\<lparr> d_melt_quotes := update_rows (\<lambda>r. lq_id r = q) (set_melt_state MQ_Pending) (d_melt_quotes db),
         d_melt_requests := d_melt_requests db @ [melt_row q a fee] \<rparr>)"

definition melt_operation :: "uuid \<Rightarrow> verification \<Rightarrow> proofs_fee_breakdown \<Rightarrow> payment_method \<Rightarrow> operation" where
  "melt_operation i iv fb m = operation_new i Op_Melt 0 (ta_value (v_amount iv)) (fb_total fb) None (Some m)"

lemma melt_operation_simps [simp]: "op_id (melt_operation i iv fb m) = i" "op_kind (melt_operation i iv fb m) = Op_Melt"
  by (simp_all add: melt_operation_def operation_new_def)

definition melt_saga_of :: "uuid \<Rightarrow> melt_quote \<Rightarrow> public_key list \<Rightarrow> blinded_message list \<Rightarrow> operation \<Rightarrow> proofs_fee_breakdown \<Rightarrow> melt_setup_complete melt_saga" where
  "melt_saga_of i quote ys ms d fb = \<lparr> ms_compensations = [\<lparr> rm_input_ys = ys, rm_blinded_secrets = map bm_blinded_secret ms,
       rm_quote_id = lq_id quote, rm_operation_id = i \<rparr>], ms_operation_id = i,
     ms_state_data = \<lparr> mc_quote = set_melt_state MQ_Pending quote, mc_input_ys = ys, mc_blinded_messages = ms, mc_operation = d, mc_fee_breakdown = fb \<rparr> \<rparr>"

lemma sql_row_simps:
  assumes "sql_row_to_melt_quote row = Inr q"
  shows "lq_id q = lq_id row" "lq_state q = lq_state row" "lq_unit q = lq_unit row" "lq_request_lookup_id q = lq_request_lookup_id row"
    "ta_unit (lq_amount q) = lq_unit row" "ta_unit (lq_fee_reserve q) = lq_unit row"
    "ta_value (lq_amount q) = ta_value (lq_amount row)" "ta_value (lq_fee_reserve q) = ta_value (lq_fee_reserve row)"
  using assms by (auto simp: sql_row_to_melt_quote_def new_amount_def split: if_splits)

lemma load_melt_quotes_Ok:
  assumes "load_melt_quotes_exclusively f q db = Inr quote"
  shows "\<exists>row \<in> set (d_melt_quotes db). sql_row_to_melt_quote row = Inr quote \<and> lq_id row = q"
    "lq_id quote = q"
    "\<forall>row \<in> set (d_melt_quotes db). related_to q db row \<longrightarrow> lq_id row \<noteq> q \<longrightarrow> lq_state row \<notin> {MQ_Pending, MQ_Paid}"
proof -
  from assms obtain qs where qs: "list_all2 (\<lambda>r p. sql_row_to_melt_quote r = Inr p)
      (sort_key lq_id (filter (related_to q db) (d_melt_quotes db))) qs"
    and t: "List.find (\<lambda>p. lq_id p = q) qs = Some quote" and c: "List.find (conflicts quote) qs = None"
    by (auto simp: load_melt_quotes_exclusively_def lock_melt_quote_and_related_def res_simps faulty_Ok collect_res_eq_Ok
        split: option.splits)
  from find_SomeD [OF t] show id: "lq_id quote = q" by simp
  from find_SomeD [OF t] list_all2_right [OF qs] obtain row where
    row: "row \<in> set (d_melt_quotes db)" "sql_row_to_melt_quote row = Inr quote" by auto
  with sql_row_simps [OF row(2)] id show "\<exists>row \<in> set (d_melt_quotes db). sql_row_to_melt_quote row = Inr quote \<and> lq_id row = q"
    by auto
  show "\<forall>row \<in> set (d_melt_quotes db). related_to q db row \<longrightarrow> lq_id row \<noteq> q \<longrightarrow> lq_state row \<notin> {MQ_Pending, MQ_Paid}"
  proof (intro ballI impI)
    fix row assume row: "row \<in> set (d_melt_quotes db)" "related_to q db row" "lq_id row \<noteq> q"
    then have "row \<in> set (sort_key lq_id (filter (related_to q db) (d_melt_quotes db)))" by simp
    from list_all2_left [OF qs this] obtain p where p: "p \<in> set qs" "sql_row_to_melt_quote row = Inr p" by blast
    from c p(1) have "\<not> conflicts quote p" by (simp add: find_None_iff)
    with sql_row_simps [OF p(2)] row(3) id show "lq_state row \<notin> {MQ_Pending, MQ_Paid}" by (simp add: conflicts_def)
  qed
qed

lemma proofs_ys_stored [simp]: "proofs_ys X (map stored_proof ps) = proofs_ys X ps"
  by (induction ps) (simp_all add: proofs_ys_def)

text \<open>Reading the proofs just added and moving them to Pending.\<close>

lemma pending_after_insert:
  assumes "proofs_ys X ps = Inr ys" and "distinct ys" and "set ys \<inter> pr_y ` set (d_proofs db) = {}"
    and g: "get_proofs ys (db\<lparr> d_proofs := d_proofs db @ map2 (new_proof_row now q d) ys ps \<rparr>) = Inr a"
    and u: "update_proofs_state X flt a Pending (db\<lparr> d_proofs := d_proofs db @ map2 (new_proof_row now q d) ys ps \<rparr>) = Inr (b, db')"
  shows "ys \<noteq> [] \<and> db' = db\<lparr> d_proofs := d_proofs db @ map2 (pending_row now q d) ys ps \<rparr>"
proof -
  let ?new = "map2 (new_proof_row now q d) ys ps"
  have len: "length ys = length ps" using assms(1) by (rule proofs_ys_length)
  have "rows_in ys (db\<lparr> d_proofs := ?new \<rparr>) = ?new"
    by (simp add: rows_in_def) (rule filter_all, auto simp: new_proof_row_def dest: set_zip_leftD)
  moreover have "rows_in ys (db\<lparr> d_proofs := d_proofs db \<rparr>) = []" using assms(3) by (simp add: rows_in_empty)
  ultimately have rows: "rows_in ys (db\<lparr> d_proofs := d_proofs db @ ?new \<rparr>) = ?new"
    unfolding rows_in_append by simp
  have "map pr_proof ?new = map stored_proof ps" using len
    by (induction ys ps rule: list_induct2) (simp_all add: new_proof_row_def)
  with g rows have a: "ps_proofs a = map stored_proof ps" "ys \<noteq> []" by (simp_all add: get_proofs_Ok)
  have "update_rows (\<lambda>r. pr_y r \<in> set ys) (set_state Pending) (d_proofs db) = d_proofs db"
    by (rule update_rows_none) (use assms(3) in auto)
  moreover have "update_rows (\<lambda>r. pr_y r \<in> set ys) (set_state Pending) ?new = map2 (pending_row now q d) ys ps"
    unfolding update_rows_def by (auto simp: pending_row_def new_proof_row_def dest: set_zip_leftD)
  ultimately show ?thesis
    using u a assms(1)
    by (auto simp: update_proofs_state_def db_update_proofs_state_def res_simps faulty_Ok update_rows_append)
qed

lemma update_to_pending:
  assumes "update_melt_quote_state now quote MQ_Pending p db = Inr (s, quote', db')"
  shows "quote' = set_melt_state MQ_Pending quote"
    "db' = db\<lparr> d_melt_quotes := update_rows (\<lambda>r. lq_id r = lq_id quote) (set_melt_state MQ_Pending) (d_melt_quotes db) \<rparr>"
  using assms by (auto simp: update_melt_quote_state_def res_simps update_melt_row_def set_melt_state_def [abs_def] Let_def)

lemma check_melt_balance_Ok:
  assumes "check_melt_balance f a quote fee = Inr u" and "ta_unit a = ta_unit fee"
  shows "unat (ta_value (lq_amount quote)) + unat (ta_value (lq_fee_reserve quote)) + unat (ta_value fee) \<le> unat (ta_value a)"
proof -
  from assms(1) obtain n r where n: "typed_checked_add (lq_amount quote) (lq_fee_reserve quote) = Inr n"
    "typed_checked_add n fee = Inr r" and c: "\<not> typed_partial_cmp_lt a r"
    by (auto simp: check_melt_balance_def rbind_eq_Ok map_err_eq_Ok split: if_splits)
  then show ?thesis
    using assms(2) by (auto simp: typed_partial_cmp_lt_def typed_checked_add_Ok word_le_nat_alt word_less_nat_alt)
qed

lemma check_quote_open_Ok: "check_quote_open s = Inr u \<longleftrightarrow> s = MQ_Unpaid \<or> s = MQ_Failed"
  by (cases s) (simp_all add: check_quote_open_def)

abbreviation change_outputs :: "melt_request \<Rightarrow> blinded_message list" where
  "change_outputs req \<equiv> get_or_default [] (mr_outputs req)"

lemma setup_melt_Ok:
  assumes "setup_melt M legacy f now i req iv m db = Inr (s, db')"
  shows "\<exists>quote fb ys a. load_melt_quotes_exclusively f (mr_quote req) db = Inr quote \<and>
    check_change_outputs M iv (mr_outputs req) = Inr () \<and> get_proofs_fee M (mr_inputs req) = Inr fb \<and>
    reservable (m_ext M) ys (mr_inputs req) (change_outputs req) db \<and> ys \<noteq> [] \<and>
    (lq_state quote = MQ_Unpaid \<or> lq_state quote = MQ_Failed) \<and> ta_unit (v_amount iv) = lq_unit quote \<and>
    melt_inputs_amount req = Inr a \<and>
    unat (ta_value (lq_amount quote)) + unat (ta_value (lq_fee_reserve quote)) + unat (fb_total fb) \<le> unat (ta_value (v_amount iv)) \<and>
    uint (fb_total fb) < 2 ^ 63 \<and> uint a < 2 ^ 63 \<and>
    i \<notin> sg_operation_id ` set (d_sagas db) \<and> mr_quote req \<notin> mrr_quote_id ` set (d_melt_requests db) \<and>
    s = melt_saga_of i quote ys (change_outputs req) (melt_operation i iv fb m) fb \<and>
    db' = melt_reserve now (mr_quote req) a (fb_total fb) (melt_operation i iv fb m) ys (mr_inputs req) (change_outputs req)
      (saga_new_melt now i MeltSetupComplete (mr_quote req)) db"
proof -
  let ?q = "mr_quote req" and ?ps = "mr_inputs req" and ?ms = "change_outputs req" and ?X = "m_ext M"
  from assms obtain quote fb np db1 ys pr b db2 os quote1 db3 a db4 db5 where
      co: "check_change_outputs M iv (mr_outputs req) = Inr ()"
    and ld: "load_melt_quotes_exclusively f ?q db = Inr quote" and fb: "get_proofs_fee M ?ps = Inr fb"
    and ap: "add_proofs ?X now ?ps (Some ?q) (melt_operation i iv fb m) db = Inr (np, db1)"
    and ys: "proofs_ys ?X ?ps = Inr ys" and gp: "get_proofs ys db1 = Inr pr"
    and up: "update_proofs_state ?X (f Update_proofs_state) pr Pending db1 = Inr (b, db2)"
    and un: "ta_unit (v_amount iv) = lq_unit quote" and op: "check_quote_open (lq_state quote) = Inr ()"
    and uq: "update_melt_quote_state now quote MQ_Pending None db2 = Inr (os, quote1, db3)"
    and bal: "check_melt_balance f (v_amount iv) quote1 (new_amount (fb_total fb) (lq_unit quote1)) = Inr ()"
    and ia: "melt_inputs_amount req = Inr a"
    and mr: "add_melt_request ?q (new_amount a (lq_unit quote1)) (new_amount (fb_total fb) (lq_unit quote1)) db3 = Inr db4"
    and am: "add_blinded_messages now (Some ?q) ?ms (melt_operation i iv fb m) db4 = Inr db5"
    and ag: "add_saga now (saga_new_melt now i MeltSetupComplete (lq_id quote1)) db5 = Inr db'"
    and s: "s = \<lparr> ms_compensations = [\<lparr> rm_input_ys = ys, rm_blinded_secrets = map bm_blinded_secret ?ms,
             rm_quote_id = lq_id quote1, rm_operation_id = i \<rparr>], ms_operation_id = i,
           ms_state_data = \<lparr> mc_quote = quote1, mc_input_ys = ys, mc_blinded_messages = ?ms,
             mc_operation = melt_operation i iv fb m, mc_fee_breakdown = fb \<rparr> \<rparr>"
    unfolding setup_melt_def melt_operation_def [symmetric] Let_def
    by (auto simp: rbind_eq_Ok map_err_eq_Ok faulty_Ok split: if_splits)
  from ap ys have np: "distinct ys" "set ys \<inter> pr_y ` set (d_proofs db) = {}" "\<forall>p \<in> set ?ps. uint (p_amount p) < 2 ^ 63"
    "db1 = db\<lparr> d_proofs := d_proofs db @ map2 (new_proof_row now (Some ?q) (melt_operation i iv fb m)) ys ?ps \<rparr>"
    by (auto simp: add_proofs_Ok)
  from pending_after_insert [OF ys np(1,2) gp [unfolded np(4)] up [unfolded np(4)]]
  have ne: "ys \<noteq> []" and db2: "db2 = db\<lparr> d_proofs := d_proofs db @ map2 (pending_row now (Some ?q) (melt_operation i iv fb m)) ys ?ps \<rparr>"
    by simp_all
  have id: "lq_id quote = ?q" by (rule load_melt_quotes_Ok(2) [OF ld])
  note q1 = update_to_pending [OF uq]
  have id1: "lq_id quote1 = ?q" using id by (simp add: q1)
  from mr am ag have "reservable ?X ys ?ps ?ms db" "i \<notin> sg_operation_id ` set (d_sagas db)" "?q \<notin> mrr_quote_id ` set (d_melt_requests db)"
    "uint (fb_total fb) < 2 ^ 63" "uint a < 2 ^ 63"
    "db' = melt_reserve now ?q a (fb_total fb) (melt_operation i iv fb m) ys ?ps ?ms (saga_new_melt now i MeltSetupComplete ?q) db"
    using ys np(1-3) by (auto simp: add_melt_request_def res_simps db_simps reservable_def melt_reserve_def reserve_def q1 db2 id id1
        saga_new_melt_def melt_row_def new_amount_def)
  moreover have "unat (ta_value (lq_amount quote)) + unat (ta_value (lq_fee_reserve quote)) + unat (fb_total fb) \<le> unat (ta_value (v_amount iv))"
    using check_melt_balance_Ok [OF bal] un by (simp add: q1(1) new_amount_def)
  ultimately show ?thesis
    using co ld fb ne op un ia s id by (auto simp: check_quote_open_Ok melt_saga_of_def q1(1))
qed

section \<open>Undoing a setup\<close>

definition reset_quote :: "quote_id \<Rightarrow> mint_db \<Rightarrow> mint_db" where
  "reset_quote q db = delete_melt_request q (update_melt_row q (set_melt_state MQ_Unpaid) db)"

definition quote_of_saga :: "uuid \<Rightarrow> mint_db \<Rightarrow> quote_id option" where
  "quote_of_saga i db = (case List.find (\<lambda>s. sg_operation_id s = i) (d_sagas db) of None \<Rightarrow> None | Some s \<Rightarrow> sg_quote_id s)"

definition drop_melt :: "uuid \<Rightarrow> mint_db \<Rightarrow> mint_db" where
  "drop_melt i db = drop_operation i (case quote_of_saga i db of None \<Rightarrow> db | Some q \<Rightarrow> reset_quote q db)"

text \<open>
  The invariant of the quote tables: unique keys, states the schema admits, and no unsigned message
  of a quote without the melt request it belongs to.
\<close>

definition melt_wf :: "ext \<Rightarrow> mint_db \<Rightarrow> bool" where
  "melt_wf X db \<longleftrightarrow> db_wf X db \<and> distinct (map lq_id (d_melt_quotes db)) \<and>
     (\<forall>q \<in> set (d_melt_quotes db). lq_state q \<in> {MQ_Unpaid, MQ_Pending, MQ_Paid}) \<and>
     (\<forall>r \<in> set (d_sigs db). \<forall>q. unsigned_for_quote q r \<longrightarrow> q \<in> mrr_quote_id ` set (d_melt_requests db))"

definition melt_setup :: "ext \<Rightarrow> uuid \<Rightarrow> mint_db \<Rightarrow> mint_db \<Rightarrow> bool" where
  "melt_setup X i db db' \<longleftrightarrow>
     (\<exists>M legacy f now req iv m s. m_ext M = X \<and> setup_melt M legacy f now i req iv m db = Inr (s, db'))"

lemma melt_setupE:
  assumes "melt_setup X i db db'"
  obtains now q a fee d ys ps ms row quote where "op_id d = i" "reservable X ys ps ms db" "ys \<noteq> []" "i \<notin> sg_operation_id ` set (d_sagas db)"
    "q \<notin> mrr_quote_id ` set (d_melt_requests db)" "row \<in> set (d_melt_quotes db)" "lq_id row = q" "sql_row_to_melt_quote row = Inr quote"
    "lq_state row = MQ_Unpaid \<or> lq_state row = MQ_Failed"
    "db' = melt_reserve now q a fee d ys ps ms (saga_new_melt now i MeltSetupComplete q) db"
proof -
  from assms obtain M legacy f now req iv m s where X: "m_ext M = X" and s: "setup_melt M legacy f now i req iv m db = Inr (s, db')"
    by (auto simp: melt_setup_def)
  from setup_melt_Ok [OF s] obtain quote fb ys a where ld: "load_melt_quotes_exclusively f (mr_quote req) db = Inr quote"
    and *: "reservable X ys (mr_inputs req) (change_outputs req) db" "ys \<noteq> []" "lq_state quote = MQ_Unpaid \<or> lq_state quote = MQ_Failed"
      "i \<notin> sg_operation_id ` set (d_sagas db)" "mr_quote req \<notin> mrr_quote_id ` set (d_melt_requests db)"
      "db' = melt_reserve now (mr_quote req) a (fb_total fb) (melt_operation i iv fb m) ys (mr_inputs req) (change_outputs req)
        (saga_new_melt now i MeltSetupComplete (mr_quote req)) db"
    unfolding X by blast
  from load_melt_quotes_Ok(1) [OF ld] obtain row where row: "row \<in> set (d_melt_quotes db)" "sql_row_to_melt_quote row = Inr quote"
    "lq_id row = mr_quote req" by blast
  show thesis
    by (rule that [of "melt_operation i iv fb m" ys _ _ _ row quote]) (use * row sql_row_simps [OF row(2)] in simp_all)
qed

lemma saga_new_melt_simps [simp]: "sg_operation_id (saga_new_melt now i st q) = i" "sg_quote_id (saga_new_melt now i st q) = Some q"
  "sg_operation_kind (saga_new_melt now i st q) = Op_Melt" "sg_state (saga_new_melt now i st q) = SagaMelt st"
  by (simp_all add: saga_new_melt_def)

lemma find_appended: "i \<notin> key ` set t \<Longrightarrow> key s = i \<Longrightarrow> List.find (\<lambda>r. key r = i) (t @ [s]) = Some s"
  by (induction t) auto

lemma update_rows_twice: "(\<And>r. P (f r) = P r) \<Longrightarrow> update_rows P g (update_rows P f t) = update_rows P (g \<circ> f) t"
  by (auto simp: update_rows_def)

lemma update_rows_same: "(\<And>r. r \<in> set t \<Longrightarrow> P r \<Longrightarrow> f r = r) \<Longrightarrow> update_rows P f t = t"
  unfolding update_rows_def by (induction t) auto

lemma unsigned_new_sig_row [simp]: "unsigned_for_quote q (new_sig_row now q' d m) \<longleftrightarrow> q' = Some q"
  by (simp add: unsigned_for_quote_def new_sig_row_def)

lemma reset_quote_reserve:
  assumes "q \<notin> mrr_quote_id ` set (d_melt_requests db)" and "\<forall>r \<in> set (d_sigs db). \<not> unsigned_for_quote q r"
    and "\<forall>r \<in> set (d_melt_quotes db). lq_id r = q \<longrightarrow> lq_state r = MQ_Unpaid"
  shows "reset_quote q (melt_reserve now q a fee d ys ps ms s db) = reserve now (Some q) d ys ps [] s db"
proof -
  have "update_rows (\<lambda>r. lq_id r = q) (set_melt_state MQ_Unpaid) (update_rows (\<lambda>r. lq_id r = q) (set_melt_state MQ_Pending) (d_melt_quotes db)) = d_melt_quotes db"
    using assms(3) by (subst update_rows_twice) (auto simp: set_melt_state_def intro!: update_rows_same)
  moreover have "filter (\<lambda>r. mrr_quote_id r \<noteq> q) (d_melt_requests db) = d_melt_requests db"
    using assms(1) by (auto simp: filter_id_conv)
  moreover have "filter (\<lambda>r. \<not> unsigned_for_quote q r) (d_sigs db) = d_sigs db" using assms(2) by (auto simp: filter_id_conv)
  ultimately show ?thesis
    by (simp add: reset_quote_def delete_melt_request_def update_melt_row_def melt_reserve_def reserve_def melt_row_def comp_def)
qed

lemma quote_of_melt_reserve:
  "i \<notin> sg_operation_id ` set (d_sagas db) \<Longrightarrow> sg_operation_id s = i \<Longrightarrow> quote_of_saga i (melt_reserve now q a fee d ys ps ms s db) = sg_quote_id s"
  using find_appended [of i sg_operation_id "d_sagas db" s] by (simp add: quote_of_saga_def melt_reserve_def reserve_def)

lemma drop_melt_reserve:
  assumes "melt_wf X db" and "unused i db" and "melt_setup X i db db'"
  shows "drop_melt i db' = db"
proof -
  from assms(3) obtain now q a fee d ys ps ms row quote where d: "op_id d = i" and i: "i \<notin> sg_operation_id ` set (d_sagas db)"
    and q: "q \<notin> mrr_quote_id ` set (d_melt_requests db)" "row \<in> set (d_melt_quotes db)" "lq_id row = q"
      "lq_state row = MQ_Unpaid \<or> lq_state row = MQ_Failed"
    and db': "db' = melt_reserve now q a fee d ys ps ms (saga_new_melt now i MeltSetupComplete q) db"
    by (elim melt_setupE)
  have keys: "distinct (map lq_id (d_melt_quotes db))" using assms(1) by (simp add: melt_wf_def)
  have "lq_state r = MQ_Unpaid" if "r \<in> set (d_melt_quotes db)" "lq_id r = q" for r
    using distinct_key_unique [OF keys that(1) q(2)] that q assms(1) by (auto simp: melt_wf_def)
  moreover have "\<forall>r \<in> set (d_sigs db). \<not> unsigned_for_quote q r" using assms(1) q(1) by (auto simp: melt_wf_def)
  ultimately have "reset_quote q db' = reserve now (Some q) d ys ps [] (saga_new_melt now i MeltSetupComplete q) db"
    unfolding db' by (intro reset_quote_reserve [OF q(1)]) auto
  moreover have "quote_of_saga i db' = Some q" unfolding db' using quote_of_melt_reserve [OF i] by simp
  ultimately show ?thesis
    using drop_operation_reserve [of d db "saga_new_melt now i MeltSetupComplete q" now "Some q" ys ps "[]"] assms(2) d
    by (simp add: drop_melt_def)
qed

lemma melt_setup_wf:
  assumes "melt_wf X db" and "melt_setup X i db db'"
  shows "melt_wf X db'"
proof -
  from assms(2) obtain now q a fee d ys ps ms row quote where r: "reservable X ys ps ms db" and i: "i \<notin> sg_operation_id ` set (d_sagas db)"
    and db': "db' = melt_reserve now q a fee d ys ps ms (saga_new_melt now i MeltSetupComplete q) db"
    by (elim melt_setupE)
  let ?db = "db\<lparr> d_melt_quotes := update_rows (\<lambda>r. lq_id r = q) (set_melt_state MQ_Pending) (d_melt_quotes db),
         d_melt_requests := d_melt_requests db @ [melt_row q a fee] \<rparr>"
  have "db_wf X ?db" "reservable X ys ps ms ?db" using assms(1) r by (simp_all add: melt_wf_def db_wf_def reservable_def)
  then have "db_wf X db'" unfolding db' melt_reserve_def by (rule reserve_wf) (use i in simp)
  moreover have "map lq_id (d_melt_quotes ?db) = map lq_id (d_melt_quotes db)" by (simp add: update_rows_keys)
  moreover have "\<forall>p \<in> set (d_melt_quotes ?db). lq_state p \<in> {MQ_Unpaid, MQ_Pending, MQ_Paid}"
    using assms(1) by (auto simp: melt_wf_def update_rows_def)
  ultimately show ?thesis
    using assms(1) by (auto simp: melt_wf_def db' melt_reserve_def reserve_def melt_row_def)
qed

lemma find_filter_other:
  "i \<noteq> j \<Longrightarrow> List.find (\<lambda>s. key s = i) (filter (\<lambda>s. key s \<noteq> j) t) = List.find (\<lambda>s. key s = i) t"
  by (induction t) auto

lemma drop_melt_commute: "drop_melt i (drop_melt j db) = drop_melt j (drop_melt i db)"
proof (cases "i = j")
  case False
  have q: "quote_of_saga i (drop_operation j db1) = quote_of_saga i db" if "i \<noteq> j" "d_sagas db1 = d_sagas db" for i j db1
    using find_filter_other [OF that(1), of sg_operation_id "d_sagas db"] that(2) by (simp add: quote_of_saga_def drop_operation_def delete_saga_def drop_rows_def)
  have s: "d_sagas (reset_quote p db1) = d_sagas db1" for p db1
    by (simp add: reset_quote_def delete_melt_request_def update_melt_row_def)
  have u: "update_rows (\<lambda>r. lq_id r = p) (set_melt_state MQ_Unpaid) (update_rows (\<lambda>r. lq_id r = p') (set_melt_state MQ_Unpaid) t)
      = update_rows (\<lambda>r. lq_id r = p') (set_melt_state MQ_Unpaid) (update_rows (\<lambda>r. lq_id r = p) (set_melt_state MQ_Unpaid) t)" for p p' t
    by (simp add: update_rows_def)
  have c: "reset_quote p (reset_quote p' db1) = reset_quote p' (reset_quote p db1)" for p p' db1
    by (simp add: reset_quote_def delete_melt_request_def update_melt_row_def u conj_commute)
  have o: "reset_quote p (drop_operation k db1) = drop_operation k (reset_quote p db1)" for p k db1
    by (simp add: reset_quote_def delete_melt_request_def update_melt_row_def drop_operation_def delete_saga_def drop_rows_def conj_commute)
  show ?thesis
    using False by (auto simp: drop_melt_def q s c o drop_operation_commute [of i j] split: option.split)
qed simp

interpretation melting: compensated_operation "melt_wf X" unused "melt_setup X" drop_melt for X :: ext
proof
  show "melt_wf X db \<Longrightarrow> unused i db \<Longrightarrow> melt_setup X i db db' \<Longrightarrow> melt_wf X db'" for db db' i
    by (rule melt_setup_wf)
  show "melt_wf X db \<Longrightarrow> unused i db \<Longrightarrow> melt_setup X i db db' \<Longrightarrow> drop_melt i db' = db" for db db' i
    by (rule drop_melt_reserve)
  show "drop_melt i (drop_melt j db) = drop_melt j (drop_melt i db)" for i j db
    by (rule drop_melt_commute)
qed

section \<open>Rolling back what is pending\<close>

definition melt_pending :: "uuid \<Rightarrow> quote_id \<Rightarrow> mint_db \<Rightarrow> bool" where
  "melt_pending i q db \<longleftrightarrow> reserved i db \<and> proofs_of i db \<noteq> [] \<and> quote_of_saga i db = Some q \<and>
     (\<exists>row \<in> set (d_melt_quotes db). lq_id row = q \<and> lq_state row = MQ_Pending \<and> is_ok (sql_row_to_melt_quote row))"

lemma get_melt_quote_row:
  assumes "melt_wf X db" and "row \<in> set (d_melt_quotes db)" and "sql_row_to_melt_quote row = Inr quote"
  shows "get_melt_quote (lq_id row) db = Inr (Some quote)"
  using find_key [of lq_id "d_melt_quotes db" row] assms by (simp add: get_melt_quote_def melt_wf_def)

lemma update_to_unpaid:
  assumes "lq_state quote = MQ_Pending"
  shows "update_melt_quote_state now quote MQ_Unpaid p db = Inr (MQ_Pending, set_melt_state MQ_Unpaid quote, reset_quote (lq_id quote) db)"
  using assms by (simp add: update_melt_quote_state_def check_melt_quote_state_transition_def stored_melt_state_def
      reset_quote_def set_melt_state_def [abs_def] Let_def)

lemma drop_rows_wf: "melt_wf X db \<Longrightarrow> melt_wf X (drop_rows i db)"
  by (auto simp: melt_wf_def drop_wf) (auto simp: drop_rows_def)

lemma rollback_pending:
  assumes wf: "melt_wf X db" and p: "melt_pending i q db" and nf: "\<And>c. f c = None"
  shows "rollback_melt_quote f now q (map pr_y (proofs_of i db)) (map sr_blinded_message (sigs_of i db)) i db = Inr (drop_melt i db)"
proof -
  let ?ys = "map pr_y (proofs_of i db)" and ?bs = "map sr_blinded_message (sigs_of i db)"
  let ?db1 = "db\<lparr> d_proofs := filter (\<lambda>r. pr_operation_id r \<noteq> i) (d_proofs db) \<rparr>"
  have dwf: "db_wf X db" using wf by (simp add: melt_wf_def)
  have ne: "?ys \<noteq> []" and res: "reserved i db" and q: "quote_of_saga i db = Some q" using p by (simp_all add: melt_pending_def)
  from p obtain row quote where row: "row \<in> set (d_melt_quotes db)" "lq_id row = q" "lq_state row = MQ_Pending"
    "sql_row_to_melt_quote row = Inr quote" by (auto simp: melt_pending_def is_ok_iff)
  have rem: "remove_proofs ?ys db = Inr ?db1"
    by (rule remove_reserved_proofs [OF dwf]) (use res in \<open>auto simp: reserved_def\<close>)
  have wf1: "db_wf X ?db1" using dwf by (auto simp: db_wf_def distinct_map_filter)
  have same: "sigs_of i ?db1 = sigs_of i db" by (simp add: sigs_of_def)
  have del: "delete_blinded_messages ?bs ?db1 = drop_rows i db"
    using delete_reserved_messages [OF wf1, of i] res unfolding same by (simp add: reserved_def drop_rows_def)
  have none: "?db1 = drop_rows i db" if "?bs = []"
  proof -
    have "filter (\<lambda>r. \<not> sig_of_op i r) (d_sigs db) = d_sigs db"
      using that by (intro filter_all) (auto simp: sigs_of_def filter_empty_conv)
    then show ?thesis by (simp add: drop_rows_def)
  qed
  have "row \<in> set (d_melt_quotes (drop_rows i db))" using row by (simp add: drop_rows_def)
  from get_melt_quote_row [OF drop_rows_wf [OF wf] this row(4)] row(2)
  have get: "get_melt_quote q (drop_rows i db) = Inr (Some quote)" by simp
  have upd: "update_melt_quote_state now quote MQ_Unpaid None (drop_rows i db) =
      Inr (MQ_Pending, set_melt_state MQ_Unpaid quote, reset_quote q (drop_rows i db))"
    using update_to_unpaid [of quote now None "drop_rows i db"] sql_row_simps [OF row(4)] row by simp
  have fin: "delete_saga i (delete_melt_request q (reset_quote q (drop_rows i db))) = drop_melt i db"
    by (simp add: drop_melt_def q drop_operation_def reset_quote_def delete_melt_request_def update_melt_row_def drop_rows_def
        delete_saga_def conj_commute)
  have "(if ?bs = [] then Inr ?db1 else Inr (delete_blinded_messages ?bs ?db1)) = (Inr (drop_rows i db) :: cdk_error + mint_db)"
    using del none by simp
  then show ?thesis
    using ne rem get upd fin nf
    by (simp add: rollback_melt_quote_def rollback_proofs_def faulty_def Let_def if_distrib [of "map_err cdk_of_db"] cong: if_cong)
qed

lemma drop_melt_wf:
  assumes "melt_wf X db" shows "melt_wf X (drop_melt i db)"
proof -
  have keys: "map lq_id (update_rows (\<lambda>r. lq_id r = q) (set_melt_state MQ_Unpaid) t) = map lq_id t" for q t
    by (simp add: update_rows_keys)
  have states: "lq_state p \<in> {MQ_Unpaid, MQ_Pending, MQ_Paid}"
    if "p \<in> set (update_rows (\<lambda>r. lq_id r = q) (set_melt_state MQ_Unpaid) (d_melt_quotes db))" for p q
    using that assms by (auto simp: update_rows_def melt_wf_def split: if_splits)
  have msgs: "q' \<in> mrr_quote_id ` set (filter (\<lambda>r. mrr_quote_id r \<noteq> q) (d_melt_requests db))"
    if "r \<in> set (d_sigs db)" "\<not> unsigned_for_quote q r" "unsigned_for_quote q' r" for q q' r
  proof -
    from that assms have "q' \<in> mrr_quote_id ` set (d_melt_requests db)" by (auto simp: melt_wf_def)
    moreover have "q' \<noteq> q" using that by auto
    ultimately show ?thesis by auto
  qed
  have "melt_wf X (reset_quote q db)" for q
    using assms keys states msgs by (auto simp: melt_wf_def db_wf_def reset_quote_def delete_melt_request_def update_melt_row_def
        distinct_map_filter)
  then have "melt_wf X (case quote_of_saga i db of None \<Rightarrow> db | Some q \<Rightarrow> reset_quote q db)"
    using assms by (simp split: option.split)
  from drop_rows_wf [OF this] show ?thesis
    unfolding drop_melt_def drop_operation_def
    by (auto simp: melt_wf_def drop_wf) (auto simp: delete_saga_def)
qed

lemma pending_after_drop:
  assumes "melt_pending i q db" and "i \<noteq> j" and "quote_of_saga j db = Some q'" and "q \<noteq> q'"
  shows "melt_pending i q (drop_melt j db)"
proof -
  let ?db = "reset_quote q' db"
  have s: "quote_of_saga i (drop_operation j ?db) = quote_of_saga i db"
    using find_filter_other [OF assms(2), of sg_operation_id "d_sagas db"] by (simp add: quote_of_saga_def drop_operation_def delete_saga_def drop_rows_def reset_quote_def delete_melt_request_def update_melt_row_def)
  have p: "proofs_of i (drop_operation j ?db) = proofs_of i db"
    using assms(2) by (simp add: drop_operation_def drop_tables)
       (simp add: proofs_of_def reset_quote_def delete_melt_request_def update_melt_row_def)
  have g: "set (sigs_of i (drop_operation j ?db)) \<subseteq> set (sigs_of i db)"
    by (auto simp: sigs_of_def drop_operation_def delete_saga_def drop_rows_def reset_quote_def delete_melt_request_def update_melt_row_def)
  from assms(1) obtain row where row: "row \<in> set (d_melt_quotes db)" "lq_id row = q" "lq_state row = MQ_Pending" "is_ok (sql_row_to_melt_quote row)"
    by (auto simp: melt_pending_def)
  then have "row \<in> set (d_melt_quotes (drop_operation j ?db))"
    using assms(4) by (force simp: drop_operation_def delete_saga_def drop_rows_def reset_quote_def delete_melt_request_def update_melt_row_def update_rows_def)
  with row s p g assms show ?thesis by (auto simp: melt_pending_def reserved_def drop_melt_def)
qed

section \<open>Recovery\<close>

lemma recover_pending:
  assumes "melt_wf X db" and "melt_pending (sg_operation_id s) q db" and "sg_quote_id s = Some q" and "parses q"
    and "sg_state s = SagaMelt MeltSetupComplete"
  shows "recover_melt_saga M P parses no_recovery_faults now nonces s db = (Inr (), drop_melt (sg_operation_id s) db)"
proof -
  from assms(2) obtain row quote where row: "row \<in> set (d_melt_quotes db)" "lq_id row = q" "sql_row_to_melt_quote row = Inr quote"
    by (auto simp: melt_pending_def is_ok_iff)
  have "get_melt_quote q db = Inr (Some quote)" using get_melt_quote_row [OF assms(1) row(1,3)] row(2) by simp
  moreover have "lq_id quote = q" using sql_row_simps [OF row(3)] row(2) by simp
  ultimately show ?thesis
    using rollback_pending [OF assms(1,2), of no_faults now] assms(3-5)
    by (simp add: recover_melt_saga_def recover_quote_def recover_known_melt_def compensate_melt_saga_def no_recovery_faults_def
        faulty_def no_faults_def Let_def get_ys_proofs_of get_secrets_sigs_of)
qed

lemma recover_all_pending:
  assumes "melt_wf X db" and "distinct (map sg_operation_id ss)" and "distinct (map sg_quote_id ss)"
    and "\<forall>s \<in> set ss. sg_state s = SagaMelt MeltSetupComplete \<and> (\<exists>q. sg_quote_id s = Some q \<and> parses q \<and> melt_pending (sg_operation_id s) q db)"
  shows "recover_melt_sagas M P parses (\<lambda>_. no_recovery_faults) now nonces ss db = (Inr (), fold drop_melt (map sg_operation_id ss) db)"
  using assms
proof (induction ss arbitrary: db)
  case (Cons s ss)
  let ?i = "sg_operation_id s"
  from Cons.prems(4) obtain q where q: "sg_quote_id s = Some q" "parses q" "melt_pending ?i q db" "sg_state s = SagaMelt MeltSetupComplete"
    by auto
  have step: "recover_melt_saga M P parses no_recovery_faults now (nonces ?i) s db = (Inr (), drop_melt ?i db)"
    using q by (intro recover_pending [OF Cons.prems(1)]) auto
  have "\<exists>p. sg_quote_id t = Some p \<and> parses p \<and> melt_pending (sg_operation_id t) p (drop_melt ?i db)" if t: "t \<in> set ss" for t
  proof -
    from Cons.prems(4) t obtain p where p: "sg_quote_id t = Some p" "parses p" "melt_pending (sg_operation_id t) p db" by auto
    have "sg_operation_id t \<in> set (map sg_operation_id ss)" "sg_quote_id t \<in> set (map sg_quote_id ss)" using t by simp_all
    then have "sg_operation_id t \<noteq> ?i" "p \<noteq> q" using Cons.prems(2,3) p(1) q(1) by auto
    then have "melt_pending (sg_operation_id t) p (drop_melt ?i db)"
      using q(3) by (intro pending_after_drop [OF p(3)]) (auto simp: melt_pending_def)
    with p show ?thesis by blast
  qed
  then have "recover_melt_sagas M P parses (\<lambda>_. no_recovery_faults) now nonces ss (drop_melt ?i db)
      = (Inr (), fold drop_melt (map sg_operation_id ss) (drop_melt ?i db))"
    using Cons.prems by (intro Cons.IH drop_melt_wf) auto
  with step show ?case by simp
qed simp

lemma sql_row_set_state: "is_ok (sql_row_to_melt_quote (set_melt_state s row)) = is_ok (sql_row_to_melt_quote row)"
  by (simp add: sql_row_to_melt_quote_def set_melt_state_def)

lemma melt_reserve_quotes:
  "d_melt_quotes (melt_reserve now q a fee d ys ps ms s db) = update_rows (\<lambda>r. lq_id r = q) (set_melt_state MQ_Pending) (d_melt_quotes db)"
  by (simp add: melt_reserve_def reserve_def)

lemma melt_reserve_tables:
  "proofs_of i (melt_reserve now q a fee d ys ps ms s db) =
     proofs_of i db @ (if i = op_id d then map2 (pending_row now (Some q) d) ys ps else [])"
  "sigs_of i (melt_reserve now q a fee d ys ps ms s db) = sigs_of i db @ (if i = op_id d then map (new_sig_row now (Some q) d) ms else [])"
  "d_sagas (melt_reserve now q a fee d ys ps ms s db) = d_sagas db @ [s]"
  by (simp_all add: melt_reserve_def reserve_tables) (simp_all add: proofs_of_def sigs_of_def)

lemma pending_after_setup:
  assumes "melt_pending j p db" and "j \<noteq> op_id d" and "p \<noteq> q"
  shows "melt_pending j p (melt_reserve now q a fee d ys ps ms s db)"
proof -
  from assms(1) obtain row where row: "row \<in> set (d_melt_quotes db)" "lq_id row = p" "lq_state row = MQ_Pending" "is_ok (sql_row_to_melt_quote row)"
    by (auto simp: melt_pending_def)
  then have "row \<in> set (d_melt_quotes (melt_reserve now q a fee d ys ps ms s db))"
    using assms(3) by (force simp: melt_reserve_quotes update_rows_def)
  moreover have "List.find P (t @ [s]) = List.find P t" if "List.find P t \<noteq> None" for P and t :: "saga list"
    using that by (induction t) auto
  then have "quote_of_saga j (melt_reserve now q a fee d ys ps ms s db) = Some p"
    using assms(1) by (auto simp: melt_pending_def quote_of_saga_def melt_reserve_tables split: option.splits)
  ultimately show ?thesis
    using row assms by (auto simp: melt_pending_def reserved_def melt_reserve_tables)
qed

lemma setup_pending:
  assumes "unused i db" and "op_id d = i" and "sg_operation_id s = i" and "sg_quote_id s = Some q" and "ys \<noteq> []" and "length ys = length ps"
    and "row \<in> set (d_melt_quotes db)" and "lq_id row = q" and "sql_row_to_melt_quote row = Inr quote"
  shows "melt_pending i q (melt_reserve now q a fee d ys ps ms s db)"
proof -
  have "set_melt_state MQ_Pending row \<in> set (d_melt_quotes (melt_reserve now q a fee d ys ps ms s db))"
    using assms(7,8) by (force simp: melt_reserve_quotes update_rows_def)
  moreover have "is_ok (sql_row_to_melt_quote (set_melt_state MQ_Pending row))" using assms(9) by (simp add: sql_row_set_state)
  moreover have "quote_of_saga i (melt_reserve now q a fee d ys ps ms s db) = Some q"
    using quote_of_melt_reserve [of i db s] assms(1,3,4) by (simp add: unused_def)
  moreover have "reserved i (melt_reserve now q a fee d ys ps ms s db)"
    using assms(1,2) in_map2_pending(2) [of _ now "Some q" d ys ps] by (auto simp: reserved_def melt_reserve_tables unused_def)
  moreover have "map2 (pending_row now (Some q) d) ys ps \<noteq> []" using assms(5,6) by (cases ys; cases ps) auto
  then have "proofs_of i (melt_reserve now q a fee d ys ps ms s db) \<noteq> []" by (simp add: melt_reserve_tables assms(2))
  ultimately show ?thesis
    unfolding melt_pending_def using assms(8) by (metis set_melt_state_simps(1,2))
qed

lemma melt_setups_pending:
  assumes "melting.setups X ids db db'" and "melt_wf X db" and "\<forall>s \<in> set (d_sagas db). sg_operation_kind s \<noteq> Op_Melt"
  shows "\<exists>ss. d_sagas db' = d_sagas db @ ss \<and> map sg_operation_id ss = rev ids \<and> distinct ids \<and> distinct (map sg_quote_id ss) \<and>
    map lq_id (d_melt_quotes db') = map lq_id (d_melt_quotes db) \<and>
    (\<forall>s \<in> set ss. sg_operation_kind s = Op_Melt \<and> sg_state s = SagaMelt MeltSetupComplete \<and>
      (\<exists>q. sg_quote_id s = Some q \<and> q \<in> lq_id ` set (d_melt_quotes db) \<and> melt_pending (sg_operation_id s) q db'))"
  using assms
proof (induction rule: melting.setups.induct)
  case (none db)
  then show ?case by simp
next
  case (more ids db db' i db'')
  from more obtain ss where ss: "d_sagas db' = d_sagas db @ ss" "map sg_operation_id ss = rev ids" "distinct ids" "distinct (map sg_quote_id ss)"
    "map lq_id (d_melt_quotes db') = map lq_id (d_melt_quotes db)"
    and all: "\<forall>s \<in> set ss. sg_operation_kind s = Op_Melt \<and> sg_state s = SagaMelt MeltSetupComplete \<and>
      (\<exists>q. sg_quote_id s = Some q \<and> q \<in> lq_id ` set (d_melt_quotes db) \<and> melt_pending (sg_operation_id s) q db')"
    by blast
  have wf': "melt_wf X db'" by (rule melting.setups_wf [OF more(1) more.prems(1)])
  from more(3) obtain now q a fee d ys ps ms row quote where d: "op_id d = i" and ys: "reservable X ys ps ms db'" "ys \<noteq> []"
    and row: "row \<in> set (d_melt_quotes db')" "lq_id row = q" "sql_row_to_melt_quote row = Inr quote" "lq_state row = MQ_Unpaid \<or> lq_state row = MQ_Failed"
    and db'': "db'' = melt_reserve now q a fee d ys ps ms (saga_new_melt now i MeltSetupComplete q) db'"
    by (rule melt_setupE)
  let ?s = "saga_new_melt now i MeltSetupComplete q"
  have i: "i \<notin> set ids"
  proof -
    have "i \<notin> sg_operation_id ` set (d_sagas db')" using more(2) by (simp add: unused_def)
    then have "i \<notin> set (map sg_operation_id ss)" using ss(1) by auto
    then show ?thesis by (simp add: ss(2))
  qed
  have other: "p \<noteq> q \<and> melt_pending (sg_operation_id s) p db''" if s: "s \<in> set ss" and p: "melt_pending (sg_operation_id s) p db'" for s p
  proof -
    have "sg_operation_id s \<in> set (map sg_operation_id ss)" using s by simp
    then have "sg_operation_id s \<noteq> op_id d" using i by (metis d set_rev ss(2))
    moreover have "p \<noteq> q"
    proof
      assume "p = q"
      with p obtain row' where row': "row' \<in> set (d_melt_quotes db')" "lq_id row' = lq_id row" "lq_state row' = MQ_Pending"
        unfolding melt_pending_def row(2) by blast
      have "distinct (map lq_id (d_melt_quotes db'))" using wf' by (simp add: melt_wf_def)
      from distinct_key_unique [OF this row'(1) row(1) row'(2)] row'(3) row(4) show False by simp
    qed
    ultimately show ?thesis unfolding db'' using pending_after_setup [OF p] by simp
  qed
  have new: "melt_pending i q db''"
    unfolding db'' using reservable_length [OF ys(1)] ys(2) d by (intro setup_pending [OF more(2) _ _ _ _ _ row(1-3)]) auto
  have "q \<in> lq_id ` set (d_melt_quotes db)"
  proof -
    have "q \<in> set (map lq_id (d_melt_quotes db'))" using row by auto
    then show ?thesis by (simp add: ss(5))
  qed
  moreover have "Some q \<notin> set (map sg_quote_id ss)" using all other by fastforce
  moreover have "map lq_id (d_melt_quotes db'') = map lq_id (d_melt_quotes db)"
    using ss(5) by (simp add: db'' melt_reserve_quotes update_rows_keys)
  moreover have "d_sagas db'' = d_sagas db @ ss @ [?s]" by (simp add: db'' melt_reserve_tables ss(1))
  moreover have "\<exists>p. sg_quote_id s = Some p \<and> p \<in> lq_id ` set (d_melt_quotes db) \<and> melt_pending (sg_operation_id s) p db''" if "s \<in> set ss" for s
    using all other that by blast
  ultimately show ?case
    using ss(2-4) all i new by (intro exI [of _ "ss @ [?s]"]) auto
qed

text \<open>
  C8. Crash recovery of melts: after any number of concurrent melts that got through their setup
  transaction and no further, the recovery at start-up (without database failures) returns the
  database exactly as it was before all of them -- inputs, change outputs, quote states, melt requests
  and sagas -- whatever the payment backends answer, provided no other melt saga was in it and the
  identifiers of the quotes parse.
\<close>
theorem melt_recovery_restores:
  assumes "melt_wf X db" and "\<forall>s \<in> set (d_sagas db). sg_operation_kind s \<noteq> Op_Melt" and "melting.setups X ids db db'"
    and "\<forall>q \<in> set (d_melt_quotes db). lq_id q \<noteq> [] \<and> parses (lq_id q)"
  shows "recover_from_incomplete_melt_sagas M P parses None (\<lambda>_. no_recovery_faults) now nonces db' = (Inr (), db)"
proof -
  from melt_setups_pending [OF assms(3,1,2)] obtain ss where ss: "d_sagas db' = d_sagas db @ ss" "map sg_operation_id ss = rev ids"
    "distinct ids" "distinct (map sg_quote_id ss)"
    and all: "\<forall>s \<in> set ss. sg_operation_kind s = Op_Melt \<and> sg_state s = SagaMelt MeltSetupComplete \<and>
      (\<exists>q. sg_quote_id s = Some q \<and> q \<in> lq_id ` set (d_melt_quotes db) \<and> melt_pending (sg_operation_id s) q db')"
    by blast
  have row: "saga_of_row s = s" if "s \<in> set ss" for s
    using all assms(4) that by (fastforce simp: saga_of_row_def)
  then have "map saga_of_row (sort_key sg_created_at ss) = sort_key sg_created_at ss" by (intro map_idI) simp
  then have inc: "get_incomplete_sagas Op_Melt db' = sort_key sg_created_at ss"
    using assms(2) ss(1) all by (simp add: get_incomplete_sagas_def filter_none filter_all)
  let ?l = "sort_key sg_created_at ss"
  have ms: "mset (map sg_operation_id ?l) = mset ids" using mset_map_sort_key [of sg_operation_id id _ ss] by (simp add: ss(2))
  have "mset (map sg_quote_id ?l) = mset (map sg_quote_id ss)" using mset_map_sort_key [of sg_quote_id id _ ss] by simp
  then have "distinct (map sg_quote_id ?l)" "distinct (map sg_operation_id ?l)"
    using ss(3,4) ms by (metis mset_eq_imp_distinct_iff)+
  then have "recover_melt_sagas M P parses (\<lambda>_. no_recovery_faults) now nonces ?l db' = (Inr (), fold drop_melt (map sg_operation_id ?l) db')"
    by (intro recover_all_pending [OF melting.setups_wf [OF assms(3,1)]]) (use all assms(4) in auto)
  also have "fold drop_melt (map sg_operation_id ?l) db' = db"
    by (rule melting.undo_in_any_order [OF assms(3,1) ms])
  finally show ?thesis by (simp add: recover_from_incomplete_melt_sagas_def faulty_def inc)
qed

section \<open>A small melt\<close>

definition demo_melt_quote :: melt_quote where
  "demo_melt_quote = melt_quote_new 0 ''q'' (MP_Bolt11 ''ln'') Sat (new_amount 5 Sat) (new_amount 1 Sat) 100
     (Some (PI_CustomId ''h'')) None (KnownMethod Bolt11)"

definition demo_melt_db :: mint_db where
  "demo_melt_db = empty_db\<lparr> d_melt_quotes := [demo_melt_quote] \<rparr>"

definition demo_change :: "blinded_message list" where
  "demo_change = [new_blinded_message 1 demo_kid (demo_pt 5), new_blinded_message 1 demo_kid (demo_pt 6)]"

definition demo_melt_request :: melt_request where
  "demo_melt_request = melt_request_new ''q'' [demo_input] (Some demo_change)"

lemma demo_melt_setup:
  "\<exists>s db'. setup_melt demo_mint False no_faults 0 ''op'' demo_melt_request \<lparr> v_amount = new_amount 8 Sat \<rparr> (KnownMethod Bolt11) demo_melt_db
     = Inr (s, db') \<and> d_proofs db' \<noteq> []"
proof -
  let ?s = "setup_melt demo_mint False no_faults 0 ''op'' demo_melt_request \<lparr> v_amount = new_amount 8 Sat \<rparr> (KnownMethod Bolt11) demo_melt_db"
  have "case ?s of Inr (s, db') \<Rightarrow> \<not> List.null (d_proofs db') | Inl _ \<Rightarrow> False" by code_simp
  then show ?thesis by (auto split: sum.splits prod.splits)
qed

lemma demo_melt_start: "melt_wf demo_ext demo_melt_db" "unused i demo_melt_db" "m_ext demo_mint = demo_ext"
  by (simp_all add: melt_wf_def db_wf_def demo_melt_db_def empty_db_def demo_melt_quote_def melt_quote_new_def unused_def proofs_of_def
      sigs_of_def demo_mint_def)

theorem melt_recovery_restores_witness:
  "\<exists>db'. melting.setups demo_ext [''op''] demo_melt_db db' \<and> d_proofs db' \<noteq> [] \<and>
     recover_from_incomplete_melt_sagas demo_mint (\<lambda>_ _. None) (\<lambda>_. True) None (\<lambda>_. no_recovery_faults) 0 (\<lambda>_. []) db' = (Inr (), demo_melt_db)"
proof -
  from demo_melt_setup obtain s db' where
    s: "setup_melt demo_mint False no_faults 0 ''op'' demo_melt_request \<lparr> v_amount = new_amount 8 Sat \<rparr> (KnownMethod Bolt11) demo_melt_db = Inr (s, db')"
    and ne: "d_proofs db' \<noteq> []" by blast
  have "melt_setup demo_ext ''op'' demo_melt_db db'" using s demo_melt_start(3) unfolding melt_setup_def by blast
  then have r: "melting.setups demo_ext [''op''] demo_melt_db db'"
    using melting.setups.more [OF melting.setups.none] demo_melt_start(2) by blast
  have "\<forall>s \<in> set (d_sagas demo_melt_db). sg_operation_kind s \<noteq> Op_Melt"
    "\<forall>q \<in> set (d_melt_quotes demo_melt_db). lq_id q \<noteq> [] \<and> (\<lambda>_. True) (lq_id q)"
    by (simp_all add: demo_melt_db_def empty_db_def demo_melt_quote_def melt_quote_new_def)
  from melt_recovery_restores [OF demo_melt_start(1) this(1) r this(2)] r ne show ?thesis by blast
qed

end
