(* ===== verification/Melt_Safety.thy ===== *)
theory Melt_Safety
  imports Melt_Setup
begin

text \<open>
  What a melt does with the inputs, for every behaviour of the database and of the payment backend:
  the inputs are given back only when the payment was not made, and when the melt answers, they are
  spent, the quote is paid and the change is what is left of them.
\<close>

section \<open>Inputs are given back only when nothing was paid\<close>

text \<open>What the backend said about the payment of a quote, to the request or to the check that follows.\<close>

definition check_reports_paid :: "payment_backend \<Rightarrow> payment_identifier \<Rightarrow> bool" where
  "check_reports_paid ln l \<longleftrightarrow> (case pb_check_outgoing_payment ln l of Inr r \<Rightarrow> mp_status r = MQ_Paid | Inl _ \<Rightarrow> False)"

definition reported_paid :: "payment_backend \<Rightarrow> melt_quote \<Rightarrow> bool" where
  "reported_paid ln quote \<longleftrightarrow> (case from_melt_quote_with_fee quote of
       Inl _ \<Rightarrow> False
     | Inr options \<Rightarrow> (case pb_make_payment ln (lq_unit quote) options of
         Inr pay \<Rightarrow> mp_status pay = MQ_Paid \<or> check_reports_paid ln (mp_payment_lookup_id pay)
       | Inl _ \<Rightarrow> (case lq_request_lookup_id quote of None \<Rightarrow> False | Some l \<Rightarrow> check_reports_paid ln l)))"

lemma check_payment_state_simps:
  "pb_check_outgoing_payment ln l = Inr r \<Longrightarrow> check_payment_state ln l = Inr r"
  "pb_check_outgoing_payment ln l = Inl e \<Longrightarrow> check_payment_state ln l = Inl E_Internal"
  by (simp_all add: check_payment_state_def map_err_def)

lemma execute_payment_verdict:
  assumes "execute_payment_and_verify ln quote = Inr response"
  shows "reported_paid ln quote \<longleftrightarrow> mp_status response = MQ_Paid"
proof -
  from assms obtain opts where opts: "from_melt_quote_with_fee quote = Inr opts"
    by (auto simp: execute_payment_and_verify_def rbind_eq_Ok map_err_eq_Ok)
  show ?thesis
  proof (cases "pb_make_payment ln (lq_unit quote) opts")
    case (Inl e)
    with assms opts obtain l where l: "lq_request_lookup_id quote = Some l" "rmap unknown_as_failed (check_payment_state ln l) = Inr response"
      by (auto simp: execute_payment_and_verify_def handle_payment_error_def rbind_eq_Ok ok_or_eq_Ok)
    with Inl opts show ?thesis
      by (cases "pb_check_outgoing_payment ln l")
         (auto simp: reported_paid_def check_reports_paid_def check_payment_state_simps unknown_as_failed_def split: if_splits)
  next
    case (Inr pay)
    show ?thesis
    proof (cases "mp_status pay = MQ_Paid")
      case True
      with assms opts Inr show ?thesis by (auto simp: execute_payment_and_verify_def reported_paid_def)
    next
      case False
      with assms opts Inr have v: "verify_ambiguous_payment ln pay = Inr response" by (simp add: execute_payment_and_verify_def)
      with False Inr opts show ?thesis
        by (cases "pb_check_outgoing_payment ln (mp_payment_lookup_id pay)")
           (auto simp: verify_ambiguous_payment_def reported_paid_def check_reports_paid_def check_payment_state_simps
             unknown_as_failed_def split: if_splits)
    qed
  qed
qed

abbreviation input_keys :: "mint_db \<Rightarrow> public_key list" where
  "input_keys db \<equiv> map pr_y (d_proofs db)"

lemma db_update_proofs_keys: "db_update_proofs_state X a s db = Inr (b, db') \<Longrightarrow> input_keys db' = input_keys db"
  by (auto simp: db_update_proofs_state_def res_simps Let_def update_rows_keys split: if_splits)

lemma update_melt_quote_state_proofs: "update_melt_quote_state now q s p db = Inr (a, b, db') \<Longrightarrow> d_proofs db' = d_proofs db"
  by (auto simp: update_melt_quote_state_def res_simps Let_def update_melt_row_def delete_melt_request_def split: if_splits)

text \<open>What a successful core finalization did.\<close>

lemma finalize_melt_core_Ok:
  assumes "finalize_melt_core X f now quote ys ia ife spent p l db = Inr (quote', db')"
  obtains os quote1 db1 db2 ps b where "\<not> typed_partial_cmp_lt spent (lq_amount quote)"
    "update_melt_quote_state now quote MQ_Paid p db = Inr (os, quote1, db1)"
    "db2 = db1 \<or> db2 = update_melt_row (lq_id quote1) (\<lambda>r. r\<lparr> lq_request_lookup_id := Some l \<rparr>) db1"
    "get_proofs ys db2 = Inr ps" "check_state_transition (ps_state ps) Spent = Inr ()"
    "db_update_proofs_state X ps Spent db2 = Inr (b, db')"
proof -
  from assms obtain os quote1 db1 quote2 db2 ps b where lt: "\<not> typed_partial_cmp_lt spent (lq_amount quote)"
    and u: "update_melt_quote_state now quote MQ_Paid p db = Inr (os, quote1, db1)"
    and l: "(if lq_request_lookup_id quote1 \<noteq> Some l
             then map_err cdk_of_db (faulty (f Update_lookup_id) (Inr (update_melt_quote_request_lookup_id quote1 l db1)))
             else Inr (quote1, db1)) = Inr (quote2, db2)"
    and g: "get_proofs ys db2 = Inr ps" and st: "update_proofs_state X (f Update_proofs_state) ps Spent db2 = Inr (b, db')"
    unfolding finalize_melt_core_def by (auto elim!: rbind_OkE simp: map_err_eq_Ok faulty_Ok split: if_split_asm)
  from l have "db2 = db1 \<or> db2 = update_melt_row (lq_id quote1) (\<lambda>r. r\<lparr> lq_request_lookup_id := Some l \<rparr>) db1"
    by (auto simp: map_err_eq_Ok faulty_Ok update_melt_quote_request_lookup_id_def Let_def split: if_split_asm)
  moreover from st have "check_state_transition (ps_state ps) Spent = Inr ()" "db_update_proofs_state X ps Spent db2 = Inr (b, db')"
    by (auto simp: update_proofs_state_def rbind_eq_Ok map_err_eq_Ok faulty_Ok)
  ultimately show thesis using that lt u g by blast
qed

lemma finalize_melt_core_keys:
  assumes "finalize_melt_core X f now quote ys ia ife spent p l db = Inr (quote', db')"
  shows "input_keys db' = input_keys db"
proof -
  from assms obtain os quote1 db1 db2 ps b where "update_melt_quote_state now quote MQ_Paid p db = Inr (os, quote1, db1)"
    "db2 = db1 \<or> db2 = update_melt_row (lq_id quote1) (\<lambda>r. r\<lparr> lq_request_lookup_id := Some l \<rparr>) db1"
    and u: "db_update_proofs_state X ps Spent db2 = Inr (b, db')"
    by (rule finalize_melt_core_Ok)
  then have "d_proofs db2 = d_proofs db" by (auto simp: update_melt_row_def dest: update_melt_quote_state_proofs)
  with db_update_proofs_keys [OF u] show ?thesis by simp
qed

lemma add_signatures_loop_proofs: "add_signatures_loop now q ex zs db = Inr (ex', db') \<Longrightarrow> d_proofs db' = d_proofs db"
  by (induction now q ex zs db rule: add_signatures_loop.induct)
     (auto simp: rbind_eq_Ok rmap_eq_Ok issue_amount_def split: option.splits)

lemma process_melt_change_proofs:
  assumes "process_melt_change M f now nonces q ia spent fee outs db = Inr (c, db')"
  shows "d_proofs db' = d_proofs db"
  using assms
  by (auto simp: process_melt_change_def add_blind_signatures_def rbind_eq_Ok map_err_eq_Ok faulty_Ok
      dest!: add_signatures_loop_proofs split: if_splits)

lemma finish_melt_proofs: "finish_melt f now spent c s db = Inr (resp, db') \<Longrightarrow> d_proofs db' = d_proofs db"
  by (auto simp: finish_melt_def Let_def rbind_eq_Ok map_err_eq_Ok faulty_Ok add_completed_operation_def rmap_eq_Ok
      delete_melt_request_def delete_saga_def split: option.splits)

lemma finalize_melt_first_keys:
  "finalize_melt_first X f now spent s db = Inr (info, db') \<Longrightarrow> input_keys db' = input_keys db"
  by (auto simp: finalize_melt_first_def Let_def rbind_eq_Ok map_err_eq_Ok faulty_Ok dest!: finalize_melt_core_keys)

lemma finalize_melt_keeps_inputs:
  assumes "finalize_melt M f1 f2 now nonces s db = (r, db')"
  shows "input_keys db' = input_keys db"
  using assms
  by (auto simp: finalize_melt_def Let_def rbind_eq_Ok map_err_eq_Ok faulty_Ok update_saga_def
      dest!: finalize_melt_first_keys process_melt_change_proofs finish_melt_proofs split: sum.splits if_splits prod.splits)

lemma update_mint_quote_proofs: "update_mint_quote now q db = Inr (q', db') \<Longrightarrow> d_proofs db' = d_proofs db"
  by (auto simp: update_mint_quote_def take_changes_def rbind_eq_Ok split: option.splits if_splits)

lemma settle_mint_quote_proofs:
  assumes "settle_mint_quote f now i quote mq db = Inr db'"
  shows "d_proofs db' = d_proofs db"
proof -
  from assms obtain mq1 q' db1 where "db1 = update_saga now i (SagaMelt MeltPaymentAttempted) db"
    and u: "update_mint_quote now mq1 db1 = Inr (q', db')"
    by (auto simp: settle_mint_quote_def rbind_eq_Ok map_err_eq_Ok faulty_Ok)
  with update_mint_quote_proofs [OF u] show ?thesis by (simp add: update_saga_def)
qed

text \<open>The tables of the mint quotes: the quotes with what was paid for them, and the payments.\<close>

definition same_credits :: "mint_db \<Rightarrow> mint_db \<Rightarrow> bool" where
  "same_credits db db' \<longleftrightarrow> d_mint_quotes db' = d_mint_quotes db \<and> d_payments db' = d_payments db"

lemma same_credits_refl [simp]: "same_credits db db"
  by (simp add: same_credits_def)

lemma same_credits_trans: "same_credits a b \<Longrightarrow> same_credits b c \<Longrightarrow> same_credits a c"
  by (simp add: same_credits_def)

lemma rollback_proofs_credits: "rollback_proofs f ys db = Inr db' \<Longrightarrow> same_credits db db'"
  by (auto simp: same_credits_def rollback_proofs_def faulty_Ok remove_proofs_def delete_unspent_proofs_def Let_def split: if_splits sum.splits db_error.splits)

lemma update_melt_quote_state_credits: "update_melt_quote_state now q s p db = Inr (a, b, db') \<Longrightarrow> same_credits db db'"
  by (auto simp: same_credits_def update_melt_quote_state_def rbind_eq_Ok map_err_eq_Ok Let_def update_melt_row_def delete_melt_request_def split: if_splits)

lemma rollback_credits:
  assumes "rollback_melt_quote f now q ys bs i db = Inr db'"
  shows "same_credits db db'"
proof (cases "ys = [] \<and> bs = []")
  case False
  with assms obtain db1 db2 m db3 where r: "rollback_proofs f ys db = Inr db1"
    and d: "(if bs = [] then Inr db1 else map_err cdk_of_db (faulty (f Delete_blinded_messages) (Inr (delete_blinded_messages bs db1)))) = Inr db2"
    and m: "(case m of None \<Rightarrow> Inr db2 | Some quote \<Rightarrow> rmap (\<lambda>(_, _, db3). db3) (map_err cdk_of_db (faulty (f Update_melt_quote)
                   (update_melt_quote_state now quote MQ_Unpaid None db2)))) = Inr db3"
    and db': "db' = (case f Delete_saga of None \<Rightarrow> delete_saga i (delete_melt_request q db3) | Some _ \<Rightarrow> delete_melt_request q db3)"
    unfolding rollback_melt_quote_def Let_def by (auto elim!: rbind_OkE simp: map_err_eq_Ok faulty_Ok)
  from d have "same_credits db1 db2" by (auto simp: same_credits_def map_err_eq_Ok faulty_Ok delete_blinded_messages_def split: if_split_asm)
  moreover from m have "same_credits db2 db3"
    by (auto simp: rmap_eq_Ok map_err_eq_Ok faulty_Ok dest: update_melt_quote_state_credits split: option.splits)
  ultimately show ?thesis
    using rollback_proofs_credits [OF r] by (simp add: same_credits_def db' delete_melt_request_def delete_saga_def split: option.split)
qed (use assms in \<open>simp add: rollback_melt_quote_def\<close>)

lemma melt_compensate_credits: "same_credits db (melt_compensate_all f now cs db)"
  by (induction f now cs db rule: melt_compensate_all.induct)
     (auto simp: remove_melt_setup_execute_def dest: rollback_credits intro: same_credits_trans split: sum.splits)

text \<open>An aborted settlement credits nothing, and so does one that leaves the payment to the backend.\<close>

lemma settlement_outcome:
  assumes "attempt_internal_settlement f fc now req s db = (r, db')"
  shows "case r of
      Inl e \<Rightarrow> same_credits db db' \<and> (db' = db \<or> e \<in> {E_Internal, E_RequestAlreadyPaid, E_InsufficientFunds})
    | Inr SD_RequiresExternalPayment \<Rightarrow> db' = db
    | Inr (SD_Internal a) \<Rightarrow> d_proofs db' = d_proofs db"
  using assms
  by (auto simp: attempt_internal_settlement_def abort_melt_def Let_def melt_compensate_credits rbind_eq_Ok map_err_eq_Ok
      faulty_def dest!: settle_mint_quote_proofs split: option.splits sum.splits if_splits)

lemma make_payment_outcome:
  assumes "make_payment P f fc now d s db = (r, db')" and "d_proofs db' \<noteq> d_proofs db"
  shows "r = Inl E_PaymentFailed \<and> d = SD_RequiresExternalPayment \<and> same_credits db db' \<and>
    (\<exists>ln response. P (lq_unit (mc_quote (ms_state_data s))) (lq_payment_method (mc_quote (ms_state_data s))) = Some ln \<and>
      execute_payment_and_verify ln (mc_quote (ms_state_data s)) = Inr response \<and> mp_status response \<in> {MQ_Unpaid, MQ_Failed})"
proof -
  from assms obtain response db1 where d: "d = SD_RequiresExternalPayment"
    and a: "attempt_external_payment P f now (ms_operation_id s) (mc_quote (ms_state_data s)) db = (Inr response, db1)"
    and r: "r = Inl E_PaymentFailed" "mp_status response \<in> {MQ_Unpaid, MQ_Failed}" "db' = melt_compensate_all fc now (ms_compensations s) db1"
    by (auto simp: make_payment_def attempt_external_payment_def Let_def rbind_eq_Ok map_err_eq_Ok faulty_Ok update_saga_def
        split: settlement_decision.splits option.splits sum.splits prod.splits melt_quote_state.splits)
  from a have "same_credits db db1"
    by (auto simp: attempt_external_payment_def rbind_eq_Ok map_err_eq_Ok faulty_Ok update_saga_def same_credits_def
        split: option.splits sum.splits)
  then have "same_credits db db'" unfolding r(3) by (rule same_credits_trans [OF _ melt_compensate_credits])
  with d a r show ?thesis by (auto simp: attempt_external_payment_def split: option.splits sum.splits)
qed

text \<open>
  C6. The inputs of a melt leave the database only when nothing was paid. Whatever the database
  calls and the payment backend do: if an input proof that was reserved is gone when the melt has
  run, then no mint quote was credited (the mint quotes and the payments recorded for them are as they
  were), and either the internal settlement refused, because its look-up failed, the request is paid
  already or the inputs fall short of it, or the melt answers that the payment failed and the backend
  reported Paid neither when the payment was requested nor when it was checked.
\<close>
theorem melt_refunds_only_unpaid:
  assumes "complete_melt M P F now nonces req s db = (r, db')"
    and "y \<in> set (input_keys db)" and "y \<notin> set (input_keys db')"
  shows "d_mint_quotes db' = d_mint_quotes db \<and> d_payments db' = d_payments db \<and>
    ((\<exists>e. r = Inl e \<and> e \<in> {E_Internal, E_RequestAlreadyPaid, E_InsufficientFunds} \<and>
        attempt_internal_settlement (mf_settle F) (mf_compensate F) now req s db = (Inl e, db')) \<or>
     (r = Inl E_PaymentFailed \<and> (\<exists>ln. P (lq_unit (mc_quote (ms_state_data s))) (lq_payment_method (mc_quote (ms_state_data s))) = Some ln \<and>
       \<not> reported_paid ln (mc_quote (ms_state_data s)))))"
proof (cases "attempt_internal_settlement (mf_settle F) (mf_compensate F) now req s db")
  case (Pair x db1)
  show ?thesis
  proof (cases x)
    case (Inl e)
    with assms(1) Pair have e: "r = Inl e" "db' = db1" by (simp_all add: complete_melt_def)
    with assms(2,3) have "db' \<noteq> db" by auto
    with e settlement_outcome [OF Pair] Inl Pair show ?thesis by (auto simp: same_credits_def)
  next
    case (Inr d)
    with settlement_outcome [OF Pair] have db1: "input_keys db1 = input_keys db" "d = SD_RequiresExternalPayment \<Longrightarrow> db1 = db"
      by (auto split: settlement_decision.splits)
    obtain z db2 where z: "make_payment P (mf_attempt F) (mf_compensate F) now d s db1 = (z, db2)" by fastforce
    have k: "input_keys db' = input_keys db2" and r: "\<forall>e. z = Inl e \<longrightarrow> r = Inl e \<and> db' = db2"
      using assms(1) Pair Inr z finalize_melt_keeps_inputs by (auto simp: complete_melt_def split: sum.splits)
    with assms(2,3) db1(1) have "d_proofs db2 \<noteq> d_proofs db1" by metis
    from make_payment_outcome [OF z this] obtain ln response where o: "z = Inl E_PaymentFailed" "d = SD_RequiresExternalPayment" "same_credits db1 db2"
      "P (lq_unit (mc_quote (ms_state_data s))) (lq_payment_method (mc_quote (ms_state_data s))) = Some ln"
      "execute_payment_and_verify ln (mc_quote (ms_state_data s)) = Inr response" "mp_status response \<in> {MQ_Unpaid, MQ_Failed}" by auto
    have "\<not> reported_paid ln (mc_quote (ms_state_data s))" using execute_payment_verdict [OF o(5)] o(6) by auto
    with o r db1(2) show ?thesis by (simp add: same_credits_def)
  qed
qed

section \<open>The change\<close>

lemma change_amounts: "map bm_amount (map2 (\<lambda>a m. m\<lparr> bm_amount := a \<rparr>) as ms) = take (length ms) as"
proof (induction as arbitrary: ms)
  case (Cons a as)
  then show ?case by (cases ms) simp_all
qed simp

lemma usum_take: "usum (take n xs) \<le> usum xs"
proof -
  have "usum xs = usum (take n xs) + usum (drop n xs)" by (simp flip: sum_list_append map_append)
  then show ?thesis by simp
qed

lemma usum_rev_sort: "usum (rev (sort xs)) = usum xs"
  by (simp add: rev_map [symmetric] sum_list_rev)

lemma process_melt_change_Ok:
  assumes "process_melt_change M f now nonces q ia spent fee outs db = Inr (Some sigs, db')"
  obtains target parts where "unat (ta_value ia) = unat (ta_value spent) + unat (ta_value fee) + unat target"
    "amount_split (get_keyset_fee_and_amounts M outs) target = Inr parts"
    "map bs_amount sigs = take (length outs) (if length outs < length parts then rev (sort parts) else parts)"
    "typed_partial_cmp_lt spent ia"
proof -
  from assms obtain rest target to_sign where "typed_partial_cmp_lt spent ia"
    and t: "typed_checked_sub ia spent = Inr rest" "typed_checked_sub rest fee = Inr target"
    and cm: "change_messages M (ta_value target) outs = Inr to_sign" and bs: "blind_sign M nonces to_sign = Inr sigs"
    and ad: "add_blind_signatures now (map bm_blinded_secret to_sign) sigs (Some q) db = Inr db'"
    by (auto elim!: rbind_OkE simp: process_melt_change_def map_err_eq_Ok faulty_Ok split: if_split_asm)
  from ad have len: "length sigs = length to_sign" by (simp add: add_blind_signatures_def split: if_splits)
  from cm obtain parts where p: "amount_split (get_keyset_fee_and_amounts M outs) (ta_value target) = Inr parts"
    "to_sign = map2 (\<lambda>a m. m\<lparr> bm_amount := a \<rparr>) (if length outs < length parts then rev (sort parts) else parts) outs"
    by (auto simp: change_messages_def rmap_eq_Ok Let_def)
  have "map bs_amount sigs = take (length outs) (if length outs < length parts then rev (sort parts) else parts)"
    unfolding blind_sign_amounts [OF bs len] p(2) change_amounts ..
  moreover have "unat (ta_value ia) = unat (ta_value spent) + unat (ta_value fee) + unat (ta_value target)"
    using t by (simp add: typed_checked_sub_Ok)
  ultimately show thesis using that p(1) \<open>typed_partial_cmp_lt spent ia\<close> by blast
qed

text \<open>
  C9. The change of a melt. When it is computed, none is given exactly when no change outputs were
  sent, the payment took the inputs or more, or the amount spent is in another unit than the inputs:
  amounts of different units are not ordered, so the last case withholds the change although something
  may be left (\<open>finalize\<close> converts the amount spent first, \<open>finalize_melt_quote\<close> of the recovery does
  not). Otherwise what is signed, together with what was spent and the input fee, is never more than
  the inputs, and it is exactly the rest when there are outputs enough for its denominations; with
  fewer outputs the largest denominations are signed.
\<close>
theorem melt_change_exact:
  assumes "process_melt_change M f now nonces q ia spent fee outs db = Inr (change, db')"
  shows "(change = None \<longleftrightarrow> outs = [] \<or> unat (ta_value ia) \<le> unat (ta_value spent) \<or> ta_unit spent \<noteq> ta_unit ia) \<and>
    (\<forall>sigs. change = Some sigs \<longrightarrow>
        usum (map bs_amount sigs) + unat (ta_value spent) + unat (ta_value fee) \<le> unat (ta_value ia) \<and>
        (\<exists>target parts. unat (ta_value ia) = unat (ta_value spent) + unat (ta_value fee) + unat target \<and>
          amount_split (get_keyset_fee_and_amounts M outs) target = Inr parts \<and>
          (if length outs < length parts then map bs_amount sigs = take (length outs) (rev (sort parts))
           else usum (map bs_amount sigs) + unat (ta_value spent) + unat (ta_value fee) = unat (ta_value ia))))"
proof (cases change)
  case None
  with assms have "\<not> typed_partial_cmp_lt spent ia \<or> outs = []"
    by (auto elim!: rbind_OkE simp: process_melt_change_def split: if_split_asm)
  with None show ?thesis by (auto simp: typed_partial_cmp_lt_def word_less_nat_alt)
next
  case (Some sigs)
  with assms have some: "typed_partial_cmp_lt spent ia" "outs \<noteq> []"
    by (auto elim!: rbind_OkE simp: process_melt_change_def split: if_split_asm)
  from assms [unfolded Some] obtain target parts where
      t: "unat (ta_value ia) = unat (ta_value spent) + unat (ta_value fee) + unat target"
    and p: "amount_split (get_keyset_fee_and_amounts M outs) target = Inr parts"
    and s: "map bs_amount sigs = take (length outs) (if length outs < length parts then rev (sort parts) else parts)"
    by (rule process_melt_change_Ok)
  have "usum (map bs_amount sigs) \<le> unat target"
    unfolding s using usum_take [of "length outs" "rev (sort parts)"] amount_split_Ok(1) [OF p] usum_rev_sort [of parts]
    by (auto simp: usum_take split: if_splits)
  moreover have "usum (map bs_amount sigs) = unat target" if "\<not> length outs < length parts"
    using s that amount_split_Ok(1) [OF p] by simp
  moreover have "change \<noteq> None" "\<not> (outs = [] \<or> unat (ta_value ia) \<le> unat (ta_value spent) \<or> ta_unit spent \<noteq> ta_unit ia)"
    using Some some by (simp_all add: typed_partial_cmp_lt_def word_less_nat_alt)
  ultimately show ?thesis
    using Some t p s by (auto simp del: map_map intro!: exI [of _ target] exI [of _ parts])
qed

section \<open>A melt that answers\<close>

text \<open>The tables of a melt that the steps between setup and finalization leave alone.\<close>

definition same_tables :: "mint_db \<Rightarrow> mint_db \<Rightarrow> bool" where
  "same_tables db db' \<longleftrightarrow> d_proofs db' = d_proofs db \<and> d_sigs db' = d_sigs db \<and> d_melt_quotes db' = d_melt_quotes db \<and>
     d_melt_requests db' = d_melt_requests db \<and> d_completed db' = d_completed db"

lemma update_mint_quote_same: "update_mint_quote now q db = Inr (q', db') \<Longrightarrow> same_tables db db'"
  by (auto simp: same_tables_def update_mint_quote_def take_changes_def rbind_eq_Ok split: option.splits if_splits)

lemma settle_same:
  assumes "settle_mint_quote f now i quote mq db = Inr db'"
  shows "same_tables db db'"
proof -
  from assms obtain mq1 q' db1 where "db1 = update_saga now i (SagaMelt MeltPaymentAttempted) db"
    and u: "update_mint_quote now mq1 db1 = Inr (q', db')"
    by (auto elim!: rbind_OkE simp: settle_mint_quote_def map_err_eq_Ok faulty_Ok)
  with update_mint_quote_same [OF u] show ?thesis by (simp add: update_saga_def same_tables_def)
qed

lemma settlement_same:
  assumes "attempt_internal_settlement f fc now req s db = (Inr d, db')"
  shows "same_tables db db'"
  using assms
  by (auto simp: attempt_internal_settlement_def abort_melt_def Let_def map_err_eq_Ok faulty_Ok same_tables_def
      dest!: settle_same split: option.splits sum.splits if_splits)

lemma make_payment_same:
  assumes "make_payment P f fc now d s db = (Inr t, db')"
  shows "same_tables db db' \<and> (\<exists>r. t = confirm s r)"
  using assms
  by (auto elim!: rbind_OkE simp: make_payment_def attempt_external_payment_def Let_def map_err_eq_Ok faulty_Ok update_saga_def same_tables_def
      split: settlement_decision.splits option.splits sum.splits prod.splits melt_quote_state.splits)

definition paid_row :: "u64 \<Rightarrow> string option \<Rightarrow> melt_quote \<Rightarrow> melt_quote" where
  "paid_row now p r = r\<lparr> lq_state := MQ_Paid, lq_paid_time := Some now, lq_payment_preimage := p \<rparr>"

lemma set_zip_ys:
  assumes "proofs_ys X (map pr_proof rows) = Inr zs" and "\<forall>r \<in> set rows. proof_y X (pr_proof r) = Inr (pr_y r)"
  shows "zs = map pr_y rows"
  using assms by (induction rows arbitrary: zs) (auto simp: proofs_ys_def rbind_eq_Ok)

definition keyed_proofs :: "ext \<Rightarrow> mint_db \<Rightarrow> bool" where
  "keyed_proofs X db \<longleftrightarrow> (\<forall>r \<in> set (d_proofs db). proof_y X (pr_proof r) = Inr (pr_y r))"

lemma spend_rows:
  assumes "keyed_proofs X db" and "get_proofs ys db = Inr ps" and "db_update_proofs_state X ps Spent db = Inr (b, db')"
  shows "d_proofs db' = update_rows (\<lambda>r. pr_y r \<in> set ys) (set_state Spent) (d_proofs db)" "d_sigs db' = d_sigs db"
    "d_melt_quotes db' = d_melt_quotes db" "d_melt_requests db' = d_melt_requests db" "d_completed db' = d_completed db"
proof -
  from assms(2) have ps: "ps_proofs ps = map pr_proof (rows_in ys db)" by (simp add: get_proofs_Ok)
  from assms(3) obtain zs where zs: "proofs_ys X (map pr_proof (rows_in ys db)) = Inr zs"
    and db': "d_proofs db' = update_rows (\<lambda>r. pr_y r \<in> set zs) (set_state Spent) (d_proofs db)" "d_sigs db' = d_sigs db"
    "d_melt_quotes db' = d_melt_quotes db" "d_melt_requests db' = d_melt_requests db" "d_completed db' = d_completed db"
    by (auto elim!: rbind_OkE simp: db_update_proofs_state_def map_err_eq_Ok ps Let_def)
  have "zs = map pr_y (rows_in ys db)"
    by (rule set_zip_ys [OF zs]) (use assms(1) in \<open>auto simp: keyed_proofs_def rows_in_def\<close>)
  then have "pr_y r \<in> set zs \<longleftrightarrow> pr_y r \<in> set ys" if "r \<in> set (d_proofs db)" for r
    using that by (auto simp: rows_in_def)
  then have "update_rows (\<lambda>r. pr_y r \<in> set zs) (set_state Spent) (d_proofs db) = update_rows (\<lambda>r. pr_y r \<in> set ys) (set_state Spent) (d_proofs db)"
    unfolding update_rows_def by (intro map_cong) auto
  with db' show "d_proofs db' = update_rows (\<lambda>r. pr_y r \<in> set ys) (set_state Spent) (d_proofs db)" "d_sigs db' = d_sigs db"
    "d_melt_quotes db' = d_melt_quotes db" "d_melt_requests db' = d_melt_requests db" "d_completed db' = d_completed db" by simp_all
qed

lemma core_effect:
  assumes "keyed_proofs X db" and "finalize_melt_core X f now quote ys ia ife spent p l db = Inr (quote', db')"
    and "lq_id quote \<in> lq_id ` set (d_melt_quotes db)"
  shows "d_proofs db' = update_rows (\<lambda>r. pr_y r \<in> set ys) (set_state Spent) (d_proofs db)" "d_sigs db' = d_sigs db"
    "d_melt_requests db' = d_melt_requests db" "d_completed db' = d_completed db"
    "\<exists>r \<in> set (d_melt_quotes db'). lq_id r = lq_id quote \<and> lq_state r = MQ_Paid"
proof -
  from assms(2) obtain os quote1 db1 db2 ps b where u: "update_melt_quote_state now quote MQ_Paid p db = Inr (os, quote1, db1)"
    and l: "db2 = db1 \<or> db2 = update_melt_row (lq_id quote1) (\<lambda>r. r\<lparr> lq_request_lookup_id := Some l \<rparr>) db1"
    and g: "get_proofs ys db2 = Inr ps" and sp: "db_update_proofs_state X ps Spent db2 = Inr (b, db')"
    by (rule finalize_melt_core_Ok)
  from u have q1: "quote1 = paid_row now p quote" and db1: "db1 = update_melt_row (lq_id quote) (paid_row now p) db"
    by (auto elim!: rbind_OkE simp: update_melt_quote_state_def paid_row_def [abs_def] Let_def)
  have t2: "d_proofs db2 = d_proofs db" "d_sigs db2 = d_sigs db" "d_melt_requests db2 = d_melt_requests db" "d_completed db2 = d_completed db"
    "d_sagas db2 = d_sagas db"
    using l by (auto simp: db1 update_melt_row_def)
  then have "keyed_proofs X db2" using assms(1) by (simp add: keyed_proofs_def)
  note e = spend_rows [OF this g sp]
  from e t2 show "d_proofs db' = update_rows (\<lambda>r. pr_y r \<in> set ys) (set_state Spent) (d_proofs db)" "d_sigs db' = d_sigs db"
    "d_melt_requests db' = d_melt_requests db" "d_completed db' = d_completed db" by simp_all
  from assms(3) obtain r where r: "r \<in> set (d_melt_quotes db)" "lq_id r = lq_id quote" by force
  then have r1: "paid_row now p r \<in> set (d_melt_quotes db1)" by (force simp: db1 update_melt_row_def update_rows_def)
  have "\<exists>r \<in> set (d_melt_quotes db2). lq_id r = lq_id quote \<and> lq_state r = MQ_Paid"
  proof (cases "db2 = db1")
    case True
    with r1 r(2) show ?thesis by (intro bexI [of _ "paid_row now p r"]) (auto simp: paid_row_def)
  next
    case False
    with l have "db2 = update_melt_row (lq_id quote) (\<lambda>r. r\<lparr> lq_request_lookup_id := Some l \<rparr>) db1" by (simp add: q1 paid_row_def)
    with r1 r(2) have "(paid_row now p r)\<lparr> lq_request_lookup_id := Some l \<rparr> \<in> set (d_melt_quotes db2)"
      by (force simp: update_melt_row_def update_rows_def paid_row_def)
    with r(2) show ?thesis by (intro bexI [of _ "(paid_row now p r)\<lparr> lq_request_lookup_id := Some l \<rparr>"]) (auto simp: paid_row_def)
  qed
  then show "\<exists>r \<in> set (d_melt_quotes db'). lq_id r = lq_id quote \<and> lq_state r = MQ_Paid" using e by simp
qed

text \<open>The record of a finished melt.\<close>

definition melt_record :: "u64 \<Rightarrow> payment_confirmed melt_saga \<Rightarrow> u64 \<Rightarrow> u64 \<Rightarrow> operation" where
  "melt_record now s change fee = (let d = set_payment_details (add_change (mc_operation (ms_state_data s)) change)
       (ta_value (lq_amount (mc_quote (ms_state_data s)))) fee
     in d\<lparr> op_complete_at := Some (get_or_default now (op_complete_at d)) \<rparr>)"

lemma finish_melt_Ok:
  assumes "finish_melt f now spent change s db = Inr (resp, db')"
  shows "\<exists>c fee. unat c = usum (map bs_amount (get_or_default [] change)) \<and>
      unat (ta_value spent) = unat (ta_value (lq_amount (mc_quote (ms_state_data s)))) + unat fee \<and>
      d_completed db' = d_completed db @ [melt_record now s c fee]"
    "resp = melt_response (mc_quote (ms_state_data s)) MQ_Paid (mp_payment_proof (mc_payment_result (ms_state_data s))) change"
    "d_proofs db' = d_proofs db" "d_melt_quotes db' = d_melt_quotes db"
    "d_melt_requests db' = filter (\<lambda>r. mrr_quote_id r \<noteq> lq_id (mc_quote (ms_state_data s))) (d_melt_requests db)"
proof -
  let ?d = "ms_state_data s"
  from assms obtain c fee db2 where db2: "db2 = (case f Delete_saga of None \<Rightarrow> delete_saga (ms_operation_id s) (delete_melt_request (lq_id (mc_quote ?d)) db)
        | Some _ \<Rightarrow> delete_melt_request (lq_id (mc_quote ?d)) db)"
    and c: "try_sum (map bs_amount (get_or_default [] change)) = Inr c"
    and fee: "typed_checked_sub spent (lq_amount (mc_quote ?d)) = Inr fee"
    and ac: "add_completed_operation now (set_payment_details (add_change (mc_operation ?d) c) (ta_value (lq_amount (mc_quote ?d))) (ta_value fee))
      (fb_per_keyset (mc_fee_breakdown ?d)) db2 = Inr db'"
    and resp: "resp = melt_response (mc_quote ?d) MQ_Paid (mp_payment_proof (mc_payment_result ?d)) change"
    by (auto elim!: rbind_OkE simp: finish_melt_def map_err_eq_Ok faulty_Ok Let_def)
  show "resp = melt_response (mc_quote ?d) MQ_Paid (mp_payment_proof (mc_payment_result ?d)) change" by (rule resp)
  have t: "d_completed db2 = d_completed db" "d_proofs db2 = d_proofs db" "d_melt_quotes db2 = d_melt_quotes db"
    "d_melt_requests db2 = filter (\<lambda>r. mrr_quote_id r \<noteq> lq_id (mc_quote ?d)) (d_melt_requests db)"
    by (simp_all add: db2 delete_saga_def delete_melt_request_def split: option.split)
  with ac show "d_proofs db' = d_proofs db" "d_melt_quotes db' = d_melt_quotes db"
    "d_melt_requests db' = filter (\<lambda>r. mrr_quote_id r \<noteq> lq_id (mc_quote ?d)) (d_melt_requests db)"
    by (auto simp: add_completed_operation_def rmap_eq_Ok)
  from ac t have "d_completed db' = d_completed db @ [melt_record now s c (ta_value fee)]"
    by (auto simp: add_completed_operation_def rmap_eq_Ok insert_row_Ok melt_record_def Let_def)
  with c fee show "\<exists>c fee. unat c = usum (map bs_amount (get_or_default [] change)) \<and>
      unat (ta_value spent) = unat (ta_value (lq_amount (mc_quote ?d))) + unat fee \<and>
      d_completed db' = d_completed db @ [melt_record now s c fee]"
    by (auto simp: try_sum_Ok typed_checked_sub_Ok)
qed

lemma finalize_melt_first_Ok:
  assumes "keyed_proofs X db" and "finalize_melt_first X f now spent s db = Inr (info, db')"
    and "List.find (\<lambda>r. mrr_quote_id r = lq_id (mc_quote (ms_state_data s))) (d_melt_requests db) = Some (melt_row q a fee)"
  shows "ta_value (mi_inputs_amount info) = a" "ta_value (mi_inputs_fee info) = fee"
    "d_proofs db' = update_rows (\<lambda>r. pr_y r \<in> set (mc_input_ys (ms_state_data s))) (set_state Spent) (d_proofs db)"
    "d_melt_requests db' = d_melt_requests db" "d_completed db' = d_completed db"
    "\<exists>r \<in> set (d_melt_quotes db'). lq_id r = lq_id (mc_quote (ms_state_data s)) \<and> lq_state r = MQ_Paid"
proof -
  let ?d = "ms_state_data s"
  from assms(2) obtain quote quote' where ld: "load_melt_quotes_exclusively f (lq_id (mc_quote ?d)) db = Inr quote"
    and gi: "get_melt_request_and_blinded_messages (lq_id (mc_quote ?d)) db = Inr (Some info)"
    and co: "finalize_melt_core X f now quote (mc_input_ys ?d) (mi_inputs_amount info) (mi_inputs_fee info) spent
      (mp_payment_proof (mc_payment_result ?d)) (mp_payment_lookup_id (mc_payment_result ?d)) db = Inr (quote', db')"
    by (auto elim!: rbind_OkE simp: finalize_melt_first_def map_err_eq_Ok faulty_Ok ok_or_eq_Ok Let_def)
  from gi assms(3) show "ta_value (mi_inputs_amount info) = a" "ta_value (mi_inputs_fee info) = fee"
    by (auto simp: get_melt_request_and_blinded_messages_def rmap_eq_Ok new_amount_def melt_row_def split: option.splits)
  have id: "lq_id quote = lq_id (mc_quote ?d)" by (rule load_melt_quotes_Ok(2) [OF ld])
  have "lq_id quote \<in> lq_id ` set (d_melt_quotes db)" using load_melt_quotes_Ok(1) [OF ld] unfolding id by (metis imageI)
  from core_effect [OF assms(1) co this] id
  show "d_proofs db' = update_rows (\<lambda>r. pr_y r \<in> set (mc_input_ys ?d)) (set_state Spent) (d_proofs db)"
    "d_melt_requests db' = d_melt_requests db" "d_completed db' = d_completed db"
    "\<exists>r \<in> set (d_melt_quotes db'). lq_id r = lq_id (mc_quote ?d) \<and> lq_state r = MQ_Paid" by simp_all
qed

lemma add_signatures_loop_frame:
  "add_signatures_loop now q ex zs db = Inr (ex', db') \<Longrightarrow>
   d_melt_quotes db' = d_melt_quotes db \<and> d_melt_requests db' = d_melt_requests db \<and> d_completed db' = d_completed db"
  by (induction now q ex zs db rule: add_signatures_loop.induct)
     (auto simp: rbind_eq_Ok rmap_eq_Ok issue_amount_def split: option.splits)

lemma process_melt_change_frame:
  assumes "process_melt_change M f now nonces q ia spent fee outs db = Inr (c, db')"
  shows "d_melt_quotes db' = d_melt_quotes db \<and> d_melt_requests db' = d_melt_requests db \<and> d_completed db' = d_completed db"
  using assms
  by (auto simp: process_melt_change_def add_blind_signatures_def rbind_eq_Ok map_err_eq_Ok faulty_Ok
      dest!: add_signatures_loop_frame split: if_splits)

lemma change_bound:
  assumes "process_melt_change M f now nonces q ia spent fee outs db = Inr (change, db')"
  shows "usum (map bs_amount (get_or_default [] change)) \<le> unat (ta_value ia) - (unat (ta_value spent) + unat (ta_value fee))"
proof (cases change)
  case (Some sigs)
  from assms [unfolded Some] obtain target parts where
      t: "unat (ta_value ia) = unat (ta_value spent) + unat (ta_value fee) + unat target"
    and p: "amount_split (get_keyset_fee_and_amounts M outs) target = Inr parts"
    and s: "map bs_amount sigs = take (length outs) (if length outs < length parts then rev (sort parts) else parts)"
    by (rule process_melt_change_Ok)
  have "usum (map bs_amount sigs) \<le> unat target"
    unfolding s using usum_take [of "length outs" "rev (sort parts)"] amount_split_Ok(1) [OF p] usum_rev_sort [of parts]
    by (auto simp: usum_take split: if_splits)
  with t Some show ?thesis by (simp add: get_or_default_def)
qed (simp add: get_or_default_def)

lemma finalize_melt_Ok:
  assumes "keyed_proofs (m_ext M) db" and "finalize_melt M f1 f2 now nonces s db = (Inr resp, db')"
    and "List.find (\<lambda>r. mrr_quote_id r = lq_id (mc_quote (ms_state_data s))) (d_melt_requests db) = Some (melt_row q a fee)"
  shows "\<exists>c pf. d_completed db' = d_completed db @ [melt_record now s c pf] \<and>
      unat c = usum (map bs_amount (get_or_default [] (qr_change resp))) \<and>
      unat c \<le> unat a - (unat (ta_value (lq_amount (mc_quote (ms_state_data s)))) + unat pf + unat fee)"
    "d_proofs db' = update_rows (\<lambda>r. pr_y r \<in> set (mc_input_ys (ms_state_data s))) (set_state Spent) (d_proofs db)"
    "\<exists>r \<in> set (d_melt_quotes db'). lq_id r = lq_id (mc_quote (ms_state_data s)) \<and> lq_state r = MQ_Paid"
    "d_melt_requests db' = filter (\<lambda>r. mrr_quote_id r \<noteq> lq_id (mc_quote (ms_state_data s))) (d_melt_requests db)"
    "qr_state resp = MQ_Paid \<and> qr_quote resp = lq_id (mc_quote (ms_state_data s))"
proof -
  let ?d = "ms_state_data s"
  from assms(2) obtain spent info db1 where f: "finalize_melt_first (m_ext M) f1 now spent s db = Inr (info, db1)"
    and rest: "(\<exists>db2. finish_melt f1 now spent None s db1 = Inr (resp, db') \<and> db2 = db1) \<or>
      (\<exists>db2 change db3. db2 = update_saga now (ms_operation_id s) (SagaMelt MeltFinalizing) db1 \<and>
        process_melt_change M f2 now nonces (lq_id (mc_quote ?d)) (mi_inputs_amount info) spent (mi_inputs_fee info) (mi_change_outputs info) db2
          = Inr (change, db3) \<and> finish_melt f2 now spent change s db3 = Inr (resp, db'))"
    by (auto elim!: rbind_OkE simp: finalize_melt_def map_err_eq_Ok faulty_Ok Let_def split: sum.splits if_splits prod.splits)
  note first = finalize_melt_first_Ok [OF assms(1) f assms(3)]
  from rest obtain g change db3 where fin: "finish_melt g now spent change s db3 = Inr (resp, db')"
    and db3: "d_proofs db3 = d_proofs db1" "d_melt_quotes db3 = d_melt_quotes db1" "d_melt_requests db3 = d_melt_requests db1" "d_completed db3 = d_completed db1"
    and b: "usum (map bs_amount (get_or_default [] change)) \<le> unat a - (unat (ta_value spent) + unat fee)"
  proof (elim disjE exE conjE)
    fix db2 assume fin: "finish_melt f1 now spent None s db1 = Inr (resp, db')"
    show thesis by (rule that [OF fin]) (simp_all add: get_or_default_def)
  next
    fix db2 change db3
    assume db2: "db2 = update_saga now (ms_operation_id s) (SagaMelt MeltFinalizing) db1"
      and pc: "process_melt_change M f2 now nonces (lq_id (mc_quote ?d)) (mi_inputs_amount info) spent (mi_inputs_fee info) (mi_change_outputs info) db2 = Inr (change, db3)"
      and fin: "finish_melt f2 now spent change s db3 = Inr (resp, db')"
    show thesis
      by (rule that [OF fin])
         (use process_melt_change_proofs [OF pc] process_melt_change_frame [OF pc] change_bound [OF pc] first(1,2) in
           \<open>simp_all add: db2 update_saga_def\<close>)
  qed
  note e = finish_melt_Ok [OF fin]
  from e(1) obtain c pf where c: "unat c = usum (map bs_amount (get_or_default [] change))"
    "unat (ta_value spent) = unat (ta_value (lq_amount (mc_quote ?d))) + unat pf"
    "d_completed db' = d_completed db3 @ [melt_record now s c pf]" by blast
  moreover have "qr_change resp = change" by (simp add: e(2) melt_response_def)
  ultimately show "\<exists>c pf. d_completed db' = d_completed db @ [melt_record now s c pf] \<and>
      unat c = usum (map bs_amount (get_or_default [] (qr_change resp))) \<and>
      unat c \<le> unat a - (unat (ta_value (lq_amount (mc_quote ?d))) + unat pf + unat fee)"
    using b db3 first(5) by (intro exI [of _ c] exI [of _ pf]) simp
  show "d_proofs db' = update_rows (\<lambda>r. pr_y r \<in> set (mc_input_ys ?d)) (set_state Spent) (d_proofs db)"
    using e(3) db3 first(3) by simp
  show "\<exists>r \<in> set (d_melt_quotes db'). lq_id r = lq_id (mc_quote ?d) \<and> lq_state r = MQ_Paid" using e(4) db3 first(6) by simp
  show "d_melt_requests db' = filter (\<lambda>r. mrr_quote_id r \<noteq> lq_id (mc_quote ?d)) (d_melt_requests db)" using e(5) db3 first(4) by simp
  show "qr_state resp = MQ_Paid \<and> qr_quote resp = lq_id (mc_quote ?d)" by (simp add: e(2) melt_response_def)
qed

lemma state_of_spent:
  assumes "y \<in> set (map pr_y (d_proofs db))" and "y \<in> Y" and "d_proofs db' = update_rows (\<lambda>r. pr_y r \<in> Y) (set_state Spent) (d_proofs db)"
  shows "state_of db' y = Spent"
proof -
  have "map_of (map (\<lambda>r. (pr_y r, pr_state r)) (update_rows (\<lambda>r. pr_y r \<in> Y) (set_state Spent) t)) y = Some Spent"
    if "y \<in> set (map pr_y t)" for t
    using that assms(2) by (induction t) (auto simp: update_rows_def)
  with assms show ?thesis by (simp add: state_of_def)
qed

text \<open>The stages of a melt that answers, up to its finalization.\<close>

lemma melt_stages:
  assumes "melt_wf (m_ext M) db" and "melt M P legacy F now i nonces req db = (Inr resp, db')"
  obtains iv fb pm quote ys a t db3 where "verify_inputs M (mr_inputs req) = Inr iv" "melt_inputs_amount req = Inr a"
    "proofs_ys (m_ext M) (mr_inputs req) = Inr ys" "set ys \<subseteq> set (input_keys db3)" "lq_id quote = mr_quote req"
    "mc_quote (ms_state_data t) = set_melt_state MQ_Pending quote" "mc_input_ys (ms_state_data t) = ys"
    "mc_operation (ms_state_data t) = melt_operation i iv fb pm" "keyed_proofs (m_ext M) db3"
    "\<exists>row \<in> set (d_melt_quotes db). sql_row_to_melt_quote row = Inr quote"
    "unat (ta_value (lq_amount quote)) + unat (ta_value (lq_fee_reserve quote)) + unat (fb_total fb) \<le> unat (ta_value (v_amount iv))"
    "List.find (\<lambda>r. mrr_quote_id r = mr_quote req) (d_melt_requests db3) = Some (melt_row (mr_quote req) a (fb_total fb))"
    "finalize_melt M (mf_first F) (mf_second F) now nonces t db3 = (Inr resp, db')"
proof -
  let ?q = "mr_quote req"
  from assms(2) obtain iv pm s db1 where iv: "verify_inputs M (mr_inputs req) = Inr iv"
    and st: "setup_melt M legacy (mf_setup F) now i req iv pm db = Inr (s, db1)"
    and cm: "complete_melt M P F now nonces req s db1 = (Inr resp, db')"
    by (auto elim!: rbind_OkE simp: melt_def begin_melt_def split: sum.splits)
  from setup_melt_Ok [OF st] obtain quote fb ys a where ld: "load_melt_quotes_exclusively (mf_setup F) ?q db = Inr quote"
    and r: "reservable (m_ext M) ys (mr_inputs req) (change_outputs req) db" and a: "melt_inputs_amount req = Inr a"
    and bal: "unat (ta_value (lq_amount quote)) + unat (ta_value (lq_fee_reserve quote)) + unat (fb_total fb) \<le> unat (ta_value (v_amount iv))"
    and fresh: "?q \<notin> mrr_quote_id ` set (d_melt_requests db)"
    and s: "s = melt_saga_of i quote ys (change_outputs req) (melt_operation i iv fb pm) fb"
    and db1: "db1 = melt_reserve now ?q a (fb_total fb) (melt_operation i iv fb pm) ys (mr_inputs req) (change_outputs req)
      (saga_new_melt now i MeltSetupComplete ?q) db"
    by blast
  have wf1: "melt_wf (m_ext M) db1"
    by (rule melt_setup_wf [OF assms(1)]) (use st in \<open>unfold melt_setup_def, blast\<close>)
  from cm obtain d db2 t db3 where "attempt_internal_settlement (mf_settle F) (mf_compensate F) now req s db1 = (Inr d, db2)"
    and mp: "make_payment P (mf_attempt F) (mf_compensate F) now d s db2 = (Inr t, db3)"
    and fm: "finalize_melt M (mf_first F) (mf_second F) now nonces t db3 = (Inr resp, db')"
    by (auto simp: complete_melt_def split: sum.splits prod.splits)
  with settlement_same make_payment_same [OF mp] obtain rr where same: "same_tables db1 db3" and t: "t = confirm s rr"
    by (fastforce simp: same_tables_def)
  have "List.find (\<lambda>r. mrr_quote_id r = ?q) (d_melt_requests db @ [melt_row ?q a (fb_total fb)]) = Some (melt_row ?q a (fb_total fb))"
    by (rule find_appended [OF fresh]) (simp add: melt_row_def)
  then have row: "List.find (\<lambda>r. mrr_quote_id r = ?q) (d_melt_requests db3) = Some (melt_row ?q a (fb_total fb))"
    using same by (simp add: same_tables_def db1 melt_reserve_def reserve_def)
  have "map pr_y (map2 (pending_row now (Some ?q) (melt_operation i iv fb pm)) ys (mr_inputs req)) = ys"
    by (rule map2_keys [OF reservable_length [OF r]]) simp
  then have keys: "set ys \<subseteq> set (input_keys db3)"
    using same by (simp add: same_tables_def db1 melt_reserve_def reserve_def del: map_map)
  have stored: "\<exists>row \<in> set (d_melt_quotes db). sql_row_to_melt_quote row = Inr quote" using load_melt_quotes_Ok(1) [OF ld] by blast
  show thesis
    by (rule that [OF iv a _ keys load_melt_quotes_Ok(2) [OF ld] _ _ _ _ stored bal row fm])
       (use r wf1 same in \<open>simp_all add: t confirm_def s melt_saga_of_def melt_setup_complete.defs reservable_def melt_wf_def
          db_wf_def keyed_proofs_def same_tables_def\<close>)
qed


section \<open>Two backends\<close>

definition demo_response :: "melt_quote_state \<Rightarrow> make_payment_response" where
  "demo_response st = \<lparr> mp_payment_lookup_id = PI_CustomId ''h'', mp_payment_proof = Some ''p'', mp_status = st,
     mp_total_spent = new_amount 5 Sat \<rparr>"

definition demo_processors :: "melt_quote_state \<Rightarrow> processors" where
  "demo_processors st u m = Some \<lparr> pb_make_payment = (\<lambda>_ _. Inr (demo_response st)),
     pb_check_outgoing_payment = (\<lambda>_. Inr (demo_response st)) \<rparr>"

definition demo_begun :: "cdk_error + melt_setup_complete melt_saga \<times> mint_db" where
  "demo_begun = setup_melt demo_mint False no_faults 0 ''op'' demo_melt_request \<lparr> v_amount = new_amount 8 Sat \<rparr>
     (KnownMethod Bolt11) demo_melt_db"

theorem melt_refunds_only_unpaid_witness:
  "\<exists>s db r db'. demo_begun = Inr (s, db) \<and>
     complete_melt demo_mint (demo_processors MQ_Failed) no_melt_faults 0 [] demo_melt_request s db = (r, db') \<and>
     demo_pt 67 \<in> set (input_keys db) \<and> demo_pt 67 \<notin> set (input_keys db') \<and> (\<exists>e. r = Inl e)"
proof -
  let ?c = "\<lambda>s db. complete_melt demo_mint (demo_processors MQ_Failed) no_melt_faults 0 [] demo_melt_request s db"
  have "case demo_begun of Inr (s, db) \<Rightarrow> list_ex (\<lambda>y. y = demo_pt 67) (input_keys db) \<and> list_all (\<lambda>y. y \<noteq> demo_pt 67) (input_keys (snd (?c s db)))
      | Inl _ \<Rightarrow> False" by code_simp
  then obtain s db where s: "demo_begun = Inr (s, db)" and y: "demo_pt 67 \<in> set (input_keys db)" "demo_pt 67 \<notin> set (input_keys (snd (?c s db)))"
    by (force simp: list_ex_iff list_all_iff split: sum.splits prod.splits)
  obtain r db' where c: "?c s db = (r, db')" by fastforce
  have gone: "demo_pt 67 \<notin> set (input_keys db')" using y(2) unfolding c by simp
  from melt_refunds_only_unpaid [OF c y(1) gone] have "\<exists>e. r = Inl e" by blast
  with s y(1) c gone show ?thesis by blast
qed

theorem melt_change_exact_witness:
  "\<exists>sigs db'. process_melt_change demo_mint no_faults 0 [[3], [3]] ''q'' (new_amount 8 Sat) (new_amount 5 Sat) (new_amount 1 Sat) demo_change demo_melt_db
     = Inr (Some sigs, db') \<and> usum (map bs_amount sigs) + 5 + 1 \<le> 8"
proof -
  let ?p = "process_melt_change demo_mint no_faults 0 [[3], [3]] ''q'' (new_amount 8 Sat) (new_amount 5 Sat) (new_amount 1 Sat) demo_change demo_melt_db"
  have "case ?p of Inr (Some sigs, db') \<Rightarrow> True | _ \<Rightarrow> False" by code_simp
  then obtain sigs db' where p: "?p = Inr (Some sigs, db')" by (auto split: sum.splits prod.splits option.splits)
  from melt_change_exact [OF p] p show ?thesis by (auto simp: new_amount_def)
qed


end
