(* ===== verification/Melt_Outcomes.thy ===== *)
theory Melt_Outcomes
  imports Melt_Safety
begin

text \<open>
  The recovery of a melt whose payment was attempted, and three cases in which the code does
  something other than its comments say: a poll of the quote while the melt is in flight, an attempted
  payment without a lookup identifier, and the answer of the poll that finalizes a melt.
\<close>

section \<open>Finalization by the recovery\<close>

lemma finalize_first_tx_Ok:
  assumes "keyed_proofs X db" and "finalize_first_tx X f now q spent p l db = Inr (Some (info, db1))"
  obtains quote ys where "load_melt_quotes_exclusively f q db = Inr quote"
    "get_melt_request_and_blinded_messages q db = Inr (Some info)" "get_proof_ys_by_quote_id X q db = Inr ys"
    "if lq_state quote = MQ_Paid then db1 = db
     else d_proofs db1 = update_rows (\<lambda>r. pr_y r \<in> set ys) (set_state Spent) (d_proofs db)"
    "\<exists>r \<in> set (d_melt_quotes db1). lq_id r = q \<and> lq_state r = MQ_Paid"
    "d_melt_requests db1 = d_melt_requests db"
proof -
  from assms(2) obtain quote ys where ld: "load_melt_quotes_exclusively f q db = Inr quote"
    and gi: "get_melt_request_and_blinded_messages q db = Inr (Some info)" and ys: "get_proof_ys_by_quote_id X q db = Inr ys"
    and db1: "(if lq_state quote = MQ_Paid then Inr db
        else rmap snd (finalize_melt_core X f now quote ys (mi_inputs_amount info) (mi_inputs_fee info) spent p l db)) = Inr db1"
    by (auto elim!: rbind_OkE simp: finalize_first_tx_def map_err_eq_Ok faulty_Ok split: option.splits if_split_asm)
  from load_melt_quotes_Ok(1,2) [OF ld] obtain row where row: "row \<in> set (d_melt_quotes db)" "sql_row_to_melt_quote row = Inr quote"
    "lq_id row = q" "lq_id quote = q" by blast
  show thesis
  proof (cases "lq_state quote = MQ_Paid")
    case True
    with row sql_row_simps [OF row(2)] have "\<exists>r \<in> set (d_melt_quotes db). lq_id r = q \<and> lq_state r = MQ_Paid" by metis
    with True db1 show thesis by (intro that [OF ld gi ys]) auto
  next
    case False
    with db1 obtain quote' where co: "finalize_melt_core X f now quote ys (mi_inputs_amount info) (mi_inputs_fee info) spent p l db = Inr (quote', db1)"
      by (auto simp: rmap_eq_Ok)
    have "lq_id quote \<in> lq_id ` set (d_melt_quotes db)" using row by (metis imageI)
    note e = core_effect [OF assms(1) co this]
    from e row(4) False show thesis by (intro that [OF ld gi ys]) auto
  qed
qed

text \<open>
  What the finalization of the recovery has done when it succeeds on a quote that has its melt
  request: the quote is paid, its melt request is gone, and unless the quote was paid before (the first
  transaction of an earlier attempt had committed) every input of the quote is spent now.
\<close>
theorem recovered_melt_settles:
  assumes "keyed_proofs (m_ext M) db" and "finalize_melt_quote M f1 fr f2 now nonces q spent p l db = (Inr change, db')"
    and "get_melt_request_and_blinded_messages q db = Inr (Some info)" and "get_proof_ys_by_quote_id (m_ext M) q db = Inr ys" and "ys \<noteq> []"
  shows "(\<exists>r \<in> set (d_melt_quotes db'). lq_id r = q \<and> lq_state r = MQ_Paid) \<and> q \<notin> mrr_quote_id ` set (d_melt_requests db') \<and>
    ((\<exists>r \<in> set (d_melt_quotes db). lq_id r = q \<and> lq_state r = MQ_Paid) \<or> (\<forall>y \<in> set ys. state_of db' y = Spent))"
proof -
  have "finalize_first_tx (m_ext M) f1 now q spent p l db \<noteq> Inr None"
    using assms(3-5) by (auto elim!: rbind_OkE simp: finalize_first_tx_def map_err_eq_Ok faulty_Ok split: option.splits if_split_asm)
  then obtain info' db1 where f: "finalize_first_tx (m_ext M) f1 now q spent p l db = Inr (Some (info', db1))"
    using assms(2) by (auto simp: finalize_melt_quote_def split: sum.splits option.splits)
  from assms(2) f obtain sigs c db2 where stage: "(if typed_partial_cmp_lt spent (mi_inputs_amount info') \<and> sigs \<noteq> []
            then rbind (map_err cdk_of_db (faulty (f2 Begin_tx) (Inr ()))) (\<lambda>_. Inr (Some sigs, db1))
            else process_melt_change M f2 now nonces q (mi_inputs_amount info') spent
                   (mi_inputs_fee info') (mi_change_outputs info') db1) = Inr (c, db2)" and db': "db' = delete_melt_request q db2"
    by (auto elim!: rbind_OkE simp: finalize_melt_quote_def map_err_eq_Ok faulty_Ok split: sum.splits prod.splits)
  from stage have db2: "db2 = db1 \<or>
      process_melt_change M f2 now nonces q (mi_inputs_amount info') spent (mi_inputs_fee info') (mi_change_outputs info') db1 = Inr (c, db2)"
    by (auto elim!: rbind_OkE split: if_split_asm)
  from assms(1) f obtain quote ys' where ld: "load_melt_quotes_exclusively f1 q db = Inr quote" and ys': "get_proof_ys_by_quote_id (m_ext M) q db = Inr ys'"
    and upd: "if lq_state quote = MQ_Paid then db1 = db else d_proofs db1 = update_rows (\<lambda>r. pr_y r \<in> set ys') (set_state Spent) (d_proofs db)"
    and paid: "\<exists>r \<in> set (d_melt_quotes db1). lq_id r = q \<and> lq_state r = MQ_Paid"
    by (rule finalize_first_tx_Ok)
  have t: "d_proofs db' = d_proofs db1" "d_melt_quotes db' = d_melt_quotes db1"
    using db2 by (auto simp: db' delete_melt_request_def dest: process_melt_change_proofs process_melt_change_frame)
  have keys: "set ys \<subseteq> set (input_keys db)"
  proof -
    let ?rows = "filter (\<lambda>r. pr_quote_id r = Some q) (d_proofs db)"
    from assms(4) have "proofs_ys (m_ext M) (map pr_proof ?rows) = Inr ys" by (simp add: get_proof_ys_by_quote_id_def map_err_eq_Ok)
    then have "ys = map pr_y ?rows" by (rule set_zip_ys) (use assms(1) in \<open>auto simp: keyed_proofs_def\<close>)
    then show ?thesis by auto
  qed
  show ?thesis
  proof (cases "lq_state quote = MQ_Paid")
    case True
    from load_melt_quotes_Ok(1) [OF ld] obtain row where row: "row \<in> set (d_melt_quotes db)" "sql_row_to_melt_quote row = Inr quote" "lq_id row = q" by blast
    with True sql_row_simps(2) [OF row(2)] have "\<exists>r \<in> set (d_melt_quotes db). lq_id r = q \<and> lq_state r = MQ_Paid" by metis
    with paid t show ?thesis by (auto simp: db' delete_melt_request_def)
  next
    case False
    with upd have "d_proofs db' = update_rows (\<lambda>r. pr_y r \<in> set ys') (set_state Spent) (d_proofs db)" by (simp add: t)
    moreover have "ys' = ys" using ys' assms(4) by simp
    ultimately have "\<forall>y \<in> set ys. state_of db' y = Spent" using state_of_spent [of _ db "set ys" db'] keys by blast
    with paid t show ?thesis by (auto simp: db' delete_melt_request_def)
  qed
qed

section \<open>Attempted payments without a lookup identifier\<close>

text \<open>
  C39. A melt whose external payment was attempted and whose quote has no lookup identifier -- the BOLT12
  quotes of two backends -- is rolled back by the recovery at start-up without asking any backend:
  the inputs are returned even if the payment went through.
\<close>
theorem attempted_melt_without_lookup_is_refunded:
  assumes "melt_wf X db" and "melt_pending (sg_operation_id s) q db" and "sg_quote_id s = Some q" and "parses q"
    and "sg_state s = SagaMelt MeltPaymentAttempted" and "get_melt_quote q db = Inr (Some quote)" and "lq_request_lookup_id quote = None"
    and "get_mint_quote_by_request (melt_payment_request_display (lq_request quote)) db = Inr None"
  shows "recover_melt_saga M P parses no_recovery_faults now nonces s db = (Inr (), drop_melt (sg_operation_id s) db)"
proof -
  have "lq_id quote = q"
    using assms(6) by (auto simp: get_melt_quote_def rmap_eq_Ok sql_row_simps(1) dest!: find_SomeD split: option.splits)
  then show ?thesis
    using rollback_pending [OF assms(1,2), of no_faults now] assms(3-8)
    by (simp add: recover_melt_saga_def recover_quote_def recover_known_melt_def is_internal_settlement_def resolve_attempted_def
        compensate_melt_saga_def no_recovery_faults_def faulty_def no_faults_def Let_def get_ys_proofs_of get_secrets_sigs_of)
qed

section \<open>Polling a melt in flight\<close>

lemma sql_row_pending:
  assumes "sql_row_to_melt_quote row = Inr quote"
  shows "sql_row_to_melt_quote (set_melt_state st row) = Inr (set_melt_state st quote)"
  using assms by (auto simp: sql_row_to_melt_quote_def set_melt_state_def split: if_splits)

lemma load_no_faults: "load_melt_quotes_exclusively f q db = Inr quote \<Longrightarrow> load_melt_quotes_exclusively no_faults q db = Inr quote"
  by (cases "f Lock_melt_quotes") (simp_all add: load_melt_quotes_exclusively_def faulty_def no_faults_def map_err_def)

text \<open>The saga that the setup wrote is the one found for its quote.\<close>

lemma saga_of_quote:
  assumes "\<forall>t \<in> set (d_sagas db). sg_quote_id t \<noteq> Some q" and "q \<noteq> []"
    and "d_sagas db1 = d_sagas db @ [saga_new_melt now i MeltSetupComplete q]"
  shows "get_melt_saga_by_quote_id None q db1 = Inr (Some (saga_new_melt now i MeltSetupComplete q))"
proof -
  let ?s = "saga_new_melt now i MeltSetupComplete q" and ?l = "get_incomplete_sagas Op_Melt db1"
  have "saga_of_row ?s = ?s" using assms(2) by (simp add: saga_of_row_def saga_new_melt_def)
  then have mem: "?s \<in> set ?l" using assms(3) by (force simp: get_incomplete_sagas_def)
  have only: "t = ?s" if "t \<in> set ?l" "sg_quote_id t = Some q" for t
    using that assms \<open>saga_of_row ?s = ?s\<close> by (auto simp: get_incomplete_sagas_def saga_of_row_def split: if_splits)
  have "List.find (\<lambda>t. sg_quote_id t = Some q) ?l \<noteq> None" using mem by (simp add: find_None_iff) (metis saga_new_melt_simps(2))
  then obtain t where t: "List.find (\<lambda>t. sg_quote_id t = Some q) ?l = Some t" by blast
  with find_SomeD [OF t] only show ?thesis by (simp add: get_melt_saga_by_quote_id_def faulty_def)
qed

lemma poll_restores:
  assumes wf: "melt_wf (m_ext M) db" and "unused i db" and st: "setup_melt M legacy f now i req iv m db = Inr (s, db1)"
    and "\<forall>t \<in> set (d_sagas db). sg_quote_id t \<noteq> Some (mr_quote req)" and "mr_quote req \<noteq> []"
    and "check_melt_payment_status P (mc_quote (ms_state_data s)) = Inr old" and "mp_status old = MQ_Unpaid \<or> mp_status old = MQ_Failed"
  shows "snd (check_melt_quote M P no_recovery_faults now nonces (mr_quote req) db1) = db"
proof -
  let ?q = "mr_quote req"
  from setup_melt_Ok [OF st] obtain quote fb ys a where ld: "load_melt_quotes_exclusively f ?q db = Inr quote"
    and r: "reservable (m_ext M) ys (mr_inputs req) (change_outputs req) db" "ys \<noteq> []"
    and s: "s = melt_saga_of i quote ys (change_outputs req) (melt_operation i iv fb m) fb"
    and db1: "db1 = melt_reserve now ?q a (fb_total fb) (melt_operation i iv fb m) ys (mr_inputs req) (change_outputs req)
      (saga_new_melt now i MeltSetupComplete ?q) db"
    by blast
  let ?quote = "set_melt_state MQ_Pending quote" and ?saga = "saga_new_melt now i MeltSetupComplete ?q"
  have mq: "mc_quote (ms_state_data s) = ?quote" by (simp add: s melt_saga_of_def)
  from load_melt_quotes_Ok(1,2) [OF ld] obtain row where row: "row \<in> set (d_melt_quotes db)" "sql_row_to_melt_quote row = Inr quote"
    "lq_id row = ?q" and id: "lq_id quote = ?q" by blast
  have ms: "melt_setup (m_ext M) i db db1" using st unfolding melt_setup_def by blast
  have wf1: "melt_wf (m_ext M) db1" by (rule melt_setup_wf [OF wf ms])
  have pend: "melt_pending i ?q db1"
    unfolding db1 by (rule setup_pending [OF assms(2) _ _ _ r(2) reservable_length [OF r(1)] row(1,3,2)]) simp_all
  have "set_melt_state MQ_Pending row \<in> set (d_melt_quotes db1)" using row by (force simp: db1 melt_reserve_quotes update_rows_def)
  from get_melt_quote_row [OF wf1 this sql_row_pending [OF row(2)]] row(3)
  have get: "get_melt_quote ?q db1 = Inr (Some ?quote)" by simp
  have saga: "get_melt_saga_by_quote_id None ?q db1 = Inr (Some ?saga)"
    by (rule saga_of_quote [OF assms(4,5)]) (simp add: db1 melt_reserve_tables)
  have roll: "rollback_melt_quote no_faults now ?q (get_proof_ys_by_operation_id i db1) (get_blinded_secrets_by_operation_id i db1) i db1 = Inr db"
    unfolding get_ys_proofs_of get_secrets_sigs_of
    using rollback_pending [OF wf1 pend, of no_faults now] drop_melt_reserve [OF wf assms(2) ms] by (simp add: no_faults_def)
  have "handle_pending_melt_quote M P no_recovery_faults now nonces ?quote db1 = (Inr (?quote\<lparr> lq_state := MQ_Unpaid \<rparr>), db)"
    using saga roll assms(6,7) unfolding mq
    by (auto simp: handle_pending_melt_quote_def no_recovery_faults_def process_melt_saga_outcome_def id no_faults_def faulty_def)
  with get show ?thesis
    by (simp add: check_melt_quote_def no_recovery_faults_def no_faults_def faulty_def split: sum.split)
qed

lemma released_melt_pays:
  assumes st: "setup_melt M legacy f now i req iv m db = Inr (s, db1)"
    and "get_mint_quote_by_request (melt_payment_request_display (lq_request (mc_quote (ms_state_data s)))) db = Inr None"
    and "P' (lq_unit (mc_quote (ms_state_data s))) (lq_payment_method (mc_quote (ms_state_data s))) = Some ln"
    and "execute_payment_and_verify ln (mc_quote (ms_state_data s)) = Inr response" and "mp_status response = MQ_Paid"
    and "convert_to (mp_total_spent response) (lq_unit (mc_quote (ms_state_data s))) = Inr spent"
  shows "complete_melt M P' no_melt_faults now nonces req s db = (Inl E_UnknownQuote, db)"
proof -
  let ?q = "mr_quote req"
  from setup_melt_Ok [OF st] obtain quote fb ys where ld: "load_melt_quotes_exclusively f ?q db = Inr quote"
    and i: "i \<notin> sg_operation_id ` set (d_sagas db)" and fresh: "?q \<notin> mrr_quote_id ` set (d_melt_requests db)"
    and s: "s = melt_saga_of i quote ys (change_outputs req) (melt_operation i iv fb m) fb"
    by blast
  have mq: "mc_quote (ms_state_data s) = set_melt_state MQ_Pending quote" "ms_operation_id s = i" by (simp_all add: s melt_saga_of_def)
  have id: "lq_id quote = ?q" by (rule load_melt_quotes_Ok(2) [OF ld])
  have none: "get_melt_request_and_blinded_messages ?q db = Inr None"
  proof -
    have "List.find (\<lambda>r. mrr_quote_id r = ?q) (d_melt_requests db) = None" using fresh by (simp add: find_None_iff) (metis imageI)
    then show ?thesis by (simp add: get_melt_request_and_blinded_messages_def)
  qed
  have same: "update_saga now i st' db = db" for st'
  proof -
    have "update_rows (\<lambda>s. sg_operation_id s = i) g (d_sagas db) = d_sagas db" for g using i by (intro update_rows_none) auto
    then show ?thesis by (simp add: update_saga_def)
  qed
  have "attempt_internal_settlement no_faults no_faults now req s db = (Inr SD_RequiresExternalPayment, db)"
    using assms(2) by (simp add: attempt_internal_settlement_def mq faulty_def no_faults_def Let_def)
  moreover have "make_payment P' no_faults no_faults now SD_RequiresExternalPayment s db = (Inr (confirm s response), db)"
    using assms(3-5) by (simp add: make_payment_def attempt_external_payment_def mq same faulty_def no_faults_def)
  moreover have "finalize_melt M no_faults no_faults now nonces (confirm s response) db = (Inl E_UnknownQuote, db)"
    using assms(6) load_no_faults [OF ld] none
    by (simp add: finalize_melt_def finalize_melt_first_def confirm_def mq id melt_setup_complete.defs faulty_def no_faults_def Let_def)
  ultimately show ?thesis by (simp add: complete_melt_def no_melt_faults_def)
qed

text \<open>
  C38. A poll can release the inputs of a melt that is about to be paid. When the setup of a melt has
  committed and its payment is not yet attempted, a check of the quote for which the backend still reports
  an earlier failed or unpaid attempt restores the database from before the melt, inputs included. The
  melt then goes on: it makes the external payment, and when the backend reports it paid the finalization
  finds no melt request, so the melt answers UnknownQuote and the inputs stay unspent.
\<close>
theorem poll_releases_melt_in_flight:
  assumes "melt_wf (m_ext M) db" and "unused i db" and "setup_melt M legacy f now i req iv m db = Inr (s, db1)"
    and "\<forall>t \<in> set (d_sagas db). sg_quote_id t \<noteq> Some (mr_quote req)" and "mr_quote req \<noteq> []"
    and "check_melt_payment_status P (mc_quote (ms_state_data s)) = Inr old" and "mp_status old = MQ_Unpaid \<or> mp_status old = MQ_Failed"
    and "get_mint_quote_by_request (melt_payment_request_display (lq_request (mc_quote (ms_state_data s)))) db = Inr None"
    and "P' (lq_unit (mc_quote (ms_state_data s))) (lq_payment_method (mc_quote (ms_state_data s))) = Some ln"
    and "execute_payment_and_verify ln (mc_quote (ms_state_data s)) = Inr response" and "mp_status response = MQ_Paid"
    and "convert_to (mp_total_spent response) (lq_unit (mc_quote (ms_state_data s))) = Inr spent"
  shows "snd (check_melt_quote M P no_recovery_faults now nonces (mr_quote req) db1) = db \<and>
    complete_melt M P' no_melt_faults now nonces req s db = (Inl E_UnknownQuote, db)"
  using poll_restores [OF assms(1-7)] released_melt_pays [where P' = P', OF assms(3,8-12)] by simp

section \<open>The answer of a poll\<close>

text \<open>
  The answer of the poll that finalizes a melt: when the backend reports the payment of a pending
  quote paid and the check of the quote succeeds, the answer still says Pending and carries the preimage
  the quote had before, not that of the payment.
\<close>
theorem poll_answers_pending_after_payment:
  assumes "check_melt_quote M P F now nonces q db = (Inr resp, db')" and "get_melt_quote q db = Inr (Some quote)"
    and "lq_state quote = MQ_Pending" and "check_melt_payment_status P quote = Inr response" and "mp_status response = MQ_Paid"
  shows "qr_state resp = MQ_Pending \<and> qr_payment_preimage resp = lq_payment_preimage quote"
proof -
  from assms(1,2) obtain quote1 db1 where h: "handle_pending_melt_quote M P F now nonces quote db = (Inr quote1, db1)"
    and resp: "qr_state resp = lq_state quote1" "qr_payment_preimage resp = lq_payment_preimage quote1"
    by (auto simp: check_melt_quote_def faulty_def melt_response_def split: option.splits sum.splits prod.splits)
  from h assms(3-5) have "quote1 = quote"
    by (auto simp: handle_pending_melt_quote_def process_melt_saga_outcome_def split: sum.splits option.splits prod.splits)
  with resp assms(3) show ?thesis by simp
qed

section \<open>Instances\<close>

definition demo_pending_db :: mint_db where
  "demo_pending_db = (case demo_begun of Inr (s, db) \<Rightarrow> db | Inl _ \<Rightarrow> empty_db)"

theorem poll_releases_melt_in_flight_witness:
  "\<exists>s db1. demo_begun = Inr (s, db1) \<and> d_proofs db1 \<noteq> [] \<and>
     snd (check_melt_quote demo_mint (demo_processors MQ_Failed) no_recovery_faults 0 [] ''q'' db1) = demo_melt_db \<and>
     complete_melt demo_mint (demo_processors MQ_Paid) no_melt_faults 0 [] demo_melt_request s demo_melt_db = (Inl E_UnknownQuote, demo_melt_db)"
proof -
  from demo_melt_setup obtain s db1 where s: "demo_begun = Inr (s, db1)" and ne: "d_proofs db1 \<noteq> []" by (auto simp: demo_begun_def)
  note st = s [unfolded demo_begun_def]
  have req: "mr_quote demo_melt_request = ''q''" by (simp add: demo_melt_request_def melt_request_new_def)
  from setup_melt_Ok [OF st] obtain quote where "load_melt_quotes_exclusively no_faults ''q'' demo_melt_db = Inr quote"
    and q: "mc_quote (ms_state_data s) = set_melt_state MQ_Pending quote" by (auto simp: req melt_saga_of_def)
  moreover have "load_melt_quotes_exclusively no_faults ''q'' demo_melt_db = Inr demo_melt_quote" by code_simp
  ultimately have mq: "mc_quote (ms_state_data s) = set_melt_state MQ_Pending demo_melt_quote" by simp
  let ?ln = "\<lparr> pb_make_payment = (\<lambda>_ _. Inr (demo_response MQ_Paid)), pb_check_outgoing_payment = (\<lambda>_. Inr (demo_response MQ_Paid)) \<rparr>"
  have wf: "melt_wf (m_ext demo_mint) demo_melt_db" using demo_melt_start(1,3) by simp
  have "check_melt_payment_status (demo_processors MQ_Failed) (mc_quote (ms_state_data s)) = Inr (demo_response MQ_Failed)"
    "get_mint_quote_by_request (melt_payment_request_display (lq_request (mc_quote (ms_state_data s)))) demo_melt_db = Inr None"
    "execute_payment_and_verify ?ln (mc_quote (ms_state_data s)) = Inr (demo_response MQ_Paid)"
    "convert_to (mp_total_spent (demo_response MQ_Paid)) (lq_unit (mc_quote (ms_state_data s))) = Inr (new_amount 5 Sat)"
    "\<forall>t \<in> set (d_sagas demo_melt_db). sg_quote_id t \<noteq> Some (mr_quote demo_melt_request)"
    by (simp_all add: mq demo_melt_quote_def melt_quote_new_def set_melt_state_def check_melt_payment_status_def demo_processors_def
        demo_melt_db_def empty_db_def get_mint_quote_by_request_def execute_payment_and_verify_def from_melt_quote_with_fee_def
        demo_response_def convert_to_def new_amount_def)
  from poll_releases_melt_in_flight [where P' = "demo_processors MQ_Paid", OF wf demo_melt_start(2) st this(5) _ this(1) _ this(2) _ this(3) _ this(4)]
  have "snd (check_melt_quote demo_mint (demo_processors MQ_Failed) no_recovery_faults 0 [] ''q'' db1) = demo_melt_db \<and>
     complete_melt demo_mint (demo_processors MQ_Paid) no_melt_faults 0 [] demo_melt_request s demo_melt_db = (Inl E_UnknownQuote, demo_melt_db)"
    by (simp add: req demo_response_def demo_processors_def)
  with s ne show ?thesis by blast
qed

theorem poll_answers_pending_after_payment_witness:
  "\<exists>resp db'. check_melt_quote demo_mint (demo_processors MQ_Paid) no_recovery_faults 0 [[3], [3]] ''q'' demo_pending_db = (Inr resp, db') \<and>
     qr_state resp = MQ_Pending \<and> list_all (\<lambda>q. lq_state q = MQ_Paid) (d_melt_quotes db')"
proof -
  let ?c = "check_melt_quote demo_mint (demo_processors MQ_Paid) no_recovery_faults 0 [[3], [3]] ''q'' demo_pending_db"
  have "is_ok (fst ?c)" "list_all (\<lambda>q. lq_state q = MQ_Paid) (d_melt_quotes (snd ?c))" by code_simp+
  then obtain resp db' where c: "?c = (Inr resp, db')" and paid: "list_all (\<lambda>q. lq_state q = MQ_Paid) (d_melt_quotes db')"
    by (cases ?c) (auto simp: is_ok_iff)
  have get: "get_melt_quote ''q'' demo_pending_db = Inr (Some (set_melt_state MQ_Pending demo_melt_quote))" by code_simp
  have "check_melt_payment_status (demo_processors MQ_Paid) (set_melt_state MQ_Pending demo_melt_quote) = Inr (demo_response MQ_Paid)"
    by (simp add: demo_melt_quote_def melt_quote_new_def set_melt_state_def check_melt_payment_status_def demo_processors_def)
  from poll_answers_pending_after_payment [OF c get _ this] paid c show ?thesis by (simp add: demo_response_def)
qed

lemma demo_pending_wf: "melt_wf demo_ext demo_pending_db"
proof -
  from demo_melt_setup obtain s db1 where s: "demo_begun = Inr (s, db1)" by (auto simp: demo_begun_def)
  then have "melt_setup demo_ext ''op'' demo_melt_db db1"
    using demo_melt_start(3) unfolding demo_begun_def melt_setup_def by blast
  from melt_setup_wf [OF demo_melt_start(1) this] show ?thesis unfolding demo_pending_db_def s by simp
qed

theorem recovered_melt_settles_witness:
  "\<exists>change db'. finalize_melt_quote demo_mint no_faults no_faults no_faults 0 [[3], [3]] ''q'' (new_amount 5 Sat) None (PI_CustomId ''h'') demo_pending_db
     = (Inr change, db') \<and> (\<exists>r \<in> set (d_melt_quotes db'). lq_id r = ''q'' \<and> lq_state r = MQ_Paid)"
proof -
  let ?f = "finalize_melt_quote demo_mint no_faults no_faults no_faults 0 [[3], [3]] ''q'' (new_amount 5 Sat) None (PI_CustomId ''h'') demo_pending_db"
  have "is_ok (fst ?f)" by code_simp
  then obtain change db' where f: "?f = (Inr change, db')" by (cases ?f) (auto simp: is_ok_iff)
  have "case get_melt_request_and_blinded_messages ''q'' demo_pending_db of Inr (Some _) \<Rightarrow> True | _ \<Rightarrow> False" by code_simp
  then obtain info where info: "get_melt_request_and_blinded_messages ''q'' demo_pending_db = Inr (Some info)"
    by (auto split: sum.splits option.splits)
  have ys: "get_proof_ys_by_quote_id (m_ext demo_mint) ''q'' demo_pending_db = Inr [demo_pt 67]" by code_simp
  have "keyed_proofs (m_ext demo_mint) demo_pending_db"
    using demo_pending_wf by (simp add: melt_wf_def db_wf_def keyed_proofs_def demo_mint_def)
  from recovered_melt_settles [OF this f info ys] f show ?thesis by auto
qed

definition demo_bolt12_db :: mint_db where
  "demo_bolt12_db = empty_db\<lparr> d_melt_quotes := [demo_melt_quote\<lparr> lq_request := MP_Bolt12 ''lno'', lq_request_lookup_id := None \<rparr>] \<rparr>"

definition demo_attempted_db :: mint_db where
  "demo_attempted_db = (case setup_melt demo_mint False no_faults 0 ''op'' demo_melt_request \<lparr> v_amount = new_amount 8 Sat \<rparr>
       (KnownMethod Bolt12) demo_bolt12_db of
     Inr (s, db) \<Rightarrow> update_saga 0 ''op'' (SagaMelt MeltPaymentAttempted) db | Inl _ \<Rightarrow> empty_db)"

lemma update_saga_wf: "melt_wf X db \<Longrightarrow> melt_wf X (update_saga now i st db)"
  by (simp add: melt_wf_def db_wf_def update_saga_def update_rows_keys)

lemma demo_attempted_wf: "melt_wf demo_ext demo_attempted_db"
proof -
  let ?s = "setup_melt demo_mint False no_faults 0 ''op'' demo_melt_request \<lparr> v_amount = new_amount 8 Sat \<rparr> (KnownMethod Bolt12) demo_bolt12_db"
  have "is_ok ?s" by code_simp
  then obtain s db1 where s: "?s = Inr (s, db1)" by (auto simp: is_ok_iff)
  have "melt_wf demo_ext demo_bolt12_db"
    by (simp add: melt_wf_def db_wf_def demo_bolt12_db_def empty_db_def demo_melt_quote_def melt_quote_new_def)
  moreover have "melt_setup demo_ext ''op'' demo_bolt12_db db1" using s demo_melt_start(3) unfolding melt_setup_def by blast
  ultimately show ?thesis using s by (simp add: demo_attempted_db_def update_saga_wf melt_setup_wf)
qed

theorem attempted_melt_without_lookup_is_refunded_witness:
  "\<exists>s. sg_state s = SagaMelt MeltPaymentAttempted \<and> proofs_of ''op'' demo_attempted_db \<noteq> [] \<and>
     recover_melt_saga demo_mint (demo_processors MQ_Paid) (\<lambda>_. True) no_recovery_faults 0 [] s demo_attempted_db
       = (Inr (), drop_melt ''op'' demo_attempted_db)"
proof -
  let ?s = "saga_new_melt 0 ''op'' MeltPaymentAttempted ''q''"
  have pend: "melt_pending ''op'' ''q'' demo_attempted_db" by code_simp
  let ?quote = "set_melt_state MQ_Pending (demo_melt_quote\<lparr> lq_request := MP_Bolt12 ''lno'', lq_request_lookup_id := None \<rparr>)"
  have get: "get_melt_quote ''q'' demo_attempted_db = Inr (Some ?quote)"
    "get_mint_quote_by_request (melt_payment_request_display (lq_request ?quote)) demo_attempted_db = Inr None" by code_simp+
  have ne: "proofs_of ''op'' demo_attempted_db \<noteq> []" using pend by (simp add: melt_pending_def)
  have "recover_melt_saga demo_mint (demo_processors MQ_Paid) (\<lambda>_. True) no_recovery_faults 0 [] ?s demo_attempted_db
      = (Inr (), drop_melt (sg_operation_id ?s) demo_attempted_db)"
    by (rule attempted_melt_without_lookup_is_refunded [OF demo_attempted_wf _ _ _ _ get(1) _ get(2)])
       (simp_all add: pend)
  with ne show ?thesis by (intro exI [of _ ?s]) simp
qed

end
