(* ===== verification/Mint_Request.thy ===== *)
theory Mint_Request
  imports Mint_Types
begin

text \<open>
  Requests to mint: a single request (\<open>crates/cashu/src/nuts/nut04.rs\<close>) with its signature
  (\<open>nut20.rs\<close>), a batch (\<open>nut29.rs\<close>), and the form in which the mint takes both
  (\<open>MintInput\<close> of \<open>crates/cdk/src/mint/issue/mod.rs\<close>). A quote that is locked to a key needs a
  signature over its identifier and all the blinded messages. The main result: what the holder of the
  key signs is accepted, for a single request and for each quote of a batch.
\<close>

section \<open>Single requests\<close>

record mint_request =
  nr_quote :: quote_id
  nr_outputs :: "blinded_message list"
  nr_signature :: "string option"

datatype nut20_error = N20_SignatureMissing | N20_InvalidSignature | N20_NUT01 nut01_error

definition quote_msg :: "ext \<Rightarrow> quote_id \<Rightarrow> blinded_message list \<Rightarrow> bytes" where
  "quote_msg X quote_id outputs =
     str_bytes quote_id @ concat (map (\<lambda>m. str_bytes (x_pk_to_string X (bm_blinded_secret m))) outputs)"

definition mint_msg_to_sign :: "ext \<Rightarrow> mint_request \<Rightarrow> bytes" where
  "mint_msg_to_sign X r = quote_msg X (nr_quote r) (nr_outputs r)"

definition mint_request_sign :: "ext \<Rightarrow> secret_key \<Rightarrow> mint_request \<Rightarrow> mint_request" where
  "mint_request_sign X k r = r\<lparr> nr_signature := Some (x_sig_to_string X (sk_sign X k (mint_msg_to_sign X r))) \<rparr>"

definition mint_verify_signature :: "ext \<Rightarrow> mint_request \<Rightarrow> public_key \<Rightarrow> nut20_error + unit" where
  "mint_verify_signature X r pubkey =
     rbind (ok_or N20_SignatureMissing (nr_signature r)) (\<lambda>signature.
     rbind (ok_or N20_InvalidSignature (x_sig_from_str X signature)) (\<lambda>sig.
       map_err N20_NUT01 (pk_verify X pubkey (mint_msg_to_sign X r) sig)))"

section \<open>Batches\<close>

record batch_mint_request =
  br_quotes :: "quote_id list"
  br_quote_amounts :: "u64 list option"
  br_outputs :: "blinded_message list"
  br_signatures :: "string option list option"

definition batch_msg_to_sign :: "ext \<Rightarrow> batch_mint_request \<Rightarrow> quote_id \<Rightarrow> bytes" where
  "batch_msg_to_sign X r quote = quote_msg X quote (br_outputs r)"

definition sign_quote :: "ext \<Rightarrow> batch_mint_request \<Rightarrow> quote_id \<Rightarrow> secret_key \<Rightarrow> string" where
  "sign_quote X r quote k = x_sig_to_string X (sk_sign X k (batch_msg_to_sign X r quote))"

definition verify_quote_signature ::
  "ext \<Rightarrow> batch_mint_request \<Rightarrow> quote_id \<Rightarrow> string \<Rightarrow> public_key \<Rightarrow> nut20_error + unit"
where
  "verify_quote_signature X r quote signature pubkey =
     rbind (ok_or N20_InvalidSignature (x_sig_from_str X signature)) (\<lambda>sig.
       map_err (\<lambda>_. N20_InvalidSignature) (pk_verify X pubkey (batch_msg_to_sign X r quote) sig))"

record nut29_settings =
  n29_max_batch_size :: "u64 option"
  n29_methods :: "string list option"

definition nut29_is_empty :: "nut29_settings \<Rightarrow> bool" where
  "nut29_is_empty s \<longleftrightarrow> n29_max_batch_size s = None \<and> n29_methods s = None"

section \<open>Both forms\<close>

datatype mint_input = Single mint_request | Batch batch_mint_request

record quote_entry =
  qe_quote_id :: quote_id
  qe_signature :: "string option"
  qe_expected_amount :: "u64 option"

fun mint_input_validate :: "mint_input \<Rightarrow> cdk_error + unit" where
  "mint_input_validate (Single r) = Inr ()"
| "mint_input_validate (Batch b) =
     (if br_quotes b = [] then Inl E_UnknownQuote
      else if length (remdups (br_quotes b)) \<noteq> length (br_quotes b) then Inl E_DuplicateInputs
      else if (case br_quote_amounts b of None \<Rightarrow> False | Some as \<Rightarrow> length as \<noteq> length (br_quotes b))
      then Inl (E_TransactionUnbalanced 0 0 0)
      else if (case br_signatures b of None \<Rightarrow> False | Some sigs \<Rightarrow> length sigs \<noteq> length (br_quotes b))
      then Inl E_SignatureMissingOrInvalid
      else Inr ())"

text \<open>\<open>Vec::get\<close>.\<close>

definition vec_get :: "'a list \<Rightarrow> nat \<Rightarrow> 'a option" where
  "vec_get xs i = (if i < length xs then Some (xs ! i) else None)"

definition batch_entry :: "batch_mint_request \<Rightarrow> nat \<Rightarrow> quote_id \<Rightarrow> quote_entry" where
  "batch_entry b i quote_id = \<lparr> qe_quote_id = quote_id,
     qe_signature = (case br_signatures b of None \<Rightarrow> None
       | Some sigs \<Rightarrow> (case vec_get sigs i of None \<Rightarrow> None | Some m \<Rightarrow> m)),
     qe_expected_amount = (case br_quote_amounts b of None \<Rightarrow> None | Some as \<Rightarrow> vec_get as i) \<rparr>"

fun quote_entries :: "mint_input \<Rightarrow> quote_entry list" where
  "quote_entries (Single r) = [\<lparr> qe_quote_id = nr_quote r, qe_signature = nr_signature r, qe_expected_amount = None \<rparr>]"
| "quote_entries (Batch b) = map (\<lambda>(i, q). batch_entry b i q) (zip [0..<length (br_quotes b)] (br_quotes b))"

fun mint_input_quote_ids :: "mint_input \<Rightarrow> quote_id list" where
  "mint_input_quote_ids (Single r) = [nr_quote r]"
| "mint_input_quote_ids (Batch b) = br_quotes b"

fun mint_input_outputs :: "mint_input \<Rightarrow> blinded_message list" where
  "mint_input_outputs (Single r) = nr_outputs r"
| "mint_input_outputs (Batch b) = br_outputs b"

fun is_batch :: "mint_input \<Rightarrow> bool" where
  "is_batch (Single r) \<longleftrightarrow> False"
| "is_batch (Batch b) \<longleftrightarrow> True"

text \<open>The check of the signature of one quote, as the mint makes it for either form.\<close>

definition verify_entry_signature :: "ext \<Rightarrow> mint_input \<Rightarrow> quote_entry \<Rightarrow> public_key option \<Rightarrow> cdk_error + unit" where
  "verify_entry_signature X input entry m = (case m of
       Some pubkey \<Rightarrow> (case input of
           Single request \<Rightarrow> map_err (\<lambda>_. E_SignatureMissingOrInvalid) (mint_verify_signature X request pubkey)
         | Batch request \<Rightarrow>
             rbind (ok_or E_SignatureMissingOrInvalid (qe_signature entry)) (\<lambda>signature.
               map_err (\<lambda>_. E_SignatureMissingOrInvalid)
                 (verify_quote_signature X request (qe_quote_id entry) signature pubkey)))
     | None \<Rightarrow> if qe_signature entry \<noteq> None then Inl E_SignatureMissingOrInvalid else Inr ())"

section \<open>Signatures of the holder are accepted, and nothing else is\<close>

lemma entries_quote_ids: "map qe_quote_id (quote_entries input) = mint_input_quote_ids input"
  by (cases input) (auto simp: batch_entry_def case_prod_beta' comp_def intro!: nth_equalityI)

lemma mint_sign_verifies:
  assumes "schnorr_law X" and "sig_text_law X"
  shows "mint_verify_signature X (mint_request_sign X k r) (x_public_key X k) = Inr ()"
  using assms sk_sign_verifies [OF assms(1), of k "mint_msg_to_sign X r"]
  by (auto simp: mint_verify_signature_def mint_request_sign_def sig_text_law_def sk_sign_def mint_msg_to_sign_def
      is_ok_iff)

lemma batch_sign_verifies:
  assumes "schnorr_law X" and "sig_text_law X"
  shows "verify_quote_signature X r q (sign_quote X r q k) (x_public_key X k) = Inr ()"
  using assms sk_sign_verifies [OF assms(1), of k "batch_msg_to_sign X r q"]
  by (auto simp: verify_quote_signature_def sign_quote_def sig_text_law_def sk_sign_def is_ok_iff)

lemma verify_entry_Ok:
  assumes "verify_entry_signature X input entry (Some k) = Inr ()" and "entry \<in> set (quote_entries input)"
  shows "\<exists>s sig. qe_signature entry = Some s \<and> x_sig_from_str X s = Some sig \<and>
    is_ok (pk_verify X k (quote_msg X (qe_quote_id entry) (mint_input_outputs input)) sig)"
  using assms
  by (cases input) (auto simp: verify_entry_signature_def mint_verify_signature_def verify_quote_signature_def
      res_simps mint_msg_to_sign_def batch_msg_to_sign_def is_ok_iff)

end
