(* ===== verification/Issue.thy ===== *)
theory Issue
  imports Verification Mint_Db_Quotes Mint_Request
begin

text \<open>
  Issuing: quotes to mint, the payments that credit them and the requests that mint against them
  (\<open>crates/cdk/src/mint/issue/mod.rs\<close>, \<open>ln.rs\<close>, and the notification handlers of \<open>mint/mod.rs\<close>). The
  payment backend is a parameter: what its \<open>check_incoming_payment_status\<close>, \<open>get_settings\<close> and
  \<open>create_incoming_payment_request\<close> answer. So are the clock, fresh identifiers, the nonces of the
  signatures, and the settings the mint reads from its database (\<open>mint_info\<close>, \<open>quote_ttl\<close>), which may
  fail. A transaction that does not commit has no effect. The hash map of the quotes of a batch is the
  list of them in the order of the request, which only decides which of several errors is reported.
  Publication and metrics are left out.
\<close>

section \<open>The payment backend\<close>

record wait_payment_response =
  wp_payment_identifier :: payment_identifier
  wp_payment_amount :: typed_amount
  wp_payment_id :: string

datatype incoming_payment_options =
    IO_Bolt11 "string option" typed_amount "u64 option"
  | IO_Bolt12 "string option" "typed_amount option" "u64 option"
  | IO_Custom string "string option" typed_amount "u64 option" "string option"

record create_incoming_response =
  ci_request_lookup_id :: payment_identifier
  ci_request :: string
  ci_expiry :: "u64 option"
  ci_extra_json :: "string option"

text \<open>Of the settings of a backend: whether invoices may have a description, for BOLT11.\<close>

record incoming_backend =
  ib_check_incoming_payment_status :: "payment_identifier \<Rightarrow> payment_error + wait_payment_response list"
  ib_invoice_description :: "payment_error + bool option"
  ib_create_incoming_payment_request :: "incoming_payment_options \<Rightarrow> payment_error + create_incoming_response"

type_synonym receivers = "currency_unit \<Rightarrow> payment_method \<Rightarrow> incoming_backend option"

abbreviation is_bolt11 :: "payment_method \<Rightarrow> bool" where
  "is_bolt11 m \<equiv> m = KnownMethod Bolt11"

abbreviation is_bolt12 :: "payment_method \<Rightarrow> bool" where
  "is_bolt12 m \<equiv> m = KnownMethod Bolt12"

section \<open>Requesting a quote\<close>

record quote_bolt11_request =
  q11_amount :: u64
  q11_unit :: currency_unit
  q11_description :: "string option"
  q11_pubkey :: "public_key option"

record quote_bolt12_request =
  q12_amount :: "u64 option"
  q12_unit :: currency_unit
  q12_description :: "string option"
  q12_pubkey :: public_key

text \<open>The extra data of a custom request is its JSON text; \<open>None\<close> stands for null.\<close>

record quote_custom_request =
  qcu_amount :: u64
  qcu_unit :: currency_unit
  qcu_description :: "string option"
  qcu_pubkey :: "public_key option"
  qcu_extra :: "string option"

datatype mint_quote_request =
    QR_Bolt11 quote_bolt11_request
  | QR_Bolt12 quote_bolt12_request
  | QR_Custom string quote_custom_request

fun quote_request_amount :: "mint_quote_request \<Rightarrow> u64 option" where
  "quote_request_amount (QR_Bolt11 r) = Some (q11_amount r)"
| "quote_request_amount (QR_Bolt12 r) = q12_amount r"
| "quote_request_amount (QR_Custom m r) = Some (qcu_amount r)"

fun quote_request_unit :: "mint_quote_request \<Rightarrow> currency_unit" where
  "quote_request_unit (QR_Bolt11 r) = q11_unit r"
| "quote_request_unit (QR_Bolt12 r) = q12_unit r"
| "quote_request_unit (QR_Custom m r) = qcu_unit r"

fun quote_request_payment_method :: "ext \<Rightarrow> mint_quote_request \<Rightarrow> payment_method" where
  "quote_request_payment_method X (QR_Bolt11 r) = KnownMethod Bolt11"
| "quote_request_payment_method X (QR_Bolt12 r) = KnownMethod Bolt12"
| "quote_request_payment_method X (QR_Custom m r) = payment_method_from_str X m"

fun quote_request_pubkey :: "mint_quote_request \<Rightarrow> public_key option" where
  "quote_request_pubkey (QR_Bolt11 r) = q11_pubkey r"
| "quote_request_pubkey (QR_Bolt12 r) = Some (q12_pubkey r)"
| "quote_request_pubkey (QR_Custom m r) = qcu_pubkey r"

record mint_method_settings =
  mms_method :: payment_method
  mms_unit :: currency_unit
  mms_min_amount :: "u64 option"
  mms_max_amount :: "u64 option"

record nut04_settings =
  n04_methods :: "mint_method_settings list"
  n04_disabled :: bool

record mint_info =
  mi_nut04 :: nut04_settings
  mi_nut29 :: nut29_settings

definition nut04_get_settings :: "nut04_settings \<Rightarrow> currency_unit \<Rightarrow> payment_method \<Rightarrow> mint_method_settings option" where
  "nut04_get_settings s u m = List.find (\<lambda>t. mms_method t = m \<and> mms_unit t = u) (n04_methods s)"

definition out_of_range :: "u64 option \<Rightarrow> u64 option \<Rightarrow> u64 \<Rightarrow> bool" where
  "out_of_range min_amount max_amount a \<longleftrightarrow>
     (case max_amount of None \<Rightarrow> False | Some h \<Rightarrow> a > h) \<or> (case min_amount of None \<Rightarrow> False | Some l \<Rightarrow> a < l)"

definition check_mint_request_acceptable ::
  "ext \<Rightarrow> cdk_error + mint_info \<Rightarrow> mint_quote_request \<Rightarrow> cdk_error + unit"
where
  "check_mint_request_acceptable X info req =
     rbind info (\<lambda>mint_info.
     rbind (ensure_cdk (\<not> n04_disabled (mi_nut04 mint_info)) E_MintingDisabled) (\<lambda>_.
     rbind (ok_or E_UnsupportedUnit (nut04_get_settings (mi_nut04 mint_info) (quote_request_unit req)
              (quote_request_payment_method X req))) (\<lambda>settings.
     case quote_request_amount req of
       None \<Rightarrow> Inr ()
     | Some a \<Rightarrow> ensure_cdk (\<not> out_of_range (mms_min_amount settings) (mms_max_amount settings) a)
         (E_AmountOutofLimitRange (get_or_default 0 (mms_min_amount settings)) (get_or_default 0 (mms_max_amount settings)) a))))"

definition MAX_REQUEST_FIELD_LEN :: nat where
  "MAX_REQUEST_FIELD_LEN = 1024"

definition check_field_len :: "string \<Rightarrow> string option \<Rightarrow> cdk_error + unit" where
  "check_field_len field m = (case m of
       None \<Rightarrow> Inr ()
     | Some s \<Rightarrow> if length s > MAX_REQUEST_FIELD_LEN
         then Inl (E_RequestFieldTooLarge field (length s) MAX_REQUEST_FIELD_LEN) else Inr ())"

definition incoming_options ::
  "u64 \<Rightarrow> cdk_error + u64 \<Rightarrow> incoming_backend \<Rightarrow> mint_quote_request \<Rightarrow> cdk_error + incoming_payment_options"
where
  "incoming_options now mint_ttl ln req = (case req of
       QR_Bolt11 r \<Rightarrow>
         rbind (check_field_len ''description'' (q11_description r)) (\<lambda>_.
         rbind mint_ttl (\<lambda>ttl.
         rbind (map_err E_Payment (ib_invoice_description ln)) (\<lambda>settings.
           if settings = Some False \<and> q11_description r \<noteq> None then Inl E_InvoiceDescriptionUnsupported
           else Inr (IO_Bolt11 (q11_description r) (new_amount (q11_amount r) (q11_unit r)) (Some (now + ttl))))))
     | QR_Bolt12 r \<Rightarrow>
         rbind (check_field_len ''description'' (q12_description r)) (\<lambda>_.
           Inr (IO_Bolt12 (q12_description r) (map_option (\<lambda>a. new_amount a (q12_unit r)) (q12_amount r)) None))
     | QR_Custom m r \<Rightarrow>
         rbind (check_field_len ''description'' (qcu_description r)) (\<lambda>_.
         rbind (check_field_len ''extra'' (qcu_extra r)) (\<lambda>_.
         rbind mint_ttl (\<lambda>ttl.
           Inr (IO_Custom m (qcu_description r) (new_amount (qcu_amount r) (qcu_unit r)) (Some (now + ttl)) (qcu_extra r))))))"

definition mint_quote_new ::
  "quote_id \<Rightarrow> string \<Rightarrow> currency_unit \<Rightarrow> typed_amount option \<Rightarrow> u64 \<Rightarrow> payment_identifier \<Rightarrow> public_key option \<Rightarrow>
   typed_amount \<Rightarrow> typed_amount \<Rightarrow> payment_method \<Rightarrow> u64 \<Rightarrow> incoming_payment list \<Rightarrow> issuance list \<Rightarrow> string option \<Rightarrow> mint_quote"
where
  "mint_quote_new i request u amount expiry lookup_id pubkey amount_paid amount_issued m created_time payments issuances extra = \<lparr>
     mq_id = i, mq_amount = amount, mq_unit = u, mq_request = request, mq_expiry = expiry,
     mq_request_lookup_id = lookup_id, mq_pubkey = pubkey, mq_created_time = created_time,
     mq_amount_paid = amount_paid, mq_amount_issued = amount_issued, mq_payments = payments,
     mq_payment_method = m, mq_issuance = issuances, mq_extra_json = extra, mq_changes = None \<rparr>"

text \<open>The answers about a quote; an absent extra value of a custom quote is the JSON null.\<close>

datatype mint_quote_response =
    NR_Bolt11 quote_id string "u64 option" "currency_unit option" mint_quote_state "u64 option" "public_key option"
  | NR_Bolt12 quote_id string "u64 option" currency_unit "u64 option" public_key u64 u64
  | NR_Custom string quote_id string "u64 option" "currency_unit option" mint_quote_state "u64 option" "public_key option" string

definition mint_quote_response_of :: "mint_quote \<Rightarrow> cdk_error + mint_quote_response" where
  "mint_quote_response_of q = (let amount = map_option ta_value (mq_amount q) in
     if is_bolt11 (mq_payment_method q)
     then Inr (NR_Bolt11 (mq_id q) (mq_request q) amount (Some (mq_unit q)) (compute_quote_state q) (Some (mq_expiry q)) (mq_pubkey q))
     else if is_bolt12 (mq_payment_method q)
     then rmap (\<lambda>k. NR_Bolt12 (mq_id q) (mq_request q) amount (mq_unit q) (Some (mq_expiry q)) k
            (ta_value (mq_amount_paid q)) (ta_value (mq_amount_issued q))) (ok_or E_PubkeyRequired (mq_pubkey q))
     else Inr (NR_Custom (payment_method_as_str (mq_payment_method q)) (mq_id q) (mq_request q) amount (Some (mq_unit q))
            (compute_quote_state q) (Some (mq_expiry q)) (mq_pubkey q) (get_or_default ''null'' (mq_extra_json q))))"

definition request_mint_quote ::
  "ext \<Rightarrow> receivers \<Rightarrow> cdk_error + mint_info \<Rightarrow> cdk_error + u64 \<Rightarrow> faults \<Rightarrow> u64 \<Rightarrow> quote_id \<Rightarrow> mint_quote_request \<Rightarrow>
   mint_db \<Rightarrow> (cdk_error + mint_quote_response) \<times> mint_db"
where
  "request_mint_quote X P info mint_ttl f now i req db =
     (let u = quote_request_unit req; m = quote_request_payment_method X req in
      case rbind (check_mint_request_acceptable X info req) (\<lambda>_.
           rbind (ok_or E_UnsupportedUnit (P u m)) (\<lambda>ln.
           rbind (incoming_options now mint_ttl ln req) (\<lambda>payment_options.
           rbind (map_err (\<lambda>_. E_InvalidPaymentRequest) (ib_create_incoming_payment_request ln payment_options)) (\<lambda>r.
             let quote = mint_quote_new i (ci_request r) u (map_option (\<lambda>a. new_amount a u) (quote_request_amount req))
                   (get_or_default 0 (ci_expiry r)) (ci_request_lookup_id r) (quote_request_pubkey req)
                   (new_amount 0 u) (new_amount 0 u) m now [] [] (Some (get_or_default ''null'' (ci_extra_json r))) in
             rbind (map_err cdk_of_db (faulty (f Begin_tx) (Inr ()))) (\<lambda>_.
             rbind (map_err cdk_of_db (faulty (f Add_mint_quote) (add_mint_quote quote db))) (\<lambda>db1.
             rbind (map_err cdk_of_db (faulty (f Commit_tx) (Inr ()))) (\<lambda>_. Inr (quote, db1)))))))) of
        Inl e \<Rightarrow> (Inl e, db)
      | Inr (quote, db1) \<Rightarrow> (mint_quote_response_of quote, db1))"

section \<open>Payments\<close>

definition settled :: "mint_quote \<Rightarrow> bool" where
  "settled q \<longleftrightarrow> is_bolt11 (mq_payment_method q) \<and> (compute_quote_state q = NQ_Issued \<or> compute_quote_state q = NQ_Paid)"

definition handle_mint_quote_payment ::
  "faults \<Rightarrow> u64 \<Rightarrow> wait_payment_response \<Rightarrow> mint_quote \<Rightarrow> mint_db \<Rightarrow> cdk_error + mint_db"
where
  "handle_mint_quote_payment f now w q db =
     (if wp_payment_id w \<in> set (payment_ids q) \<or> settled q then Inr db
      else rbind (map_err E_AmountError (convert_to (wp_payment_amount w) (mq_unit q))) (\<lambda>a.
        if ta_value a = 0 then Inl E_AmountUndefined
        else (case add_payment now q a (wp_payment_id w) None of
            Inr q1 \<Rightarrow> rmap snd (map_err cdk_of_db (faulty (f Update_mint_quote) (update_mint_quote now q1 db)))
          | Inl e \<Rightarrow> if e = E_DuplicatePaymentId then Inr db else Inl e)))"

definition handle_payment_notification ::
  "faults \<Rightarrow> u64 \<Rightarrow> wait_payment_response \<Rightarrow> mint_db \<Rightarrow> (cdk_error + unit) \<times> mint_db"
where
  "handle_payment_notification f now w db =
     (if ta_value (wp_payment_amount w) = 0 then (Inl E_AmountUndefined, db)
      else (case rbind (map_err cdk_of_db (faulty (f Begin_tx) (Inr ()))) (\<lambda>_.
                 rbind (case faulty (f Get_mint_quote) (get_mint_quote_by_request_lookup_id (wp_payment_identifier w) db) of
                          Inr (Some mint_quote) \<Rightarrow> handle_mint_quote_payment f now w mint_quote db
                        | _ \<Rightarrow> Inr db) (\<lambda>db1.
                 map_err cdk_of_db (faulty (f Commit_tx) (Inr db1)))) of
          Inl e \<Rightarrow> (Inl e, db)
        | Inr db1 \<Rightarrow> (Inr (), db1)))"

definition pay_mint_quote ::
  "faults \<Rightarrow> u64 \<Rightarrow> wait_payment_response \<Rightarrow> mint_quote \<Rightarrow> mint_db \<Rightarrow> cdk_error + mint_db"
where
  "pay_mint_quote f now w q db = handle_mint_quote_payment f now w q db"

definition pay_mint_quote_for_request_id ::
  "faults \<Rightarrow> u64 \<Rightarrow> wait_payment_response \<Rightarrow> mint_db \<Rightarrow> (cdk_error + unit) \<times> mint_db"
where
  "pay_mint_quote_for_request_id f now w db =
     (if ta_value (wp_payment_amount w) = 0 then (Inl E_AmountUndefined, db)
      else (case rbind (map_err cdk_of_db (faulty (f Begin_tx) (Inr ()))) (\<lambda>_.
                 rbind (case faulty (f Get_mint_quote) (get_mint_quote_by_request_lookup_id (wp_payment_identifier w) db) of
                          Inr (Some mint_quote) \<Rightarrow> pay_mint_quote f now w mint_quote db
                        | _ \<Rightarrow> Inr db) (\<lambda>db1.
                 map_err cdk_of_db (faulty (f Commit_tx) (Inr db1)))) of
          Inl e \<Rightarrow> (Inl e, db)
        | Inr db1 \<Rightarrow> (Inr (), db1)))"

fun record_payments ::
  "faults \<Rightarrow> u64 \<Rightarrow> wait_payment_response list \<Rightarrow> mint_quote \<Rightarrow> mint_db \<Rightarrow> cdk_error + mint_quote \<times> mint_db"
where
  "record_payments f now [] q db = Inr (q, db)"
| "record_payments f now (w # ws) q db =
     (if wp_payment_id w \<notin> set (payment_ids q) \<and> ta_value (wp_payment_amount w) > 0
      then rbind (map_err E_AmountError (convert_to (wp_payment_amount w) (mq_unit q))) (\<lambda>a.
        case add_payment now q a (wp_payment_id w) None of
          Inr q1 \<Rightarrow> rbind (map_err cdk_of_db (faulty (f Update_mint_quote) (update_mint_quote now q1 db))) (\<lambda>(q2, db1).
            record_payments f now ws q2 db1)
        | Inl e \<Rightarrow> if e = E_DuplicatePaymentId then record_payments f now ws q db else Inl e)
      else record_payments f now ws q db)"

text \<open>\<open>check_mint_quote_paid\<close>: the quote it returns is the caller's quote afterwards.\<close>

definition check_mint_quote_payments ::
  "receivers \<Rightarrow> faults \<Rightarrow> u64 \<Rightarrow> mint_quote \<Rightarrow> mint_db \<Rightarrow> (cdk_error + mint_quote) \<times> mint_db"
where
  "check_mint_quote_payments P f now quote db =
     (if settled quote then (Inr quote, db)
      else (case rbind (ok_or E_UnsupportedUnit (P (mq_unit quote) (mq_payment_method quote))) (\<lambda>ln.
                   map_err E_Payment (ib_check_incoming_payment_status ln (mq_request_lookup_id quote))) of
          Inl e \<Rightarrow> (Inl e, db)
        | Inr ln_status \<Rightarrow>
          if ln_status = [] then (Inr quote, db)
          else (case rbind (map_err cdk_of_db (faulty (f Begin_tx) (Inr ()))) (\<lambda>_.
                     rbind (map_err cdk_of_db (faulty (f Get_mint_quote) (get_mint_quote (mq_id quote) db))) (\<lambda>m.
                     rbind (ok_or E_UnknownQuote m) (\<lambda>new_quote.
                       if settled new_quote then Inr (quote, db)
                       else rbind (record_payments f now ln_status new_quote db) (\<lambda>(q1, db1).
                         map_err cdk_of_db (faulty (f Commit_tx) (Inr (q1, db1))))))) of
              Inl e \<Rightarrow> (Inl e, db)
            | Inr (q1, db1) \<Rightarrow> (Inr q1, db1))))"

text \<open>Reading a list of quotes, each brought up to date with the backend; \<open>Fs\<close> are the faults at each quote.\<close>

fun fetch_quotes ::
  "receivers \<Rightarrow> (quote_id \<Rightarrow> faults) \<Rightarrow> (quote_id \<Rightarrow> faults) \<Rightarrow> u64 \<Rightarrow> quote_id list \<Rightarrow> mint_db \<Rightarrow>
   (cdk_error + (quote_id \<times> mint_quote) list) \<times> mint_db"
where
  "fetch_quotes P Fr Fs now [] db = (Inr [], db)"
| "fetch_quotes P Fr Fs now (i # ids) db =
     (case rbind (map_err cdk_of_db (faulty (Fr i Get_mint_quote) (get_mint_quote i db))) (ok_or E_UnknownQuote) of
        Inl e \<Rightarrow> (Inl e, db)
      | Inr quote \<Rightarrow> (case check_mint_quote_payments P (Fs i) now quote db of
          (Inl e, db1) \<Rightarrow> (Inl e, db1)
        | (Inr q1, db1) \<Rightarrow> map_prod (rmap (\<lambda>qs. (i, q1) # qs)) id (fetch_quotes P Fr Fs now ids db1)))"

text \<open>In \<open>check_mint_quotes\<close> the answer for a quote is formed before the next quote is read.\<close>

fun check_each ::
  "receivers \<Rightarrow> (quote_id \<Rightarrow> faults) \<Rightarrow> (quote_id \<Rightarrow> faults) \<Rightarrow> u64 \<Rightarrow> quote_id list \<Rightarrow> mint_db \<Rightarrow>
   (cdk_error + mint_quote_response list) \<times> mint_db"
where
  "check_each P Fr Fs now [] db = (Inr [], db)"
| "check_each P Fr Fs now (i # ids) db =
     (case rbind (map_err cdk_of_db (faulty (Fr i Get_mint_quote) (get_mint_quote i db))) (ok_or E_UnknownQuote) of
        Inl e \<Rightarrow> (Inl e, db)
      | Inr quote \<Rightarrow> (case check_mint_quote_payments P (Fs i) now quote db of
          (Inl e, db1) \<Rightarrow> (Inl e, db1)
        | (Inr q1, db1) \<Rightarrow> (case mint_quote_response_of q1 of
            Inl e \<Rightarrow> (Inl e, db1)
          | Inr r \<Rightarrow> map_prod (rmap (\<lambda>rs. r # rs)) id (check_each P Fr Fs now ids db1))))"

definition check_mint_quotes ::
  "receivers \<Rightarrow> (quote_id \<Rightarrow> faults) \<Rightarrow> (quote_id \<Rightarrow> faults) \<Rightarrow> u64 \<Rightarrow> quote_id list \<Rightarrow> mint_db \<Rightarrow>
   (cdk_error + mint_quote_response list) \<times> mint_db"
where
  "check_mint_quotes P Fr Fs now ids db =
     (if ids = [] then (Inl E_UnknownQuote, db)
      else if length (remdups ids) \<noteq> length ids then (Inl E_DuplicateInputs, db)
      else check_each P Fr Fs now ids db)"

definition check_mint_quote ::
  "receivers \<Rightarrow> (quote_id \<Rightarrow> faults) \<Rightarrow> (quote_id \<Rightarrow> faults) \<Rightarrow> u64 \<Rightarrow> quote_id \<Rightarrow> mint_db \<Rightarrow>
   (cdk_error + mint_quote_response) \<times> mint_db"
where
  "check_mint_quote P Fr Fs now i db =
     map_prod (\<lambda>r. rbind r (\<lambda>rs. case rs of [] \<Rightarrow> Inl E_UnknownQuote | q # _ \<Rightarrow> Inr q)) id (check_mint_quotes P Fr Fs now [i] db)"

section \<open>Minting\<close>

definition check_batch_settings :: "cdk_error + mint_info \<Rightarrow> mint_input \<Rightarrow> cdk_error + nut29_settings option" where
  "check_batch_settings info input = (case input of
       Single _ \<Rightarrow> Inr None
     | Batch b \<Rightarrow>
         rbind info (\<lambda>mint_info.
         let settings = mi_nut29 mint_info in
         if nut29_is_empty settings then Inl E_UnsupportedPaymentMethod
         else (case n29_max_batch_size settings of
             Some n \<Rightarrow> if length (br_quotes b) > unat n then Inl (E_MaxInputsExceeded (length (br_quotes b)) (unat n))
                       else Inr (Some settings)
           | None \<Rightarrow> Inr (Some settings))))"

text \<open>All quotes have the method and the unit of the first.\<close>

definition common_method :: "mint_quote list \<Rightarrow> cdk_error + payment_method \<times> currency_unit" where
  "common_method quotes = (case quotes of
       [] \<Rightarrow> Inl E_UnknownQuote
     | first # _ \<Rightarrow> rmap (\<lambda>_. (mq_payment_method first, mq_unit first)) (collect_res (\<lambda>q.
         if mq_payment_method q \<noteq> mq_payment_method first then Inl E_InvalidPaymentMethod
         else if mq_unit q \<noteq> mq_unit first then Inl E_UnitMismatch
         else Inr ()) quotes))"

definition check_batch_method :: "nut29_settings option \<Rightarrow> payment_method \<Rightarrow> cdk_error + unit" where
  "check_batch_method settings m = (case settings of
       None \<Rightarrow> Inr ()
     | Some s \<Rightarrow> (case n29_methods s of
         None \<Rightarrow> Inr ()
       | Some methods \<Rightarrow> if payment_method_as_str m \<in> set methods then Inr () else Inl E_UnsupportedPaymentMethod))"

definition check_quote_paid :: "mint_quote \<Rightarrow> cdk_error + unit" where
  "check_quote_paid q = (case compute_quote_state q of
       NQ_Unpaid \<Rightarrow> Inl E_UnpaidQuote
     | NQ_Issued \<Rightarrow> Inl E_IssuedQuote
     | NQ_Paid \<Rightarrow> Inr ())"

definition expected_amount :: "quote_entry \<Rightarrow> mint_quote \<Rightarrow> cdk_error + typed_amount" where
  "expected_amount entry q =
     (if is_bolt11 (mq_payment_method q) then ok_or E_AmountUndefined (mq_amount q)
      else (case qe_expected_amount entry of
          Some a \<Rightarrow> Inr (new_amount a (mq_unit q))
        | None \<Rightarrow> Inr (amount_mintable q)))"

definition check_entry :: "ext \<Rightarrow> mint_input \<Rightarrow> (quote_id \<times> mint_quote) list \<Rightarrow> quote_entry \<Rightarrow> cdk_error + typed_amount" where
  "check_entry X input quotes entry =
     rbind (ok_or E_UnknownQuote (map_of quotes (qe_quote_id entry))) (\<lambda>q.
     rbind (check_quote_paid q) (\<lambda>_.
     rbind (expected_amount entry q) (\<lambda>expected.
     if typed_partial_cmp_lt (amount_mintable q) expected
     then Inl (E_TransactionUnbalanced (ta_value (amount_mintable q)) (ta_value expected) 0)
     else if expected = new_amount 0 (mq_unit q) then Inl E_UnpaidQuote
     else if is_bolt12 (mq_payment_method q) \<and> mq_pubkey q = None then Inl E_SignatureMissingOrInvalid
     else rbind (verify_entry_signature X input entry (mq_pubkey q)) (\<lambda>_. Inr expected))))"

fun check_entries ::
  "ext \<Rightarrow> mint_input \<Rightarrow> (quote_id \<times> mint_quote) list \<Rightarrow> quote_entry list \<Rightarrow> u64 \<Rightarrow> (quote_id \<times> typed_amount) list \<Rightarrow>
   cdk_error + u64 \<times> (quote_id \<times> typed_amount) list"
where
  "check_entries X input quotes [] total_value expected = Inr (total_value, expected)"
| "check_entries X input quotes (entry # entries) total_value expected =
     rbind (check_entry X input quotes entry) (\<lambda>a.
     rbind (ok_or E_AmountOverflow (u64_checked_add total_value (ta_value a))) (\<lambda>total_expected.
       check_entries X input quotes entries total_expected ((qe_quote_id entry, a) # expected)))"

text \<open>
  The transaction: for a batch the outputs are stored once, for a single request with the quote. \<open>ids\<close>
  gives the identifiers of the operations.
\<close>

definition store_outputs ::
  "faults \<Rightarrow> u64 \<Rightarrow> quote_id option \<Rightarrow> operation \<Rightarrow> blinded_message list \<Rightarrow> blind_signature list \<Rightarrow> mint_db \<Rightarrow>
   cdk_error + mint_db"
where
  "store_outputs f now quote_id d outputs sigs db =
     rbind (map_err cdk_of_db (faulty (f Add_blinded_messages) (add_blinded_messages now quote_id outputs d db))) (\<lambda>db1.
       map_err cdk_of_db (faulty (f Add_blind_signatures)
         (add_blind_signatures now (map bm_blinded_secret outputs) sigs quote_id db1)))"

definition complete_operation :: "faults \<Rightarrow> u64 \<Rightarrow> operation \<Rightarrow> mint_db \<Rightarrow> cdk_error + mint_db" where
  "complete_operation f now d db =
     map_err cdk_of_db (faulty (f Add_completed_operation) (add_completed_operation now d [] db))"

definition issue_quote ::
  "(quote_id \<Rightarrow> faults) \<Rightarrow> u64 \<Rightarrow> (quote_id option \<Rightarrow> uuid) \<Rightarrow> mint_input \<Rightarrow> typed_amount \<Rightarrow> (quote_id \<times> typed_amount) list \<Rightarrow>
   blind_signature list \<Rightarrow> quote_id \<Rightarrow> mint_db \<Rightarrow> cdk_error + mint_db"
where
  "issue_quote Fs now ids input outputs_amount expected sigs i db = (let f = Fs i in
     rbind (map_err cdk_of_db (faulty (f Get_mint_quote) (get_mint_quote i db))) (\<lambda>m.
     rbind (ok_or E_UnknownQuote m) (\<lambda>mint_quote.
     rbind (check_quote_paid mint_quote) (\<lambda>_.
     rbind (if is_batch input then ok_or E_UnknownQuote (map_of expected i) else Inr outputs_amount) (\<lambda>amount_issued.
     let d = operation_new_mint (ids (Some i)) (ta_value amount_issued) (mq_payment_method mint_quote) in
     rbind (if is_batch input then Inr db
            else store_outputs f now (Some i) d (mint_input_outputs input) sigs db) (\<lambda>db1.
     rbind (add_issuance mint_quote amount_issued) (\<lambda>(_, mint_quote1).
     rbind (map_err cdk_of_db (faulty (f Update_mint_quote) (update_mint_quote now mint_quote1 db1))) (\<lambda>(_, db2).
       if is_batch input then Inr db2 else complete_operation f now d db2))))))))"

definition mint_transaction ::
  "faults \<Rightarrow> (quote_id \<Rightarrow> faults) \<Rightarrow> u64 \<Rightarrow> (quote_id option \<Rightarrow> uuid) \<Rightarrow> mint_input \<Rightarrow> payment_method \<Rightarrow> typed_amount \<Rightarrow>
   (quote_id \<times> typed_amount) list \<Rightarrow> blind_signature list \<Rightarrow> mint_db \<Rightarrow> cdk_error + mint_db"
where
  "mint_transaction f Fs now ids input batch_method outputs_amount expected sigs db =
     rbind (map_err cdk_of_db (faulty (f Begin_tx) (Inr ()))) (\<lambda>_.
     rbind (if is_batch input
            then (let d = operation_new_batch_mint (ids None) (ta_value outputs_amount) batch_method in
              rbind (store_outputs f now None d (mint_input_outputs input) sigs db) (complete_operation f now d))
            else Inr db) (\<lambda>db1.
     rbind (insert_all (issue_quote Fs now ids input outputs_amount expected sigs) (mint_input_quote_ids input) db1) (\<lambda>db2.
       map_err cdk_of_db (faulty (f Commit_tx) (Inr db2)))))"

text \<open>The faults of a mint request: reading the quotes, recording their payments, and the transaction.\<close>

record issue_faults =
  nf_read :: "quote_id \<Rightarrow> faults"
  nf_check :: "quote_id \<Rightarrow> faults"
  nf_batch :: faults
  nf_quote :: "quote_id \<Rightarrow> faults"

definition no_issue_faults :: issue_faults where
  "no_issue_faults = \<lparr> nf_read = (\<lambda>_. no_faults), nf_check = (\<lambda>_. no_faults), nf_batch = no_faults, nf_quote = (\<lambda>_. no_faults) \<rparr>"

definition authorize_mint ::
  "mint \<Rightarrow> nut29_settings option \<Rightarrow> mint_input \<Rightarrow> typed_amount \<Rightarrow> (quote_id \<times> mint_quote) list \<Rightarrow>
   cdk_error + payment_method \<times> (quote_id \<times> typed_amount) list"
where
  "authorize_mint M settings input outputs_amount quotes =
     rbind (common_method (map snd quotes)) (\<lambda>(batch_method, batch_unit).
     rbind (check_batch_method settings batch_method) (\<lambda>_.
     rbind (check_entries (m_ext M) input quotes (quote_entries input) 0 []) (\<lambda>(total_expected, expected).
     rbind (ensure_cdk (ta_unit outputs_amount = batch_unit) E_UnsupportedUnit) (\<lambda>_.
       if ta_value outputs_amount \<noteq> total_expected
       then Inl (E_TransactionUnbalanced total_expected (ta_value outputs_amount) 0)
       else Inr (batch_method, expected)))))"

definition process_mint_request ::
  "mint \<Rightarrow> receivers \<Rightarrow> cdk_error + mint_info \<Rightarrow> issue_faults \<Rightarrow> u64 \<Rightarrow> (quote_id option \<Rightarrow> uuid) \<Rightarrow> secret_key list \<Rightarrow> mint_input \<Rightarrow>
   mint_db \<Rightarrow> (cdk_error + blind_signature list) \<times> mint_db"
where
  "process_mint_request M P info F now ids nonces input db =
     (case rbind (mint_input_validate input) (\<lambda>_.
           rbind (check_batch_settings info input) (\<lambda>settings.
           rbind (verify_outputs M (mint_input_outputs input)) (\<lambda>v. Inr (settings, v_amount v)))) of
        Inl e \<Rightarrow> (Inl e, db)
      | Inr (settings, outputs_amount) \<Rightarrow>
      (case fetch_quotes P (nf_read F) (nf_check F) now (mint_input_quote_ids input) db of
         (Inl e, db1) \<Rightarrow> (Inl e, db1)
       | (Inr quotes, db1) \<Rightarrow>
         (case rbind (authorize_mint M settings input outputs_amount quotes) (\<lambda>(batch_method, expected).
               rbind (blind_sign M nonces (mint_input_outputs input)) (\<lambda>sigs.
               rbind (mint_transaction (nf_batch F) (nf_quote F) now ids input batch_method outputs_amount expected sigs db1) (\<lambda>db2.
                 Inr (sigs, db2)))) of
            Inl e \<Rightarrow> (Inl e, db1)
          | Inr (sigs, db2) \<Rightarrow> (Inr sigs, db2))))"

end
