(* ===== verification/Issue_Accounts.thy ===== *)
theory Issue_Accounts
  imports Issue
begin

text \<open>
  The accounts of the mint quotes. The invariant \<open>quotes_ok\<close>: the amounts in a quote's row are the sums
  of its payment and issuance rows, nothing is issued that was not paid, and no payment identifier occurs
  twice. \<open>credit\<close> and \<open>charge\<close> are what a recorded payment and an issuance do to the tables; every
  handler is a sequence of them.
\<close>

section \<open>The invariant\<close>

definition paid_rows :: "mint_db \<Rightarrow> quote_id \<Rightarrow> payment_row list" where
  "paid_rows db i = filter (\<lambda>r. pay_quote_id r = i) (d_payments db)"

definition issued_rows :: "mint_db \<Rightarrow> quote_id \<Rightarrow> issued_row list" where
  "issued_rows db i = filter (\<lambda>r. isr_quote_id r = i) (d_issued db)"

definition paid_of :: "mint_db \<Rightarrow> quote_id \<Rightarrow> nat" where
  "paid_of db i = usum (map pay_amount (paid_rows db i))"

definition issued_of :: "mint_db \<Rightarrow> quote_id \<Rightarrow> nat" where
  "issued_of db i = usum (map isr_amount (issued_rows db i))"

definition row_ok :: "mint_db \<Rightarrow> mint_quote \<Rightarrow> bool" where
  "row_ok db row \<longleftrightarrow> ta_unit (mq_amount_paid row) = mq_unit row \<and> ta_unit (mq_amount_issued row) = mq_unit row \<and>
     unat (ta_value (mq_amount_paid row)) = paid_of db (mq_id row) \<and>
     unat (ta_value (mq_amount_issued row)) = issued_of db (mq_id row) \<and>
     ta_value (mq_amount_issued row) \<le> ta_value (mq_amount_paid row)"

definition quotes_ok :: "mint_db \<Rightarrow> bool" where
  "quotes_ok db \<longleftrightarrow> distinct (map mq_id (d_mint_quotes db)) \<and> distinct (map pay_payment_id (d_payments db)) \<and>
     pay_quote_id ` set (d_payments db) \<subseteq> mq_id ` set (d_mint_quotes db) \<and>
     isr_quote_id ` set (d_issued db) \<subseteq> mq_id ` set (d_mint_quotes db) \<and>
     (\<forall>row \<in> set (d_mint_quotes db). row_ok db row)"

text \<open>A quote in memory that agrees with the database, apart from the times of its history.\<close>

definition current :: "mint_db \<Rightarrow> mint_quote \<Rightarrow> bool" where
  "current db q \<longleftrightarrow> mq_changes q = None \<and> payment_ids q = map pay_payment_id (paid_rows db (mq_id q)) \<and>
     (\<exists>row \<in> set (d_mint_quotes db). mq_id row = mq_id q \<and> mq_unit row = mq_unit q \<and> mq_pubkey row = mq_pubkey q \<and>
        mq_amount_paid row = mq_amount_paid q \<and> mq_amount_issued row = mq_amount_issued q)"

section \<open>What is read is current\<close>

lemma sql_row_to_mint_quote_Ok:
  assumes "sql_row_to_mint_quote row ps iss = Inr q"
  shows "mq_id q = mq_id row" "mq_unit q = mq_unit row" "mq_pubkey q = mq_pubkey row" "mq_changes q = None" "mq_payments q = ps"
    "ta_unit (mq_amount_paid row) = mq_unit row \<Longrightarrow> mq_amount_paid q = mq_amount_paid row"
    "ta_unit (mq_amount_issued row) = mq_unit row \<Longrightarrow> mq_amount_issued q = mq_amount_issued row"
  using assms by (auto simp: sql_row_to_mint_quote_def new_amount_def split: if_splits)

lemma collect_if: "collect_res (\<lambda>x. if P x then Inl e else Inr (g x)) xs = Inr ys \<Longrightarrow> ys = map g xs"
  by (induction xs arbitrary: ys) (auto simp: rbind_eq_Ok split: if_splits)

lemma get_mint_quote_payments_Ok:
  assumes "get_mint_quote_payments i db = Inr ps" and "mint_quote_row i db = Some row"
  shows "map ip_payment_id ps = map pay_payment_id (paid_rows db i)"
  using assms unfolding get_mint_quote_payments_def paid_rows_def
  by (auto simp: incoming_payment_new_def dest!: collect_if)

lemma current_read:
  assumes "quotes_ok db" and "mint_quote_row i db = Some row" and "sql_row_to_mint_quote row ps0 is0 = Inr q0"
    and "get_mint_quote_payments i db = Inr ps"
  shows "current db (q0\<lparr> mq_issuance := iss, mq_payments := ps \<rparr>)"
proof -
  from assms(2) have row: "row \<in> set (d_mint_quotes db)" "mq_id row = i"
    unfolding mint_quote_row_def by (auto dest: find_SomeD)
  with assms(1) have "row_ok db row" by (simp add: quotes_ok_def)
  with row sql_row_to_mint_quote_Ok [OF assms(3)] get_mint_quote_payments_Ok [OF assms(4,2)]
  show ?thesis by (auto simp: current_def row_ok_def payment_ids_def)
qed

lemma get_mint_quote_current:
  assumes "quotes_ok db" and "get_mint_quote i db = Inr (Some q)"
  shows "current db q" "mq_id q = i"
proof -
  from assms(2) obtain ps iss row where ps: "get_mint_quote_payments i db = Inr ps" and row: "mint_quote_row i db = Some row"
    and q: "sql_row_to_mint_quote row ps iss = Inr q"
    by (auto simp: get_mint_quote_def rbind_eq_Ok rmap_eq_Ok split: option.splits)
  show "mq_id q = i" using sql_row_to_mint_quote_Ok(1) [OF q] row by (auto simp: mint_quote_row_def dest: find_SomeD)
  from current_read [OF assms(1) row q ps, of "mq_issuance q"] sql_row_to_mint_quote_Ok(5) [OF q]
  show "current db q" by (simp add: current_def payment_ids_def)
qed

lemma with_history_current:
  assumes "quotes_ok db" and "row \<in> set (d_mint_quotes db)" and "with_history db row = Inr q"
  shows "current db q"
proof -
  from assms(3) obtain q0 ps iss where q0: "sql_row_to_mint_quote row [] [] = Inr q0"
    and ps: "get_mint_quote_payments (mq_id q0) db = Inr ps" and q: "q = q0\<lparr> mq_issuance := iss, mq_payments := ps \<rparr>"
    by (auto simp: with_history_def rbind_eq_Ok)
  have "mint_quote_row (mq_id q0) db = Some row"
    using find_key [of mq_id "d_mint_quotes db" row] assms(1,2) sql_row_to_mint_quote_Ok(1) [OF q0]
    by (simp add: mint_quote_row_def quotes_ok_def)
  from current_read [OF assms(1) this q0 ps] show ?thesis by (simp add: q)
qed

lemma lookup_current:
  assumes "quotes_ok db" and "get_mint_quote_by_request_lookup_id l db = Inr (Some q)"
  shows "current db q"
  using assms with_history_current [OF assms(1)]
  by (auto simp: get_mint_quote_by_request_lookup_id_def rmap_eq_Ok dest!: find_SomeD split: option.splits)

lemma request_current:
  assumes "quotes_ok db" and "get_mint_quote_by_request l db = Inr (Some q)"
  shows "current db q"
  using assms with_history_current [OF assms(1)]
  by (auto simp: get_mint_quote_by_request_def rmap_eq_Ok dest!: find_SomeD split: option.splits)

section \<open>Credits and charges\<close>

definition set_paid :: "typed_amount \<Rightarrow> mint_quote \<Rightarrow> mint_quote" where
  "set_paid a row = row\<lparr> mq_amount_paid := a \<rparr>"

definition set_issued :: "typed_amount \<Rightarrow> mint_quote \<Rightarrow> mint_quote" where
  "set_issued a row = row\<lparr> mq_amount_issued := a \<rparr>"

definition credit :: "quote_id \<Rightarrow> string \<Rightarrow> u64 \<Rightarrow> u64 \<Rightarrow> typed_amount \<Rightarrow> mint_db \<Rightarrow> mint_db" where
  "credit i p a t paid db = db\<lparr>
     d_payments := d_payments db @ [\<lparr> pay_quote_id = i, pay_payment_id = p, pay_amount = a, pay_time = t \<rparr>],
     d_mint_quotes := update_rows (\<lambda>row. mq_id row = i) (set_paid paid) (d_mint_quotes db) \<rparr>"

definition charge :: "quote_id \<Rightarrow> u64 \<Rightarrow> u64 \<Rightarrow> typed_amount \<Rightarrow> mint_db \<Rightarrow> mint_db" where
  "charge i a t issued db = db\<lparr>
     d_issued := d_issued db @ [\<lparr> isr_quote_id = i, isr_amount = a, isr_time = t \<rparr>],
     d_mint_quotes := update_rows (\<lambda>row. mq_id row = i) (set_issued issued) (d_mint_quotes db) \<rparr>"

lemma set_amount_simps [simp]:
  "mq_id (set_paid a row) = mq_id row" "mq_unit (set_paid a row) = mq_unit row" "mq_pubkey (set_paid a row) = mq_pubkey row"
  "mq_amount_paid (set_paid a row) = a" "mq_amount_issued (set_paid a row) = mq_amount_issued row"
  "mq_id (set_issued a row) = mq_id row" "mq_unit (set_issued a row) = mq_unit row" "mq_pubkey (set_issued a row) = mq_pubkey row"
  "mq_amount_issued (set_issued a row) = a" "mq_amount_paid (set_issued a row) = mq_amount_paid row"
  by (simp_all add: set_paid_def set_issued_def)

lemma credit_of [simp]:
  "paid_of (credit i p a t paid db) j = paid_of db j + (if j = i then unat a else 0)"
  "issued_of (credit i p a t paid db) j = issued_of db j"
  "map pay_payment_id (paid_rows (credit i p a t paid db) j) = map pay_payment_id (paid_rows db j) @ (if j = i then [p] else [])"
  by (simp_all add: credit_def paid_of_def issued_of_def paid_rows_def issued_rows_def)

lemma charge_of [simp]:
  "paid_of (charge i a t issued db) j = paid_of db j"
  "issued_of (charge i a t issued db) j = issued_of db j + (if j = i then unat a else 0)"
  "paid_rows (charge i a t issued db) j = paid_rows db j"
  by (simp_all add: charge_def paid_of_def issued_of_def paid_rows_def issued_rows_def)

lemma update_rows_set_same:
  assumes "distinct (map key t)" and "r0 \<in> set t" and "f r0 = g r0"
  shows "update_rows (\<lambda>r. key r = key r0) f t = update_rows (\<lambda>r. key r = key r0) g t"
  using distinct_key_unique [OF assms(1)] assms(2,3) by (auto simp: update_rows_def)

lemma current_row:
  assumes "quotes_ok db" and "current db q"
  obtains row where "row \<in> set (d_mint_quotes db)" "mq_id row = mq_id q" "mq_unit row = mq_unit q" "mq_pubkey row = mq_pubkey q"
    "mq_amount_paid row = mq_amount_paid q" "mq_amount_issued row = mq_amount_issued q" "row_ok db row"
  using assms by (auto simp: current_def quotes_ok_def)

lemma rows_ok_update:
  assumes "quotes_ok db" and "row \<in> set (d_mint_quotes db)" and "mq_id row = i" and "\<And>r. mq_id (g r) = mq_id r"
    and "d_mint_quotes db1 = update_rows (\<lambda>r. mq_id r = i) g (d_mint_quotes db)" and "row_ok db1 (g row)"
    and "\<And>j. j \<noteq> i \<Longrightarrow> paid_of db1 j = paid_of db j" and "\<And>j. j \<noteq> i \<Longrightarrow> issued_of db1 j = issued_of db j"
  shows "\<forall>r \<in> set (d_mint_quotes db1). row_ok db1 r" "map mq_id (d_mint_quotes db1) = map mq_id (d_mint_quotes db)"
    "mq_id ` set (d_mint_quotes db1) = mq_id ` set (d_mint_quotes db)" "g row \<in> set (d_mint_quotes db1)"
    "i \<in> mq_id ` set (d_mint_quotes db)"
proof -
  show "map mq_id (d_mint_quotes db1) = map mq_id (d_mint_quotes db)"
    using assms(4,5) by (simp add: update_rows_keys)
  then show "mq_id ` set (d_mint_quotes db1) = mq_id ` set (d_mint_quotes db)" by (metis set_map)
  have rows: "set (d_mint_quotes db1) = (\<lambda>r. if mq_id r = i then g r else r) ` set (d_mint_quotes db)"
    by (simp add: assms(5) update_rows_def)
  then show "g row \<in> set (d_mint_quotes db1)" using assms(2,3) by force
  show "i \<in> mq_id ` set (d_mint_quotes db)" using assms(2,3) by blast
  have "r = row" if "r \<in> set (d_mint_quotes db)" "mq_id r = i" for r
    using distinct_key_unique [of mq_id "d_mint_quotes db" r row] assms(1-3) that by (simp add: quotes_ok_def)
  moreover have "row_ok db1 r" if "r \<in> set (d_mint_quotes db)" "mq_id r \<noteq> i" for r
    using assms(1,7,8) that by (simp add: quotes_ok_def row_ok_def)
  ultimately show "\<forall>r \<in> set (d_mint_quotes db1). row_ok db1 r" using assms(6) rows by force
qed

lemma credit_ok:
  assumes "quotes_ok db" and "current db q" and "add_payment now q a p t = Inr q1" and "update_mint_quote now q1 db = Inr (q2, db1)"
  shows "db1 = credit (mq_id q) p (ta_value a) (get_or_default now t) (mq_amount_paid q1) db"
    and "q2 = q1\<lparr> mq_changes := None \<rparr>" and "quotes_ok db1" and "current db1 q2" and "p \<notin> pay_payment_id ` set (d_payments db)"
proof -
  from assms(1,2) obtain row where row: "row \<in> set (d_mint_quotes db)" "mq_id row = mq_id q" "mq_unit row = mq_unit q" "mq_pubkey row = mq_pubkey q"
    "mq_amount_paid row = mq_amount_paid q" "mq_amount_issued row = mq_amount_issued q" "row_ok db row"
    by (rule current_row)
  have dist: "distinct (map mq_id (d_mint_quotes db))" using assms(1) by (simp add: quotes_ok_def)
  have ch: "mq_changes q = None" using assms(2) by (simp add: current_def)
  let ?p = "incoming_payment_new a p (get_or_default now t)"
  from assms(3) have q1: "q1 = q\<lparr> mq_amount_paid := mq_amount_paid q1, mq_payments := mq_payments q @ [?p], mq_changes := push_payment None ?p \<rparr>"
    and add: "typed_checked_add (mq_amount_paid q) a = Inr (mq_amount_paid q1)"
    by (auto simp: add_payment_def rbind_eq_Ok map_err_eq_Ok Let_def ch split: if_splits)
  have q1s: "mq_id q1 = mq_id q" "mq_unit q1 = mq_unit q" "mq_amount_issued q1 = mq_amount_issued q" "mq_pubkey q1 = mq_pubkey q"
    "payment_ids q1 = payment_ids q @ [p]"
    "mq_changes q1 = Some \<lparr> ch_payments = Some [?p], ch_issuances = None \<rparr>"
    by (subst q1, simp add: payment_ids_def incoming_payment_new_def push_payment_def get_or_default_def Let_def)+
  from assms(4) q1s show q2: "q2 = q1\<lparr> mq_changes := None \<rparr>"
    by (auto simp: update_mint_quote_def take_changes_def rbind_eq_Ok)
  from assms(4) q1s have ins: "p \<notin> pay_payment_id ` set (d_payments db)" and db1: "db1 = db\<lparr>
     d_payments := d_payments db @ [\<lparr> pay_quote_id = mq_id q, pay_payment_id = p, pay_amount = ta_value a, pay_time = get_or_default now t \<rparr>],
     d_mint_quotes := update_rows (\<lambda>row. mq_id row = mq_id q) (set_amounts (q1\<lparr> mq_changes := None \<rparr>)) (d_mint_quotes db) \<rparr>"
    by (auto simp: update_mint_quote_def take_changes_def rbind_eq_Ok get_or_default_def insert_payment_def insert_row_Ok
        incoming_payment_new_def not_null_i64_Ok)
  show "p \<notin> pay_payment_id ` set (d_payments db)" by (rule ins)
  have "update_rows (\<lambda>r. mq_id r = mq_id q) (set_amounts (q1\<lparr> mq_changes := None \<rparr>)) (d_mint_quotes db)
      = update_rows (\<lambda>r. mq_id r = mq_id q) (set_paid (mq_amount_paid q1)) (d_mint_quotes db)"
    using update_rows_set_same [OF dist row(1), of "set_amounts (q1\<lparr> mq_changes := None \<rparr>)" "set_paid (mq_amount_paid q1)"] row(2,6) q1s(3)
    by (simp add: set_amounts_def set_paid_def)
  then show c: "db1 = credit (mq_id q) p (ta_value a) (get_or_default now t) (mq_amount_paid q1) db" by (simp add: db1 credit_def)
  have v: "unat (ta_value (mq_amount_paid q1)) = unat (ta_value (mq_amount_paid q)) + unat (ta_value a)"
    "ta_unit (mq_amount_paid q1) = ta_unit (mq_amount_paid q)"
    using add by (auto simp: typed_checked_add_Ok)
  have ok: "row_ok db1 (set_paid (mq_amount_paid q1) row)"
    using row v by (auto simp: row_ok_def c word_le_nat_alt)
  have upd: "d_mint_quotes db1 = update_rows (\<lambda>r. mq_id r = mq_id q) (set_paid (mq_amount_paid q1)) (d_mint_quotes db)"
    by (simp add: c credit_def)
  note up = rows_ok_update [where g = "set_paid (mq_amount_paid q1)", OF assms(1) row(1,2) _ upd ok]
  show "quotes_ok db1" using assms(1) ins up(1,2,3,5) by (auto simp: quotes_ok_def c) (auto simp: credit_def)
  have "set_paid (mq_amount_paid q1) row \<in> set (d_mint_quotes db1)" using up(4) by (simp add: c)
  moreover have "payment_ids q2 = map pay_payment_id (paid_rows db1 (mq_id q2))"
    using assms(2) q1s(5) by (simp add: current_def q2 q1s(1) c payment_ids_def)
  ultimately show "current db1 q2"
    using row unfolding current_def q2 by (intro conjI bexI [of _ "set_paid (mq_amount_paid q1) row"]) (simp_all add: q1s)
qed

lemma charge_ok:
  assumes "quotes_ok db" and "current db q" and "add_issuance q a = Inr (n, q1)" and "update_mint_quote now q1 db = Inr (q2, db1)"
  shows "db1 = charge (mq_id q) (ta_value a) now n db" and "quotes_ok db1"
proof -
  from assms(1,2) obtain row where row: "row \<in> set (d_mint_quotes db)" "mq_id row = mq_id q" "mq_unit row = mq_unit q" "mq_pubkey row = mq_pubkey q"
    "mq_amount_paid row = mq_amount_paid q" "mq_amount_issued row = mq_amount_issued q" "row_ok db row"
    by (rule current_row)
  have dist: "distinct (map mq_id (d_mint_quotes db))" using assms(1) by (simp add: quotes_ok_def)
  have ch: "mq_changes q = None" using assms(2) by (simp add: current_def)
  from assms(3) have q1: "q1 = q\<lparr> mq_changes := push_issuance None (ta_value a), mq_amount_issued := n \<rparr>"
    and add: "typed_checked_add (mq_amount_issued q) a = Inr n" and le: "\<not> typed_partial_cmp_lt (mq_amount_paid q) n"
    by (auto simp: add_issuance_def rbind_eq_Ok map_err_eq_Ok ch split: if_splits)
  have q1s: "mq_id q1 = mq_id q" "mq_amount_issued q1 = n" "mq_amount_paid q1 = mq_amount_paid q"
    "mq_changes q1 = Some \<lparr> ch_payments = None, ch_issuances = Some [ta_value a] \<rparr>"
    by (simp_all add: q1 push_issuance_def get_or_default_def Let_def)
  from assms(4) q1s have db1: "db1 = db\<lparr>
     d_issued := d_issued db @ [\<lparr> isr_quote_id = mq_id q, isr_amount = ta_value a, isr_time = now \<rparr>],
     d_mint_quotes := update_rows (\<lambda>row. mq_id row = mq_id q) (set_amounts (q1\<lparr> mq_changes := None \<rparr>)) (d_mint_quotes db) \<rparr>"
    by (auto simp: update_mint_quote_def take_changes_def rbind_eq_Ok rmap_eq_Ok get_or_default_def insert_issued_def not_null_i64_Ok)
  have "update_rows (\<lambda>r. mq_id r = mq_id q) (set_amounts (q1\<lparr> mq_changes := None \<rparr>)) (d_mint_quotes db)
      = update_rows (\<lambda>r. mq_id r = mq_id q) (set_issued n) (d_mint_quotes db)"
    using update_rows_set_same [OF dist row(1), of "set_amounts (q1\<lparr> mq_changes := None \<rparr>)" "set_issued n"] row(2,5) q1s
    by (simp add: set_amounts_def set_issued_def)
  then show c: "db1 = charge (mq_id q) (ta_value a) now n db" by (simp add: db1 charge_def)
  have v: "unat (ta_value n) = unat (ta_value (mq_amount_issued q)) + unat (ta_value a)"
    "ta_unit n = ta_unit (mq_amount_issued q)"
    using add by (auto simp: typed_checked_add_Ok)
  have ok: "row_ok db1 (set_issued n row)"
    using row v le by (auto simp: row_ok_def c typed_partial_cmp_lt_def not_less)
  have upd: "d_mint_quotes db1 = update_rows (\<lambda>r. mq_id r = mq_id q) (set_issued n) (d_mint_quotes db)"
    by (simp add: c charge_def)
  note up = rows_ok_update [where g = "set_issued n", OF assms(1) row(1,2) _ upd ok]
  show "quotes_ok db1" using assms(1) up(1,2,3,5) by (auto simp: quotes_ok_def c) (auto simp: charge_def)
qed

end
