(* ===== verification/Issue_Safety.thy ===== *)
theory Issue_Safety
  imports Issue_Accounts
begin

text \<open>
  What the handlers of issuing do, for every failure of the database and every answer of the payment
  backend: a payment is credited once, a mint request that answers signs exactly what it charges to its
  quotes, each charge authorized by the key of its quote, and one that fails has issued nothing.
\<close>

section \<open>Databases that differ in credits\<close>

definition static :: "mint_quote \<Rightarrow> quote_id \<times> public_key option \<times> typed_amount" where
  "static row = (mq_id row, mq_pubkey row, mq_amount_issued row)"

definition credited :: "mint_db \<Rightarrow> mint_db \<Rightarrow> bool" where
  "credited db db' \<longleftrightarrow> (\<exists>rows quotes. db' = db\<lparr> d_payments := d_payments db @ rows, d_mint_quotes := quotes \<rparr> \<and>
     map static quotes = map static (d_mint_quotes db))"

lemma credited_refl [simp]: "credited db db"
  unfolding credited_def by (rule exI [of _ "[]"], rule exI [of _ "d_mint_quotes db"]) simp

lemma credited_trans:
  assumes "credited a b" and "credited b c"
  shows "credited a c"
proof -
  from assms obtain r1 r2 q1 q2 where "b = a\<lparr> d_payments := d_payments a @ r1, d_mint_quotes := q1 \<rparr>"
    "map static q1 = map static (d_mint_quotes a)" "c = b\<lparr> d_payments := d_payments b @ r2, d_mint_quotes := q2 \<rparr>"
    "map static q2 = map static (d_mint_quotes b)" by (auto simp: credited_def)
  then show ?thesis unfolding credited_def by (intro exI [of _ "r1 @ r2"] exI [of _ q2]) simp
qed

lemma static_update: "map static (update_rows P (set_paid a) t) = map static t"
  by (simp add: update_rows_def static_def set_paid_def)

lemma credited_credit: "credited db (credit i p a t paid db)"
  unfolding credited_def credit_def
  by (intro exI conjI, rule arg_cong2 [where f = "\<lambda>x y. db\<lparr> d_payments := x, d_mint_quotes := y \<rparr>"]) (rule refl, rule refl, rule static_update)

lemma credited_tables:
  assumes "credited db db'"
  shows "d_issued db' = d_issued db" "d_sigs db' = d_sigs db" "d_completed db' = d_completed db"
    "d_keyset_amounts db' = d_keyset_amounts db" "issued_of db' i = issued_of db i"
  using assms by (auto simp: credited_def issued_of_def issued_rows_def)

definition quote_key :: "mint_db \<Rightarrow> quote_id \<Rightarrow> public_key option option" where
  "quote_key db i = map_option mq_pubkey (mint_quote_row i db)"

lemma find_static:
  assumes "map static t = map static u"
  shows "map_option mq_pubkey (List.find (\<lambda>q. mq_id q = i) t) = map_option mq_pubkey (List.find (\<lambda>q. mq_id q = i) u)"
proof -
  have "length t = length u" using assms by (metis length_map)
  then show ?thesis using assms by (induction t u rule: list_induct2) (simp_all add: static_def)
qed

lemma credited_key: "credited db db' \<Longrightarrow> quote_key db' i = quote_key db i"
  by (auto simp: credited_def quote_key_def mint_quote_row_def intro: find_static)

section \<open>Payments\<close>

lemma handle_mint_quote_payment_Ok:
  assumes "handle_mint_quote_payment f now w q db = Inr db'" and "quotes_ok db" and "current db q"
  shows "db' = db \<or> (quotes_ok db' \<and> wp_payment_id w \<notin> pay_payment_id ` set (d_payments db) \<and>
    (\<exists>a t paid. db' = credit (mq_id q) (wp_payment_id w) a t paid db))"
proof (cases "db' = db")
  case False
  with assms(1) obtain a q1 q2 where "add_payment now q a (wp_payment_id w) None = Inr q1" "update_mint_quote now q1 db = Inr (q2, db')"
    by (auto elim!: rbind_OkE simp: handle_mint_quote_payment_def map_err_eq_Ok rmap_eq_Ok faulty_Ok split: if_split_asm sum.splits)
  from credit_ok [OF assms(2,3) this] show ?thesis by blast
qed simp

lemma notification_step:
  assumes "handle_payment_notification f now w db = (r, db')" and "quotes_ok db"
  shows "quotes_ok db' \<and> credited db db'"
proof (cases "db' = db")
  case False
  with assms(1) obtain q where q: "get_mint_quote_by_request_lookup_id (wp_payment_identifier w) db = Inr (Some q)"
    "handle_mint_quote_payment f now w q db = Inr db'"
    by (auto elim!: rbind_OkE simp: handle_payment_notification_def map_err_eq_Ok faulty_def
        split: if_split_asm sum.splits option.splits)
  from handle_mint_quote_payment_Ok [OF q(2) assms(2) lookup_current [OF assms(2) q(1)]] False
  show ?thesis using credited_credit by blast
qed (use assms in simp)

lemma pay_is_notification: "pay_mint_quote_for_request_id = handle_payment_notification"
  unfolding pay_mint_quote_for_request_id_def [abs_def] handle_payment_notification_def [abs_def] pay_mint_quote_def ..

lemma record_payments_Ok:
  assumes "record_payments f now ws q db = Inr (q', db')" and "quotes_ok db" and "current db q"
  shows "quotes_ok db' \<and> current db' q' \<and> mq_id q' = mq_id q \<and> credited db db'"
  using assms
proof (induction f now ws q db rule: record_payments.induct)
  case (2 f now w ws q db)
  show ?case
  proof (cases "wp_payment_id w \<notin> set (payment_ids q) \<and> ta_value (wp_payment_amount w) > 0")
    case True
    with 2(4) obtain a where a: "convert_to (wp_payment_amount w) (mq_unit q) = Inr a"
      and rest: "(case add_payment now q a (wp_payment_id w) None of
          Inr q1 \<Rightarrow> rbind (map_err cdk_of_db (faulty (f Update_mint_quote) (update_mint_quote now q1 db))) (\<lambda>(q2, db1).
            record_payments f now ws q2 db1)
        | Inl e \<Rightarrow> if e = E_DuplicatePaymentId then record_payments f now ws q db else Inl e) = Inr (q', db')"
      by (auto elim!: rbind_OkE simp: map_err_eq_Ok)
    show ?thesis
    proof (cases "add_payment now q a (wp_payment_id w) None")
      case (Inl e)
      with rest True a 2(1) [of a e] 2(5,6) show ?thesis by (auto simp: map_err_def split: if_split_asm)
    next
      case (Inr q1)
      with rest obtain q2 db1 where u: "update_mint_quote now q1 db = Inr (q2, db1)" and r: "record_payments f now ws q2 db1 = Inr (q', db')"
        and fl: "f Update_mint_quote = None"
        by (auto elim!: rbind_OkE simp: map_err_eq_Ok faulty_Ok)
      note c = credit_ok [OF 2(5,6) Inr u]
      have id: "mq_id q2 = mq_id q"
        using c(2) Inr by (auto simp: add_payment_def rbind_eq_Ok Let_def split: if_splits)
      have "quotes_ok db' \<and> current db' q' \<and> mq_id q' = mq_id q2 \<and> credited db1 db'"
        using 2(2) [of a q1 "(q2, db1)" q2 db1] True a Inr u r fl c(3,4) by (simp add: map_err_def faulty_def)
      with id c(1) credited_credit credited_trans show ?thesis by metis
    qed
  next
    case False
    with 2(3-6) show ?thesis by (auto split: if_split_asm)
  qed
qed simp

lemma check_payments_step:
  assumes "check_mint_quote_payments P f now q db = (r, db')" and "quotes_ok db" and "current db q"
  shows "quotes_ok db' \<and> credited db db' \<and> (\<forall>q'. r = Inr q' \<longrightarrow> current db' q' \<and> mq_id q' = mq_id q)"
proof (cases "db' = db \<and> (\<forall>q'. r = Inr q' \<longrightarrow> q' = q)")
  case False
  with assms(1) obtain new_quote ws q' where n: "get_mint_quote (mq_id q) db = Inr (Some new_quote)"
    and p: "record_payments f now ws new_quote db = Inr (q', db')" and r: "r = Inr q'"
    by (auto elim!: rbind_OkE simp: check_mint_quote_payments_def map_err_eq_Ok faulty_Ok ok_or_eq_Ok
        split: if_split_asm sum.splits prod.splits)
  note g = get_mint_quote_current [OF assms(2) n]
  from record_payments_Ok [OF p assms(2) g(1)] g(2) r show ?thesis by simp
qed (use assms in auto)

lemma fetch_quotes_step:
  assumes "fetch_quotes P Fr Fs now ids db = (r, db')" and "quotes_ok db"
  shows "quotes_ok db' \<and> credited db db' \<and>
    (\<forall>qs. r = Inr qs \<longrightarrow> map fst qs = ids \<and> (\<forall>(i, q) \<in> set qs. quote_key db i = Some (mq_pubkey q)))"
  using assms
proof (induction P Fr Fs now ids db arbitrary: r rule: fetch_quotes.induct)
  case (2 P Fr Fs now i ids db)
  show ?case
  proof (cases "rbind (map_err cdk_of_db (faulty (Fr i Get_mint_quote) (get_mint_quote i db))) (ok_or E_UnknownQuote)")
    case (Inl e)
    with 2(2,3) show ?thesis by auto
  next
    case (Inr q)
    then have "get_mint_quote i db = Inr (Some q)" by (auto elim!: rbind_OkE simp: map_err_eq_Ok faulty_Ok ok_or_eq_Ok)
    note cur = get_mint_quote_current [OF 2(3) this]
    obtain x db1 where c: "check_mint_quote_payments P (Fs i) now q db = (x, db1)" by fastforce
    note st = check_payments_step [OF c 2(3) cur(1)]
    show ?thesis
    proof (cases x)
      case (Inl e)
      with 2(2) Inr c st show ?thesis by auto
    next
      case xq: (Inr q1)
      obtain y where y: "fetch_quotes P Fr Fs now ids db1 = (y, db')" and r: "r = rmap (\<lambda>qs. (i, q1) # qs) y"
        using 2(2) Inr c xq by (cases "fetch_quotes P Fr Fs now ids db1") auto
      have ih: "quotes_ok db' \<and> credited db1 db' \<and>
          (\<forall>qs. y = Inr qs \<longrightarrow> map fst qs = ids \<and> (\<forall>(i, q) \<in> set qs. quote_key db1 i = Some (mq_pubkey q)))"
        using 2(1) [OF Inr c [symmetric] xq y] st by simp
      have "current db1 q1" "mq_id q1 = i" using st xq cur(2) by auto
      then obtain row where "row \<in> set (d_mint_quotes db1)" "mq_id row = i" "mq_pubkey row = mq_pubkey q1" by (auto simp: current_def)
      moreover have "distinct (map mq_id (d_mint_quotes db1))" using st by (simp add: quotes_ok_def)
      ultimately have "quote_key db1 i = Some (mq_pubkey q1)"
        using find_key [of mq_id "d_mint_quotes db1" row] by (auto simp: quote_key_def mint_quote_row_def)
      with ih st credited_key [of db db1] show ?thesis by (auto simp: r rmap_eq_Ok intro: credited_trans)
    qed
  qed
qed simp

section \<open>The transaction of a mint request\<close>

definition quote_tables :: "mint_db \<Rightarrow> mint_quote list \<times> payment_row list \<times> issued_row list" where
  "quote_tables db = (d_mint_quotes db, d_payments db, d_issued db)"

lemma quotes_frame:
  assumes "quote_tables db' = quote_tables db"
  shows "quotes_ok db' = quotes_ok db" "current db' q = current db q" "issued_of db' i = issued_of db i"
    "paid_of db' i = paid_of db i" "quote_key db' i = quote_key db i"
  using assms by (simp_all add: quote_tables_def quotes_ok_def row_ok_def current_def issued_of_def issued_rows_def
      paid_of_def paid_rows_def quote_key_def mint_quote_row_def cong: ball_cong)

lemma charge_tables:
  "d_sigs (charge i a t issued db) = d_sigs db" "d_completed (charge i a t issued db) = d_completed db"
  by (simp_all add: charge_def)

text \<open>That the outputs are new and their signatures are stored.\<close>

definition outputs_stored :: "blinded_message list \<Rightarrow> blind_signature list \<Rightarrow> mint_db \<Rightarrow> mint_db \<Rightarrow> bool" where
  "outputs_stored outputs sigs db db' \<longleftrightarrow> length sigs = length outputs \<and>
     bm_blinded_secret ` set outputs \<inter> sr_blinded_message ` set (d_sigs db) = {} \<and>
     (\<forall>(m, s) \<in> set (zip outputs sigs). \<exists>r \<in> set (d_sigs db'). sr_blinded_message r = bm_blinded_secret m \<and> sr_c r = Some (bs_c s))"

lemma outputs_stored_frame:
  "outputs_stored outs sigs db db' \<Longrightarrow> d_sigs db0 = d_sigs db \<Longrightarrow> d_sigs db1 = d_sigs db' \<Longrightarrow> outputs_stored outs sigs db0 db1"
  by (simp add: outputs_stored_def)

lemma store_outputs_Ok:
  assumes "store_outputs f now q d outputs sigs db = Inr db'" and "distinct (map sr_blinded_message (d_sigs db))"
  shows "outputs_stored outputs sigs db db'" "quote_tables db' = quote_tables db"
    "distinct (map sr_blinded_message (d_sigs db'))"
proof -
  let ?ms = "map bm_blinded_secret outputs"
  from assms(1) obtain db1 where a: "add_blinded_messages now q outputs d db = Inr db1"
    and b: "add_blind_signatures now ?ms sigs q db1 = Inr db'"
    by (auto elim!: rbind_OkE simp: store_outputs_def map_err_eq_Ok faulty_Ok)
  then have new: "distinct ?ms" "bm_blinded_secret ` set outputs \<inter> sr_blinded_message ` set (d_sigs db) = {}"
    and db1: "db1 = db\<lparr> d_sigs := d_sigs db @ map (new_sig_row now q d) outputs \<rparr>" by (auto simp: add_blinded_messages_Ok)
  have keys: "map sr_blinded_message (d_sigs db1) = map sr_blinded_message (d_sigs db) @ ?ms"
    by (simp add: db1 new_sig_row_def comp_def)
  with new assms(2) have dist: "distinct (map sr_blinded_message (d_sigs db1))" by auto
  note s = add_blind_signatures_Ok [OF b new(1) dist]
  have "fst ` set (zip ?ms sigs) \<subseteq> sr_blinded_message ` set (d_sigs db1)"
    using arg_cong [OF keys, of set] by (auto dest: set_zip_leftD)
  then have "filter (\<lambda>z. fst z \<notin> sr_blinded_message ` set (d_sigs db1)) (zip ?ms sigs) = []" by (auto simp: filter_empty_conv)
  then have sigs: "d_sigs db' = map (sign_pending now (zip ?ms sigs)) (d_sigs db1)" by (simp add: s(2) signed_rows_def)
  show "quote_tables db' = quote_tables db" by (simp add: s(2) db1 quote_tables_def)
  show "distinct (map sr_blinded_message (d_sigs db'))" using dist by (simp add: sigs comp_def)
  have "\<exists>r \<in> set (d_sigs db'). sr_blinded_message r = bm_blinded_secret m \<and> sr_c r = Some (bs_c sg)" if "(m, sg) \<in> set (zip outputs sigs)" for m sg
  proof -
    have z: "(bm_blinded_secret m, sg) \<in> set (zip ?ms sigs)" using that by (force simp: zip_map1)
    then have m: "map_of (zip ?ms sigs) (bm_blinded_secret m) = Some sg" using new(1) s(1) by (simp add: map_of_eq_Some_iff)
    from that have "m \<in> set outputs" by (rule set_zip_leftD)
    then have r: "new_sig_row now q d m \<in> set (d_sigs db1)" by (simp add: db1)
    have "sign_pending now (zip ?ms sigs) (new_sig_row now q d m) \<in> set (d_sigs db')" using r by (simp add: sigs)
    moreover have "sr_c (sign_pending now (zip ?ms sigs) (new_sig_row now q d m)) = Some (bs_c sg)"
      using m by (simp add: sign_pending_def new_sig_row_def sign_row_def)
    moreover have "sr_blinded_message (sign_pending now (zip ?ms sigs) (new_sig_row now q d m)) = bm_blinded_secret m"
      by (simp add: new_sig_row_def)
    ultimately show ?thesis by blast
  qed
  with new(2) s(1) show "outputs_stored outputs sigs db db'" by (auto simp: outputs_stored_def)
qed

lemma complete_operation_Ok:
  "complete_operation f now d db = Inr db' \<Longrightarrow> quote_tables db' = quote_tables db \<and> d_sigs db' = d_sigs db"
  by (auto simp: complete_operation_def map_err_eq_Ok faulty_Ok add_completed_operation_def rmap_eq_Ok quote_tables_def)

text \<open>What one quote is charged: the amount the request expects for it, or all the outputs for a single request.\<close>

definition charged :: "mint_input \<Rightarrow> typed_amount \<Rightarrow> (quote_id \<times> typed_amount) list \<Rightarrow> quote_id \<Rightarrow> nat" where
  "charged input outputs_amount expected i =
     unat (ta_value (if is_batch input then (case map_of expected i of Some a \<Rightarrow> a | None \<Rightarrow> outputs_amount) else outputs_amount))"

lemma issue_quote_Ok:
  assumes "issue_quote Fs now ids input a expected sigs i db = Inr db'" and "quotes_ok db"
    and "distinct (map sr_blinded_message (d_sigs db))"
  shows "quotes_ok db'" "issued_of db' j = issued_of db j + (if j = i then charged input a expected i else 0)"
    "is_batch input \<Longrightarrow> d_sigs db' = d_sigs db" "\<not> is_batch input \<Longrightarrow> outputs_stored (mint_input_outputs input) sigs db db'"
proof -
  from assms(1) obtain q am d db1 n q1 q2 db2 where q: "get_mint_quote i db = Inr (Some q)"
    and am: "(if is_batch input then ok_or E_UnknownQuote (map_of expected i) else Inr a) = Inr am"
    and db1: "(if is_batch input then Inr db else store_outputs (Fs i) now (Some i) d (mint_input_outputs input) sigs db) = Inr db1"
    and n: "add_issuance q am = Inr (n, q1)" and u: "update_mint_quote now q1 db1 = Inr (q2, db2)"
    and db': "(if is_batch input then Inr db2 else complete_operation (Fs i) now d db2) = Inr db'"
    unfolding issue_quote_def Let_def by (auto elim!: rbind_OkE simp: map_err_eq_Ok faulty_Ok ok_or_eq_Ok)
  have f1: "quote_tables db1 = quote_tables db" using db1 store_outputs_Ok(2) [OF _ assms(3)] by (auto split: if_split_asm)
  note cur = get_mint_quote_current [OF assms(2) q]
  note c = charge_ok [OF _ _ n u, unfolded quotes_frame [OF f1], OF assms(2) cur(1)]
  have f2: "quote_tables db' = quote_tables db2" "d_sigs db' = d_sigs db2" using db' complete_operation_Ok by (auto split: if_split_asm)
  have am': "unat (ta_value am) = charged input a expected i" using am by (auto simp: charged_def ok_or_eq_Ok split: if_split_asm)
  show "quotes_ok db'" using c(2) quotes_frame(1) [OF f2(1)] by simp
  show "issued_of db' j = issued_of db j + (if j = i then charged input a expected i else 0)"
    using quotes_frame(3) [OF f2(1), of j] quotes_frame(3) [OF f1, of j] c(1) cur(2) am' by simp
  show "is_batch input \<Longrightarrow> d_sigs db' = d_sigs db" using db1 f2(2) c(1) by (simp add: charge_tables)
  show "\<not> is_batch input \<Longrightarrow> outputs_stored (mint_input_outputs input) sigs db db'"
    using db1 outputs_stored_frame [OF store_outputs_Ok(1) [OF _ assms(3)] refl, of "Fs i" now "Some i" d _ sigs db1 db'] f2(2) c(1)
    by (simp add: charge_tables)
qed

lemma issue_quotes_batch:
  assumes "insert_all (issue_quote Fs now ids input a expected sigs) qs db = Inr db'" and "quotes_ok db" and "is_batch input"
    and "distinct (map sr_blinded_message (d_sigs db))" and "distinct qs"
  shows "quotes_ok db' \<and> d_sigs db' = d_sigs db \<and>
    (\<forall>j. issued_of db' j = issued_of db j + (if j \<in> set qs then charged input a expected j else 0))"
  using assms(1,2,4,5)
proof (induction qs arbitrary: db)
  case (Cons q qs)
  then obtain db1 where i: "issue_quote Fs now ids input a expected sigs q db = Inr db1"
    and r: "insert_all (issue_quote Fs now ids input a expected sigs) qs db1 = Inr db'" by (auto simp: rbind_eq_Ok)
  note s = issue_quote_Ok [OF i Cons.prems(2,3)]
  from Cons.IH [OF r s(1)] s(2) s(3) [OF assms(3)] Cons.prems(3,4) show ?case by auto
qed simp

lemma mint_transaction_Ok:
  assumes "mint_transaction f Fs now ids input m a expected sigs db = Inr db'" and "quotes_ok db"
    and "distinct (map sr_blinded_message (d_sigs db))" and "distinct (mint_input_quote_ids input)"
  shows "quotes_ok db'" "outputs_stored (mint_input_outputs input) sigs db db'"
    "issued_of db' j = issued_of db j + (if j \<in> set (mint_input_quote_ids input) then charged input a expected j else 0)"
proof -
  let ?d = "operation_new_batch_mint (ids None) (ta_value a) m"
  from assms(1) obtain db1 where db1: "(if is_batch input
      then rbind (store_outputs f now None ?d (mint_input_outputs input) sigs db) (complete_operation f now ?d) else Inr db) = Inr db1"
    and r: "insert_all (issue_quote Fs now ids input a expected sigs) (mint_input_quote_ids input) db1 = Inr db'"
    unfolding mint_transaction_def Let_def by (auto elim!: rbind_OkE simp: map_err_eq_Ok faulty_Ok)
  have "quotes_ok db' \<and> outputs_stored (mint_input_outputs input) sigs db db' \<and>
    (\<forall>j. issued_of db' j = issued_of db j + (if j \<in> set (mint_input_quote_ids input) then charged input a expected j else 0))"
  proof (cases "is_batch input")
    case True
    with db1 obtain db0 where s: "store_outputs f now None ?d (mint_input_outputs input) sigs db = Inr db0"
      and c: "complete_operation f now ?d db0 = Inr db1" by (auto simp: rbind_eq_Ok)
    note st = store_outputs_Ok [OF s assms(3)]
    have f: "quote_tables db1 = quote_tables db" "d_sigs db1 = d_sigs db0" using complete_operation_Ok [OF c] st(2) by auto
    from issue_quotes_batch [OF r _ True _ assms(4), unfolded f(2), OF _ st(3)] assms(2) st(1) quotes_frame [OF f(1)] f(2)
    show ?thesis by (auto elim: outputs_stored_frame)
  next
    case False
    then obtain req where req: "input = Single req" by (cases input) auto
    with r db1 False have i: "issue_quote Fs now ids input a expected sigs (nr_quote req) db = Inr db'" by (auto simp: rbind_eq_Ok)
    from issue_quote_Ok [OF i assms(2,3)] False req show ?thesis by auto
  qed
  then show "quotes_ok db'" "outputs_stored (mint_input_outputs input) sigs db db'"
    "issued_of db' j = issued_of db j + (if j \<in> set (mint_input_quote_ids input) then charged input a expected j else 0)" by auto
qed

section \<open>Authorization\<close>

lemma check_entries_Ok:
  assumes "check_entries X input quotes es n expected = Inr (n', expected')"
  shows "\<exists>as. list_all2 (\<lambda>e a. check_entry X input quotes e = Inr a) es as \<and> unat n' = unat n + usum (map ta_value as) \<and>
    expected' = rev (zip (map qe_quote_id es) as) @ expected"
  using assms
proof (induction X input quotes es n expected rule: check_entries.induct)
  case (2 X input quotes e es n expected)
  then obtain a m where a: "check_entry X input quotes e = Inr a" and m: "u64_checked_add n (ta_value a) = Some m"
    and r: "check_entries X input quotes es m ((qe_quote_id e, a) # expected) = Inr (n', expected')"
    by (auto simp: rbind_eq_Ok ok_or_eq_Ok)
  have "ok_or E_AmountOverflow (u64_checked_add n (ta_value a)) = Inr m" using m by simp
  from 2(1) [OF a this r] obtain as where "list_all2 (\<lambda>e a. check_entry X input quotes e = Inr a) es as"
    "unat n' = unat m + usum (map ta_value as)" "expected' = rev (zip (map qe_quote_id es) as) @ (qe_quote_id e, a) # expected" by blast
  with a m show ?case by (intro exI [of _ "a # as"]) (auto simp: u64_checked_add_Some)
qed simp

lemma check_entry_Ok:
  assumes "check_entry X input quotes e = Inr a"
  obtains q where "map_of quotes (qe_quote_id e) = Some q" "verify_entry_signature X input e (mq_pubkey q) = Inr ()"
  using assms by (auto simp: check_entry_def rbind_eq_Ok ok_or_eq_Ok split: if_splits)

lemma sum_charged:
  assumes "list_all2 P (quote_entries input) as" and "usum (map ta_value as) = unat (ta_value a)"
    and "distinct (mint_input_quote_ids input)"
  shows "(\<Sum>i \<leftarrow> mint_input_quote_ids input. charged input a (rev (zip (map qe_quote_id (quote_entries input)) as)) i) = unat (ta_value a)"
proof (cases input)
  case (Single r)
  then show ?thesis by (simp add: charged_def)
next
  case (Batch b)
  let ?ids = "mint_input_quote_ids input"
  have len: "length as = length ?ids" using assms(1) by (metis entries_quote_ids length_map list_all2_lengthD)
  have "map (charged input a (rev (zip ?ids as))) ?ids = map (unat \<circ> ta_value) as"
  proof (rule nth_equalityI)
    fix n
    assume "n < length (map (charged input a (rev (zip ?ids as))) ?ids)"
    then have n: "n < length ?ids" by simp
    have "map_of (rev (zip ?ids as)) (?ids ! n) = Some (as ! n)"
      using n len assms(3) by (subst map_of_eq_Some_iff) (auto simp: rev_map [symmetric] set_zip)
    with n len Batch show "map (charged input a (rev (zip ?ids as))) ?ids ! n = map (unat \<circ> ta_value) as ! n" by (simp add: charged_def)
  qed (simp add: len)
  then show ?thesis using assms(2) by (simp add: entries_quote_ids comp_def)
qed

lemma validate_distinct: "mint_input_validate input = Inr () \<Longrightarrow> distinct (mint_input_quote_ids input)"
  by (cases input) (auto simp: remdups_length_distinct split: if_splits)

text \<open>The stages of a mint request that answers.\<close>

lemma mint_request_stages:
  assumes "process_mint_request M P info F now ids nonces input db = (Inr sigs, db')" and "quotes_ok db"
  obtains v quotes db1 m expected where "verify_outputs M (mint_input_outputs input) = Inr v" "distinct (mint_input_quote_ids input)"
    "fetch_quotes P (nf_read F) (nf_check F) now (mint_input_quote_ids input) db = (Inr quotes, db1)"
    "check_entries (m_ext M) input quotes (quote_entries input) 0 [] = Inr (ta_value (v_amount v), expected)"
    "blind_sign M nonces (mint_input_outputs input) = Inr sigs"
    "mint_transaction (nf_batch F) (nf_quote F) now ids input m (v_amount v) expected sigs db1 = Inr db'"
proof -
  from assms(1) obtain v quotes db1 m expected settings where v: "verify_outputs M (mint_input_outputs input) = Inr v"
    "mint_input_validate input = Inr ()" "fetch_quotes P (nf_read F) (nf_check F) now (mint_input_quote_ids input) db = (Inr quotes, db1)"
    "authorize_mint M settings input (v_amount v) quotes = Inr (m, expected)"
    "blind_sign M nonces (mint_input_outputs input) = Inr sigs"
    "mint_transaction (nf_batch F) (nf_quote F) now ids input m (v_amount v) expected sigs db1 = Inr db'"
    by (auto elim!: rbind_OkE simp: process_mint_request_def split: sum.splits prod.splits)
  from v(4) have "check_entries (m_ext M) input quotes (quote_entries input) 0 [] = Inr (ta_value (v_amount v), expected)"
    by (auto elim!: rbind_OkE simp: authorize_mint_def split: if_split_asm)
  with v show thesis by (intro that) (auto dest: validate_distinct)
qed

section \<open>What a mint request does\<close>

text \<open>
  C11. A mint request that answers, single or batch, whatever the database and the payment backend do: it
  returns one signature of the right amount for each output, none of which was known before
  and all of which are stored; the quotes it names are charged exactly the sum of the outputs, other
  quotes nothing, and no quote more than was paid on it; and each quote that is locked to a key was
  authorized by a signature of that key over its identifier and these outputs.
\<close>
theorem mint_request_issues:
  assumes "process_mint_request M P info F now ids nonces input db = (Inr sigs, db')" and "quotes_ok db"
    and "distinct (map sr_blinded_message (d_sigs db))"
  shows "map bs_amount sigs = map bm_amount (mint_input_outputs input) \<and>
    outputs_stored (mint_input_outputs input) sigs db db' \<and> quotes_ok db' \<and>
    (\<Sum>i \<leftarrow> mint_input_quote_ids input. issued_of db' i) =
      (\<Sum>i \<leftarrow> mint_input_quote_ids input. issued_of db i) + usum (map bm_amount (mint_input_outputs input)) \<and>
    (\<forall>j. j \<notin> set (mint_input_quote_ids input) \<longrightarrow> issued_of db' j = issued_of db j) \<and>
    (\<forall>i \<in> set (mint_input_quote_ids input). \<forall>k. quote_key db i = Some (Some k) \<longrightarrow>
       (\<exists>sig. is_ok (pk_verify (m_ext M) k (quote_msg (m_ext M) i (mint_input_outputs input)) sig)))"
proof -
  let ?ids = "mint_input_quote_ids input" and ?outs = "mint_input_outputs input"
  from assms(1,2) obtain v quotes db1 m expected where v: "verify_outputs M ?outs = Inr v" and dist: "distinct ?ids"
    and fe: "fetch_quotes P (nf_read F) (nf_check F) now ?ids db = (Inr quotes, db1)"
    and ce: "check_entries (m_ext M) input quotes (quote_entries input) 0 [] = Inr (ta_value (v_amount v), expected)"
    and bs: "blind_sign M nonces ?outs = Inr sigs"
    and tx: "mint_transaction (nf_batch F) (nf_quote F) now ids input m (v_amount v) expected sigs db1 = Inr db'"
    by (rule mint_request_stages)
  note f = fetch_quotes_step [OF fe assms(2)]
  have cr: "credited db db1" and ok1: "quotes_ok db1" using f by auto
  note t = mint_transaction_Ok [OF tx ok1 _ dist, unfolded credited_tables [OF cr], OF assms(3)]
  from check_entries_Ok [OF ce] obtain as where as: "list_all2 (\<lambda>e a. check_entry (m_ext M) input quotes e = Inr a) (quote_entries input) as"
    "unat (ta_value (v_amount v)) = usum (map ta_value as)" "expected = rev (zip (map qe_quote_id (quote_entries input)) as)" by auto
  have stored: "outputs_stored ?outs sigs db db'" using t(2) credited_tables(2) [OF cr] by (auto intro: outputs_stored_frame)
  have amounts: "map bs_amount sigs = map bm_amount ?outs"
    using blind_sign_amounts [OF bs] stored by (simp add: outputs_stored_def)
  have "(\<Sum>i \<leftarrow> ?ids. issued_of db' i) = (\<Sum>i \<leftarrow> ?ids. issued_of db i + charged input (v_amount v) expected i)"
    using t(3) by (intro arg_cong [where f = sum_list] map_cong) auto
  also have "\<dots> = (\<Sum>i \<leftarrow> ?ids. issued_of db i) + unat (ta_value (v_amount v))"
    using sum_charged [OF as(1) as(2) [symmetric] dist] by (simp add: sum_list_addf as(3))
  also have "unat (ta_value (v_amount v)) = usum (map bm_amount ?outs)" by (rule verify_outputs_Ok(5) [OF v])
  finally have total: "(\<Sum>i \<leftarrow> ?ids. issued_of db' i) = (\<Sum>i \<leftarrow> ?ids. issued_of db i) + usum (map bm_amount ?outs)" .
  have "\<exists>sig. is_ok (pk_verify (m_ext M) k (quote_msg (m_ext M) i ?outs) sig)" if "i \<in> set ?ids" "quote_key db i = Some (Some k)" for i k
  proof -
    from that(1) obtain e where e: "e \<in> set (quote_entries input)" "qe_quote_id e = i" by (metis entries_quote_ids imageE set_map)
    from list_all2_left [OF as(1) e(1)] obtain a where "check_entry (m_ext M) input quotes e = Inr a" by blast
    then obtain q where q: "map_of quotes i = Some q" "verify_entry_signature (m_ext M) input e (mq_pubkey q) = Inr ()"
      using e(2) by (auto elim: check_entry_Ok)
    with f that(2) have "mq_pubkey q = Some k" by (auto dest!: map_of_SomeD)
    with verify_entry_Ok [OF _ e(1)] q(2) e(2) show ?thesis by auto
  qed
  with amounts stored t(1,3) total show ?thesis by auto
qed

text \<open>
  C13. A mint request that fails, at whatever point, has issued nothing: no output is stored or signed, no
  quote is charged and no operation is recorded. At most payments that the backend reported have been
  credited to the quotes it names.
\<close>
theorem failed_mint_request_issues_nothing:
  assumes "process_mint_request M P info F now ids nonces input db = (Inl e, db')" and "quotes_ok db"
  shows "d_sigs db' = d_sigs db \<and> d_issued db' = d_issued db \<and> d_completed db' = d_completed db \<and>
    d_keyset_amounts db' = d_keyset_amounts db \<and> quotes_ok db'"
proof -
  have "quotes_ok db' \<and> credited db db'"
  proof (cases "db' = db")
    case False
    with assms(1) obtain r where "fetch_quotes P (nf_read F) (nf_check F) now (mint_input_quote_ids input) db = (r, db')"
      by (auto simp: process_mint_request_def split: sum.splits prod.splits)
    from fetch_quotes_step [OF this assms(2)] show ?thesis by simp
  qed (use assms(2) in simp)
  with credited_tables show ?thesis by auto
qed

section \<open>A paid quote\<close>

definition demo_open_quote :: mint_quote where
  "demo_open_quote = mint_quote_new ''q'' ''lnbc'' Sat (Some (new_amount 7 Sat)) 100 (PI_CustomId ''h'') (Some (demo_pt 3))
     (new_amount 0 Sat) (new_amount 0 Sat) (KnownMethod Bolt11) 0 [] [] None"

definition demo_quote_db :: mint_db where
  "demo_quote_db = empty_db\<lparr> d_mint_quotes := [demo_open_quote] \<rparr>"

definition demo_payment :: wait_payment_response where
  "demo_payment = \<lparr> wp_payment_identifier = PI_CustomId ''h'', wp_payment_amount = new_amount 7 Sat, wp_payment_id = ''p'' \<rparr>"

definition demo_receivers :: receivers where
  "demo_receivers u m = Some \<lparr> ib_check_incoming_payment_status = (\<lambda>_. Inr [demo_payment]), ib_invoice_description = Inr None,
     ib_create_incoming_payment_request = (\<lambda>_. Inl PE_UnsupportedUnit) \<rparr>"

definition demo_mint_request :: mint_request where
  "demo_mint_request = \<lparr> nr_quote = ''q'', nr_outputs = [demo_output], nr_signature = None \<rparr>"

definition demo_minted :: "mint_request \<Rightarrow> (cdk_error + blind_signature list) \<times> mint_db" where
  "demo_minted req = process_mint_request demo_mint demo_receivers (Inl E_Internal) no_issue_faults 0 (\<lambda>_. ''op'') [[3]] (Single req) demo_quote_db"

lemma demo_quote_ok: "quotes_ok demo_quote_db" "distinct (map sr_blinded_message (d_sigs demo_quote_db))"
  by (simp_all add: quotes_ok_def row_ok_def demo_quote_db_def demo_open_quote_def empty_db_def mint_quote_new_def new_amount_def
      paid_of_def issued_of_def paid_rows_def issued_rows_def)

theorem mint_request_issues_witness:
  "\<exists>sigs db'. demo_minted (mint_request_sign demo_ext [3] demo_mint_request) = (Inr sigs, db') \<and> map bs_amount sigs = [7] \<and>
     issued_of db' ''q'' = 7 \<and> quotes_ok db'"
proof -
  let ?r = "mint_request_sign demo_ext [3] demo_mint_request"
  have "is_ok (fst (demo_minted ?r))" by code_simp
  then obtain sigs db' where p: "demo_minted ?r = (Inr sigs, db')" by (cases "demo_minted ?r") (auto simp: is_ok_iff)
  from mint_request_issues [OF p [unfolded demo_minted_def] demo_quote_ok] p show ?thesis
    by (simp add: mint_request_sign_def demo_mint_request_def demo_output_def new_blinded_message_def issued_of_def issued_rows_def
        demo_quote_db_def empty_db_def)
qed

theorem failed_mint_request_issues_nothing_witness:
  "\<exists>e db'. demo_minted demo_mint_request = (Inl e, db') \<and> d_payments db' \<noteq> [] \<and> d_issued db' = [] \<and> d_sigs db' = []"
proof -
  have "\<not> is_ok (fst (demo_minted demo_mint_request)) \<and> d_payments (snd (demo_minted demo_mint_request)) \<noteq> []" by code_simp
  then obtain e db' where p: "demo_minted demo_mint_request = (Inl e, db')" "d_payments db' \<noteq> []"
    by (cases "demo_minted demo_mint_request", cases "fst (demo_minted demo_mint_request)") (auto simp: is_ok_iff)
  from failed_mint_request_issues_nothing [OF p(1) [unfolded demo_minted_def] demo_quote_ok(1)] p show ?thesis
    by (simp add: demo_quote_db_def empty_db_def)
qed

end
