(* ===== verification/Melt_Quote.thy ===== *)
theory Melt_Quote
  imports Issue Melt_Setup
begin

text \<open>
  Requests for a melt quote (\<open>get_melt_quote\<close> and its three implementations in \<open>crates/cdk/src/mint/melt/mod.rs\<close>):
  the backend is asked for a price, the request is checked against the settings, and an unpaid quote is
  stored. What the backend answers, the parser of offers and the settings are parameters; an invoice and
  an offer are given by their text.
\<close>

section \<open>Settings and requests\<close>

text \<open>The only options of a method are those of BOLT11: whether invoices without an amount can be paid.\<close>

record melt_method_settings =
  lms_method :: payment_method
  lms_unit :: currency_unit
  lms_min_amount :: "u64 option"
  lms_max_amount :: "u64 option"
  lms_options :: "bool option"

record nut05_settings =
  n05_methods :: "melt_method_settings list"
  n05_disabled :: bool

definition nut05_get_settings :: "nut05_settings \<Rightarrow> currency_unit \<Rightarrow> payment_method \<Rightarrow> melt_method_settings option" where
  "nut05_get_settings s u m = List.find (\<lambda>t. lms_method t = m \<and> lms_unit t = u) (n05_methods s)"

type_synonym nut15_settings = "(payment_method \<times> currency_unit) list"

record melt_quote_bolt11_request =
  l11_request :: string
  l11_unit :: currency_unit
  l11_options :: "melt_options option"

record melt_quote_bolt12_request =
  l12_request :: string
  l12_unit :: currency_unit
  l12_options :: "melt_options option"

record melt_quote_custom_request =
  lcu_method :: string
  lcu_request :: string
  lcu_unit :: currency_unit
  lcu_extra :: "string option"

datatype melt_quote_request =
    LR_Bolt11 melt_quote_bolt11_request
  | LR_Bolt12 melt_quote_bolt12_request
  | LR_Custom melt_quote_custom_request

record payment_quote_response =
  pq_request_lookup_id :: "payment_identifier option"
  pq_amount :: typed_amount
  pq_fee :: typed_amount
  pq_state :: melt_quote_state

type_synonym pricing = "currency_unit \<Rightarrow> payment_method \<Rightarrow>
  (currency_unit \<Rightarrow> outgoing_payment_options \<Rightarrow> payment_error + payment_quote_response) option"

section \<open>The handler\<close>

definition check_melt_request_acceptable ::
  "cdk_error + nut05_settings \<times> nut15_settings \<Rightarrow> db_error option \<Rightarrow> typed_amount \<Rightarrow> payment_method \<Rightarrow> string \<Rightarrow>
   melt_options option \<Rightarrow> mint_db \<Rightarrow> cdk_error + unit"
where
  "check_melt_request_acceptable info flt amount m request options db = (let u = ta_unit amount in
     rbind info (\<lambda>(nut05, nut15).
     rbind (ensure_cdk (\<not> n05_disabled nut05) E_MeltingDisabled) (\<lambda>_.
     rbind (ok_or E_UnsupportedUnit (nut05_get_settings nut05 u m)) (\<lambda>settings.
     rbind (case options of
         Some (Mpp _) \<Rightarrow>
           rbind (map_err cdk_of_db (faulty flt (get_mint_quote_by_request request db))) (\<lambda>q.
             if q \<noteq> None then Inl E_InternalMultiPartMeltQuote
             else if (m, u) \<notin> set nut15 then Inl (E_MppUnitMethodNotSupported u (payment_method_as_str m))
             else Inr ())
       | Some (Amountless _) \<Rightarrow>
           if is_bolt11 m \<and> lms_options settings \<noteq> Some True then Inl (E_AmountlessInvoiceNotSupported u (payment_method_as_str m))
           else Inr ()
       | None \<Rightarrow> Inr ()) (\<lambda>_.
     ensure_cdk (\<not> out_of_range (lms_min_amount settings) (lms_max_amount settings) (ta_value amount))
       (E_AmountOutofLimitRange (get_or_default 0 (lms_min_amount settings)) (get_or_default 0 (lms_max_amount settings)) (ta_value amount)))))))"

text \<open>The faults of the look-up by the settings check and of the transaction are in one assignment.\<close>

definition store_melt_quote ::
  "cdk_error + nut05_settings \<times> nut15_settings \<Rightarrow> cdk_error + u64 \<Rightarrow> faults \<Rightarrow> u64 \<Rightarrow> quote_id \<Rightarrow> currency_unit \<Rightarrow>
   payment_method \<Rightarrow> melt_payment_request \<Rightarrow> string \<Rightarrow> melt_options option \<Rightarrow> payment_quote_response \<Rightarrow> mint_db \<Rightarrow>
   cdk_error + melt_quote \<times> mint_db"
where
  "store_melt_quote info melt_ttl f now i u m payment_request request options payment_quote db =
     rbind (ensure_cdk (ta_unit (pq_amount payment_quote) = u) E_UnitMismatch) (\<lambda>_.
     rbind (check_melt_request_acceptable info (f Get_mint_quote) (pq_amount payment_quote) m request options db) (\<lambda>_.
     rbind melt_ttl (\<lambda>ttl.
     let quote = melt_quote_new now i payment_request u (pq_amount payment_quote) (pq_fee payment_quote) (now + ttl)
           (pq_request_lookup_id payment_quote) options m in
     rbind (map_err cdk_of_db (faulty (f Begin_tx) (Inr ()))) (\<lambda>_.
     rbind (map_err cdk_of_db (faulty (f Add_melt_quote) (add_melt_quote quote db))) (\<lambda>db1.
     rbind (map_err cdk_of_db (faulty (f Commit_tx) (Inr ()))) (\<lambda>_. Inr (quote, db1)))))))"

definition get_melt_bolt11_quote ::
  "pricing \<Rightarrow> cdk_error + nut05_settings \<times> nut15_settings \<Rightarrow> cdk_error + u64 \<Rightarrow> faults \<Rightarrow> u64 \<Rightarrow> quote_id \<Rightarrow>
   melt_quote_bolt11_request \<Rightarrow> mint_db \<Rightarrow> cdk_error + melt_quote \<times> mint_db"
where
  "get_melt_bolt11_quote P info melt_ttl f now i req db = (let u = l11_unit req; m = KnownMethod Bolt11 in
     rbind (ok_or E_UnsupportedUnit (P u m)) (\<lambda>get_payment_quote.
     rbind (map_err E_Payment (get_payment_quote u (OP_Bolt11 (l11_request req) None None (l11_options req)))) (\<lambda>payment_quote.
       store_melt_quote info melt_ttl f now i u m (MP_Bolt11 (l11_request req)) (l11_request req) (l11_options req) payment_quote db)))"

definition get_melt_bolt12_quote ::
  "(string \<Rightarrow> string option) \<Rightarrow> pricing \<Rightarrow> cdk_error + nut05_settings \<times> nut15_settings \<Rightarrow> cdk_error + u64 \<Rightarrow> faults \<Rightarrow> u64 \<Rightarrow>
   quote_id \<Rightarrow> melt_quote_bolt12_request \<Rightarrow> mint_db \<Rightarrow> cdk_error + melt_quote \<times> mint_db"
where
  "get_melt_bolt12_quote parse_offer P info melt_ttl f now i req db = (let u = l12_unit req; m = KnownMethod Bolt12 in
     rbind (ok_or E_UnsupportedUnit (P u m)) (\<lambda>get_payment_quote.
     rbind (ok_or E_Bolt12parse (parse_offer (l12_request req))) (\<lambda>offer.
     rbind (map_err E_Payment (get_payment_quote u (OP_Bolt12 offer None None (l12_options req)))) (\<lambda>payment_quote.
       store_melt_quote info melt_ttl f now i u m (MP_Bolt12 offer) (l12_request req) (l12_options req) payment_quote db))))"

definition get_melt_custom_quote ::
  "ext \<Rightarrow> pricing \<Rightarrow> cdk_error + nut05_settings \<times> nut15_settings \<Rightarrow> cdk_error + u64 \<Rightarrow> faults \<Rightarrow> u64 \<Rightarrow> quote_id \<Rightarrow>
   melt_quote_custom_request \<Rightarrow> mint_db \<Rightarrow> cdk_error + melt_quote \<times> mint_db"
where
  "get_melt_custom_quote X P info melt_ttl f now i req db =
     (let u = lcu_unit req; m = payment_method_from_str X (lcu_method req) in
     rbind (check_field_len ''extra'' (lcu_extra req)) (\<lambda>_.
     rbind (ok_or E_UnsupportedUnit (P u m)) (\<lambda>get_payment_quote.
     rbind (map_err (\<lambda>_. E_UnsupportedUnit)
              (get_payment_quote u (OP_Custom (lcu_method req) (lcu_request req) None None None (lcu_extra req)))) (\<lambda>payment_quote.
       store_melt_quote info melt_ttl f now i u m (MP_Custom (lcu_method req) (lcu_request req)) (lcu_request req) None payment_quote db))))"

definition melt_quote_response_of :: "melt_quote \<Rightarrow> melt_quote_response" where
  "melt_quote_response_of q = melt_response q (lq_state q) (lq_payment_preimage q) None"

text \<open>The handler; an error leaves the database as it was.\<close>

definition get_melt_quote_handler ::
  "ext \<Rightarrow> (string \<Rightarrow> string option) \<Rightarrow> pricing \<Rightarrow> cdk_error + nut05_settings \<times> nut15_settings \<Rightarrow> cdk_error + u64 \<Rightarrow> faults \<Rightarrow> u64 \<Rightarrow>
   quote_id \<Rightarrow> melt_quote_request \<Rightarrow> mint_db \<Rightarrow> (cdk_error + melt_quote_response) \<times> mint_db"
where
  "get_melt_quote_handler X parse_offer P info melt_ttl f now i req db =
     (case (case req of
         LR_Bolt11 r \<Rightarrow> get_melt_bolt11_quote P info melt_ttl f now i r db
       | LR_Bolt12 r \<Rightarrow> get_melt_bolt12_quote parse_offer P info melt_ttl f now i r db
       | LR_Custom r \<Rightarrow> get_melt_custom_quote X P info melt_ttl f now i r db) of
        Inl e \<Rightarrow> (Inl e, db)
      | Inr (quote, db1) \<Rightarrow> (Inr (melt_quote_response_of quote), db1))"

section \<open>What is stored\<close>

text \<open>A quote the settings allow: priced in its own unit, within the limits of its method, and not a part of an internal payment.\<close>

definition acceptable_quote :: "nut05_settings \<Rightarrow> mint_db \<Rightarrow> string \<Rightarrow> melt_quote \<Rightarrow> bool" where
  "acceptable_quote nut05 db request q \<longleftrightarrow> \<not> n05_disabled nut05 \<and> ta_unit (lq_amount q) = lq_unit q \<and>
     (\<exists>s. nut05_get_settings nut05 (lq_unit q) (lq_payment_method q) = Some s \<and>
        \<not> out_of_range (lms_min_amount s) (lms_max_amount s) (ta_value (lq_amount q))) \<and>
     (\<forall>a. lq_options q = Some (Mpp a) \<longrightarrow> get_mint_quote_by_request request db = Inr None)"

fun request_text :: "melt_quote_request \<Rightarrow> string" where
  "request_text (LR_Bolt11 r) = l11_request r"
| "request_text (LR_Bolt12 r) = l12_request r"
| "request_text (LR_Custom r) = lcu_request r"

text \<open>
  What a request asks for, apart from how it is handled: the unit, the method and the options, what is to
  be paid, and the price the backend of that unit and method gives for it.
\<close>

fun request_unit :: "melt_quote_request \<Rightarrow> currency_unit" where
  "request_unit (LR_Bolt11 r) = l11_unit r"
| "request_unit (LR_Bolt12 r) = l12_unit r"
| "request_unit (LR_Custom r) = lcu_unit r"

fun request_method :: "ext \<Rightarrow> melt_quote_request \<Rightarrow> payment_method" where
  "request_method X (LR_Bolt11 r) = KnownMethod Bolt11"
| "request_method X (LR_Bolt12 r) = KnownMethod Bolt12"
| "request_method X (LR_Custom r) = payment_method_from_str X (lcu_method r)"

fun request_melt_options :: "melt_quote_request \<Rightarrow> melt_options option" where
  "request_melt_options (LR_Bolt11 r) = l11_options r"
| "request_melt_options (LR_Bolt12 r) = l12_options r"
| "request_melt_options (LR_Custom r) = None"

fun request_payment :: "(string \<Rightarrow> string option) \<Rightarrow> melt_quote_request \<Rightarrow> melt_payment_request option" where
  "request_payment parse_offer (LR_Bolt11 r) = Some (MP_Bolt11 (l11_request r))"
| "request_payment parse_offer (LR_Bolt12 r) = map_option MP_Bolt12 (parse_offer (l12_request r))"
| "request_payment parse_offer (LR_Custom r) = Some (MP_Custom (lcu_method r) (lcu_request r))"

fun request_extra :: "melt_quote_request \<Rightarrow> string option" where
  "request_extra (LR_Custom r) = lcu_extra r"
| "request_extra _ = None"

fun price_question :: "melt_payment_request \<Rightarrow> melt_options option \<Rightarrow> string option \<Rightarrow> outgoing_payment_options" where
  "price_question (MP_Bolt11 invoice) options extra = OP_Bolt11 invoice None None options"
| "price_question (MP_Bolt12 offer) options extra = OP_Bolt12 offer None None options"
| "price_question (MP_Custom m request) options extra = OP_Custom m request None None options extra"

definition backend_price ::
  "ext \<Rightarrow> (string \<Rightarrow> string option) \<Rightarrow> pricing \<Rightarrow> melt_quote_request \<Rightarrow> payment_quote_response \<Rightarrow> bool"
where
  "backend_price X parse_offer P req price \<longleftrightarrow> (\<exists>ask payment. P (request_unit req) (request_method X req) = Some ask \<and>
     request_payment parse_offer req = Some payment \<and>
     ask (request_unit req) (price_question payment (request_melt_options req) (request_extra req)) = Inr price)"

text \<open>The quote that offers a request at a price: nothing of either is changed.\<close>

definition quote_for :: "ext \<Rightarrow> (string \<Rightarrow> string option) \<Rightarrow> melt_quote_request \<Rightarrow> payment_quote_response \<Rightarrow> melt_quote \<Rightarrow> bool" where
  "quote_for X parse_offer req price q \<longleftrightarrow> Some (lq_request q) = request_payment parse_offer req \<and>
     lq_unit q = request_unit req \<and> lq_payment_method q = request_method X req \<and> lq_options q = request_melt_options req \<and>
     lq_amount q = pq_amount price \<and> lq_fee_reserve q = pq_fee price \<and> lq_request_lookup_id q = pq_request_lookup_id price"

lemma check_acceptable_Ok:
  assumes "check_melt_request_acceptable info flt a m request options db = Inr ()"
  shows "\<exists>nut05 nut15 s. info = Inr (nut05, nut15) \<and> \<not> n05_disabled nut05 \<and> nut05_get_settings nut05 (ta_unit a) m = Some s \<and>
    \<not> out_of_range (lms_min_amount s) (lms_max_amount s) (ta_value a) \<and>
    (\<forall>n. options = Some (Mpp n) \<longrightarrow> get_mint_quote_by_request request db = Inr None)"
  using assms unfolding check_melt_request_acceptable_def Let_def
  by (auto elim!: rbind_OkE simp: map_err_eq_Ok faulty_Ok ensure_cdk_eq_Ok ok_or_eq_Ok split: if_split_asm option.split_asm melt_options.split_asm)

lemma store_melt_quote_Ok:
  assumes "store_melt_quote info ttl f now i u m preq request options pq db = Inr (q, db')"
  shows "db' = db\<lparr> d_melt_quotes := d_melt_quotes db @ [q] \<rparr> \<and> i \<notin> lq_id ` set (d_melt_quotes db) \<and> lq_id q = i \<and>
    lq_state q = MQ_Unpaid \<and> lq_amount q = pq_amount pq \<and> lq_fee_reserve q = pq_fee pq \<and> lq_request q = preq \<and>
    lq_unit q = u \<and> lq_payment_method q = m \<and> lq_options q = options \<and> lq_request_lookup_id q = pq_request_lookup_id pq \<and>
    (\<exists>t. ttl = Inr t \<and> lq_expiry q = now + t) \<and>
    (\<exists>nut05 nut15. info = Inr (nut05, nut15) \<and> acceptable_quote nut05 db request q)"
proof -
  from assms obtain t where u: "ta_unit (pq_amount pq) = u"
    and acc: "check_melt_request_acceptable info (f Get_mint_quote) (pq_amount pq) m request options db = Inr ()"
    and t: "ttl = Inr t" and q: "q = melt_quote_new now i preq u (pq_amount pq) (pq_fee pq) (now + t) (pq_request_lookup_id pq) options m"
    and add: "add_melt_quote q db = Inr db'"
    unfolding store_melt_quote_def Let_def
    by (auto elim!: rbind_OkE simp: map_err_eq_Ok faulty_Ok ensure_cdk_eq_Ok)
  from add have "db' = db\<lparr> d_melt_quotes := d_melt_quotes db @ [q] \<rparr>" "lq_id q \<notin> lq_id ` set (d_melt_quotes db)"
    by (auto elim!: rbind_OkE simp: add_melt_quote_def rmap_eq_Ok insert_row_Ok)
  with check_acceptable_Ok [OF acc] u t show ?thesis by (auto simp: q melt_quote_new_def acceptable_quote_def)
qed

lemma melt_quote_priced:
  assumes "(case req of LR_Bolt11 r \<Rightarrow> get_melt_bolt11_quote P info ttl f now i r db
       | LR_Bolt12 r \<Rightarrow> get_melt_bolt12_quote parse_offer P info ttl f now i r db
       | LR_Custom r \<Rightarrow> get_melt_custom_quote X P info ttl f now i r db) = Inr (q, db')"
  obtains preq price where "backend_price X parse_offer P req price" "request_payment parse_offer req = Some preq"
    "store_melt_quote info ttl f now i (request_unit req) (request_method X req) preq (request_text req)
      (request_melt_options req) price db = Inr (q, db')"
  using assms
  by (cases req) (fastforce elim!: rbind_OkE simp: get_melt_bolt11_quote_def get_melt_bolt12_quote_def get_melt_custom_quote_def
      Let_def backend_price_def ok_or_eq_Ok map_err_eq_Ok)+

lemma new_quote_wf:
  assumes "melt_wf X db" and "lq_id q \<notin> lq_id ` set (d_melt_quotes db)" and "lq_state q = MQ_Unpaid"
  shows "melt_wf X (db\<lparr> d_melt_quotes := d_melt_quotes db @ [q] \<rparr>)"
  using assms by (auto simp: melt_wf_def db_wf_def)

text \<open>
  C14. A request for a melt quote, of any method, whatever the backend and the database do: an error leaves
  the database as it was; an answer means that exactly one quote was added, under the new identifier,
  unpaid and expiring when the settings say. The backend of the unit and the method of the request was
  asked for the price of just this request, and the quote has its amount, its fee as the fee reserve
  and its lookup identifier, with the unit, the method, the options and the payment of the request. It
  is priced in its own unit, allowed by the settings of the mint and within the limits of its method,
  and no multi-part quote for a request of this mint. The answer tells the price and the fee of the
  backend, and the tables stay well-formed.
\<close>
theorem melt_quote_request_stores:
  assumes "get_melt_quote_handler X parse_offer P info ttl f now i req db = (r, db')" and "melt_wf X' db"
  shows "melt_wf X' db' \<and> (case r of
      Inl e \<Rightarrow> db' = db
    | Inr resp \<Rightarrow> \<exists>q price t nut05 nut15. db' = db\<lparr> d_melt_quotes := d_melt_quotes db @ [q] \<rparr> \<and> lq_id q = i \<and> lq_state q = MQ_Unpaid \<and>
        i \<notin> lq_id ` set (d_melt_quotes db) \<and> ttl = Inr t \<and> lq_expiry q = now + t \<and>
        backend_price X parse_offer P req price \<and> quote_for X parse_offer req price q \<and>
        info = Inr (nut05, nut15) \<and> acceptable_quote nut05 db (request_text req) q \<and>
        qr_quote resp = i \<and> qr_state resp = MQ_Unpaid \<and> qr_amount resp = ta_value (pq_amount price) \<and>
        qr_fee_reserve resp = ta_value (pq_fee price) \<and> qr_expiry resp = now + t)"
proof (cases r)
  case (Inl e)
  with assms show ?thesis by (auto simp: get_melt_quote_handler_def split: sum.splits prod.splits)
next
  case (Inr resp)
  from assms(1) Inr obtain q where resp: "resp = melt_quote_response_of q"
    and h: "(case req of LR_Bolt11 r \<Rightarrow> get_melt_bolt11_quote P info ttl f now i r db
       | LR_Bolt12 r \<Rightarrow> get_melt_bolt12_quote parse_offer P info ttl f now i r db
       | LR_Custom r \<Rightarrow> get_melt_custom_quote X P info ttl f now i r db) = Inr (q, db')"
    by (auto simp: get_melt_quote_handler_def split: sum.splits prod.splits)
  from h obtain price preq where p: "backend_price X parse_offer P req price" "request_payment parse_offer req = Some preq"
    and st: "store_melt_quote info ttl f now i (request_unit req) (request_method X req) preq (request_text req)
      (request_melt_options req) price db = Inr (q, db')"
    by (rule melt_quote_priced)
  note s = store_melt_quote_Ok [OF st]
  with new_quote_wf [OF assms(2), of q] have "melt_wf X' db'" by auto
  moreover have "quote_for X parse_offer req price q" using s p(2) by (simp add: quote_for_def)
  ultimately show ?thesis
    using s Inr p(1) by (auto simp: resp melt_quote_response_of_def melt_response_def intro!: exI [of _ q] exI [of _ price])
qed

definition demo_pricing :: pricing where
  "demo_pricing u m = Some (\<lambda>u' options. Inr \<lparr> pq_request_lookup_id = Some (PI_CustomId ''h''), pq_amount = new_amount 5 Sat,
     pq_fee = new_amount 1 Sat, pq_state = MQ_Unpaid \<rparr>)"

definition demo_nut05 :: nut05_settings where
  "demo_nut05 = \<lparr> n05_methods = [\<lparr> lms_method = KnownMethod Bolt11, lms_unit = Sat, lms_min_amount = Some 1, lms_max_amount = Some 100,
     lms_options = None \<rparr>], n05_disabled = False \<rparr>"

theorem melt_quote_request_stores_witness:
  "\<exists>resp db'. get_melt_quote_handler demo_ext (\<lambda>_. None) demo_pricing (Inr (demo_nut05, [])) (Inr 60) no_faults 0 ''q2''
       (LR_Bolt11 \<lparr> l11_request = ''lnbc2'', l11_unit = Sat, l11_options = None \<rparr>) demo_melt_db = (Inr resp, db') \<and>
     qr_quote resp = ''q2'' \<and> qr_state resp = MQ_Unpaid \<and> length (d_melt_quotes db') = Suc (length (d_melt_quotes demo_melt_db))"
proof -
  let ?h = "get_melt_quote_handler demo_ext (\<lambda>_. None) demo_pricing (Inr (demo_nut05, [])) (Inr 60) no_faults 0 ''q2''
       (LR_Bolt11 \<lparr> l11_request = ''lnbc2'', l11_unit = Sat, l11_options = None \<rparr>) demo_melt_db"
  have "is_ok (fst ?h)" by code_simp
  then obtain resp db' where h: "?h = (Inr resp, db')" by (cases ?h) (auto simp: is_ok_iff)
  have "melt_wf demo_ext demo_melt_db" using demo_melt_start(1,3) by simp
  from melt_quote_request_stores [OF h this] h show ?thesis by auto
qed

end
