(* ===== verification/Issue_System.thy ===== *)
theory Issue_System
  imports Issue_Safety Melt_Recovery Melt_Quote
begin

text \<open>
  The mint as a whole, seen from its mint quotes: requests for quotes of both kinds, payments, polls, mint requests,
  swaps, melts (which may settle a mint quote internally) and the recoveries, in any order and with any
  failures. Over every run the amounts of the quotes are the sums of what was paid and issued, and what
  is issued never exceeds what was paid.
\<close>

section \<open>Operations that leave the quotes alone\<close>

lemma proofs_frame:
  "add_proofs X now ps q d db = Inr (a, db') \<Longrightarrow> quote_tables db' = quote_tables db"
  "update_proofs_state X flt pws s db = Inr (b, db') \<Longrightarrow> quote_tables db' = quote_tables db"
  "remove_proofs ys db = Inr db' \<Longrightarrow> quote_tables db' = quote_tables db"
  "quote_tables (delete_unspent_proofs ys db) = quote_tables db"
  by (auto elim!: rbind_OkE simp: add_proofs_def update_proofs_state_def db_update_proofs_state_def remove_proofs_def
      delete_unspent_proofs_def map_err_eq_Ok faulty_Ok quote_tables_def Let_def split: if_splits)

lemma messages_frame:
  "add_blinded_messages now q ms d db = Inr db' \<Longrightarrow> quote_tables db' = quote_tables db"
  "quote_tables (delete_blinded_messages bs db) = quote_tables db"
  by (auto simp: add_blinded_messages_def delete_blinded_messages_def rmap_eq_Ok quote_tables_def)

lemma signatures_loop_frame:
  "add_signatures_loop now q ex zs db = Inr (ex', db') \<Longrightarrow> quote_tables db' = quote_tables db"
proof (induction now q ex zs db rule: add_signatures_loop.induct)
  case (2 now q ex m s rest db)
  then obtain db1 where r: "add_signatures_loop now q (filter (\<lambda>(k, _). k \<noteq> m) ex) rest (issue_amount s db1) = Inr (ex', db')"
    and "quote_tables db1 = quote_tables db"
    and i: "(case map_of ex m of
         None \<Rightarrow> rmap (\<lambda>t. db\<lparr> d_sigs := t \<rparr>) (insert_row sr_blinded_message
                   \<lparr> sr_blinded_message = m, sr_amount = as_i64 (bs_amount s), sr_keyset_id = bs_keyset_id s,
                     sr_c = Some (bs_c s), sr_dleq = bs_dleq s, sr_quote_id = q,
                     sr_created_time = now, sr_signed_time = Some now, sr_operation = None \<rparr> (d_sigs db))
       | Some None \<Rightarrow> Inr (db\<lparr> d_sigs := update_rows (\<lambda>r. sr_blinded_message r = m) (sign_row now s) (d_sigs db) \<rparr>)
       | Some (Some c) \<Rightarrow> Inl Db_Duplicate) = Inr db1"
    by (auto elim!: rbind_OkE simp: rmap_eq_Ok quote_tables_def split: option.splits)
  with 2(1) [OF i r] show ?case by (simp add: quote_tables_def issue_amount_def)
qed simp

lemma signatures_frame:
  "add_blind_signatures now ms sigs q db = Inr db' \<Longrightarrow> quote_tables db' = quote_tables db"
  by (auto simp: add_blind_signatures_def rbind_eq_Ok split: if_splits dest: signatures_loop_frame)

lemma sagas_frame:
  "add_saga now s db = Inr db' \<Longrightarrow> quote_tables db' = quote_tables db"
  "quote_tables (update_saga now i st db) = quote_tables db" "quote_tables (delete_saga i db) = quote_tables db"
  "add_completed_operation now d fees db = Inr db' \<Longrightarrow> quote_tables db' = quote_tables db"
  by (auto simp: add_saga_def update_saga_def delete_saga_def add_completed_operation_def rmap_eq_Ok quote_tables_def)

lemma melt_tables_frame:
  "update_melt_quote_state now q st p db = Inr (a, q', db') \<Longrightarrow> quote_tables db' = quote_tables db"
  "update_melt_quote_request_lookup_id q l db = (q'', db'') \<Longrightarrow> quote_tables db'' = quote_tables db"
  "add_melt_request i a1 a2 db = Inr db' \<Longrightarrow> quote_tables db' = quote_tables db"
  "quote_tables (delete_melt_request i db) = quote_tables db"
  by (auto simp: update_melt_quote_state_def update_melt_quote_request_lookup_id_def add_melt_request_def delete_melt_request_def
      update_melt_row_def rbind_eq_Ok rmap_eq_Ok map_err_eq_Ok quote_tables_def Let_def split: if_splits)

lemmas frame_simps = proofs_frame(4) messages_frame(2) sagas_frame(2,3) melt_tables_frame(4)

lemmas frame_rules = proofs_frame(1-3) messages_frame(1) signatures_frame sagas_frame(1,4) melt_tables_frame(1-3)


subsection \<open>Swaps\<close>

lemma remove_swap_frame:
  "remove_swap_setup_execute f c db = Inr db' \<Longrightarrow> quote_tables db' = quote_tables db"
  unfolding remove_swap_setup_execute_def Let_def
  by (auto elim!: rbind_OkE simp: map_err_eq_Ok faulty_Ok frame_simps split: if_split_asm option.splits dest!: frame_rules)

lemma compensate_frame: "quote_tables (compensate_all f cs db) = quote_tables db"
  by (induction f cs db rule: compensate_all.induct) (auto dest: remove_swap_frame split: sum.splits)

lemma setup_swap_frame:
  "setup_swap M f now i ps ms q iv db = Inr (s, db') \<Longrightarrow> quote_tables db' = quote_tables db"
  unfolding setup_swap_def Let_def
  by (auto elim!: rbind_OkE simp: map_err_eq_Ok faulty_Ok dest!: frame_rules)

lemma finalize_frame: "finalize M f fc now s db = (r, db') \<Longrightarrow> quote_tables db' = quote_tables db"
  unfolding finalize_def Let_def abort_swap_def
  by (auto simp: faulty_Ok compensate_frame frame_simps split: option.splits sum.splits prod.splits dest!: frame_rules)

lemma swap_frame: "process_swap_request M legacy f1 f2 fc now i nonces req db = (r, db') \<Longrightarrow> quote_tables db' = quote_tables db"
  by (auto simp: process_swap_request_def sign_outputs_def compensate_frame split: sum.splits prod.splits if_splits
      dest!: setup_swap_frame finalize_frame)

lemma recover_swaps_frame: "recover_sagas fs ss db = (r, db') \<Longrightarrow> quote_tables db' = quote_tables db"
proof (induction fs ss db rule: recover_sagas.induct)
  case (2 fs s ss db)
  then show ?case by (auto simp: Let_def faulty_def dest: remove_swap_frame split: option.splits sum.splits)
qed simp

subsection \<open>Melts\<close>

lemma rollback_melt_frame:
  "rollback_melt_quote f now q ys bs i db = Inr db' \<Longrightarrow> quote_tables db' = quote_tables db"
  unfolding rollback_melt_quote_def rollback_proofs_def Let_def
  by (auto elim!: rbind_OkE simp: map_err_eq_Ok rmap_eq_Ok faulty_Ok frame_simps
      split: if_split_asm option.splits sum.splits db_error.splits dest!: frame_rules)

lemma compensate_melt_frame: "quote_tables (melt_compensate_all f now cs db) = quote_tables db"
  by (induction f now cs db rule: melt_compensate_all.induct)
     (auto simp: remove_melt_setup_execute_def dest: rollback_melt_frame split: sum.splits)

lemma melt_quote_frame:
  "get_melt_quote_handler X parse_offer Q info ttl f now i req db = (r, db') \<Longrightarrow> quote_tables db' = quote_tables db"
proof -
  have "quote_tables d1 = quote_tables db" if "store_melt_quote info ttl f now i u m preq request opts pq db = Inr (q, d1)"
    for u m preq request opts pq q d1
    using store_melt_quote_Ok [OF that] by (auto simp: quote_tables_def)
  then show "get_melt_quote_handler X parse_offer Q info ttl f now i req db = (r, db') \<Longrightarrow> quote_tables db' = quote_tables db"
    by (auto elim!: rbind_OkE simp: get_melt_quote_handler_def get_melt_bolt11_quote_def get_melt_bolt12_quote_def get_melt_custom_quote_def
        Let_def split: melt_quote_request.splits sum.splits prod.splits)
qed

lemma setup_melt_frame:
  "setup_melt M legacy f now i req iv m db = Inr (s, db') \<Longrightarrow> quote_tables db' = quote_tables db"
  unfolding setup_melt_def Let_def
  by (auto elim!: rbind_OkE simp: map_err_eq_Ok faulty_Ok dest!: frame_rules)

lemma begin_melt_frame:
  "begin_melt M legacy F now i req db = Inr (q, s, db') \<Longrightarrow> quote_tables db' = quote_tables db"
  by (auto elim!: rbind_OkE simp: begin_melt_def dest!: setup_melt_frame)

lemma change_frame:
  "process_melt_change M f now nonces q a1 a2 a3 outs db = Inr (c, db') \<Longrightarrow> quote_tables db' = quote_tables db"
  by (auto elim!: rbind_OkE simp: process_melt_change_def map_err_eq_Ok faulty_Ok split: if_split_asm dest!: frame_rules)

lemma core_frame:
  "finalize_melt_core X f now q ys a1 a2 a3 p l db = Inr (q', db') \<Longrightarrow> quote_tables db' = quote_tables db"
  by (auto elim!: rbind_OkE simp: finalize_melt_core_def map_err_eq_Ok faulty_Ok split: if_split_asm dest!: frame_rules)

lemma finish_frame: "finish_melt f now a c s db = Inr (r, db') \<Longrightarrow> quote_tables db' = quote_tables db"
  unfolding finish_melt_def Let_def
  by (auto elim!: rbind_OkE simp: map_err_eq_Ok faulty_Ok frame_simps split: option.splits dest!: frame_rules)

lemma first_frame: "finalize_melt_first X f now a s db = Inr (i, db') \<Longrightarrow> quote_tables db' = quote_tables db"
  unfolding finalize_melt_first_def Let_def by (auto elim!: rbind_OkE simp: map_err_eq_Ok dest!: core_frame)

lemma finalize_melt_frame: "finalize_melt M f1 f2 now nonces s db = (r, db') \<Longrightarrow> quote_tables db' = quote_tables db"
  unfolding finalize_melt_def Let_def
  by (auto elim!: rbind_OkE simp: map_err_eq_Ok faulty_Ok frame_simps split: sum.splits prod.splits if_split_asm
      dest!: first_frame finish_frame change_frame)

lemma make_payment_frame: "make_payment P f fc now d s db = (r, db') \<Longrightarrow> quote_tables db' = quote_tables db"
  unfolding make_payment_def attempt_external_payment_def Let_def
  by (auto elim!: rbind_OkE simp: map_err_eq_Ok faulty_Ok frame_simps compensate_melt_frame
      split: settlement_decision.splits option.splits sum.splits prod.splits melt_quote_state.splits)

lemma finalize_quote_frame:
  "finalize_melt_quote M f1 fr f2 now nonces q a p l db = (r, db') \<Longrightarrow> quote_tables db' = quote_tables db"
proof -
  have first: "quote_tables d1 = quote_tables d0" if "finalize_first_tx X f now q a p l d0 = Inr (Some (i, d1))" for X f now i d0 d1
    using that by (auto elim!: rbind_OkE simp: finalize_first_tx_def rmap_eq_Ok map_err_eq_Ok
        split: option.splits if_split_asm dest!: core_frame)
  assume "finalize_melt_quote M f1 fr f2 now nonces q a p l db = (r, db')"
  then show ?thesis unfolding finalize_melt_quote_def
    by (auto elim!: rbind_OkE simp: map_err_eq_Ok faulty_Ok frame_simps split: sum.splits option.splits prod.splits if_split_asm
        dest!: first change_frame)
qed

lemma outcome_frame:
  "process_melt_saga_outcome M F now nonces s q resp db = (r, db') \<Longrightarrow> quote_tables db' = quote_tables db"
  unfolding process_melt_saga_outcome_def
  by (auto elim!: rbind_OkE simp: map_err_eq_Ok faulty_Ok frame_simps split: melt_quote_state.splits sum.splits prod.splits
      dest!: finalize_quote_frame rollback_melt_frame)

lemma check_melt_quote_frame:
  "check_melt_quote M P F now nonces q db = (r, db') \<Longrightarrow> quote_tables db' = quote_tables db"
  unfolding check_melt_quote_def handle_pending_melt_quote_def
  by (auto split: sum.splits option.splits prod.splits if_split_asm dest!: outcome_frame)

lemma delete_saga_tx_frame: "delete_saga_tx f i db = (r, db') \<Longrightarrow> quote_tables db' = quote_tables db"
  by (auto simp: delete_saga_tx_def frame_simps split: option.splits)

lemma finalize_paid_frame:
  "finalize_paid_melt_quote M F now nonces q a p l db = (r, db') \<Longrightarrow> quote_tables db' = quote_tables db"
  by (cases "finalize_melt_quote M (rf_first F) (rf_between F) (rf_second F) now nonces (lq_id q) a p l db")
     (auto simp: finalize_paid_melt_quote_def dest: finalize_quote_frame)

lemma finalize_settled_frame: "finalize_settled M F now nonces s q db = (r, db') \<Longrightarrow> quote_tables db' = quote_tables db"
  unfolding finalize_settled_def
  by (auto split: sum.splits prod.splits dest!: delete_saga_tx_frame finalize_paid_frame)

lemma outcome_snd_frame: "quote_tables (snd (process_melt_saga_outcome M F now nonces s q resp db)) = quote_tables db"
  using outcome_frame [of M F now nonces s q resp db] by (metis prod.collapse)

lemma recover_known_frame:
  "recover_known_melt M P F now nonces s q ys bs db = (r, db') \<Longrightarrow> quote_tables db' = quote_tables db"
  unfolding recover_known_melt_def compensate_melt_saga_def resolve_attempted_def
  by (auto simp: outcome_snd_frame split: saga_state_enum.splits melt_saga_state.splits if_split_asm sum.splits
      dest!: finalize_settled_frame rollback_melt_frame)

lemma recover_quote_frame:
  "recover_quote M P parses F now nonces s q ys bs db = (r, db') \<Longrightarrow> quote_tables db' = quote_tables db"
  unfolding recover_quote_def
  by (auto split: if_split_asm sum.splits option.splits dest!: delete_saga_tx_frame recover_known_frame)

lemma recover_melt_saga_frame:
  "recover_melt_saga M P parses F now nonces s db = (r, db') \<Longrightarrow> quote_tables db' = quote_tables db"
  unfolding recover_melt_saga_def Let_def
  by (auto split: sum.splits option.splits dest!: recover_quote_frame delete_saga_tx_frame)

lemma recover_melts_frame:
  "recover_melt_sagas M P parses Fs now nonces ss db = (r, db') \<Longrightarrow> quote_tables db' = quote_tables db"
  by (induction M P parses Fs now nonces ss db rule: recover_melt_sagas.induct)
     (auto split: prod.splits sum.splits dest!: recover_melt_saga_frame)

section \<open>Operations on the quotes\<close>

lemma no_quote_no_rows:
  assumes "quotes_ok db" and "i \<notin> mq_id ` set (d_mint_quotes db)"
  shows "paid_rows db i = []" "issued_rows db i = []"
proof -
  have "pay_quote_id r \<noteq> i" if "r \<in> set (d_payments db)" for r
    using assms imageI [OF that, of pay_quote_id] by (auto simp: quotes_ok_def)
  then show "paid_rows db i = []" by (simp add: paid_rows_def)
  have "isr_quote_id r \<noteq> i" if "r \<in> set (d_issued db)" for r
    using assms imageI [OF that, of isr_quote_id] by (auto simp: quotes_ok_def)
  then show "issued_rows db i = []" by (simp add: issued_rows_def)
qed

lemma add_mint_quote_ok:
  assumes "add_mint_quote q db = Inr db'" and "quotes_ok db"
  shows "quotes_ok db'"
proof -
  from assms(1) obtain row where row: "db' = db\<lparr> d_mint_quotes := d_mint_quotes db @ [row] \<rparr>" "mq_id row \<notin> mq_id ` set (d_mint_quotes db)"
    "mq_amount_paid row = new_amount 0 (mq_unit row)" "mq_amount_issued row = new_amount 0 (mq_unit row)"
    by (auto simp: add_mint_quote_def rmap_eq_Ok insert_row_Ok split: if_split_asm)
  note no_rows = no_quote_no_rows [OF assms(2) row(2)]
  with assms(2) row no_rows show ?thesis
    by (auto simp: quotes_ok_def row_ok_def paid_of_def issued_of_def paid_rows_def issued_rows_def new_amount_def)
qed

lemma request_mint_quote_ok:
  assumes "request_mint_quote X P info ttl f now i req db = (r, db')" and "quotes_ok db"
  shows "quotes_ok db'"
proof (cases "db' = db")
  case False
  with assms(1) obtain q where "add_mint_quote q db = Inr db'" unfolding request_mint_quote_def Let_def
    by (auto elim!: rbind_OkE simp: map_err_eq_Ok faulty_Ok split: sum.splits)
  from add_mint_quote_ok [OF this assms(2)] show ?thesis .
qed (use assms(2) in simp)

lemma check_payments_ok:
  assumes "check_mint_quote_payments P f now q db = (r, db')" and "quotes_ok db"
  shows "quotes_ok db'"
proof (cases "db' = db")
  case False
  with assms(1) obtain new_quote ws q' where n: "get_mint_quote (mq_id q) db = Inr (Some new_quote)"
    and p: "record_payments f now ws new_quote db = Inr (q', db')"
    by (auto elim!: rbind_OkE simp: check_mint_quote_payments_def map_err_eq_Ok faulty_Ok ok_or_eq_Ok
        split: if_split_asm sum.splits prod.splits)
  from record_payments_Ok [OF p assms(2) get_mint_quote_current(1) [OF assms(2) n]] show ?thesis by simp
qed (use assms(2) in simp)

lemma store_outputs_frame: "store_outputs f now q d outs sigs db = Inr db' \<Longrightarrow> quote_tables db' = quote_tables db"
  by (auto elim!: rbind_OkE simp: store_outputs_def map_err_eq_Ok faulty_Ok dest!: frame_rules)

lemma issue_quote_ok:
  assumes "issue_quote Fs now ids input a expected sigs i db = Inr db'" and "quotes_ok db"
  shows "quotes_ok db'"
proof -
  from assms(1) obtain q am d db1 n q1 q2 db2 where q: "get_mint_quote i db = Inr (Some q)"
    and db1: "(if is_batch input then Inr db else store_outputs (Fs i) now (Some i) d (mint_input_outputs input) sigs db) = Inr db1"
    and n: "add_issuance q am = Inr (n, q1)" and u: "update_mint_quote now q1 db1 = Inr (q2, db2)"
    and db': "(if is_batch input then Inr db2 else complete_operation (Fs i) now d db2) = Inr db'"
    unfolding issue_quote_def Let_def by (auto elim!: rbind_OkE simp: map_err_eq_Ok faulty_Ok ok_or_eq_Ok)
  have f1: "quote_tables db1 = quote_tables db" using db1 by (auto split: if_split_asm dest: store_outputs_frame)
  have f2: "quote_tables db' = quote_tables db2" using db' complete_operation_Ok by (auto split: if_split_asm)
  from charge_ok(2) [OF _ _ n u, unfolded quotes_frame [OF f1], OF assms(2) get_mint_quote_current(1) [OF assms(2) q]]
  show ?thesis using quotes_frame(1) [OF f2] by simp
qed

lemma issue_all_ok: "insert_all (issue_quote Fs now ids input a expected sigs) qs db = Inr db' \<Longrightarrow> quotes_ok db \<Longrightarrow> quotes_ok db'"
  by (induction qs arbitrary: db) (auto simp: rbind_eq_Ok dest: issue_quote_ok)

lemma mint_transaction_ok:
  assumes "mint_transaction f Fs now ids input m a expected sigs db = Inr db'" and "quotes_ok db"
  shows "quotes_ok db'"
proof -
  let ?d = "operation_new_batch_mint (ids None) (ta_value a) m"
  from assms(1) obtain db1 where db1: "(if is_batch input
      then rbind (store_outputs f now None ?d (mint_input_outputs input) sigs db) (complete_operation f now ?d) else Inr db) = Inr db1"
    and r: "insert_all (issue_quote Fs now ids input a expected sigs) (mint_input_quote_ids input) db1 = Inr db'"
    unfolding mint_transaction_def Let_def by (auto elim!: rbind_OkE simp: map_err_eq_Ok faulty_Ok)
  have "quote_tables db1 = quote_tables db"
    using db1 by (auto simp: rbind_eq_Ok split: if_split_asm dest!: store_outputs_frame complete_operation_Ok)
  from issue_all_ok [OF r] quotes_frame(1) [OF this] assms(2) show ?thesis by simp
qed

lemma settlement_ok:
  assumes "attempt_internal_settlement f fc now req s db = (r, db')" and "quotes_ok db"
  shows "quotes_ok db'"
proof (cases "quote_tables db' = quote_tables db")
  case True
  with quotes_frame(1) assms(2) show ?thesis by blast
next
  case False
  with assms(1) obtain q where q: "get_mint_quote_by_request (melt_payment_request_display (lq_request (mc_quote (ms_state_data s)))) db = Inr (Some q)"
    "settle_mint_quote f now (ms_operation_id s) (mc_quote (ms_state_data s)) q db = Inr db'"
    unfolding attempt_internal_settlement_def Let_def abort_melt_def
    by (auto simp: faulty_Ok compensate_melt_frame split: option.splits sum.splits if_split_asm)
  let ?db1 = "update_saga now (ms_operation_id s) (SagaMelt MeltPaymentAttempted) db"
  from q(2) obtain q1 q2 where a: "add_payment now q (lq_amount (mc_quote (ms_state_data s))) (lq_id (mc_quote (ms_state_data s))) None = Inr q1"
    and u: "update_mint_quote now q1 ?db1 = Inr (q2, db')"
    by (auto elim!: rbind_OkE simp: settle_mint_quote_def map_err_eq_Ok faulty_Ok)
  have f: "quote_tables ?db1 = quote_tables db" by (simp add: sagas_frame)
  from credit_ok(3) [OF _ _ a u, unfolded quotes_frame [OF f], OF assms(2) request_current [OF assms(2) q(1)]] show ?thesis .
qed

section \<open>Runs\<close>

text \<open>
  One step is one transaction (or a sequence of transactions no other step depends on) of a handler.
  Handlers interleave freely, so nothing is assumed of what a handler remembers from earlier: the quote
  of a poll, the sums and signatures of a mint request and the sagas of swaps and melts are arbitrary.
\<close>

inductive quote_step :: "mint \<Rightarrow> mint_db \<Rightarrow> mint_db \<Rightarrow> bool" for M where
  quote: "request_mint_quote (m_ext M) R info ttl f now i req db = (r, db') \<Longrightarrow> quote_step M db db'"
| notification: "handle_payment_notification f now w db = (r, db') \<Longrightarrow> quote_step M db db'"
| poll: "check_mint_quote_payments R f now q db = (r, db') \<Longrightarrow> quote_step M db db'"
| issue: "mint_transaction f Fs now ids input m a expected sigs db = Inr db' \<Longrightarrow> quote_step M db db'"
| swap: "process_swap_request M legacy f1 f2 fc now i nonces sreq db = (r, db') \<Longrightarrow> quote_step M db db'"
| begin_swap: "setup_swap M f now i ps ms q iv db = Inr (s, db') \<Longrightarrow> quote_step M db db'"
| end_swap: "finalize M f fc now t db = (r, db') \<Longrightarrow> quote_step M db db'"
| abort_swap: "quote_step M db (compensate_all f cs db)"
| recover_swaps: "recover_from_incomplete_sagas flt fs db = (r, db') \<Longrightarrow> quote_step M db db'"
| melt_quote: "get_melt_quote_handler (m_ext M) parse_offer Q linfo ttl f now i lreq db = (r, db') \<Longrightarrow> quote_step M db db'"
| begin_melt: "begin_melt M legacy F now i mreq db = Inr (x, s, db') \<Longrightarrow> quote_step M db db'"
| settle: "attempt_internal_settlement f fc now mreq s db = (r, db') \<Longrightarrow> quote_step M db db'"
| pay: "make_payment P f fc now d s db = (r, db') \<Longrightarrow> quote_step M db db'"
| end_melt: "finalize_melt M f1 f2 now nonces cs db = (r, db') \<Longrightarrow> quote_step M db db'"
| poll_melt: "check_melt_quote M P F now nonces qid db = (r, db') \<Longrightarrow> quote_step M db db'"
| recover_melts: "recover_from_incomplete_melt_sagas M P parses flt Fs now nonces db = (r, db') \<Longrightarrow> quote_step M db db'"

abbreviation quote_run :: "mint \<Rightarrow> mint_db \<Rightarrow> mint_db \<Rightarrow> bool" where
  "quote_run M \<equiv> (quote_step M)\<^sup>*\<^sup>*"

lemma quote_step_ok:
  assumes "quote_step M db db'" and "quotes_ok db"
  shows "quotes_ok db'"
proof -
  have frame: "quotes_ok db'" if "quote_tables db' = quote_tables db" using quotes_frame(1) [OF that] assms(2) by simp
  from assms show ?thesis
  proof cases
    case quote then show ?thesis by (rule request_mint_quote_ok [OF _ assms(2)])
  next
    case notification then show ?thesis using notification_step assms(2) by blast
  next
    case poll then show ?thesis by (rule check_payments_ok [OF _ assms(2)])
  next
    case issue then show ?thesis by (rule mint_transaction_ok [OF _ assms(2)])
  next
    case settle then show ?thesis by (rule settlement_ok [OF _ assms(2)])
  next
    case abort_swap then show ?thesis by (intro frame) (simp add: compensate_frame)
  next
    case (recover_swaps flt fs r)
    then show ?thesis by (intro frame) (auto simp: recover_from_incomplete_sagas_def split: sum.splits dest: recover_swaps_frame)
  next
    case (recover_melts P parses flt Fs now nonces r)
    then show ?thesis by (intro frame) (auto simp: recover_from_incomplete_melt_sagas_def split: sum.splits dest: recover_melts_frame)
  qed (auto intro!: frame dest: swap_frame setup_swap_frame finalize_frame begin_melt_frame melt_quote_frame make_payment_frame
      finalize_melt_frame check_melt_quote_frame)
qed

lemma quote_run_ok: "quote_run M db db' \<Longrightarrow> quotes_ok db \<Longrightarrow> quotes_ok db'"
  by (induction rule: rtranclp_induct) (auto dest: quote_step_ok)

text \<open>The handlers of several transactions are such runs.\<close>

lemma fetch_quotes_run: "fetch_quotes P Fr Fs now ids db = (r, db') \<Longrightarrow> quote_run M db db'"
proof (induction P Fr Fs now ids db arbitrary: r rule: fetch_quotes.induct)
  case (2 P Fr Fs now i ids db)
  show ?case
  proof (cases "rbind (map_err cdk_of_db (faulty (Fr i Get_mint_quote) (get_mint_quote i db))) (ok_or E_UnknownQuote)")
    case (Inr q)
    obtain x db1 where c: "check_mint_quote_payments P (Fs i) now q db = (x, db1)" by fastforce
    then have one: "quote_run M db db1" by (blast intro: quote_step.poll)
    show ?thesis
    proof (cases x)
      case (Inl e)
      with 2(2) Inr c one show ?thesis by auto
    next
      case xq: (Inr q1)
      obtain y where y: "fetch_quotes P Fr Fs now ids db1 = (y, db')"
        using 2(2) Inr c xq by (cases "fetch_quotes P Fr Fs now ids db1") auto
      from one 2(1) [OF Inr c [symmetric] xq y] show ?thesis by (rule rtranclp_trans)
    qed
  qed (use 2(2) in auto)
qed simp

lemma mint_request_run:
  assumes "process_mint_request M P info F now ids nonces input db = (r, db')"
  shows "quote_run M db db'"
proof -
  from assms consider "db' = db" | x where "fetch_quotes P (nf_read F) (nf_check F) now (mint_input_quote_ids input) db = (x, db')"
    | x db1 m a expected sigs where "fetch_quotes P (nf_read F) (nf_check F) now (mint_input_quote_ids input) db = (x, db1)"
        "mint_transaction (nf_batch F) (nf_quote F) now ids input m a expected sigs db1 = Inr db'"
    by (auto elim!: rbind_OkE simp: process_mint_request_def split: sum.splits prod.splits)
  then show ?thesis
    by cases (auto intro: fetch_quotes_run rtranclp.rtrancl_into_rtrancl quote_step.issue)
qed

lemma complete_melt_run:
  assumes "complete_melt M P F now nonces req s db = (r, db')"
  shows "quote_run M db db'"
proof -
  obtain d db1 where a: "attempt_internal_settlement (mf_settle F) (mf_compensate F) now req s db = (d, db1)" by fastforce
  then have one: "quote_run M db db1" by (blast intro: quote_step.settle)
  show ?thesis
  proof (cases d)
    case (Inr x)
    obtain t db2 where p: "make_payment P (mf_attempt F) (mf_compensate F) now x s db1 = (t, db2)" by fastforce
    with one have two: "quote_run M db db2" by (meson quote_step.pay rtranclp.rtrancl_into_rtrancl)
    with assms a Inr p show ?thesis
      by (cases t) (auto simp: complete_melt_def intro: rtranclp.rtrancl_into_rtrancl quote_step.end_melt)
  qed (use assms a one in \<open>auto simp: complete_melt_def\<close>)
qed

section \<open>What the mint owes\<close>

lemma paid_issued_row:
  "quotes_ok db \<Longrightarrow> row \<in> set (d_mint_quotes db) \<Longrightarrow> issued_of db (mq_id row) \<le> paid_of db (mq_id row)"
  by (auto simp: quotes_ok_def row_ok_def word_le_nat_alt)

lemma issued_le_paid:
  assumes "quotes_ok db"
  shows "issued_of db i \<le> paid_of db i"
proof (cases "i \<in> mq_id ` set (d_mint_quotes db)")
  case True
  with paid_issued_row [OF assms] show ?thesis by auto
next
  case False
  with assms have "issued_rows db i = []" by (simp add: no_quote_no_rows)
  then show ?thesis by (simp add: issued_of_def)
qed

text \<open>
  C10. Issuance is backed by payments: whatever sequence of quote requests, payment notifications, polls,
  mint transactions, swaps, melts and recoveries runs against the database, interleaved in any order and
  with any failures of the database and any answers of the backends, every quote's paid and issued
  amounts are the sums of its payment and issuance rows, never more is issued on a quote than was paid
  on it, so that per unit all that was issued is at most all that was paid, and no payment is credited
  twice, to the same or to another quote.
\<close>
theorem issuance_backed:
  assumes "quote_run M db db'" and "quotes_ok db"
  shows "(\<forall>q \<in> set (d_mint_quotes db'). unat (ta_value (mq_amount_paid q)) = paid_of db' (mq_id q) \<and>
       unat (ta_value (mq_amount_issued q)) = issued_of db' (mq_id q) \<and> issued_of db' (mq_id q) \<le> paid_of db' (mq_id q)) \<and>
    (\<forall>i. issued_of db' i \<le> paid_of db' i) \<and>
    (\<forall>u. (\<Sum>q \<leftarrow> filter (\<lambda>q. mq_unit q = u) (d_mint_quotes db'). issued_of db' (mq_id q))
       \<le> (\<Sum>q \<leftarrow> filter (\<lambda>q. mq_unit q = u) (d_mint_quotes db'). paid_of db' (mq_id q))) \<and>
    distinct (map pay_payment_id (d_payments db')) \<and> distinct (map mq_id (d_mint_quotes db'))"
proof -
  have ok: "quotes_ok db'" by (rule quote_run_ok [OF assms])
  note le = issued_le_paid [OF ok]
  moreover have "(\<Sum>q \<leftarrow> qs. issued_of db' (mq_id q)) \<le> (\<Sum>q \<leftarrow> qs. paid_of db' (mq_id q))" for qs
    by (rule sum_list_mono) (rule le)
  ultimately show ?thesis using ok by (auto simp: quotes_ok_def row_ok_def)
qed

lemma notification_ignored:
  assumes "\<And>q. get_mint_quote_by_request_lookup_id (wp_payment_identifier w) db = Inr (Some q) \<Longrightarrow>
      wp_payment_id w \<in> set (payment_ids q) \<or> settled q"
  shows "snd (handle_payment_notification f now w db) = db"
  using assms
  by (auto simp: handle_payment_notification_def handle_mint_quote_payment_def faulty_def rbind_def map_err_def
      split: option.splits sum.splits)

lemma add_payment_new: "p \<notin> set (payment_ids q) \<Longrightarrow> add_payment now q a p t \<noteq> Inl E_DuplicatePaymentId"
  by (auto simp: add_payment_def rbind_def map_err_def Let_def split: sum.splits)

lemma notification_answered:
  assumes "handle_payment_notification f now w db = (Inr (), db1)" and "quotes_ok db" and "f Get_mint_quote = None"
  obtains "db1 = db" "\<And>q. get_mint_quote_by_request_lookup_id (wp_payment_identifier w) db = Inr (Some q) \<Longrightarrow>
      wp_payment_id w \<in> set (payment_ids q) \<or> settled q"
  | q a t paid where "get_mint_quote_by_request_lookup_id (wp_payment_identifier w) db = Inr (Some q)" "a \<noteq> 0"
      "db1 = credit (mq_id q) (wp_payment_id w) a t paid db" "quotes_ok db1"
proof (cases "\<forall>q. get_mint_quote_by_request_lookup_id (wp_payment_identifier w) db = Inr (Some q) \<longrightarrow>
    wp_payment_id w \<in> set (payment_ids q) \<or> settled q")
  case True
  with notification_ignored [of w db f now] assms(1) that(1) show thesis by simp
next
  case False
  then obtain q where q: "get_mint_quote_by_request_lookup_id (wp_payment_identifier w) db = Inr (Some q)"
    and new: "wp_payment_id w \<notin> set (payment_ids q)" "\<not> settled q" by blast
  with assms(1,3) have "handle_mint_quote_payment f now w q db = Inr db1"
    by (auto elim!: rbind_OkE simp: handle_payment_notification_def faulty_def map_err_eq_Ok split: if_split_asm sum.splits option.splits)
  with new obtain a q1 q2 where a: "ta_value a \<noteq> 0" "add_payment now q a (wp_payment_id w) None = Inr q1"
    "update_mint_quote now q1 db = Inr (q2, db1)"
    by (auto elim!: rbind_OkE simp: handle_mint_quote_payment_def map_err_eq_Ok rmap_eq_Ok faulty_Ok add_payment_new
        split: if_split_asm sum.splits)
  from credit_ok [OF assms(2) lookup_current [OF assms(2) q] a(2,3)] that(2) [OF q a(1)] show thesis by blast
qed

lemma lookup_after_credit:
  assumes "get_mint_quote_by_request_lookup_id l db = Inr (Some q)"
    and "get_mint_quote_by_request_lookup_id l (credit i p a t paid db) = Inr (Some q')"
  shows "mq_id q' = mq_id q"
proof -
  have "List.find (\<lambda>q. same_lookup_id (mq_request_lookup_id q) l) (update_rows P (set_paid paid) rows) =
      map_option (\<lambda>r. if P r then set_paid paid r else r) (List.find (\<lambda>q. same_lookup_id (mq_request_lookup_id q) l) rows)" for P rows
    by (induction rows) (auto simp: update_rows_def set_paid_def)
  then show ?thesis using assms
    by (auto simp: get_mint_quote_by_request_lookup_id_def credit_def rmap_eq_Ok with_history_def rbind_eq_Ok
        split: option.splits if_split_asm dest!: sql_row_to_mint_quote_Ok(1))
qed

text \<open>
  C12. A payment is credited once. When the mint has answered the notification of a payment (the lookup of
  its quote did not fail), any further notification of the same payment for the same request, whatever
  amount it carries and whatever then fails, leaves the database as it is, also when the request is made
  through \<open>pay_mint_quote_for_request_id\<close>. The first one has changed at most one quote, by one payment
  row.
\<close>
theorem payment_credited_once:
  assumes "handle_payment_notification f now w db = (Inr (), db1)" and "quotes_ok db" and "f Get_mint_quote = None"
    and "wp_payment_identifier w' = wp_payment_identifier w" and "wp_payment_id w' = wp_payment_id w"
  shows "snd (handle_payment_notification f' now' w' db1) = db1 \<and> snd (pay_mint_quote_for_request_id f' now' w' db1) = db1 \<and>
    (db1 = db \<or> (\<exists>i a t paid. a \<noteq> 0 \<and> db1 = credit i (wp_payment_id w) a t paid db))"
proof -
  have "snd (handle_payment_notification f' now' w' db1) = db1 \<and>
    (db1 = db \<or> (\<exists>i a t paid. a \<noteq> 0 \<and> db1 = credit i (wp_payment_id w) a t paid db))"
    using assms(1-3)
  proof (cases rule: notification_answered)
    case 1
    with notification_ignored [of w' db1] assms(4,5) show ?thesis by simp
  next
    case (2 q a t paid)
    have "wp_payment_id w \<in> set (payment_ids q')" if l: "get_mint_quote_by_request_lookup_id (wp_payment_identifier w) db1 = Inr (Some q')" for q'
    proof -
      have "payment_ids q' = map pay_payment_id (paid_rows db1 (mq_id q))"
        using lookup_current [OF 2(4) l] lookup_after_credit [OF 2(1) l [unfolded 2(3)]] by (simp add: current_def)
      then show ?thesis by (simp add: 2(3))
    qed
    with notification_ignored [of w' db1] assms(4,5) have "snd (handle_payment_notification f' now' w' db1) = db1" by simp
    with 2(2,3) show ?thesis by blast
  qed
  then show ?thesis by (simp add: pay_is_notification)
qed

theorem issuance_backed_witness:
  "\<exists>r db'. demo_minted (mint_request_sign demo_ext [3] demo_mint_request) = (r, db') \<and> d_issued db' \<noteq> [] \<and> issued_of db' ''q'' \<le> paid_of db' ''q''"
proof -
  let ?m = "demo_minted (mint_request_sign demo_ext [3] demo_mint_request)"
  have i: "d_issued (snd ?m) \<noteq> []" by code_simp
  obtain r db' where p: "?m = (r, db')" by fastforce
  from issuance_backed [OF mint_request_run [OF p [unfolded demo_minted_def]] demo_quote_ok(1)] p i show ?thesis by auto
qed

theorem payment_credited_once_witness:
  "\<exists>db1. handle_payment_notification no_faults 0 demo_payment demo_quote_db = (Inr (), db1) \<and> d_payments db1 \<noteq> [] \<and>
     snd (handle_payment_notification no_faults 1 demo_payment db1) = db1"
proof -
  let ?h = "handle_payment_notification no_faults 0 demo_payment demo_quote_db"
  have h: "is_ok (fst ?h) \<and> d_payments (snd ?h) \<noteq> []" by code_simp
  then obtain db1 where p: "?h = (Inr (), db1)" by (cases ?h) (auto simp: is_ok_iff)
  have "no_faults Get_mint_quote = None" by (simp add: no_faults_def)
  from payment_credited_once [OF p demo_quote_ok(1) this refl refl] p h show ?thesis by auto
qed

end
