(* ===== verification/Wallet_Select.thy ===== *)
theory Wallet_Select
  imports Fees
begin

text \<open>
  Selection of proofs in the wallet (\<open>select_proofs\<close>, \<open>select_least_amount_over\<close>, \<open>include_fees\<close> and
  \<open>select_exact_proofs\<close> of \<open>crates/cdk/src/wallet/proofs.rs\<close>). A set of selected proofs is a list without
  repetitions; the order in which a hash set is iterated is the parameter \<open>order\<close>, of which only
  \<open>set_order\<close> is assumed. A hash map is an association list in the order of its iteration. The counter
  of the halving loop is a 32-bit signed integer and wraps, as in a release build; a panic of \<open>Amount\<close>
  is the error \<open>AmountPanic\<close>. The loop of \<open>include_fees\<close> has fuel for one round per remaining proof.
\<close>

section \<open>Definitions\<close>

type_synonym i32 = "32 word"

type_synonym proof_order = "cashu_proof list \<Rightarrow> cashu_proof list"

type_synonym keyset_fee_and_amounts = "(keyset_id \<times> fee_and_amounts) list"

definition set_order :: "proof_order \<Rightarrow> bool" where
  "set_order order \<longleftrightarrow> (\<forall>ps. mset (order ps) = mset ps)"

definition is_active :: "keyset_id list \<Rightarrow> cashu_proof \<Rightarrow> bool" where
  "is_active active_keyset_ids p \<longleftrightarrow> p_keyset_id p \<in> set active_keyset_ids"

definition sort_descending :: "cashu_proof list \<Rightarrow> cashu_proof list" where
  "sort_descending ps = sort_key (\<lambda>p. - uint (p_amount p)) ps"

definition wallet_total :: "cashu_proof list \<Rightarrow> cdk_error + u64" where
  "wallet_total ps = map_err E_NUT00 (total_amount ps)"

subsection \<open>The least amount over\<close>

text \<open>The first split position at which the left or the right part suffices.\<close>

fun find_split :: "u64 \<Rightarrow> cashu_proof list \<Rightarrow> nat list \<Rightarrow> cdk_error + (nat \<times> bool \<times> bool) option" where
  "find_split amount ps [] = Inr None"
| "find_split amount ps (i # is) =
     rbind (wallet_total (take i ps)) (\<lambda>left_amount.
     rbind (wallet_total (drop i ps)) (\<lambda>right_amount.
       if left_amount \<ge> amount \<or> right_amount \<ge> amount then Inr (Some (i, left_amount \<ge> amount, right_amount \<ge> amount))
       else find_split amount ps is))"

lemma find_split_in: "find_split amount ps is = Inr (Some (i, l, r)) \<Longrightarrow> i \<in> set is"
  by (induction "is") (auto simp: rbind_eq_Ok split: if_splits)

function select_least_amount_over :: "cashu_proof list \<Rightarrow> u64 \<Rightarrow> cdk_error + cashu_proof list" where
  "select_least_amount_over ps amount =
     (case wallet_total ps of
        Inl e \<Rightarrow> Inl e
      | Inr total_amt \<Rightarrow>
        if total_amt < amount then Inl E_InsufficientFunds
        else if length ps = 1 then Inr ps
        else (case find_split amount ps [1..<length ps] of
            Inl e \<Rightarrow> Inl e
          | Inr None \<Rightarrow> Inr ps
          | Inr (Some (i, True, True)) \<Rightarrow>
              (case (select_least_amount_over (take i ps) amount, select_least_amount_over (drop i ps) amount) of
                 (Inr left_proofs, Inr right_proofs) \<Rightarrow>
                   rbind (wallet_total left_proofs) (\<lambda>left_total_amount.
                   rbind (wallet_total right_proofs) (\<lambda>right_total_amount.
                     if left_total_amount < right_total_amount then Inr left_proofs else Inr right_proofs))
               | (Inr left_proofs, Inl _) \<Rightarrow> Inr left_proofs
               | (Inl _, Inr right_proofs) \<Rightarrow> Inr right_proofs
               | (Inl _, Inl _) \<Rightarrow> Inl E_InsufficientFunds)
          | Inr (Some (i, True, False)) \<Rightarrow> select_least_amount_over (take i ps) amount
          | Inr (Some (i, False, _)) \<Rightarrow> select_least_amount_over (drop i ps) amount))"
  by pat_completeness auto

termination
  by (relation "measure (length \<circ> fst)") (auto dest!: find_split_in)

subsection \<open>Picking proofs\<close>

text \<open>
  The loop of the closure \<open>select_proof\<close> over the proofs, largest first: an unselected proof of the
  amount, or the last unselected one above it when it need not be exact.
\<close>

fun find_proof :: "u64 \<Rightarrow> bool \<Rightarrow> cashu_proof list \<Rightarrow> cashu_proof list \<Rightarrow> cashu_proof option \<Rightarrow> cashu_proof option" where
  "find_proof amount exact selected [] last_proof = last_proof"
| "find_proof amount exact selected (p # ps) last_proof =
     (if p \<in> set selected then find_proof amount exact selected ps last_proof
      else if p_amount p = amount then Some p
      else if \<not> exact \<and> p_amount p > amount then find_proof amount exact selected ps (Some p)
      else if p_amount p < amount then last_proof
      else find_proof amount exact selected ps last_proof)"

definition select_proof :: "cashu_proof list \<Rightarrow> u64 \<Rightarrow> bool \<Rightarrow> cashu_proof list \<Rightarrow> bool \<times> cashu_proof list" where
  "select_proof ps amount exact selected = (case find_proof amount exact selected ps None of
       Some p \<Rightarrow> (True, p # selected)
     | None \<Rightarrow> (False, selected))"

fun select_optimal :: "cashu_proof list \<Rightarrow> u64 list \<Rightarrow> cashu_proof list \<Rightarrow> u64 list \<times> cashu_proof list" where
  "select_optimal ps [] selected = ([], selected)"
| "select_optimal ps (a # as) selected = (case select_proof ps a True selected of
       (True, selected1) \<Rightarrow> select_optimal ps as selected1
     | (False, selected1) \<Rightarrow> apfst ((#) a) (select_optimal ps as selected1))"

text \<open>\<open>for _ in 0..n\<close>, counting the proofs selected and leaving at the first failure.\<close>

function select_up_to :: "cashu_proof list \<Rightarrow> u64 \<Rightarrow> i32 \<Rightarrow> i32 \<Rightarrow> cashu_proof list \<Rightarrow> i32 \<times> cashu_proof list" where
  "select_up_to ps amount n cnt selected =
     (if sint n \<le> 0 then (cnt, selected)
      else (case select_proof ps amount True selected of
          (True, selected1) \<Rightarrow> select_up_to ps amount (n - 1) (cnt + 1) selected1
        | (False, selected1) \<Rightarrow> (cnt, selected1)))"
  by pat_completeness auto

text \<open>The loop that looks for two of the half, four of the quarter, and so on.\<close>

function halving_loop :: "cashu_proof list \<Rightarrow> i32 \<Rightarrow> u64 \<Rightarrow> cashu_proof list \<Rightarrow> bool \<times> cashu_proof list" where
  "halving_loop ps n target_amount selected =
     (let curr_amount = target_amount div 2 in
      if curr_amount = 0 then (False, selected)
      else (case select_up_to ps curr_amount n 0 selected of (cnt, selected1) \<Rightarrow>
        if n - cnt = 0 then (True, selected1)
        else halving_loop ps ((n - cnt) * 2) curr_amount selected1))"
  by pat_completeness auto

fun select_remaining :: "cashu_proof list \<Rightarrow> u64 list \<Rightarrow> cashu_proof list \<Rightarrow> cashu_proof list" where
  "select_remaining ps [] selected = selected"
| "select_remaining ps (a # as) selected = (case halving_loop ps 2 a selected of
       (True, selected1) \<Rightarrow> select_remaining ps as selected1
     | (False, selected1) \<Rightarrow> select_remaining ps as (snd (select_proof ps a False selected1)))"

lemma sint_minus_one:
  assumes "0 < sint (n :: i32)"
  shows "sint (n - 1) = sint n - 1"
proof -
  have "sint n < 2 ^ 31" using sint_lt [of n] by simp
  then have "signed_take_bit 31 (sint n - 1) = sint n - 1" using assms by (intro signed_take_bit_int_eq_self) auto
  then show ?thesis by (simp add: sint_word_ariths)
qed

termination select_up_to
  by (relation "measure (\<lambda>(ps, amount, n, cnt, selected). nat (sint n))") (auto simp: sint_minus_one)

lemma unat_2_u64: "unat (2 :: u64) = 2"
  by simp

lemma half_less: "(t :: u64) div 2 \<noteq> 0 \<Longrightarrow> unat (t div 2) < unat t"
proof -
  assume "t div 2 \<noteq> 0"
  then have "unat t div 2 \<noteq> 0" by (metis unat_div unat_eq_zero unat_2_u64)
  then show ?thesis by (simp add: unat_div)
qed

termination halving_loop
  by (relation "measure (\<lambda>(ps, n, t, selected). unat t)") (auto simp: half_less)

declare select_least_amount_over.simps [simp del] select_up_to.simps [simp del] halving_loop.simps [simp del]

subsection \<open>Selecting\<close>

definition optimal_keyset :: "keyset_id list \<Rightarrow> keyset_fee_and_amounts \<Rightarrow> fee_and_amounts option" where
  "optimal_keyset active_keyset_ids fees = (case List.map_filter (map_of fees) active_keyset_ids of
       fa # _ \<Rightarrow> Some fa
     | [] \<Rightarrow> (case fees of [] \<Rightarrow> None | (_, fa) # _ \<Rightarrow> Some fa))"

text \<open>
  \<open>select_proofs\<close> up to the fees: the selection, and whether it is one to which fees are added.
\<close>

definition select_for_amount ::
  "proof_order \<Rightarrow> u64 \<Rightarrow> cashu_proof list \<Rightarrow> keyset_id list \<Rightarrow> keyset_fee_and_amounts \<Rightarrow> cdk_error + bool \<times> cashu_proof list"
where
  "select_for_amount order amount ps active_keyset_ids fees =
     (if amount = 0 then Inr (False, [])
      else
      rbind (wallet_total ps) (\<lambda>all_amount.
      rbind (ensure_cdk (all_amount \<ge> amount) E_InsufficientFunds) (\<lambda>_.
      let sorted_proofs = sort_descending ps;
          inactive = remdups (filter (\<lambda>p. \<not> is_active active_keyset_ids p) sorted_proofs) in
      rbind (wallet_total inactive) (\<lambda>inactive_amount.
        if inactive_amount \<ge> amount
        then rmap (Pair False) (select_least_amount_over (sort_descending (order inactive)) amount)
        else
        rbind (case optimal_keyset active_keyset_ids fees of
                 Some fa \<Rightarrow> map_err E_AmountError (amount_split fa amount)
               | None \<Rightarrow> Inr []) (\<lambda>optimal_amounts.
        let (remaining_amounts, selected) = select_optimal sorted_proofs optimal_amounts inactive in
        if remaining_amounts = [] then Inr (True, order selected)
        else let selected1 = order (select_remaining sorted_proofs remaining_amounts selected) in
          rbind (wallet_total selected1) (\<lambda>selected_amount.
            rmap (Pair True) (if selected_amount \<noteq> amount \<and> length selected1 > 1
              then select_least_amount_over (sort_descending selected1) amount else Inr selected1)))))))"

definition net_amount_of :: "keyset_fee_and_amounts \<Rightarrow> cashu_proof list \<Rightarrow> cdk_error + u64" where
  "net_amount_of fees selected =
     rbind (calculate_fee (count_by_keyset selected) (map (map_prod id fa_fee) fees)) (\<lambda>fee_breakdown.
     rbind (wallet_total selected) (\<lambda>t.
       map_err E_AmountError (amount_sub t (fb_total fee_breakdown))))"

fun include_fees_loop ::
  "nat \<Rightarrow> proof_order \<Rightarrow> u64 \<Rightarrow> keyset_id list \<Rightarrow> keyset_fee_and_amounts \<Rightarrow> cashu_proof list \<Rightarrow> cashu_proof list \<Rightarrow>
   (cdk_error + cashu_proof list) option"
where
  "include_fees_loop 0 order amount active_keyset_ids fees remaining selected = None"
| "include_fees_loop (Suc fuel) order amount active_keyset_ids fees remaining selected =
     (case net_amount_of fees selected of
        Inl e \<Rightarrow> Some (Inl e)
      | Inr net_amount \<Rightarrow>
        if net_amount \<ge> amount then Some (Inr selected)
        else if remaining = [] then Some (Inl E_InsufficientFunds)
        else (case rbind (map_err E_AmountError (amount_sub amount net_amount)) (\<lambda>shortfall.
                     rmap snd (select_for_amount order shortfall remaining active_keyset_ids fees)) of
            Inl e \<Rightarrow> Some (Inl e)
          | Inr additional \<Rightarrow>
            if additional = [] then Some (Inl E_InsufficientFunds)
            else include_fees_loop fuel order amount active_keyset_ids fees
                   (filter (\<lambda>p. p \<notin> set additional) remaining) (selected @ additional)))"

definition include_fees ::
  "proof_order \<Rightarrow> u64 \<Rightarrow> cashu_proof list \<Rightarrow> cashu_proof list \<Rightarrow> keyset_id list \<Rightarrow> keyset_fee_and_amounts \<Rightarrow>
   (cdk_error + cashu_proof list) option"
where
  "include_fees order amount ps selected active_keyset_ids fees =
     (case net_amount_of fees selected of
        Inl e \<Rightarrow> Some (Inl e)
      | Inr net_amount \<Rightarrow>
        if net_amount \<ge> amount then Some (Inr selected)
        else let remaining = filter (\<lambda>p. p \<notin> set selected) ps in
          include_fees_loop (Suc (length remaining)) order amount active_keyset_ids fees remaining selected)"

definition select_proofs ::
  "proof_order \<Rightarrow> u64 \<Rightarrow> cashu_proof list \<Rightarrow> keyset_id list \<Rightarrow> keyset_fee_and_amounts \<Rightarrow> bool \<Rightarrow>
   (cdk_error + cashu_proof list) option"
where
  "select_proofs order amount ps active_keyset_ids fees with_fees =
     (case select_for_amount order amount ps active_keyset_ids fees of
        Inl e \<Rightarrow> Some (Inl e)
      | Inr (fees_apply, selected) \<Rightarrow>
          if with_fees \<and> fees_apply then include_fees order amount (sort_descending ps) selected active_keyset_ids fees
          else Some (Inr selected))"

definition exchange_fee :: "keyset_fee_and_amounts \<Rightarrow> cashu_proof \<Rightarrow> u64" where
  "exchange_fee fees p = u64_div_ceil (case map_of fees (p_keyset_id p) of Some fa \<Rightarrow> fa_fee fa | None \<Rightarrow> 0) 1000"

definition exact_amount_to_melt :: "u64 \<Rightarrow> u64 \<Rightarrow> keyset_fee_and_amounts \<Rightarrow> cashu_proof \<Rightarrow> u64 option" where
  "exact_amount_to_melt amount total_for_proofs fees p =
     Option.bind (u64_checked_sub total_for_proofs (p_amount p)) (\<lambda>a.
     Option.bind (u64_checked_add a (exchange_fee fees p)) (\<lambda>b. u64_checked_sub amount b))"

definition exchange_largest ::
  "u64 \<Rightarrow> keyset_fee_and_amounts \<Rightarrow> cashu_proof list \<Rightarrow> cashu_proof list \<times> (cashu_proof \<times> u64) option"
where
  "exchange_largest amount fees input_proofs =
     (let total_for_proofs = (case total_amount input_proofs of Inr t \<Rightarrow> t | Inl _ \<Rightarrow> 0) in
      if total_for_proofs > amount
      then (let sorted_proofs = sort_key p_amount input_proofs in
        if sorted_proofs = [] then (sorted_proofs, None)
        else let proof_to_exchange = last sorted_proofs; rest = butlast sorted_proofs in
          (case exact_amount_to_melt amount total_for_proofs fees proof_to_exchange of
             Some exact \<Rightarrow> (rest, Some (proof_to_exchange, exact))
           | None \<Rightarrow> (rest @ [proof_to_exchange], None)))
      else (input_proofs, None))"

definition select_exact_proofs ::
  "proof_order \<Rightarrow> u64 \<Rightarrow> cashu_proof list \<Rightarrow> keyset_id list \<Rightarrow> keyset_fee_and_amounts \<Rightarrow> bool \<Rightarrow>
   (cdk_error + cashu_proof list \<times> (cashu_proof \<times> u64) option) option"
where
  "select_exact_proofs order amount ps active_keyset_ids fees with_fees =
     map_option (rmap (exchange_largest amount fees)) (select_proofs order amount ps active_keyset_ids fees with_fees)"

end
