(* ===== verification/Wallet_Cover.thy ===== *)
theory Wallet_Cover
  imports Wallet_Select
begin

text \<open>
  What the selection of proofs promises: a selection is part of the proofs and covers the amount, with
  its fee where fees are asked for, and one is found whenever the proofs suffice and are powers of two.
\<close>

section \<open>Worth\<close>

definition worth :: "cashu_proof list \<Rightarrow> nat" where
  "worth ps = usum (map p_amount ps)"

lemma worth_simps [simp]:
  "worth [] = 0" "worth (p # ps) = unat (p_amount p) + worth ps" "worth (ps @ qs) = worth ps + worth qs"
  by (simp_all add: worth_def)

lemma worth_mset: "worth ps = sum_mset (image_mset (unat \<circ> p_amount) (mset ps))"
  by (induction ps) auto

lemma worth_cong: "mset a = mset b \<Longrightarrow> worth a = worth b"
  by (simp add: worth_mset)

lemma worth_mono: "mset a \<subseteq># mset b \<Longrightarrow> worth a \<le> worth b"
  unfolding worth_mset by (auto simp: subset_mset.le_iff_add)

lemma distinct_subset_mset:
  assumes "distinct a" and "set a \<subseteq> set b"
  shows "mset a \<subseteq># mset b"
proof -
  have "mset a = mset_set (set a)" using assms(1) by (simp add: mset_set_set)
  also have "\<dots> \<subseteq># mset_set (set b)" using assms(2) by (simp add: subset_imp_msubset_mset_set)
  also have "\<dots> \<subseteq># mset b" by (metis mset_set_set_mset_msubset set_mset_mset)
  finally show ?thesis .
qed

lemma worth_split: "worth (take i ps) + worth (drop i ps) = worth ps"
  by (metis append_take_drop_id worth_simps(3))

lemma wallet_total_eq:
  "wallet_total ps = (if worth ps < 2 ^ 64 then Inr (word_of_nat (worth ps)) else Inl (E_NUT00 (N0_Amount AmountOverflow)))"
proof (cases "worth ps < 2 ^ 64")
  case True
  then have "unat (word_of_nat (worth ps) :: u64) = worth ps" by (simp add: unat_of_nat)
  with True show ?thesis by (simp add: wallet_total_def map_err_eq_Ok total_amount_Ok worth_def)
next
  case False
  have "total_amount ps \<noteq> Inr t" for t using False unat_u64_bound [of t] by (auto simp: total_amount_Ok worth_def)
  then obtain e where e: "total_amount ps = Inl e" by (cases "total_amount ps") auto
  then have "e = N0_Amount AmountOverflow"
    by (auto simp: total_amount_def map_err_def try_sum_def split: sum.splits dest: try_sum_from_Err)
  with e False show ?thesis by (simp add: wallet_total_def map_err_def)
qed

lemma unat_worth: "worth ps < 2 ^ 64 \<Longrightarrow> unat (word_of_nat (worth ps) :: u64) = worth ps"
  by (simp add: unat_of_nat)

section \<open>The least amount over\<close>

definition suffices :: "u64 \<Rightarrow> cashu_proof list \<Rightarrow> bool" where
  "suffices amount ps \<longleftrightarrow> unat amount \<le> worth ps"

lemma total_suffices: "worth ps < 2 ^ 64 \<Longrightarrow> (amount \<le> (word_of_nat (worth ps) :: u64)) = suffices amount ps"
  by (simp add: suffices_def word_le_nat_alt unat_worth)

lemma find_split_eq:
  assumes "worth ps < 2 ^ 64"
  shows "find_split amount ps is = Inr (map_option (\<lambda>i. (i, suffices amount (take i ps), suffices amount (drop i ps)))
    (List.find (\<lambda>i. suffices amount (take i ps) \<or> suffices amount (drop i ps)) is))"
proof (induction "is")
  case (Cons i "is")
  have "worth (take i ps) < 2 ^ 64" "worth (drop i ps) < 2 ^ 64" using worth_split [of i ps] assms by linarith+
  with Cons show ?case by (simp add: wallet_total_eq total_suffices)
qed simp

definition picks :: "u64 \<Rightarrow> cashu_proof list \<Rightarrow> cashu_proof list \<Rightarrow> bool" where
  "picks amount ps sel \<longleftrightarrow> mset sel \<subseteq># mset ps \<and> suffices amount sel"

lemma picks_take: "picks amount (take i ps) sel \<Longrightarrow> picks amount ps sel"
  and picks_drop: "picks amount (drop i ps) sel \<Longrightarrow> picks amount ps sel"
  unfolding picks_def by (metis append_take_drop_id mset_append mset_subset_eq_add_left mset_subset_eq_add_right subset_mset.order_trans)+

lemma least_amount_picks:
  "worth ps < 2 ^ 64 \<Longrightarrow> suffices amount ps \<Longrightarrow> \<exists>sel. select_least_amount_over ps amount = Inr sel \<and> picks amount ps sel"
proof (induction ps amount rule: select_least_amount_over.induct)
  case (1 ps amount)
  let ?f = "find_split amount ps [1..<length ps]"
  have enough: "\<not> (word_of_nat (worth ps) :: u64) < amount" using 1(5,6) total_suffices by (simp add: not_less)
  have total: "wallet_total ps = Inr (word_of_nat (worth ps))" using 1(5) by (simp add: wallet_total_eq)
  have self: "picks amount ps ps" using 1(6) by (simp add: picks_def)
  show ?case
  proof (cases "length ps = 1 \<or> ?f = Inr None")
    case True
    with total enough self show ?thesis by (subst select_least_amount_over.simps) auto
  next
    case False
    then have len: "length ps \<noteq> 1" by simp
    from False obtain i where f: "?f = Inr (Some (i, suffices amount (take i ps), suffices amount (drop i ps)))"
      "suffices amount (take i ps) \<or> suffices amount (drop i ps)"
      by (auto simp: find_split_eq [OF 1(5)] dest: find_SomeD)
    have w: "worth (take i ps) < 2 ^ 64" "worth (drop i ps) < 2 ^ 64" using worth_split [of i ps] 1(5) by linarith+
    have l: "\<exists>sel. select_least_amount_over (take i ps) amount = Inr sel \<and> picks amount (take i ps) sel"
      if "suffices amount (take i ps)"
      using 1(1,3) [OF total enough len f(1)] that w by (cases "suffices amount (drop i ps)") auto
    have r: "\<exists>sel. select_least_amount_over (drop i ps) amount = Inr sel \<and> picks amount (drop i ps) sel"
      if "suffices amount (drop i ps)"
      using 1(2,4) [OF total enough len f(1)] that w by (cases "suffices amount (take i ps)") auto
    consider "suffices amount (take i ps)" "suffices amount (drop i ps)" | "suffices amount (take i ps)" "\<not> suffices amount (drop i ps)"
      | "\<not> suffices amount (take i ps)" "suffices amount (drop i ps)" using f(2) by blast
    then show ?thesis
    proof cases
      case 1
      from l [OF 1(1)] r [OF 1(2)] obtain a b where ab: "select_least_amount_over (take i ps) amount = Inr a"
        "select_least_amount_over (drop i ps) amount = Inr b" "picks amount (take i ps) a" "picks amount (drop i ps) b" by blast
      have "worth a < 2 ^ 64" "worth b < 2 ^ 64"
        using ab(3,4) w worth_mono unfolding picks_def by (meson order_le_less_trans)+
      then have t: "wallet_total a = Inr (word_of_nat (worth a))" "wallet_total b = Inr (word_of_nat (worth b))"
        by (simp_all add: wallet_total_eq)
      have "select_least_amount_over ps amount = (if (word_of_nat (worth a) :: u64) < word_of_nat (worth b) then Inr a else Inr b)"
        unfolding select_least_amount_over.simps [of ps amount] using total enough len f(1) ab(1,2) 1 t by simp
      with picks_take [OF ab(3)] picks_drop [OF ab(4)] show ?thesis by simp
    next
      case 2
      then have "select_least_amount_over ps amount = select_least_amount_over (take i ps) amount"
        unfolding select_least_amount_over.simps [of ps amount] using total enough len f(1) by simp
      with l [OF 2(1)] picks_take show ?thesis by metis
    next
      case 3
      then have "select_least_amount_over ps amount = select_least_amount_over (drop i ps) amount"
        unfolding select_least_amount_over.simps [of ps amount] using total enough len f(1) by simp
      with r [OF 3(2)] picks_drop show ?thesis by metis
    qed
  qed
qed

lemma least_amount_Ok:
  assumes "select_least_amount_over ps amount = Inr sel"
  shows "picks amount ps sel"
proof -
  have w: "worth ps < 2 ^ 64"
  proof (rule ccontr)
    assume "\<not> worth ps < 2 ^ 64"
    then have "select_least_amount_over ps amount = Inl (E_NUT00 (N0_Amount AmountOverflow))"
      by (subst select_least_amount_over.simps) (simp add: wallet_total_eq)
    with assms show False by simp
  qed
  have "suffices amount ps"
  proof (rule ccontr)
    assume "\<not> suffices amount ps"
    then have "(word_of_nat (worth ps) :: u64) < amount" using total_suffices [OF w, of amount] by (simp add: not_le [symmetric])
    then have "select_least_amount_over ps amount = Inl E_InsufficientFunds"
      using w by (subst select_least_amount_over.simps) (simp add: wallet_total_eq)
    with assms show False by simp
  qed
  from least_amount_picks [OF w this] assms show ?thesis by simp
qed

section \<open>Picking single proofs\<close>

lemma find_exact: "find_proof amount True selected ps None = Some p \<Longrightarrow> p \<in> set ps - set selected \<and> p_amount p = amount"
  by (induction ps) (auto split: if_split_asm)

lemma find_over:
  "find_proof amount False selected ps l = Some p \<Longrightarrow> p \<in> set ps - set selected \<and> amount \<le> p_amount p \<or> l = Some p"
proof (induction ps arbitrary: l)
  case (Cons q ps)
  from Cons.prems Cons.IH [of l] Cons.IH [of "Some q"] show ?case by (auto split: if_split_asm)
qed simp

lemma find_proof_Some:
  assumes "find_proof amount exact selected ps None = Some p"
  shows "p \<in> set ps - set selected \<and> (if exact then p_amount p = amount else amount \<le> p_amount p)"
  using assms find_exact [of amount selected ps p] find_over [of amount selected ps None p] by (cases exact) auto

definition descending :: "cashu_proof list \<Rightarrow> bool" where
  "descending ps \<longleftrightarrow> sorted_wrt (\<lambda>p q. p_amount q \<le> p_amount p) ps"

lemma find_proof_last: "find_proof amount exact selected ps (Some q) \<noteq> None"
  by (induction ps arbitrary: q) auto

lemma find_proof_None:
  "find_proof amount exact selected ps None = None \<Longrightarrow> descending ps \<Longrightarrow> p \<in> set ps \<Longrightarrow> p \<notin> set selected \<Longrightarrow>
   (if exact then p_amount p \<noteq> amount else p_amount p < amount)"
proof (induction ps)
  case (Cons q ps)
  then show ?case
    by (auto simp: descending_def find_proof_last split: if_split_asm)
qed simp

text \<open>Nothing of an amount is left to select.\<close>

definition exhausted :: "cashu_proof list \<Rightarrow> cashu_proof list \<Rightarrow> nat \<Rightarrow> bool" where
  "exhausted ps selected a \<longleftrightarrow> (\<forall>p \<in> set ps - set selected. unat (p_amount p) \<noteq> a)"

lemma select_proof_step:
  assumes "select_proof ps amount exact selected = (b, selected')"
  obtains "\<not> b" "selected' = selected" "find_proof amount exact selected ps None = None"
  | p where "b" "selected' = p # selected" "p \<in> set ps - set selected" "if exact then p_amount p = amount else amount \<le> p_amount p"
proof (cases "find_proof amount exact selected ps None")
  case None
  with assms that(1) show thesis by (simp add: select_proof_def)
next
  case (Some p)
  with assms that(2) [of p] find_proof_Some [OF Some] show thesis by (auto simp: select_proof_def)
qed

section \<open>The loops\<close>

text \<open>What every pick keeps, all the loops keep.\<close>

locale pick_invariant =
  fixes ps :: "cashu_proof list" and I :: "cashu_proof list \<Rightarrow> bool"
  assumes pick: "I selected \<Longrightarrow> p \<in> set ps - set selected \<Longrightarrow> I (p # selected)"
begin

lemma select_proof_keeps: "select_proof ps a e selected = (b, selected') \<Longrightarrow> I selected \<Longrightarrow> I selected'"
  by (erule select_proof_step) (auto intro: pick)

lemma optimal_keeps: "select_optimal ps as selected = (r, selected') \<Longrightarrow> I selected \<Longrightarrow> I selected'"
proof (induction as arbitrary: selected r)
  case (Cons a as)
  then show ?case
    by (cases "select_optimal ps as (snd (select_proof ps a True selected))")
       (auto split: prod.splits bool.splits dest: select_proof_keeps)
qed simp

lemma up_to_keeps: "select_up_to ps a n c selected = (c', selected') \<Longrightarrow> I selected \<Longrightarrow> I selected'"
proof (induction "nat (sint n)" arbitrary: n c selected rule: less_induct)
  case less
  show ?case
  proof (cases "sint n \<le> 0")
    case False
    obtain b s1 where s1: "select_proof ps a True selected = (b, s1)" by fastforce
    have "I s1" by (rule select_proof_keeps [OF s1 less(3)])
    moreover have "nat (sint (n - 1)) < nat (sint n)" using False by (simp add: sint_minus_one)
    ultimately show ?thesis
      using less(1,2) s1 False by (subst (asm) select_up_to.simps) (auto split: bool.splits)
  qed (use less(2,3) in \<open>subst (asm) select_up_to.simps, simp\<close>)
qed

lemma halving_keeps: "halving_loop ps n t selected = (b, selected') \<Longrightarrow> I selected \<Longrightarrow> I selected'"
proof (induction "unat t" arbitrary: n t selected rule: less_induct)
  case less
  show ?case
  proof (cases "t div 2 = 0")
    case False
    obtain c s1 where s1: "select_up_to ps (t div 2) n 0 selected = (c, s1)" by fastforce
    have "I s1" by (rule up_to_keeps [OF s1 less(3)])
    with less(1) [OF half_less [OF False]] less(2) s1 False show ?thesis
      by (subst (asm) halving_loop.simps) (auto simp: Let_def split: if_split_asm)
  qed (use less(2,3) in \<open>subst (asm) halving_loop.simps, simp\<close>)
qed

lemma remaining_keeps: "I selected \<Longrightarrow> I (select_remaining ps as selected)"
proof (induction as arbitrary: selected)
  case (Cons a as)
  obtain b s1 where s1: "halving_loop ps 2 a selected = (b, s1)" by fastforce
  have "I s1" by (rule halving_keeps [OF s1 Cons.prems])
  moreover have "I (snd (select_proof ps a False s1))" using select_proof_keeps [OF _ \<open>I s1\<close>] by (metis prod.collapse)
  ultimately show ?case using Cons.IH s1 by (auto split: bool.splits)
qed simp

end

interpretation part: pick_invariant ps "\<lambda>selected. distinct selected \<and> set selected \<subseteq> set ps" for ps
  by unfold_locales auto

interpretation grow: pick_invariant ps "\<lambda>selected. S \<subseteq> set selected" for ps S
  by unfold_locales auto

section \<open>What the loops collect\<close>

lemma exhausted_mono: "exhausted ps s a \<Longrightarrow> set s \<subseteq> set s' \<Longrightarrow> exhausted ps s' a"
  by (auto simp: exhausted_def)

lemma up_to_effect:
  assumes "descending ps"
  shows "select_up_to ps a n c sel = (c', sel') \<Longrightarrow> 0 \<le> sint n \<Longrightarrow>
    \<exists>k. c' = c + of_nat k \<and> int k \<le> sint n \<and> worth sel' = worth sel + k * unat a \<and>
      (int k = sint n \<or> exhausted ps sel' (unat a))"
proof (induction "nat (sint n)" arbitrary: n c sel rule: less_induct)
  case less
  show ?case
  proof (cases "sint n \<le> 0")
    case True
    with less(2,3) show ?thesis by (intro exI [of _ 0]) (simp add: select_up_to.simps [of ps a n c sel])
  next
    case False
    obtain b s1 where s1: "select_proof ps a True sel = (b, s1)" by fastforce
    from s1 show ?thesis
    proof (cases rule: select_proof_step)
      case 1
      have "exhausted ps sel (unat a)" using find_proof_None [OF 1(3) assms] by (auto simp: exhausted_def unat_inj_u64)
      moreover have "c' = c" "sel' = sel" using less(2) False s1 1(1,2) by (simp_all add: select_up_to.simps [of ps a n c sel])
      ultimately show ?thesis using less(3) by (intro exI [of _ 0]) simp
    next
      case (2 p)
      have n: "sint (n - 1) = sint n - 1" using False by (simp add: sint_minus_one)
      have "select_up_to ps a (n - 1) (c + 1) s1 = (c', sel')"
        using less(2) False s1 2(1) by (simp add: select_up_to.simps [of ps a n c sel])
      from less(1) [OF _ this] n False obtain k where "c' = c + 1 + of_nat k" "int k \<le> sint n - 1"
        "worth sel' = worth s1 + k * unat a" "int k = sint n - 1 \<or> exhausted ps sel' (unat a)" by auto
      with 2 show ?thesis by (intro exI [of _ "Suc k"]) (auto simp: algebra_simps)
    qed
  qed
qed

lemma sint_of_nat_small: "m < 2 ^ 31 \<Longrightarrow> sint (of_nat m :: i32) = int m"
  by (simp add: signed_of_nat signed_take_bit_int_eq_self)

lemma halving_effect:
  assumes "descending ps"
  shows "halving_loop ps n t sel = (b, sel') \<Longrightarrow> unat t = 2 ^ j \<Longrightarrow>
    (0 < j \<Longrightarrow> n = of_nat m \<and> 0 < m \<and> m * 2 ^ (j - 1) \<le> 2 ^ 30) \<Longrightarrow>
    (b \<longrightarrow> 0 < j \<and> worth sel' = worth sel + m * 2 ^ (j - 1)) \<and> worth sel \<le> worth sel' \<and> (\<not> b \<longrightarrow> (\<forall>i < j. exhausted ps sel' (2 ^ i)))"
proof (induction j arbitrary: n m t sel)
  case 0
  then have "t = 1" by (metis power_0 unat_1 unat_inj_u64)
  with 0 show ?case by (auto simp: halving_loop.simps [of ps n 1 sel])
next
  case (Suc i)
  from Suc.prems(3) have m: "n = of_nat m" "0 < m" "m * 2 ^ i \<le> 2 ^ 30" by simp_all
  have m30: "m \<le> 2 ^ 30" using m(3) by (metis le_trans mult_le_mono2 one_le_numeral one_le_power nat_mult_1_right)
  have sn: "sint n = int m" unfolding m(1) using m30 by (intro sint_of_nat_small) simp
  have half: "unat (t div 2) = 2 ^ i" using Suc.prems(2) by (simp add: unat_div)
  then have ne: "t div 2 \<noteq> 0" by (metis power_not_zero unat_0 zero_neq_numeral)
  obtain c s1 where s1: "select_up_to ps (t div 2) n 0 sel = (c, s1)" by fastforce
  from up_to_effect [OF assms s1] sn obtain k where k: "c = of_nat k" "k \<le> m" "worth s1 = worth sel + k * 2 ^ i"
    "k = m \<or> exhausted ps s1 (2 ^ i)" by (auto simp: half)
  have nc: "n - c = of_nat (m - k)" using k(1,2) m(1) by (simp add: of_nat_diff)
  show ?case
  proof (cases "k = m")
    case True
    with Suc.prems(1) ne s1 nc have "b" "sel' = s1" by (simp_all add: halving_loop.simps [of ps n t sel] Let_def)
    with True k(3) show ?thesis by simp
  next
    case False
    have "m - k < 2 ^ 31" using m30 by simp
    then have "sint (of_nat (m - k) :: i32) = int (m - k)" by (rule sint_of_nat_small)
    with False k(2) have "(of_nat (m - k) :: i32) \<noteq> 0" by auto
    with nc have "n \<noteq> c" by auto
    with Suc.prems(1) ne s1 nc have r: "halving_loop ps (of_nat (2 * (m - k))) (t div 2) s1 = (b, sel')"
      by (simp add: halving_loop.simps [of ps n t sel] Let_def mult.commute)
    have step: "0 < i \<Longrightarrow> of_nat (2 * (m - k)) = (of_nat (2 * (m - k)) :: i32) \<and> 0 < 2 * (m - k) \<and> 2 * (m - k) * 2 ^ (i - 1) \<le> 2 ^ 30"
    proof -
      assume "0 < i"
      then have "2 * (m - k) * 2 ^ (i - 1) = (m - k) * 2 ^ i" by (cases i) simp_all
      also have "\<dots> \<le> m * 2 ^ i" by simp
      finally show ?thesis using m(3) False k(2) by simp
    qed
    note ih = Suc.IH [OF r half step]
    have "set s1 \<subseteq> set sel'" using grow.halving_keeps [OF r, of "set s1"] by simp
    with k(4) False have ex: "exhausted ps sel' (2 ^ i)" using exhausted_mono by blast
    have "m * 2 ^ i = k * 2 ^ i + (m - k) * 2 ^ i" using k(2) by (simp add: diff_mult_distrib)
    with ih k(3) ex show ?thesis by (cases i) (auto simp: less_Suc_eq)
  qed
qed

definition pow2 :: "u64 \<Rightarrow> bool" where
  "pow2 a \<longleftrightarrow> (\<exists>j. unat a = 2 ^ j)"

text \<open>The selection covers what was asked for so far, or everything is selected.\<close>

definition covers :: "cashu_proof list \<Rightarrow> nat \<Rightarrow> cashu_proof list \<Rightarrow> bool" where
  "covers ps w sel \<longleftrightarrow> w \<le> worth sel \<or> set ps \<subseteq> set sel"

lemma remaining_step:
  assumes "descending ps" and "\<forall>p \<in> set ps. pow2 (p_amount p)" and "pow2 a" and "unat a < 2 ^ 31"
    and "halving_loop ps 2 a sel = (b, s1)"
  shows "covers ps (worth sel + unat a) (if b then s1 else snd (select_proof ps a False s1))"
proof -
  from assms(3) obtain j where j: "unat a = 2 ^ j" by (auto simp: pow2_def)
  with assms(4) have "j < 31" by (metis nat_power_less_imp_less zero_less_numeral)
  then have "0 < j \<Longrightarrow> (2 :: i32) = of_nat 2 \<and> (0 :: nat) < 2 \<and> 2 * 2 ^ (j - 1) \<le> (2 :: nat) ^ 30"
    using power_increasing [of j 30 "2 :: nat"] by (cases j) simp_all
  note h = halving_effect [OF assms(1,5) j this]
  show ?thesis
  proof (cases b)
    case True
    with h j show ?thesis by (cases j) (auto simp: covers_def)
  next
    case False
    obtain f s2 where s2: "select_proof ps a False s1 = (f, s2)" by fastforce
    then show ?thesis
    proof (cases rule: select_proof_step)
      case 1
      have "p \<in> set s1" if "p \<in> set ps" for p
      proof (rule ccontr)
        assume p: "p \<notin> set s1"
        with find_proof_None [OF 1(3) assms(1) that] have "unat (p_amount p) < 2 ^ j" by (simp add: word_less_nat_alt j)
        moreover obtain i where "unat (p_amount p) = 2 ^ i" using assms(2) \<open>p \<in> set ps\<close> by (auto simp: pow2_def)
        ultimately show False using h False p that by (auto simp: exhausted_def)
      qed
      with 1(2) s2 False show ?thesis by (auto simp: covers_def)
    next
      case (2 p)
      with h s2 False show ?thesis by (auto simp: covers_def word_le_nat_alt)
    qed
  qed
qed

lemma covers_trans:
  assumes "covers ps (w + a) s1" and "covers ps (worth s1 + b) s2" and "set s1 \<subseteq> set s2"
  shows "covers ps (w + a + b) s2"
  using assms by (auto simp: covers_def)

lemma remaining_covers:
  assumes "descending ps" and "\<forall>p \<in> set ps. pow2 (p_amount p)"
  shows "\<forall>a \<in> set as. pow2 a \<and> unat a < 2 ^ 31 \<Longrightarrow> covers ps (worth sel + usum as) (select_remaining ps as sel)"
proof (induction as arbitrary: sel)
  case (Cons a as)
  obtain b s1 where s1: "halving_loop ps 2 a sel = (b, s1)" by fastforce
  let ?s2 = "if b then s1 else snd (select_proof ps a False s1)"
  have "covers ps (worth sel + unat a) ?s2" using remaining_step [OF assms _ _ s1] Cons.prems by simp
  moreover have "covers ps (worth ?s2 + usum as) (select_remaining ps as ?s2)" using Cons by simp
  moreover have "set ?s2 \<subseteq> set (select_remaining ps as ?s2)" by (rule grow.remaining_keeps) simp
  moreover have "select_remaining ps (a # as) sel = select_remaining ps as ?s2" using s1 by (simp split: bool.split)
  ultimately show ?case using covers_trans [of ps "worth sel" "unat a" ?s2 "usum as"] by (simp add: add.assoc)
qed (simp add: covers_def)

lemma optimal_effect:
  "select_optimal ps as sel = (r, sel') \<Longrightarrow> worth sel' + usum r = worth sel + usum as \<and> set r \<subseteq> set as"
proof (induction as arbitrary: sel r)
  case (Cons a as)
  obtain b s1 where s1: "select_proof ps a True sel = (b, s1)" by fastforce
  obtain r' where r': "select_optimal ps as s1 = (r', sel')" "r = (if b then r' else a # r')"
    using Cons.prems s1 by (cases "select_optimal ps as s1") (auto split: bool.splits)
  from s1 have "worth s1 = worth sel + (if b then unat a else 0)" by (cases rule: select_proof_step) auto
  with Cons.IH [OF r'(1)] r'(2) show ?case by (auto split: if_split_asm)
qed simp

section \<open>Selections\<close>

lemma sort_descending_simps [simp]:
  "mset (sort_descending ps) = mset ps" "set (sort_descending ps) = set ps" "distinct (sort_descending ps) = distinct ps"
  by (simp_all add: sort_descending_def)

lemma descending_sort [simp]: "descending (sort_descending ps)"
proof -
  have "sorted (map (\<lambda>p. - uint (p_amount p)) (sort_descending ps))" by (simp add: sort_descending_def)
  then show ?thesis by (simp add: descending_def sorted_map word_le_def)
qed

lemma set_orderD:
  assumes "set_order order"
  shows "mset (order ps) = mset ps" "set (order ps) = set ps" "distinct (order ps) = distinct ps" "worth (order ps) = worth ps"
    "length (order ps) = length ps"
proof -
  show m: "mset (order ps) = mset ps" using assms by (simp add: set_order_def)
  then show "set (order ps) = set ps" "length (order ps) = length ps" by (metis set_mset_mset, metis size_mset)
  show "distinct (order ps) = distinct ps" using m by (rule mset_eq_imp_distinct_iff)
  show "worth (order ps) = worth ps" using m by (rule worth_cong)
qed

lemma picks_part:
  assumes "picks amount qs sel" and "distinct qs" and "set qs \<subseteq> set ps"
  shows "distinct sel \<and> set sel \<subseteq> set ps \<and> suffices amount sel"
proof -
  from assms(1) have m: "mset sel \<subseteq># mset qs" by (simp add: picks_def)
  then obtain rest where "mset qs = mset sel + rest" by (auto simp: subset_mset.le_iff_add)
  with assms(2) have "distinct sel" by (metis distinct_append ex_mset mset_append mset_eq_imp_distinct_iff)
  moreover have "set sel \<subseteq> set qs" using set_mset_mono [OF m] by simp
  ultimately show ?thesis using assms(1,3) by (auto simp: picks_def)
qed

definition inactive_of :: "keyset_id list \<Rightarrow> cashu_proof list \<Rightarrow> cashu_proof list" where
  "inactive_of ids ps = remdups (filter (\<lambda>p. \<not> is_active ids p) (sort_descending ps))"

lemma inactive_part: "distinct (inactive_of ids ps) \<and> set (inactive_of ids ps) \<subseteq> set (sort_descending ps)"
  by (auto simp: inactive_of_def)

lemma select_for_amount_part:
  assumes "set_order order" and "select_for_amount order amount ps ids fees = Inr (b, sel)"
  shows "distinct sel \<and> set sel \<subseteq> set ps \<and> (\<not> b \<longrightarrow> suffices amount sel)"
proof (cases "amount = 0")
  case True
  with assms(2) show ?thesis by (auto simp: select_for_amount_def suffices_def)
next
  case False
  note o = set_orderD [OF assms(1)]
  from False assms(2) consider "\<not> b" "select_least_amount_over (sort_descending (order (inactive_of ids ps))) amount = Inr sel"
    | as r s where "b" "select_optimal (sort_descending ps) as (inactive_of ids ps) = (r, s)"
        "sel = order s \<or> (let s1 = order (select_remaining (sort_descending ps) r s) in
           sel = s1 \<or> select_least_amount_over (sort_descending s1) amount = Inr sel)"
    unfolding select_for_amount_def inactive_of_def [symmetric] Let_def
    by (auto elim!: rbind_OkE simp: rmap_eq_Ok split: if_split_asm prod.splits)
  then show ?thesis
  proof cases
    case 1
    from picks_part [where ps = ps, OF least_amount_Ok [OF 1(2)]] inactive_part [of ids ps] show ?thesis by (simp add: o)
  next
    case (2 as r s)
    have s: "distinct s \<and> set s \<subseteq> set (sort_descending ps)" by (rule part.optimal_keeps [OF 2(2) inactive_part])
    have "distinct (select_remaining (sort_descending ps) r s) \<and> set (select_remaining (sort_descending ps) r s) \<subseteq> set (sort_descending ps)"
      by (rule part.remaining_keeps [OF s])
    with s 2(1,3) show ?thesis by (auto simp: Let_def o dest!: least_amount_Ok picks_part [where ps = ps])
  qed
qed

lemma covers_suffices:
  assumes "covers ps w sel" and "unat amount \<le> w" and "distinct ps" and "suffices amount ps"
  shows "suffices amount sel"
proof (cases "set ps \<subseteq> set sel")
  case True
  then have "worth ps \<le> worth sel" by (intro worth_mono distinct_subset_mset assms(3))
  with assms(4) show ?thesis by (simp add: suffices_def)
qed (use assms(1,2) in \<open>simp add: covers_def suffices_def\<close>)

lemma least_or_all:
  assumes "worth s < 2 ^ 64" and "suffices amount s"
  shows "\<exists>sel. (if c then select_least_amount_over (sort_descending s) amount else Inr s) = Inr sel \<and> suffices amount sel"
proof -
  have "worth (sort_descending s) = worth s" by (rule worth_cong) simp
  with assms least_amount_picks [of "sort_descending s" amount] show ?thesis by (auto simp: suffices_def picks_def)
qed

lemma select_for_amount_covers:
  assumes "set_order order" and "distinct ps" and "\<forall>p \<in> set ps. pow2 (p_amount p)" and "worth ps < 2 ^ 64"
    and "suffices amount ps" and "unat amount < 2 ^ 31" and "optimal_keyset ids fees = Some fa"
    and "\<forall>a \<in> set (fa_amounts fa). pow2 a" and "1 \<in> set (fa_amounts fa)"
  shows "\<exists>b sel. select_for_amount order amount ps ids fees = Inr (b, sel) \<and> suffices amount sel"
proof -
  note o = set_orderD [OF assms(1)]
  let ?ps = "sort_descending ps" and ?in = "inactive_of ids ps"
  have bound: "worth s < 2 ^ 64" if "distinct s" "set s \<subseteq> set ps" for s
    using worth_mono [OF distinct_subset_mset [OF that]] assms(4) by linarith
  have total: "wallet_total s = Inr (word_of_nat (worth s))" if "distinct s" "set s \<subseteq> set ps" for s
    using bound [OF that] by (simp add: wallet_total_eq)
  have all: "amount \<le> (word_of_nat (worth ps) :: u64)" using assms(4,5) by (simp add: total_suffices)
  have inp: "distinct ?in" "set ?in \<subseteq> set ps" using inactive_part [of ids ps] by auto
  have "0 \<notin> set (fa_amounts fa)" using assms(8) by (auto simp: pow2_def)
  with amount_split_complete [OF assms(9)] obtain as where as: "amount_split fa amount = Inr as" by blast
  note split = amount_split_Ok [OF as]
  have small: "unat a < 2 ^ 31" if "a \<in> set as" for a
    using member_le_sum_list [of "unat a" "map unat as"] that split(1) assms(6) by simp
  obtain r s where rs: "select_optimal ?ps as ?in = (r, s)" by fastforce
  have s: "distinct s" "set s \<subseteq> set ps" using part.optimal_keeps [OF rs inactive_part] by auto
  let ?s1 = "select_remaining ?ps r s"
  have s1: "distinct ?s1" "set ?s1 \<subseteq> set ps" using part.remaining_keeps [of s ?ps r] s by auto
  have need: "unat amount \<le> worth s + usum r" using optimal_effect [OF rs] split(1) by simp
  have "covers ?ps (worth s + usum r) ?s1"
    using assms(3,8) small split(2) optimal_effect [OF rs] by (intro remaining_covers) auto
  moreover have "suffices amount ?ps" using assms(5) worth_cong [of ?ps ps] by (simp add: suffices_def)
  ultimately have suff: "suffices amount ?s1" using covers_suffices need assms(2) by simp
  have tin: "amount \<le> (word_of_nat (worth ?in) :: u64) \<longleftrightarrow> suffices amount ?in" by (rule total_suffices [OF bound [OF inp]])
  consider "amount = 0" | "amount \<noteq> 0" "suffices amount ?in" | "amount \<noteq> 0" "\<not> suffices amount ?in" by blast
  then show ?thesis
  proof cases
    case 1
    then show ?thesis by (auto simp: select_for_amount_def suffices_def)
  next
    case 2
    have "suffices amount (order ?in)" "worth (order ?in) < 2 ^ 64" using 2(2) bound [OF inp] by (simp_all add: suffices_def o)
    from least_or_all [OF this(2,1), where c = True]
    obtain sel where "select_least_amount_over (sort_descending (order ?in)) amount = Inr sel" "suffices amount sel" by auto
    with 2 all total [OF assms(2)] total [OF inp] show ?thesis
      unfolding select_for_amount_def inactive_of_def [symmetric] Let_def by (auto simp: tin)
  next
    case 3
    let ?c = "\<lambda>t. (word_of_nat t :: u64) \<noteq> amount \<and> length (order ?s1) > 1"
    have "suffices amount (order ?s1)" "worth (order ?s1) < 2 ^ 64" using suff bound [OF s1] by (simp_all add: suffices_def o)
    from least_or_all [OF this(2,1), where c = "?c (worth ?s1)"] obtain sel where
      sel: "(if ?c (worth ?s1) then select_least_amount_over (sort_descending (order ?s1)) amount else Inr (order ?s1)) = Inr sel"
        "suffices amount sel" by blast
    have "wallet_total (order ?s1) = Inr (word_of_nat (worth ?s1))" using total [of "order ?s1"] s1 by (simp add: o)
    moreover have "r = [] \<Longrightarrow> suffices amount (order s)" using need by (simp add: suffices_def o)
    ultimately show ?thesis using 3 all sel total [OF assms(2)] total [OF inp]
      unfolding select_for_amount_def inactive_of_def [symmetric] Let_def
      by (cases "r = []") (auto simp: tin assms(7) as rs)
  qed
qed

section \<open>Fees\<close>

text \<open>The selection is worth the amount and its own fee.\<close>

definition covers_with_fee :: "u64 \<Rightarrow> keyset_fee_and_amounts \<Rightarrow> cashu_proof list \<Rightarrow> bool" where
  "covers_with_fee amount fees sel \<longleftrightarrow> (case calculate_fee (count_by_keyset sel) (map (map_prod id fa_fee) fees) of
       Inr fb \<Rightarrow> unat amount + unat (fb_total fb) \<le> worth sel
     | Inl _ \<Rightarrow> False)"

lemma net_amount_covers: "net_amount_of fees sel = Inr net \<Longrightarrow> amount \<le> net \<Longrightarrow> covers_with_fee amount fees sel"
  by (auto simp: net_amount_of_def rbind_eq_Ok map_err_eq_Ok amount_sub_def ok_or_eq_Ok u64_simps wallet_total_eq unat_worth
      covers_with_fee_def word_le_nat_alt split: if_split_asm)

lemma include_fees_loop_returns:
  assumes "set_order order"
  shows "length remaining < fuel \<Longrightarrow> distinct selected \<Longrightarrow> set selected \<inter> set remaining = {} \<Longrightarrow>
    \<exists>r. include_fees_loop fuel order amount ids fees remaining selected = Some r \<and>
      (\<forall>sel. r = Inr sel \<longrightarrow> distinct sel \<and> set sel \<subseteq> set selected \<union> set remaining \<and> covers_with_fee amount fees sel)"
proof (induction fuel arbitrary: remaining selected)
  case (Suc fuel)
  show ?case
  proof (cases "\<exists>net add. net_amount_of fees selected = Inr net \<and> \<not> amount \<le> net \<and> remaining \<noteq> [] \<and> add \<noteq> [] \<and>
      rbind (map_err E_AmountError (amount_sub amount net)) (\<lambda>shortfall.
        rmap snd (select_for_amount order shortfall remaining ids fees)) = Inr add")
    case False
    then show ?thesis using Suc.prems net_amount_covers [of fees selected _ amount]
      by (auto split: sum.splits)
  next
    case True
    then obtain net add sh b where net: "net_amount_of fees selected = Inr net" "\<not> amount \<le> net" "remaining \<noteq> []" "add \<noteq> []"
      "rbind (map_err E_AmountError (amount_sub amount net)) (\<lambda>shortfall. rmap snd (select_for_amount order shortfall remaining ids fees)) = Inr add"
      "select_for_amount order sh remaining ids fees = Inr (b, add)" by (auto elim!: rbind_OkE simp: rmap_eq_Ok)
    have add: "distinct add" "set add \<subseteq> set remaining" using select_for_amount_part [OF assms net(6)] by auto
    let ?rest = "filter (\<lambda>p. p \<notin> set add) remaining"
    have "length ?rest < length remaining"
      using add(2) net(4) by (intro length_filter_less [of "hd add"]) auto
    with Suc.prems(1) have "length ?rest < fuel" by simp
    moreover have "distinct (selected @ add)" using Suc.prems(2,3) add by auto
    moreover have "set (selected @ add) \<inter> set ?rest = {}" using Suc.prems(3) by auto
    ultimately obtain r where "include_fees_loop fuel order amount ids fees ?rest (selected @ add) = Some r"
      "\<forall>sel. r = Inr sel \<longrightarrow> distinct sel \<and> set sel \<subseteq> set (selected @ add) \<union> set ?rest \<and> covers_with_fee amount fees sel"
      using Suc.IH by blast
    with net(1-5) add(2) show ?thesis by auto
  qed
qed simp

lemma include_fees_returns:
  assumes "set_order order" and "distinct selected" and "set selected \<subseteq> set ps"
  shows "\<exists>r. include_fees order amount ps selected ids fees = Some r \<and>
    (\<forall>sel. r = Inr sel \<longrightarrow> distinct sel \<and> set sel \<subseteq> set ps \<and> covers_with_fee amount fees sel)"
proof (cases "\<exists>net. net_amount_of fees selected = Inr net \<and> \<not> amount \<le> net")
  case True
  then obtain net where net: "net_amount_of fees selected = Inr net" "\<not> amount \<le> net" by blast
  let ?rest = "filter (\<lambda>p. p \<notin> set selected) ps"
  have "\<exists>r. include_fees_loop (Suc (length ?rest)) order amount ids fees ?rest selected = Some r \<and>
      (\<forall>sel. r = Inr sel \<longrightarrow> distinct sel \<and> set sel \<subseteq> set selected \<union> set ?rest \<and> covers_with_fee amount fees sel)"
    using assms by (intro include_fees_loop_returns) auto
  with net assms(3) show ?thesis by (auto simp: include_fees_def Let_def simp del: include_fees_loop.simps)
next
  case False
  with assms net_amount_covers [of fees selected _ amount] show ?thesis
    by (auto simp: include_fees_def Let_def split: sum.splits simp del: include_fees_loop.simps)
qed

section \<open>What the wallet relies on\<close>

text \<open>
  C15. A wallet that has the funds gets a selection: when the proofs are distinct, are powers of two and
  are worth the amount, the amount is below 2 to the 31 and the keyset splits amounts into powers of two
  down to one, \<open>select_proofs\<close> succeeds, for every iteration order of its hash sets, with a selection
  without repetitions from these proofs that is worth at least the amount.
\<close>
theorem select_proofs_covers:
  assumes "set_order order" and "distinct ps" and "\<forall>p \<in> set ps. pow2 (p_amount p)" and "worth ps < 2 ^ 64"
    and "unat amount \<le> worth ps" and "unat amount < 2 ^ 31" and "optimal_keyset ids fees = Some fa"
    and "\<forall>a \<in> set (fa_amounts fa). pow2 a" and "1 \<in> set (fa_amounts fa)"
  shows "\<exists>sel. select_proofs order amount ps ids fees False = Some (Inr sel) \<and>
    distinct sel \<and> set sel \<subseteq> set ps \<and> unat amount \<le> worth sel"
proof -
  from select_for_amount_covers [OF assms(1-4) _ assms(6-9)] assms(5) obtain b sel where
    s: "select_for_amount order amount ps ids fees = Inr (b, sel)" "suffices amount sel" by (auto simp: suffices_def)
  with select_for_amount_part [OF assms(1) s(1)] show ?thesis by (simp add: select_proofs_def suffices_def)
qed

text \<open>
  C16. Selecting with fees always returns -- its loop ends within one round per proof -- and when it returns
  proofs they are a selection without repetitions of the given ones that is worth the amount and, unless the
  amount is zero or the proofs of inactive keysets alone are worth it, also the fee of spending the
  selection.
\<close>
theorem select_proofs_with_fees:
  assumes "set_order order"
  shows "\<exists>r. select_proofs order amount ps ids fees True = Some r \<and>
    (\<forall>sel. r = Inr sel \<longrightarrow> distinct sel \<and> set sel \<subseteq> set ps \<and> unat amount \<le> worth sel \<and>
      (amount = 0 \<or> unat amount \<le> worth (inactive_of ids ps) \<or> covers_with_fee amount fees sel))"
proof (cases "select_for_amount order amount ps ids fees")
  case (Inl e)
  then show ?thesis by (simp add: select_proofs_def)
next
  case (Inr x)
  obtain b s where s: "select_for_amount order amount ps ids fees = Inr (b, s)" using Inr by (cases x) auto
  note part = select_for_amount_part [OF assms s]
  show ?thesis
  proof (cases b)
    case True
    from include_fees_returns [OF assms, of s "sort_descending ps" amount ids fees] part obtain r where
      r: "include_fees order amount (sort_descending ps) s ids fees = Some r"
        "\<And>sel. r = Inr sel \<Longrightarrow> distinct sel \<and> set sel \<subseteq> set ps \<and> covers_with_fee amount fees sel" by auto
    with s True show ?thesis by (auto simp: select_proofs_def covers_with_fee_def split: sum.splits)
  next
    case False
    have "amount = 0 \<or> unat amount \<le> worth (inactive_of ids ps)"
      using s False unfolding select_for_amount_def inactive_of_def [symmetric] Let_def
      by (auto elim!: rbind_OkE simp: rmap_eq_Ok wallet_total_eq total_suffices suffices_def split: if_split_asm prod.splits)
    with s False part show ?thesis by (auto simp: select_proofs_def suffices_def)
  qed
qed

lemma sorted_last: "xs \<noteq> [] \<Longrightarrow> sorted (map f xs) \<Longrightarrow> q \<in> set (butlast xs) \<Longrightarrow> f q \<le> f (last xs)"
  by (cases xs rule: rev_cases) (auto simp: sorted_append)

lemma mset_last_butlast: "xs \<noteq> [] \<Longrightarrow> mset (last xs # butlast xs) = mset xs"
  by (cases xs rule: rev_cases) auto

lemma exchange_largest_exact:
  assumes "exchange_largest amount fees sel = (ins, ex)"
  shows "case ex of
      None \<Rightarrow> mset ins = mset sel
    | Some (p, a) \<Rightarrow> mset (p # ins) = mset sel \<and> (\<forall>q \<in> set ins. p_amount q \<le> p_amount p) \<and>
        worth ins + unat a + unat (exchange_fee fees p) = unat amount \<and> unat a + unat (exchange_fee fees p) < unat (p_amount p)"
proof (cases ex)
  case None
  moreover have "sort_key p_amount sel \<noteq> [] \<Longrightarrow> mset (butlast (sort_key p_amount sel) @ [last (sort_key p_amount sel)]) = mset sel"
    using mset_last_butlast [of "sort_key p_amount sel"] by simp
  moreover have "sort_key p_amount sel = [] \<Longrightarrow> sel = []" by (metis length_0_conv length_sort)
  ultimately show ?thesis using assms by (auto simp: exchange_largest_def Let_def split: if_split_asm option.splits)
next
  case (Some pa)
  obtain p a where pa: "pa = (p, a)" by fastforce
  let ?s = "sort_key p_amount sel"
  from assms Some pa obtain t where t: "t = (case total_amount sel of Inr t \<Rightarrow> t | Inl _ \<Rightarrow> 0)" "amount < t" "?s \<noteq> []"
    "p = last ?s" "ins = butlast ?s" "exact_amount_to_melt amount t fees p = Some a"
    by (auto simp: exchange_largest_def Let_def split: if_split_asm option.splits)
  have tot: "unat t = worth sel" using t(1,2) total_amount_Ok [of sel t] by (cases "total_amount sel") (auto simp: worth_def)
  have m: "mset (p # ins) = mset sel" unfolding t(4,5) mset_last_butlast [OF t(3)] by simp
  have w: "worth sel = unat (p_amount p) + worth ins" using worth_cong [OF m] by simp
  have "worth ins + unat a + unat (exchange_fee fees p) = unat amount"
    using t(6) tot w by (auto simp: exact_amount_to_melt_def bind_eq_Some_conv u64_simps)
  moreover have "unat amount < worth sel" using t(2) tot by (simp add: word_less_nat_alt)
  moreover have "\<forall>q \<in> set ins. p_amount q \<le> p_amount p" using t(3-5) sorted_last [of ?s p_amount] by simp
  ultimately show ?thesis using Some pa m w by auto
qed

text \<open>
  What \<open>select_exact_proofs\<close> returns: the selection of \<open>select_proofs\<close>, whole, or with its largest
  proof taken out for an exchange. In that case the kept proofs, the amount to exchange and the fee of
  the exchange add up to exactly the requested amount, and the proof to exchange pays for both.
\<close>
theorem select_exact_proofs_exact:
  assumes "select_exact_proofs order amount ps ids fees with_fees = Some (Inr (ins, ex))"
  shows "\<exists>sel. select_proofs order amount ps ids fees with_fees = Some (Inr sel) \<and> (case ex of
      None \<Rightarrow> mset ins = mset sel
    | Some (p, a) \<Rightarrow> mset (p # ins) = mset sel \<and> (\<forall>q \<in> set ins. p_amount q \<le> p_amount p) \<and>
        worth ins + unat a + unat (exchange_fee fees p) = unat amount \<and> unat a + unat (exchange_fee fees p) < unat (p_amount p))"
proof -
  from assms obtain sel where "select_proofs order amount ps ids fees with_fees = Some (Inr sel)" "exchange_largest amount fees sel = (ins, ex)"
    by (auto simp: select_exact_proofs_def rmap_eq_Ok)
  with exchange_largest_exact [OF this(2)] show ?thesis by blast
qed

section \<open>A small wallet\<close>

definition demo_keyset :: keyset_id where
  "demo_keyset = Id Version00 (V1 (replicate 7 0))"

definition demo_coin :: "u64 \<Rightarrow> char \<Rightarrow> cashu_proof" where
  "demo_coin a c = new_proof a demo_keyset [c] (demo_pt 3)"

definition demo_fees :: keyset_fee_and_amounts where
  "demo_fees = [(demo_keyset, \<lparr> fa_fee = 400, fa_amounts = [1, 2, 4, 8, 16, 32, 64, 4294967296] \<rparr>)]"

definition demo_wallet :: "cashu_proof list" where
  "demo_wallet = [demo_coin 8 CHR ''a'', demo_coin 1 CHR ''b'', demo_coin 4 CHR ''c'', demo_coin 1 CHR ''d'']"

text \<open>
  Two wallets that have the funds and are told that the selection succeeded with less: a single
  proof of 2 to the 33 and an amount of 2 to the 32, for which the counter of the halving loop wraps to zero and
  nothing is selected, and two proofs of 3, which is not a power of two, and an amount of 5.
\<close>
lemma select_proofs_falls_short:
  "select_proofs id 4294967296 [demo_coin 8589934592 CHR ''a''] [demo_keyset] demo_fees False = Some (Inr []) \<and>
   select_proofs id 5 [demo_coin 3 CHR ''a'', demo_coin 3 CHR ''b''] [demo_keyset] demo_fees False = Some (Inr [demo_coin 3 CHR ''b''])"
  by code_simp

lemma demo_pow2: "pow2 1" "pow2 2" "pow2 4" "pow2 8" "pow2 16" "pow2 32" "pow2 64" "pow2 4294967296"
proof -
  have "unat (1 :: u64) = 2 ^ 0" "unat (2 :: u64) = 2 ^ 1" "unat (4 :: u64) = 2 ^ 2" "unat (8 :: u64) = 2 ^ 3" "unat (16 :: u64) = 2 ^ 4"
    "unat (32 :: u64) = 2 ^ 5" "unat (64 :: u64) = 2 ^ 6" "unat (4294967296 :: u64) = 2 ^ 32" by simp_all
  then show "pow2 1" "pow2 2" "pow2 4" "pow2 8" "pow2 16" "pow2 32" "pow2 64" "pow2 4294967296" unfolding pow2_def by blast+
qed

theorem select_proofs_covers_witness:
  "\<exists>sel. select_proofs rev 3 demo_wallet [demo_keyset] demo_fees False = Some (Inr sel) \<and> 3 \<le> worth sel"
proof -
  let ?fa = "\<lparr> fa_fee = 400, fa_amounts = [1, 2, 4, 8, 16, 32, 64, 4294967296] \<rparr>"
  have "set_order rev" by (simp add: set_order_def)
  moreover have "optimal_keyset [demo_keyset] demo_fees = Some ?fa" by code_simp
  moreover have "distinct demo_wallet" by code_simp
  moreover have "\<forall>p \<in> set demo_wallet. pow2 (p_amount p)" by (simp add: demo_wallet_def demo_coin_def new_proof_def demo_pow2)
  moreover have "\<forall>a \<in> set (fa_amounts ?fa). pow2 a" by (simp add: demo_pow2)
  moreover have "worth demo_wallet = 14" by (simp add: demo_wallet_def demo_coin_def new_proof_def)
  ultimately show ?thesis using select_proofs_covers [of rev demo_wallet 3 "[demo_keyset]" demo_fees ?fa] by auto
qed

theorem select_proofs_with_fees_witness:
  "\<exists>sel. select_proofs rev 9 demo_wallet [demo_keyset] demo_fees True = Some (Inr sel) \<and> covers_with_fee 9 demo_fees sel"
proof -
  let ?s = "select_proofs rev 9 demo_wallet [demo_keyset] demo_fees True"
  have "set_order rev" by (simp add: set_order_def)
  from select_proofs_with_fees [OF this, of 9 demo_wallet "[demo_keyset]" demo_fees] obtain r where r: "?s = Some r"
    "\<forall>sel. r = Inr sel \<longrightarrow> unat (9 :: u64) \<le> worth (inactive_of [demo_keyset] demo_wallet) \<or> covers_with_fee 9 demo_fees sel" by auto
  have "case ?s of Some (Inr sel) \<Rightarrow> True | _ \<Rightarrow> False" by code_simp
  moreover have "worth (inactive_of [demo_keyset] demo_wallet) = 0" by code_simp
  ultimately show ?thesis using r by (auto split: option.splits sum.splits)
qed

theorem select_exact_proofs_exact_witness:
  "\<exists>ins p a. select_exact_proofs rev 3 demo_wallet [demo_keyset] demo_fees False = Some (Inr (ins, Some (p, a))) \<and>
     worth ins + unat a + unat (exchange_fee demo_fees p) = 3"
proof -
  let ?s = "select_exact_proofs rev 3 demo_wallet [demo_keyset] demo_fees False"
  have "case ?s of Some (Inr (ins, Some (p, a))) \<Rightarrow> True | _ \<Rightarrow> False" by code_simp
  then obtain ins p a where s: "?s = Some (Inr (ins, Some (p, a)))" by (auto split: option.splits sum.splits prod.splits)
  from select_exact_proofs_exact [OF s] s show ?thesis by auto
qed

end
