(* ===== verification/Tlv.thy ===== *)
theory Tlv
  imports Externals
begin

text \<open>
  Framed bytes, after \<open>crates/cashu/src/nuts/nut26/encoding.rs\<close>: the reader and writer of fields
  with a one-byte tag and a two-byte length (\<open>TlvReader\<close>, \<open>TlvWriter\<close>), the tag tuples of a
  transport or a NUT-10 condition and the body of a NIP-19 profile. All three are read by a loop over a
  position in the bytes; the locale \<open>framed\<close> states what such a loop needs of the reading of one
  item and shows once that it reads back what was written, and it is interpreted on the three loops.
  A text is the list of its UTF-8 bytes; \<open>utf8_valid\<close> is the check of \<open>String::from_utf8\<close>.
\<close>

section \<open>Text\<close>

datatype nut26_error =
    N26_InvalidPrefix
  | N26_InvalidStructure
  | N26_InvalidLength
  | N26_InvalidUtf8
  | N26_InvalidPubkey
  | N26_UnknownKind u8
  | N26_TagTooLong
  | N26_Bech32Error
  | N26_Base64DecodeError
  | N26_CborError

definition as_bytes :: "string \<Rightarrow> bytes" where
  "as_bytes s = map byte_of_char s"

definition utf8_tail :: "u8 \<Rightarrow> bool" where
  "utf8_tail b \<longleftrightarrow> 0x80 \<le> b \<and> b \<le> 0xBF"

fun utf8_valid :: "bytes \<Rightarrow> bool" where
  "utf8_valid [] \<longleftrightarrow> True"
| "utf8_valid (a # bs) \<longleftrightarrow>
     (if a < 0x80 then utf8_valid bs
      else if 0xC2 \<le> a \<and> a \<le> 0xDF then
        (case bs of b # r \<Rightarrow> utf8_tail b \<and> utf8_valid r | _ \<Rightarrow> False)
      else if 0xE0 \<le> a \<and> a \<le> 0xEF then
        (case bs of b # c # r \<Rightarrow>
            utf8_tail b \<and> utf8_tail c \<and> (a = 0xE0 \<longrightarrow> 0xA0 \<le> b) \<and> (a = 0xED \<longrightarrow> b \<le> 0x9F) \<and> utf8_valid r
         | _ \<Rightarrow> False)
      else if 0xF0 \<le> a \<and> a \<le> 0xF4 then
        (case bs of b # c # d # r \<Rightarrow>
            utf8_tail b \<and> utf8_tail c \<and> utf8_tail d
            \<and> (a = 0xF0 \<longrightarrow> 0x90 \<le> b) \<and> (a = 0xF4 \<longrightarrow> b \<le> 0x8F) \<and> utf8_valid r
         | _ \<Rightarrow> False)
      else False)"

definition from_utf8 :: "bytes \<Rightarrow> nut26_error + string" where
  "from_utf8 bs = (if utf8_valid bs then Inr (map char_of_byte bs) else Inl N26_InvalidUtf8)"

text \<open>The invariant of a Rust \<open>String\<close>.\<close>

definition text_ok :: "string \<Rightarrow> bool" where
  "text_ok s \<longleftrightarrow> utf8_valid (as_bytes s)"

lemma length_as_bytes [simp]: "length (as_bytes s) = length s"
  by (simp add: as_bytes_def)

lemma from_utf8_as_bytes [simp]: "text_ok s \<Longrightarrow> from_utf8 (as_bytes s) = Inr s"
  by (simp add: from_utf8_def text_ok_def as_bytes_def comp_def)

lemma from_utf8_Ok: "from_utf8 bs = Inr s \<Longrightarrow> as_bytes s = bs \<and> text_ok s"
  by (auto simp: from_utf8_def text_ok_def as_bytes_def comp_def split: if_splits)

section \<open>Loops over framed bytes\<close>

fun fold_res :: "('s \<Rightarrow> 'i \<Rightarrow> 'e + 's) \<Rightarrow> 's \<Rightarrow> 'i list \<Rightarrow> 'e + 's" where
  "fold_res f s [] = Inr s"
| "fold_res f s (i # is) = rbind (f s i) (\<lambda>s'. fold_res f s' is)"

lemma fold_res_append: "fold_res f s (is @ js) = rbind (fold_res f s is) (\<lambda>s'. fold_res f s' js)"
  by (induction "is" arbitrary: s) (auto simp: rbind_def split: sum.splits)

lemma fold_res_total:
  "(\<And>s i. i \<in> set is \<Longrightarrow> f s i = Inr (g i s)) \<Longrightarrow> fold_res f s is = Inr (fold g is s)"
  by (induction "is" arbitrary: s) auto

text \<open>
  One item is read at a position (\<open>None\<close> at the end), and the loop feeds the items to its body until
  the end or an error. What is read back from a written item is that item, followed by the next.
\<close>

locale framed =
  fixes rd :: "bytes \<Rightarrow> nat \<Rightarrow> 'e + ('i \<times> nat) option"
    and body :: "'s \<Rightarrow> 'i \<Rightarrow> 'e + 's"
    and loop :: "bytes \<Rightarrow> nat \<Rightarrow> 's \<Rightarrow> 'e + 's"
    and wr :: "'i \<Rightarrow> bytes"
    and ok :: "'i \<Rightarrow> bool"
  assumes loop_unfold: "loop data p s = (case rd data p of
        Inl e \<Rightarrow> Inl e
      | Inr None \<Rightarrow> Inr s
      | Inr (Some (i, q)) \<Rightarrow> rbind (body s i) (loop data q))"
    and rd_end: "rd data (length data) = Inr None"
    and rd_wr: "ok i \<Longrightarrow> rd (pre @ wr i @ post) (length pre) = Inr (Some (i, length pre + length (wr i)))"
begin

lemma loop_written:
  assumes "list_all ok is"
  shows "loop (pre @ concat (map wr is)) (length pre) s = fold_res body s is"
  using assms
proof (induction "is" arbitrary: pre s)
  case Nil
  then show ?case using loop_unfold [of pre "length pre" s] rd_end [of pre] by simp
next
  case (Cons i "is")
  have "loop (pre @ concat (map wr (i # is))) (length pre) s
      = rbind (body s i) (loop (pre @ concat (map wr (i # is))) (length pre + length (wr i)))"
    using loop_unfold [of _ "length pre" s] rd_wr [of i pre "concat (map wr is)"] Cons.prems by simp
  also have "\<dots> = rbind (body s i) (\<lambda>s'. fold_res body s' is)"
    using Cons.IH [of "pre @ wr i"] Cons.prems by (auto simp: rbind_def split: sum.splits)
  finally show ?case by simp
qed

lemmas loop_all = loop_written [of _ "[]", simplified]

end

section \<open>Fields with a tag and a length\<close>

definition u16_be :: "nat \<Rightarrow> bytes" where
  "u16_be n = [of_nat (n div 256), of_nat n]"

definition u16_of_be :: "u8 \<Rightarrow> u8 \<Rightarrow> nat" where
  "u16_of_be a b = 256 * unat a + unat b"

record tlv_reader =
  rd_data :: bytes
  rd_position :: nat

definition tlv_reader_new :: "bytes \<Rightarrow> tlv_reader" where
  "tlv_reader_new data = \<lparr> rd_data = data, rd_position = 0 \<rparr>"

definition read_tlv :: "tlv_reader \<Rightarrow> nut26_error + ((u8 \<times> bytes) option \<times> tlv_reader)" where
  "read_tlv r = (let data = rd_data r; position = rd_position r in
     if position + 3 > length data then Inr (None, r)
     else let tag = data ! position;
              len = u16_of_be (data ! (position + 1)) (data ! (position + 2));
              position = position + 3
          in if position + len > length data then Inl N26_InvalidLength
             else Inr (Some (tag, take len (drop position data)), r\<lparr>rd_position := position + len\<rparr>))"

lemma read_tlv_progress:
  "read_tlv r = Inr (Some f, r') \<Longrightarrow>
     rd_data r' = rd_data r \<and> rd_position r < rd_position r' \<and> rd_position r' \<le> length (rd_data r)"
  by (auto simp: read_tlv_def Let_def split: if_splits)

text \<open>The loop \<open>while let Some((tag, value)) = reader.read_tlv()?\<close> with its body.\<close>

function tlv_while :: "('s \<Rightarrow> u8 \<times> bytes \<Rightarrow> nut26_error + 's) \<Rightarrow> tlv_reader \<Rightarrow> 's \<Rightarrow> nut26_error + 's" where
  "tlv_while body r s = (case read_tlv r of
        Inl e \<Rightarrow> Inl e
      | Inr (None, r') \<Rightarrow> Inr s
      | Inr (Some f, r') \<Rightarrow> (case body s f of Inl e \<Rightarrow> Inl e | Inr s' \<Rightarrow> tlv_while body r' s'))"
  by pat_completeness auto
termination
  by (relation "measure (\<lambda>(_, r, _). length (rd_data r) - rd_position r)")
     (auto dest!: read_tlv_progress)

declare tlv_while.simps [simp del]

definition write_tlv :: "bytes \<Rightarrow> u8 \<Rightarrow> bytes \<Rightarrow> bytes" where
  "write_tlv data tag value = data @ [tag] @ u16_be (length value mod 2 ^ 16) @ value"

text \<open>A field as it is written, and the reading of one field at a position.\<close>

definition tlv_field :: "u8 \<times> bytes \<Rightarrow> bytes" where
  "tlv_field f = fst f # u16_be (length (snd f) mod 2 ^ 16) @ snd f"

definition tlv_fields :: "(u8 \<times> bytes) list \<Rightarrow> bytes" where
  "tlv_fields fs = concat (map tlv_field fs)"

definition field_ok :: "u8 \<times> bytes \<Rightarrow> bool" where
  "field_ok f \<longleftrightarrow> length (snd f) < 2 ^ 16"

definition read_field :: "bytes \<Rightarrow> nat \<Rightarrow> nut26_error + ((u8 \<times> bytes) \<times> nat) option" where
  "read_field data p = rmap (\<lambda>(f, r). map_option (\<lambda>f. (f, rd_position r)) f)
     (read_tlv \<lparr> rd_data = data, rd_position = p \<rparr>)"

lemma write_tlv_field: "write_tlv data tag value = data @ tlv_field (tag, value)"
  by (simp add: write_tlv_def tlv_field_def)

lemma length_tlv_field [simp]: "length (tlv_field f) = 3 + length (snd f)"
  by (simp add: tlv_field_def u16_be_def)

lemma length_fields_bound: "f \<in> set fs \<Longrightarrow> length (snd f) + 3 \<le> length (tlv_fields fs)"
  by (induction fs) (auto simp: tlv_fields_def)

lemma fields_ok: "length (tlv_fields fs) < 2 ^ 16 \<Longrightarrow> list_all field_ok fs"
  using length_fields_bound by (fastforce simp: list_all_iff field_ok_def)

lemma u16_of_u16_be:
  assumes "n < 2 ^ 16"
  shows "u16_of_be (of_nat (n div 256)) (of_nat n) = n"
proof -
  have "n div 256 < 256" using assms by (simp add: div_less_iff_less_mult)
  then show ?thesis by (simp add: u16_of_be_def unsigned_of_nat take_bit_eq_mod)
qed

interpretation tlv: framed read_field body "\<lambda>data p s. tlv_while body \<lparr> rd_data = data, rd_position = p \<rparr> s"
    tlv_field field_ok for body
proof
  fix data :: bytes and p s
  show "tlv_while body \<lparr> rd_data = data, rd_position = p \<rparr> s = (case read_field data p of
        Inl e \<Rightarrow> Inl e
      | Inr None \<Rightarrow> Inr s
      | Inr (Some (i, q)) \<Rightarrow> rbind (body s i) (tlv_while body \<lparr> rd_data = data, rd_position = q \<rparr>))"
    by (subst tlv_while.simps)
       (auto simp: read_field_def rmap_def rbind_def read_tlv_def Let_def split: sum.splits)
next
  fix data :: bytes
  show "read_field data (length data) = Inr None"
    by (simp add: read_field_def read_tlv_def rmap_def)
next
  fix i and pre post :: bytes
  assume "field_ok i"
  then show "read_field (pre @ tlv_field i @ post) (length pre) = Inr (Some (i, length pre + length (tlv_field i)))"
    by (cases i) (simp add: read_field_def read_tlv_def rmap_def tlv_field_def u16_be_def field_ok_def
        nth_append u16_of_u16_be Let_def)
qed

lemma tlv_while_fields:
  "list_all field_ok fs \<Longrightarrow> tlv_while body (tlv_reader_new (tlv_fields fs)) s = fold_res body s fs"
  using tlv.loop_all [of fs body s] by (simp add: tlv_reader_new_def tlv_fields_def)

section \<open>Tag tuples\<close>

definition tag_part :: "string \<Rightarrow> bytes" where
  "tag_part s = of_nat (length s) # as_bytes s"

definition encode_tag_tuple :: "string list \<Rightarrow> nut26_error + bytes" where
  "encode_tag_tuple tag = (case tag of
       [] \<Rightarrow> Inl N26_InvalidStructure
     | key # values \<Rightarrow> Inr (tag_part key @ concat (map tag_part values)))"

text \<open>The value at a position and the loop over the values.\<close>

definition read_part :: "bytes \<Rightarrow> nat \<Rightarrow> nut26_error + (string \<times> nat) option" where
  "read_part bytes pos = (if pos < length bytes then
       let val_len = unat (bytes ! pos); pos = pos + 1 in
       if pos + val_len > length bytes then Inl N26_InvalidLength
       else rmap (\<lambda>value. Some (value, pos + val_len)) (from_utf8 (take val_len (drop pos bytes)))
     else Inr None)"

lemma read_part_progress: "read_part bytes pos = Inr (Some (v, q)) \<Longrightarrow> pos < q \<and> q \<le> length bytes"
  by (auto simp: read_part_def rmap_def Let_def split: if_splits sum.splits)

function tuple_values :: "bytes \<Rightarrow> nat \<Rightarrow> string list \<Rightarrow> nut26_error + string list" where
  "tuple_values bytes pos values = (case read_part bytes pos of
        Inl e \<Rightarrow> Inl e
      | Inr None \<Rightarrow> Inr values
      | Inr (Some (value, pos')) \<Rightarrow> tuple_values bytes pos' (values @ [value]))"
  by pat_completeness auto
termination
  by (relation "measure (\<lambda>(bytes, pos, _). length bytes - pos)") (auto dest!: read_part_progress)

declare tuple_values.simps [simp del]

definition decode_tag_tuple :: "bytes \<Rightarrow> nut26_error + (string \<times> string list)" where
  "decode_tag_tuple bytes = (if bytes = [] then Inl N26_InvalidLength
     else let key_len = unat (bytes ! 0) in
       if length bytes < 1 + key_len then Inl N26_InvalidLength
       else rbind (from_utf8 (take key_len (drop 1 bytes))) (\<lambda>key.
            rbind (tuple_values bytes (1 + key_len) []) (\<lambda>values. Inr (key, values))))"

definition part_ok :: "string \<Rightarrow> bool" where
  "part_ok s \<longleftrightarrow> text_ok s \<and> length s \<le> 255"

definition tag_ok :: "string list \<Rightarrow> bool" where
  "tag_ok tag \<longleftrightarrow> tag \<noteq> [] \<and> list_all part_ok tag"

lemma length_tag_part [simp]: "length (tag_part s) = 1 + length s"
  by (simp add: tag_part_def)

lemma unat_part_length: "length s \<le> 255 \<Longrightarrow> unat (of_nat (length s) :: u8) = length s"
  by (simp add: unsigned_of_nat take_bit_eq_mod)

interpretation parts: framed read_part "\<lambda>values v. Inr (values @ [v])" tuple_values tag_part part_ok
proof
  fix bytes pos "values"
  show "tuple_values bytes pos values = (case read_part bytes pos of
        Inl e \<Rightarrow> Inl e
      | Inr None \<Rightarrow> Inr values
      | Inr (Some (i, q)) \<Rightarrow> rbind (Inr (values @ [i])) (tuple_values bytes q))"
    by (subst tuple_values.simps) (auto split: sum.splits option.splits)
next
  fix i and pre post :: bytes
  assume "part_ok i"
  then show "read_part (pre @ tag_part i @ post) (length pre) = Inr (Some (i, length pre + length (tag_part i)))"
    by (simp add: read_part_def part_ok_def tag_part_def unat_part_length rmap_def Let_def)
qed (simp add: read_part_def)

lemma fold_snoc: "fold (\<lambda>v vs. vs @ [v]) xs acc = acc @ xs"
  by (induction xs arbitrary: acc) auto

definition tag_bytes :: "string list \<Rightarrow> bytes" where
  "tag_bytes tag = concat (map tag_part tag)"

lemma encode_tag_tuple_bytes: "tag \<noteq> [] \<Longrightarrow> encode_tag_tuple tag = Inr (tag_bytes tag)"
  by (cases tag) (simp_all add: encode_tag_tuple_def tag_bytes_def)

lemma decode_tag_bytes:
  assumes "tag_ok tag"
  shows "decode_tag_tuple (tag_bytes tag) = Inr (hd tag, tl tag)"
proof -
  obtain key "values" where tag: "tag = key # values" "part_ok key" "list_all part_ok values"
    using assms by (cases tag) (auto simp: tag_ok_def)
  have "tuple_values (tag_bytes tag) (1 + length key) [] = Inr values"
    using parts.loop_written [OF tag(3), of "tag_part key" "[]"] tag(1)
      fold_res_total [of "values" "\<lambda>vs v. Inr (vs @ [v])" "\<lambda>v vs. vs @ [v]" "[]"]
    by (simp add: fold_snoc tag_bytes_def)
  then show ?thesis
    using tag(1,2) by (simp add: decode_tag_tuple_def part_ok_def tag_part_def tag_bytes_def unat_part_length)
qed

lemma read_part_short: "read_part bs pos = Inr (Some (v, q)) \<Longrightarrow> length v \<le> 255"
  using unsigned_less [where 'b = 8 and 'a = nat, of "bs ! pos"]
  by (auto simp: read_part_def rmap_def from_utf8_def Let_def split: if_splits sum.splits)

lemma tuple_values_short:
  "tuple_values bs pos vs = Inr ws \<Longrightarrow> \<forall>v \<in> set vs. length v \<le> 255 \<Longrightarrow> \<forall>w \<in> set ws. length w \<le> 255"
proof (induction bs pos vs rule: tuple_values.induct)
  case (1 bs pos vs)
  show ?case
  proof (cases "\<exists>v q. read_part bs pos = Inr (Some (v, q))")
    case True
    then obtain v q where v: "read_part bs pos = Inr (Some (v, q))" by blast
    then show ?thesis
      using 1(1) [OF v] 1(2,3) read_part_short [OF v] tuple_values.simps [of bs pos vs] by auto
  next
    case False
    then show ?thesis using 1(2,3) tuple_values.simps [of bs pos vs] by (auto split: sum.splits option.splits)
  qed
qed

lemma decode_tag_tuple_short:
  assumes "decode_tag_tuple bs = Inr (k, vs)"
  shows "\<forall>s \<in> set (k # vs). length s \<le> 255"
proof -
  have "length k \<le> 255"
    using assms unsigned_less [where 'b = 8 and 'a = nat, of "bs ! 0"]
    by (auto simp: decode_tag_tuple_def rbind_eq_Ok from_utf8_def Let_def split: if_splits)
  moreover have "\<exists>pos. tuple_values bs pos [] = Inr vs"
    using assms by (auto simp: decode_tag_tuple_def rbind_eq_Ok Let_def split: if_splits)
  ultimately show ?thesis using tuple_values_short by fastforce
qed

section \<open>Profiles of NIP-19\<close>

text \<open>
  Bech32 is a third-party package: encoding bytes under a human-readable part (with the checksum of
  Bech32, and in upper case with that of Bech32m), and decoding either. Encoding fails when the
  text gets too long, which is always the case for 64 KiB and more.
\<close>

record bech32 =
  b_encode :: "string \<Rightarrow> bytes \<Rightarrow> string option"
  b_encode_upper_m :: "string \<Rightarrow> bytes \<Rightarrow> string option"
  b_decode :: "string \<Rightarrow> (string \<times> bytes) option"

definition ascii_lower :: "char \<Rightarrow> char" where
  "ascii_lower c = (let b = byte_of_char c in if 65 \<le> b \<and> b \<le> 90 then char_of_byte (b + 32) else c)"

definition eq_ignore_ascii_case :: "string \<Rightarrow> string \<Rightarrow> bool" where
  "eq_ignore_ascii_case s t \<longleftrightarrow> map ascii_lower s = map ascii_lower t"

definition bech32_law :: "bech32 \<Rightarrow> bool" where
  "bech32_law B \<longleftrightarrow>
     (\<forall>b s. b_encode B ''nprofile'' b = Some s \<longrightarrow> b_decode B s = Some (''nprofile'', b))
     \<and> (\<forall>b s. b_encode_upper_m B ''creqb'' b = Some s \<longrightarrow>
          b_decode B s = Some (''CREQB'', b) \<and> length b < 2 ^ 16 \<and> take 5 s = ''CREQB'')"

definition encode_nprofile :: "bech32 \<Rightarrow> bytes \<Rightarrow> string list \<Rightarrow> nut26_error + string" where
  "encode_nprofile B pubkey relays = (if length pubkey \<noteq> 32 then Inl N26_InvalidLength
     else rbind (fold_res (\<lambda>tlv_bytes relay.
            if length relay > 255 then Inl N26_TagTooLong
            else Inr (tlv_bytes @ [1, of_nat (length relay)] @ as_bytes relay)) ([0, 32] @ pubkey) relays)
       (\<lambda>tlv_bytes. ok_or N26_InvalidStructure (b_encode B ''nprofile'' tlv_bytes)))"

definition read_nip19 :: "bytes \<Rightarrow> nat \<Rightarrow> nut26_error + ((u8 \<times> bytes) \<times> nat) option" where
  "read_nip19 data pos = (if pos < length data then
       if pos + 2 > length data then Inr None
       else let tag = data ! pos; len = unat (data ! (pos + 1)); pos = pos + 2 in
         if pos + len > length data then Inl N26_InvalidLength
         else Inr (Some ((tag, take len (drop pos data)), pos + len))
     else Inr None)"

definition nprofile_field ::
  "bytes option \<times> string list \<Rightarrow> u8 \<times> bytes \<Rightarrow> nut26_error + bytes option \<times> string list" where
  "nprofile_field s f = (case (s, f) of ((pubkey, relays), tag, value) \<Rightarrow>
     if tag = 0 then (if length value \<noteq> 32 then Inl N26_InvalidLength else Inr (Some value, relays))
     else if tag = 1 then rmap (\<lambda>relay. (pubkey, relays @ [relay])) (from_utf8 value)
     else Inr (pubkey, relays))"

lemma read_nip19_progress: "read_nip19 data pos = Inr (Some (f, q)) \<Longrightarrow> pos < q \<and> q \<le> length data"
  by (auto simp: read_nip19_def Let_def split: if_splits)

function nprofile_loop ::
  "bytes \<Rightarrow> nat \<Rightarrow> bytes option \<times> string list \<Rightarrow> nut26_error + bytes option \<times> string list" where
  "nprofile_loop data pos s = (case read_nip19 data pos of
        Inl e \<Rightarrow> Inl e
      | Inr None \<Rightarrow> Inr s
      | Inr (Some (f, pos')) \<Rightarrow> (case nprofile_field s f of Inl e \<Rightarrow> Inl e | Inr s' \<Rightarrow> nprofile_loop data pos' s'))"
  by pat_completeness auto
termination
  by (relation "measure (\<lambda>(data, pos, _). length data - pos)") (auto dest!: read_nip19_progress)

declare nprofile_loop.simps [simp del]

definition decode_nprofile :: "bech32 \<Rightarrow> string \<Rightarrow> nut26_error + bytes \<times> string list" where
  "decode_nprofile B nprofile = (case b_decode B nprofile of
       None \<Rightarrow> Inl N26_Bech32Error
     | Some (hrp, data) \<Rightarrow>
         if hrp \<noteq> ''nprofile'' then Inl N26_InvalidStructure
         else rbind (nprofile_loop data 0 (None, [])) (\<lambda>(pubkey, relays).
              rbind (ok_or N26_InvalidStructure pubkey) (\<lambda>pubkey. Inr (pubkey, relays))))"

definition nip19_field :: "u8 \<times> bytes \<Rightarrow> bytes" where
  "nip19_field f = [fst f, of_nat (length (snd f))] @ snd f"

definition nip19_ok :: "u8 \<times> bytes \<Rightarrow> bool" where
  "nip19_ok f \<longleftrightarrow> length (snd f) \<le> 255"

interpretation nip19: framed read_nip19 nprofile_field nprofile_loop nip19_field nip19_ok
proof
  fix data pos s
  show "nprofile_loop data pos s = (case read_nip19 data pos of
        Inl e \<Rightarrow> Inl e
      | Inr None \<Rightarrow> Inr s
      | Inr (Some (i, q)) \<Rightarrow> rbind (nprofile_field s i) (nprofile_loop data q))"
    by (subst nprofile_loop.simps) (auto simp: rbind_def split: sum.splits option.splits)
next
  fix i and pre post :: bytes
  assume "nip19_ok i"
  then show "read_nip19 (pre @ nip19_field i @ post) (length pre) = Inr (Some (i, length pre + length (nip19_field i)))"
    by (cases i) (simp add: read_nip19_def nip19_ok_def nip19_field_def nth_append unsigned_of_nat take_bit_eq_mod Let_def)
qed (simp add: read_nip19_def)

lemma nprofile_relays:
  "list_all part_ok relays \<Longrightarrow>
     fold_res nprofile_field (pk, rs) (map (\<lambda>r. (1, as_bytes r)) relays) = Inr (pk, rs @ relays)"
  by (induction relays arbitrary: rs) (auto simp: nprofile_field_def part_ok_def rmap_def)

lemma nprofile_bytes:
  assumes "list_all part_ok relays"
  shows "fold_res (\<lambda>tlv_bytes relay.
            if length relay > 255 then Inl N26_TagTooLong
            else Inr (tlv_bytes @ [1, of_nat (length relay)] @ as_bytes relay)) bs relays
       = Inr (bs @ concat (map nip19_field (map (\<lambda>r. (1, as_bytes r)) relays)))"
  using assms by (induction relays arbitrary: bs) (auto simp: part_ok_def nip19_field_def)

lemma decode_encode_nprofile:
  assumes "bech32_law B" and "list_all part_ok relays" and "encode_nprofile B pubkey relays = Inr s"
  shows "decode_nprofile B s = Inr (pubkey, relays)"
proof -
  let ?fs = "(0, pubkey) # map (\<lambda>r. (1, as_bytes r)) relays"
  have len: "length pubkey = 32" using assms(3) by (auto simp: encode_nprofile_def split: if_splits)
  then have "b_encode B ''nprofile'' (concat (map nip19_field ?fs)) = Some s"
    using assms(2,3)
    by (simp add: encode_nprofile_def nprofile_bytes nip19_field_def ok_or_def split: option.splits)
  then have dec: "b_decode B s = Some (''nprofile'', concat (map nip19_field ?fs))"
    using assms(1) by (auto simp: bech32_law_def)
  have "list_all nip19_ok ?fs"
    using assms(2) len by (auto simp: list_all_iff nip19_ok_def part_ok_def)
  then have "nprofile_loop (concat (map nip19_field ?fs)) 0 (None, []) = Inr (Some pubkey, relays)"
    using nprofile_relays [OF assms(2), of "Some pubkey" "[]"] len
    by (simp only: nip19.loop_all) (simp add: nprofile_field_def)
  then show ?thesis using dec len by (simp add: decode_nprofile_def ok_or_def)
qed

lemma nprofile_field_ok:
  assumes "nprofile_field (pk, rs) f = Inr (pk', rs')" and "length (snd f) \<le> 255"
    and "pred_option (\<lambda>k. length k = 32) pk" and "list_all part_ok rs"
  shows "pred_option (\<lambda>k. length k = 32) pk' \<and> list_all part_ok rs'"
  using assms
  by (cases f) (auto simp: nprofile_field_def rmap_def part_ok_def dest!: from_utf8_Ok split: if_splits sum.splits)

lemma nprofile_loop_ok:
  assumes "nprofile_loop data pos s = Inr (pk', rs')"
    and "pred_option (\<lambda>k. length k = 32) (fst s)" and "list_all part_ok (snd s)"
  shows "pred_option (\<lambda>k. length k = 32) pk' \<and> list_all part_ok rs'"
  using assms
proof (induction data pos s rule: nprofile_loop.induct)
  case (1 data pos s)
  show ?case
  proof (cases "read_nip19 data pos")
    case (Inr r)
    show ?thesis
    proof (cases r)
      case None
      then show ?thesis using 1 Inr by (subst (asm) (2) nprofile_loop.simps) simp
    next
      case (Some fq)
      then obtain f q where r: "read_nip19 data pos = Inr (Some (f, q))" using Inr by (cases fq) simp
      then obtain s' where s': "nprofile_field s f = Inr s'" "nprofile_loop data q s' = Inr (pk', rs')"
        using 1(2) nprofile_loop.simps [of data pos s] by (auto split: sum.splits)
      have "length (snd f) \<le> 255"
        using r unsigned_less [where 'b = 8 and 'a = nat, of "data ! (pos + 1)"]
        by (auto simp: read_nip19_def Let_def split: if_splits)
      then show ?thesis
        using 1(1) [OF r _ _ s'(1)] s' 1(3,4) nprofile_field_ok [of "fst s" "snd s" f "fst s'" "snd s'"] by simp
    qed
  next
    case (Inl e)
    then show ?thesis using 1(2) nprofile_loop.simps [of data pos s] by simp
  qed
qed

lemma decode_nprofile_ok:
  "decode_nprofile B s = Inr (pk, rs) \<Longrightarrow> length pk = 32 \<and> list_all part_ok rs"
  by (auto simp: decode_nprofile_def rbind_eq_Ok ok_or_def split: option.splits if_splits dest!: nprofile_loop_ok)

end
