(* ===== verification/Serde.thy ===== *)
theory Serde
  imports "HOL-Library.Countable" Tlv Spending_Conditions
begin

text \<open>
  What is written of the program's values before a text format turns it into bytes, and how it is read
  back: the \<open>Serialize\<close> and \<open>Deserialize\<close> implementations, derived or written by hand, of the types a
  token consists of (\<open>crates/cashu/src/amount.rs\<close>, \<open>secret.rs\<close> and under \<open>nuts\<close> \<open>nut00/mod.rs\<close>,
  \<open>nut01\<close>, \<open>nut02.rs\<close>, \<open>nut11\<close>, \<open>nut12.rs\<close> and \<open>nut14\<close>). A writer gives a value of the data model below, a reader
  takes one; both are options, and an error is None. CBOR, JSON and base64 themselves are the
  parameter \<open>F\<close>, functions on such values. A structure is written as a map and read from one, with the
  rules of the derived readers: unknown names are skipped, a repeated known name is an error, a missing
  optional field is None. (The positional form, which the derived readers take from a JSON array, and the
  map form of the variant of an enumeration are left out.) The flag \<open>human\<close> is \<open>is_human_readable\<close>: true of JSON, false of CBOR. The locale
  \<open>serde_roundtrip\<close> is the contract of a type that is read back as it was written.
\<close>

section \<open>The data model\<close>

datatype serde_value =
    V_Null
  | V_Bool bool
  | V_Num u64
  | V_Text string
  | V_Bytes bytes
  | V_Array "serde_value list"
  | V_Map "(string \<times> serde_value) list"
  | V_Other

instance serde_value :: countable
  by countable_datatype

text \<open>
  Values that a format keeps: texts in UTF-8, no bytes in JSON, nothing outside the model, and nested
  at most \<open>n\<close> deep (both readers give up on deep nesting, JSON at 128).
\<close>

definition leaf_ok :: "bool \<Rightarrow> serde_value \<Rightarrow> bool" where
  "leaf_ok human v \<longleftrightarrow> (case v of
       V_Text s \<Rightarrow> text_ok s
     | V_Bytes _ \<Rightarrow> \<not> human
     | V_Array _ \<Rightarrow> False
     | V_Map _ \<Rightarrow> False
     | V_Other \<Rightarrow> False
     | _ \<Rightarrow> True)"

primrec value_ok :: "bool \<Rightarrow> nat \<Rightarrow> serde_value \<Rightarrow> bool" where
  "value_ok human 0 v \<longleftrightarrow> leaf_ok human v"
| "value_ok human (Suc n) v \<longleftrightarrow> (case v of
       V_Array vs \<Rightarrow> list_all (value_ok human n) vs
     | V_Map m \<Rightarrow> list_all (\<lambda>(k, v). text_ok k \<and> value_ok human n v) m
     | _ \<Rightarrow> leaf_ok human v)"

record formats =
  f_json_write :: "serde_value \<Rightarrow> string option"
  f_json_read :: "string \<Rightarrow> serde_value option"
  f_cbor_write :: "serde_value \<Rightarrow> bytes option"
  f_cbor_read :: "bytes \<Rightarrow> serde_value option"
  f_base64_encode :: "bytes \<Rightarrow> string"
  f_base64_decode :: "string \<Rightarrow> bytes option"
  f_sk_to_string :: "secret_key \<Rightarrow> string"
  f_sk_from_str :: "string \<Rightarrow> secret_key option"

text \<open>The formats write every value they keep and read it back.\<close>

definition formats_law :: "formats \<Rightarrow> bool" where
  "formats_law F \<longleftrightarrow>
     (\<forall>v. value_ok True 100 v \<longrightarrow> (\<exists>s. f_json_write F v = Some s \<and> text_ok s \<and> f_json_read F s = Some v)) \<and>
     (\<forall>v. value_ok False 100 v \<longrightarrow> (\<exists>b. f_cbor_write F v = Some b \<and> f_cbor_read F b = Some v)) \<and>
     (\<forall>b. f_base64_decode F (f_base64_encode F b) = Some b)"

section \<open>Readers\<close>

definition de_text :: "serde_value \<Rightarrow> string option" where
  "de_text v = (case v of V_Text s \<Rightarrow> Some s | _ \<Rightarrow> None)"

definition de_bool :: "serde_value \<Rightarrow> bool option" where
  "de_bool v = (case v of V_Bool b \<Rightarrow> Some b | _ \<Rightarrow> None)"

definition de_u64 :: "serde_value \<Rightarrow> u64 option" where
  "de_u64 v = (case v of V_Num n \<Rightarrow> Some n | _ \<Rightarrow> None)"

definition de_u8 :: "serde_value \<Rightarrow> u8 option" where
  "de_u8 v = (case v of V_Num n \<Rightarrow> if n < 256 then Some (ucast n) else None | _ \<Rightarrow> None)"

text \<open>A \<open>Vec\<close>: the elements of an array, or the bytes of a byte string as numbers.\<close>

definition de_vec :: "(serde_value \<Rightarrow> 'a option) \<Rightarrow> serde_value \<Rightarrow> 'a list option" where
  "de_vec f v = (case v of
       V_Array vs \<Rightarrow> those (map f vs)
     | V_Bytes bs \<Rightarrow> those (map (\<lambda>b. f (V_Num (ucast b))) bs)
     | _ \<Rightarrow> None)"

definition de_option :: "(serde_value \<Rightarrow> 'a option) \<Rightarrow> serde_value \<Rightarrow> 'a option option" where
  "de_option f v = (case v of V_Null \<Rightarrow> Some None | _ \<Rightarrow> map_option Some (f v))"

definition de_map :: "serde_value \<Rightarrow> (string \<times> serde_value) list option" where
  "de_map v = (case v of V_Map m \<Rightarrow> Some m | _ \<Rightarrow> None)"

definition entries :: "string \<Rightarrow> (string \<times> serde_value) list \<Rightarrow> serde_value list" where
  "entries name m = map snd (filter (\<lambda>e. fst e = name) m)"

definition get_field :: "string \<Rightarrow> (string \<times> serde_value) list \<Rightarrow> serde_value option option" where
  "get_field name m = (case entries name m of [] \<Rightarrow> Some None | [v] \<Rightarrow> Some (Some v) | _ \<Rightarrow> None)"

text \<open>A field that must be there, an optional field, and a list that is empty when it is not there.\<close>

definition de_field :: "string \<Rightarrow> (serde_value \<Rightarrow> 'a option) \<Rightarrow> (string \<times> serde_value) list \<Rightarrow> 'a option" where
  "de_field name f m = Option.bind (get_field name m) (\<lambda>v. Option.bind v f)"

definition de_missing :: "(serde_value \<Rightarrow> 'a option) \<Rightarrow> serde_value option \<Rightarrow> 'a option option" where
  "de_missing f v = (case v of None \<Rightarrow> Some None | Some v \<Rightarrow> de_option f v)"

definition de_field_opt :: "string \<Rightarrow> (serde_value \<Rightarrow> 'a option) \<Rightarrow> (string \<times> serde_value) list \<Rightarrow> 'a option option" where
  "de_field_opt name f m = Option.bind (get_field name m) (de_missing f)"

definition de_missing_list :: "(serde_value \<Rightarrow> 'a option) \<Rightarrow> serde_value option \<Rightarrow> 'a list option" where
  "de_missing_list f v = (case v of None \<Rightarrow> Some [] | Some v \<Rightarrow> de_vec f v)"

definition de_field_list :: "string \<Rightarrow> (serde_value \<Rightarrow> 'a option) \<Rightarrow> (string \<times> serde_value) list \<Rightarrow> 'a list option" where
  "de_field_list name f m = Option.bind (get_field name m) (de_missing_list f)"

section \<open>Writers\<close>

text \<open>An optional value, written as null or left out of its structure (\<open>skip_serializing_if\<close>).\<close>

definition ser_opt :: "('a \<Rightarrow> serde_value option) \<Rightarrow> 'a option \<Rightarrow> serde_value option option" where
  "ser_opt f v = (case v of None \<Rightarrow> Some None | Some x \<Rightarrow> map_option Some (f x))"

definition or_null :: "serde_value option \<Rightarrow> serde_value" where
  "or_null v = (case v of None \<Rightarrow> V_Null | Some v \<Rightarrow> v)"

definition opt_entry :: "string \<Rightarrow> serde_value option \<Rightarrow> (string \<times> serde_value) list" where
  "opt_entry name v = (case v of None \<Rightarrow> [] | Some v \<Rightarrow> [(name, v)])"

definition ser_vec :: "('a \<Rightarrow> serde_value option) \<Rightarrow> 'a list \<Rightarrow> serde_value option" where
  "ser_vec f xs = map_option V_Array (those (map f xs))"

text \<open>A list that is left out of its structure when it is empty.\<close>

definition unless_empty :: "('a \<Rightarrow> serde_value) \<Rightarrow> 'a list \<Rightarrow> serde_value option" where
  "unless_empty f xs = (if xs = [] then None else Some (V_Array (map f xs)))"

definition ser_texts :: "string list \<Rightarrow> serde_value" where
  "ser_texts ss = V_Array (map V_Text ss)"

definition de_texts :: "serde_value \<Rightarrow> string list option" where
  "de_texts v = de_vec de_text v"

section \<open>Keys, identifiers and units\<close>

definition ser_public_key :: "ext \<Rightarrow> public_key \<Rightarrow> serde_value" where
  "ser_public_key X k = V_Text (x_pk_to_string X k)"

definition de_public_key :: "ext \<Rightarrow> serde_value \<Rightarrow> public_key option" where
  "de_public_key X v = Option.bind (de_text v) (\<lambda>s. res_ok (pk_from_hex X s))"

definition serialize_v4_pubkey :: "public_key \<Rightarrow> serde_value" where
  "serialize_v4_pubkey k = V_Bytes k"

definition deserialize_v4_pubkey :: "ext \<Rightarrow> serde_value \<Rightarrow> public_key option" where
  "deserialize_v4_pubkey X v = Option.bind (de_vec de_u8 v) (x_pk_from_slice X)"

definition ser_secret_key :: "formats \<Rightarrow> bool \<Rightarrow> secret_key \<Rightarrow> serde_value" where
  "ser_secret_key F human k = (if human then V_Text (f_sk_to_string F k) else V_Bytes k)"

definition de_secret_key :: "ext \<Rightarrow> formats \<Rightarrow> bool \<Rightarrow> serde_value \<Rightarrow> secret_key option" where
  "de_secret_key X F human v = (if human then Option.bind (de_text v) (f_sk_from_str F)
     else (case v of V_Bytes b \<Rightarrow> x_sk_from_slice X b | _ \<Rightarrow> None))"

definition ser_short_keyset_id :: "short_keyset_id \<Rightarrow> serde_value" where
  "ser_short_keyset_id i = V_Text (short_display i)"

definition de_short_keyset_id :: "serde_value \<Rightarrow> short_keyset_id option" where
  "de_short_keyset_id v = Option.bind (de_text v) (\<lambda>s. res_ok (short_try_from s))"

definition serialize_v4_keyset_id :: "short_keyset_id \<Rightarrow> serde_value" where
  "serialize_v4_keyset_id i = V_Bytes (short_to_bytes i)"

definition deserialize_v4_keyset_id :: "serde_value \<Rightarrow> short_keyset_id option" where
  "deserialize_v4_keyset_id v = Option.bind (de_vec de_u8 v) (\<lambda>b. res_ok (short_from_bytes b))"

definition ser_currency_unit :: "ext \<Rightarrow> currency_unit \<Rightarrow> serde_value" where
  "ser_currency_unit X u = V_Text (x_to_lowercase X (unit_display X u))"

definition de_currency_unit :: "ext \<Rightarrow> serde_value \<Rightarrow> currency_unit option" where
  "de_currency_unit X v = map_option (unit_from_str X) (de_text v)"

section \<open>Witnesses and proofs\<close>

definition ser_proof_dleq :: "formats \<Rightarrow> bool \<Rightarrow> proof_dleq \<Rightarrow> serde_value" where
  "ser_proof_dleq F human d = V_Map [(''e'', ser_secret_key F human (pd_e d)), (''s'', ser_secret_key F human (pd_s d)),
     (''r'', ser_secret_key F human (pd_r d))]"

definition de_proof_dleq :: "ext \<Rightarrow> formats \<Rightarrow> bool \<Rightarrow> serde_value \<Rightarrow> proof_dleq option" where
  "de_proof_dleq X F human v =
     Option.bind (de_map v) (\<lambda>m.
     Option.bind (de_field ''e'' (de_secret_key X F human) m) (\<lambda>e.
     Option.bind (de_field ''s'' (de_secret_key X F human) m) (\<lambda>s.
     Option.bind (de_field ''r'' (de_secret_key X F human) m) (\<lambda>r.
     Some \<lparr> pd_e = e, pd_s = s, pd_r = r \<rparr>))))"

definition ser_htlc_witness :: "htlc_witness \<Rightarrow> serde_value" where
  "ser_htlc_witness w = V_Map ((''preimage'', V_Text (hw_preimage w)) # opt_entry ''signatures'' (map_option ser_texts (hw_signatures w)))"

definition de_htlc_witness :: "serde_value \<Rightarrow> htlc_witness option" where
  "de_htlc_witness v =
     Option.bind (de_map v) (\<lambda>m.
     Option.bind (de_field ''preimage'' de_text m) (\<lambda>preimage.
     Option.bind (de_field_opt ''signatures'' de_texts m) (\<lambda>signatures.
     Some \<lparr> hw_preimage = preimage, hw_signatures = signatures \<rparr>)))"

definition ser_p2pk_witness :: "string list \<Rightarrow> serde_value" where
  "ser_p2pk_witness sigs = V_Map [(''signatures'', ser_texts sigs)]"

definition de_p2pk_witness :: "serde_value \<Rightarrow> string list option" where
  "de_p2pk_witness v = Option.bind (de_map v) (de_field ''signatures'' de_texts)"

text \<open>A witness is a text of JSON; the reader of the untagged enumeration tries the variants in order.\<close>

definition ser_witness :: "formats \<Rightarrow> witness \<Rightarrow> serde_value option" where
  "ser_witness F w = map_option V_Text (f_json_write F (case w of
       HTLCWitness h \<Rightarrow> ser_htlc_witness h
     | P2PKWitness sigs \<Rightarrow> ser_p2pk_witness sigs))"

definition de_witness :: "formats \<Rightarrow> serde_value \<Rightarrow> witness option" where
  "de_witness F v = (let stringified = (\<lambda>de. Option.bind (Option.bind (de_text v) (f_json_read F)) de) in
     case stringified (\<lambda>j. map_option HTLCWitness (de_htlc_witness j)) of
       Some w \<Rightarrow> Some w
     | None \<Rightarrow> stringified (\<lambda>j. map_option P2PKWitness (de_p2pk_witness j)))"

definition ser_proof_v3 :: "ext \<Rightarrow> formats \<Rightarrow> bool \<Rightarrow> proof_v3 \<Rightarrow> serde_value option" where
  "ser_proof_v3 X F human p =
     Option.bind (ser_opt (ser_witness F) (p3_witness p)) (\<lambda>w.
     Some (V_Map ([(''amount'', V_Num (p3_amount p)), (''id'', ser_short_keyset_id (p3_keyset_id p)),
        (''secret'', V_Text (p3_secret p)), (''C'', ser_public_key X (p3_c p))]
        @ opt_entry ''witness'' w @ opt_entry ''dleq'' (map_option (ser_proof_dleq F human) (p3_dleq p)))))"

definition de_proof_v3 :: "ext \<Rightarrow> formats \<Rightarrow> bool \<Rightarrow> serde_value \<Rightarrow> proof_v3 option" where
  "de_proof_v3 X F human v =
     Option.bind (de_map v) (\<lambda>m.
     Option.bind (de_field ''amount'' de_u64 m) (\<lambda>a.
     Option.bind (de_field ''id'' de_short_keyset_id m) (\<lambda>i.
     Option.bind (de_field ''secret'' de_text m) (\<lambda>s.
     Option.bind (de_field ''C'' (de_public_key X) m) (\<lambda>c.
     Option.bind (de_field_opt ''witness'' (de_witness F) m) (\<lambda>w.
     Option.bind (de_field_opt ''dleq'' (de_proof_dleq X F human) m) (\<lambda>d.
     Some \<lparr> p3_amount = a, p3_keyset_id = i, p3_secret = s, p3_c = c, p3_witness = w, p3_dleq = d \<rparr>)))))))"

definition ser_proof_v4 :: "ext \<Rightarrow> formats \<Rightarrow> bool \<Rightarrow> proof_v4 \<Rightarrow> serde_value option" where
  "ser_proof_v4 X F human p =
     Option.bind (ser_opt (ser_witness F) (p4_witness p)) (\<lambda>w.
     Some (V_Map ([(''a'', V_Num (p4_amount p)), (''s'', V_Text (p4_secret p)), (''c'', serialize_v4_pubkey (p4_c p))]
        @ opt_entry ''witness'' w
        @ [(''d'', or_null (map_option (ser_proof_dleq F human) (p4_dleq p)))]
        @ opt_entry ''pe'' (map_option (ser_public_key X) (p4_p2pk_e p)))))"

definition de_proof_v4 :: "ext \<Rightarrow> formats \<Rightarrow> bool \<Rightarrow> serde_value \<Rightarrow> proof_v4 option" where
  "de_proof_v4 X F human v =
     Option.bind (de_map v) (\<lambda>m.
     Option.bind (de_field ''a'' de_u64 m) (\<lambda>a.
     Option.bind (de_field ''s'' de_text m) (\<lambda>s.
     Option.bind (de_field ''c'' (deserialize_v4_pubkey X) m) (\<lambda>c.
     Option.bind (de_field_opt ''witness'' (de_witness F) m) (\<lambda>w.
     Option.bind (de_field_opt ''d'' (de_proof_dleq X F human) m) (\<lambda>d.
     Option.bind (de_field_opt ''pe'' (de_public_key X) m) (\<lambda>e.
     Some \<lparr> p4_amount = a, p4_secret = s, p4_c = c, p4_witness = w, p4_dleq = d, p4_p2pk_e = e \<rparr>)))))))"

section \<open>Reading back\<close>

lemma leaf_ok_simps [simp]:
  "leaf_ok h V_Null" "leaf_ok h (V_Bool b)" "leaf_ok h (V_Num n)" "leaf_ok h (V_Text s) = text_ok s" "leaf_ok h (V_Bytes bs) = (\<not> h)"
  by (simp_all add: leaf_ok_def)

lemma leaf_value_ok: "leaf_ok h v \<Longrightarrow> value_ok h n v"
  by (cases n) (auto simp: leaf_ok_def split: serde_value.splits)

lemma value_ok_simps [simp]:
  "value_ok h n V_Null" "value_ok h n (V_Bool b)" "value_ok h n (V_Num k)"
  "value_ok h n (V_Text s) = text_ok s" "value_ok h n (V_Bytes bs) = (\<not> h)"
  "value_ok h (Suc n) (V_Array vs) = list_all (value_ok h n) vs"
  "value_ok h (Suc n) (V_Map m) = list_all (\<lambda>(k, v). text_ok k \<and> value_ok h n v) m"
  by (cases n; simp add: leaf_ok_def)+

declare value_ok.simps [simp del]

lemma value_ok_mono: "value_ok h n v \<Longrightarrow> n \<le> m \<Longrightarrow> value_ok h m v"
proof (induction n arbitrary: v m)
  case (Suc n)
  then obtain k where k: "m = Suc k" "n \<le> k" by (cases m) auto
  with Suc.IH have "\<And>v. value_ok h n v \<Longrightarrow> value_ok h k v" by blast
  with Suc.prems k show ?case by (cases v) (auto simp: list_all_iff leaf_value_ok value_ok.simps)
qed (simp add: leaf_value_ok value_ok.simps)

lemma entries_simps [simp]:
  "entries n [] = []" "entries n ((k, v) # m) = (if k = n then v # entries n m else entries n m)"
  "entries n (m @ m') = entries n m @ entries n m'"
  "entries n (opt_entry k None) = []"
  "entries n (opt_entry k (Some v)) = (if k = n then [v] else [])"
  by (simp_all add: entries_def opt_entry_def)

definition opt_list :: "'a option \<Rightarrow> 'a list" where
  "opt_list v = (case v of None \<Rightarrow> [] | Some x \<Rightarrow> [x])"

lemma entry_option: "entries n (opt_entry k vo) = (if k = n then opt_list vo else [])"
  by (cases vo) (simp_all add: opt_list_def)

lemma one_entry: "(case opt_list vo of [] \<Rightarrow> Some None | [v] \<Rightarrow> Some (Some v) | _ \<Rightarrow> None) = Some vo"
  by (cases vo) (simp_all add: opt_list_def)

lemma list_all_opt_entry: "list_all P (opt_entry k vo) \<longleftrightarrow> pred_option (\<lambda>v. P (k, v)) vo"
  by (cases vo) (simp_all add: opt_entry_def)

lemma de_texts_ser [simp]: "de_texts (ser_texts ss) = Some ss"
proof -
  have "those (map (de_text \<circ> V_Text) ss) = Some ss" by (induction ss) (simp_all add: de_text_def)
  then show ?thesis by (simp add: de_texts_def ser_texts_def de_vec_def)
qed

lemma ser_texts_ok: "list_all text_ok ss \<Longrightarrow> value_ok h (Suc n) (ser_texts ss)"
  by (simp add: ser_texts_def list_all_iff)

lemma de_bytes [simp]: "de_vec de_u8 (V_Bytes bs) = Some bs"
proof -
  have "(ucast (b :: u8) :: u64) < 256" for b
    using unsigned_less [where 'b = 8 and 'a = nat, of b] by (simp add: word_less_nat_alt unsigned_ucast_eq take_bit_nat_eq_self)
  moreover have "ucast (ucast b :: u64) = b" for b :: u8 by (rule bit_word_eqI) (simp add: bit_simps)
  ultimately have "de_u8 (V_Num (ucast b)) = Some b" for b by (simp add: de_u8_def)
  then have "those (map (\<lambda>b. de_u8 (V_Num (ucast b))) bs) = Some bs" by (induction bs) simp_all
  then show ?thesis by (simp add: de_vec_def)
qed

lemmas get_field_eval = get_field_def entry_option one_entry list_all_opt_entry
lemmas leaf_eval = de_text_def de_bool_def de_u64_def de_map_def

text \<open>
  The contract of a type in a format: a value of the type that is \<open>ok\<close> can be written, is nested at most
  \<open>depth\<close> deep, is not null, and is read back as \<open>norm\<close> of it. Then so are lists of such values and
  optional values, left out or null.
\<close>

locale serde_roundtrip =
  fixes human :: bool and depth :: nat
    and ser :: "'a \<Rightarrow> serde_value option" and de :: "serde_value \<Rightarrow> 'a option"
    and ok :: "'a \<Rightarrow> bool" and norm :: "'a \<Rightarrow> 'a"
  assumes roundtrip: "ok x \<Longrightarrow> \<exists>v. ser x = Some v \<and> value_ok human depth v \<and> v \<noteq> V_Null \<and> de v = Some (norm x)"
begin

lemma written:
  assumes "ok x" and "depth \<le> n"
  obtains v where "ser x = Some v" "value_ok human n v" "v \<noteq> V_Null" "de v = Some (norm x)"
  using roundtrip [OF assms(1)] value_ok_mono assms(2) by blast

lemma vec:
  assumes "list_all ok xs" and "depth < n"
  obtains v where "ser_vec ser xs = Some v" "value_ok human n v" "v \<noteq> V_Null" "de_vec de v = Some (map norm xs)"
proof -
  obtain k where k: "n = Suc k" "depth \<le> k" using assms(2) by (cases n) auto
  have "\<exists>vs. those (map ser xs) = Some vs \<and> list_all (value_ok human k) vs \<and> those (map de vs) = Some (map norm xs)"
    using assms(1)
  proof (induction xs)
    case (Cons x xs)
    then obtain vs where "those (map ser xs) = Some vs" "list_all (value_ok human k) vs" "those (map de vs) = Some (map norm xs)"
      by auto
    moreover obtain v where "ser x = Some v" "value_ok human k v" "de v = Some (norm x)"
      using Cons.prems written [OF _ k(2), of x] by auto
    ultimately show ?case by (intro exI [of _ "v # vs"]) simp
  qed simp
  then show thesis using that k(1) by (auto simp: ser_vec_def de_vec_def)
qed

lemma opt:
  assumes "pred_option ok x" and "depth \<le> n"
  obtains v where "ser_opt ser x = Some v" "pred_option (value_ok human n) v" "value_ok human n (or_null v)"
    "de_missing de v = Some (map_option norm x)" "de_option de (or_null v) = Some (map_option norm x)"
proof (cases x)
  case None
  then show thesis using that [of None] by (simp add: ser_opt_def de_missing_def de_option_def or_null_def)
next
  case (Some y)
  with assms obtain v where "ser y = Some v" "value_ok human n v" "v \<noteq> V_Null" "de v = Some (norm y)"
    using written [of y n] by auto
  moreover from this have "de_option de v = Some (Some (norm y))" by (cases v) (simp_all add: de_option_def)
  ultimately show thesis using that [of "Some v"] Some by (simp add: ser_opt_def de_missing_def or_null_def)
qed

end

lemma those_Some: "those (map (\<lambda>x. Some (f x)) xs) = Some (map f xs)"
  by (induction xs) simp_all

lemma ser_opt_Some: "ser_opt (\<lambda>x. Some (f x)) v = Some (map_option f v)"
  by (simp add: ser_opt_def split: option.split)

text \<open>The contract of a type whose writer cannot fail.\<close>

locale serde_total = serde_roundtrip human depth "\<lambda>x. Some (put x)" de ok norm
  for human depth and put :: "'a \<Rightarrow> serde_value" and de ok norm
begin

lemma total_written:
  assumes "ok x"
  shows "depth \<le> n \<Longrightarrow> value_ok human n (put x)" "de (put x) = Some (norm x)"
  using written [OF assms, of n] written [OF assms order_refl] by auto

lemma total_opt:
  assumes "pred_option ok x"
  shows "depth \<le> n \<Longrightarrow> pred_option (value_ok human n) (map_option put x)"
    "depth \<le> n \<Longrightarrow> value_ok human n (or_null (map_option put x))"
    "de_missing de (map_option put x) = Some (map_option norm x)"
    "de_option de (or_null (map_option put x)) = Some (map_option norm x)"
  using opt [OF assms, of n] opt [OF assms order_refl] by (auto simp: ser_opt_Some)

lemma total_list:
  assumes "list_all ok xs"
  shows "depth < n \<Longrightarrow> pred_option (value_ok human n) (unless_empty put xs)"
    "de_missing_list de (unless_empty put xs) = Some (map norm xs)"
  using vec [OF assms, of n] vec [OF assms lessI]
  by (auto simp: ser_vec_def those_Some unless_empty_def de_missing_list_def)

end

section \<open>The types of a token\<close>

text \<open>
  What the types of the program promise: a public key is read back from its bytes and its text, a secret
  key too, and a text is UTF-8. A short identifier has the seven bytes that the version of a real
  identifier gives it.
\<close>

definition public_key_ok :: "ext \<Rightarrow> public_key \<Rightarrow> bool" where
  "public_key_ok X k \<longleftrightarrow> x_pk_from_slice X k = Some k \<and> pk_text_law X k \<and> text_ok (x_pk_to_string X k)"

definition secret_key_ok :: "ext \<Rightarrow> formats \<Rightarrow> secret_key \<Rightarrow> bool" where
  "secret_key_ok X F k \<longleftrightarrow> x_sk_from_slice X k = Some k \<and> f_sk_from_str F (f_sk_to_string F k) = Some k \<and> text_ok (f_sk_to_string F k)"

definition short_id_ok :: "short_keyset_id \<Rightarrow> bool" where
  "short_id_ok i \<longleftrightarrow> length (sk_prefix i) = 7"

definition dleq_ok :: "ext \<Rightarrow> formats \<Rightarrow> proof_dleq \<Rightarrow> bool" where
  "dleq_ok X F d \<longleftrightarrow> secret_key_ok X F (pd_e d) \<and> secret_key_ok X F (pd_s d) \<and> secret_key_ok X F (pd_r d)"

definition witness_ok :: "witness \<Rightarrow> bool" where
  "witness_ok w \<longleftrightarrow> (case w of
       HTLCWitness h \<Rightarrow> text_ok (hw_preimage h) \<and> pred_option (list_all text_ok) (hw_signatures h)
     | P2PKWitness sigs \<Rightarrow> list_all text_ok sigs)"

definition proof_v3_ok :: "ext \<Rightarrow> formats \<Rightarrow> proof_v3 \<Rightarrow> bool" where
  "proof_v3_ok X F p \<longleftrightarrow> short_id_ok (p3_keyset_id p) \<and> text_ok (p3_secret p) \<and> public_key_ok X (p3_c p) \<and>
     pred_option witness_ok (p3_witness p) \<and> pred_option (dleq_ok X F) (p3_dleq p)"

definition proof_v4_ok :: "ext \<Rightarrow> formats \<Rightarrow> proof_v4 \<Rightarrow> bool" where
  "proof_v4_ok X F p \<longleftrightarrow> text_ok (p4_secret p) \<and> public_key_ok X (p4_c p) \<and>
     pred_option witness_ok (p4_witness p) \<and> pred_option (dleq_ok X F) (p4_dleq p) \<and> pred_option (public_key_ok X) (p4_p2pk_e p)"

text \<open>The unit a unit is read back as.\<close>

definition unit_read_back :: "ext \<Rightarrow> currency_unit \<Rightarrow> currency_unit" where
  "unit_read_back X u = unit_from_str X (x_to_lowercase X (unit_display X u))"

definition unit_text_ok :: "ext \<Rightarrow> currency_unit \<Rightarrow> bool" where
  "unit_text_ok X u \<longleftrightarrow> text_ok (x_to_lowercase X (unit_display X u))"

lemma text_ok_ascii: "is_ascii s \<Longrightarrow> text_ok s"
  by (induction s) (simp_all add: text_ok_def as_bytes_def is_ascii_def)

lemma encode_text [simp]: "text_ok (encode b)"
  by (rule text_ok_ascii) (use encode_ascii [of _ b] in \<open>auto simp: is_ascii_def list_all_iff\<close>)

lemma short_display_ascii: "is_ascii (short_display i)"
  by (simp add: short_display_def del: version_display.simps)

lemma short_id_text: "short_id_ok i \<Longrightarrow> short_try_from (short_display i) = Inr i"
  by (auto simp: short_id_ok_def short_try_from_def short_display_def simp del: version_display.simps)

lemma short_id_bytes [simp]: "short_from_bytes (short_to_bytes i) = Inr i"
  by (simp add: short_from_bytes_def short_to_bytes_def)

interpretation text_serde: serde_total human 0 V_Text de_text text_ok id
  for human
  by unfold_locales (simp add: de_text_def)

interpretation number_serde: serde_total human 0 V_Num de_u64 "\<lambda>n. True" id
  for human
  by unfold_locales (simp add: de_u64_def)

interpretation bool_serde: serde_total human 0 V_Bool de_bool "\<lambda>n. True" id
  for human
  by unfold_locales (simp add: de_bool_def)

interpretation texts_serde: serde_total human 1 ser_texts de_texts "list_all text_ok" id
  for human
proof
  fix ss assume "list_all text_ok ss"
  then show "\<exists>v. Some (ser_texts ss) = Some v \<and> value_ok human 1 v \<and> v \<noteq> V_Null \<and> de_texts v = Some (id ss)"
    using ser_texts_ok [of ss human 0] by (simp add: ser_texts_def [of ss, symmetric]) (simp add: ser_texts_def)
qed

interpretation unit_serde: serde_total human 0 "ser_currency_unit X" "de_currency_unit X" "unit_text_ok X" "unit_read_back X"
  for human X
  by unfold_locales (simp add: ser_currency_unit_def de_currency_unit_def unit_text_ok_def unit_read_back_def de_text_def)

interpretation key_serde: serde_total human 0 "ser_public_key X" "de_public_key X" "public_key_ok X" id
  for human X
  by unfold_locales
     (simp add: ser_public_key_def de_public_key_def public_key_ok_def pk_text_law_def pk_from_hex_def de_text_def res_ok_def ok_or_def)

interpretation v4_key_serde: serde_total False 0 serialize_v4_pubkey "deserialize_v4_pubkey X" "public_key_ok X" id
  for X
  by unfold_locales (simp add: deserialize_v4_pubkey_def serialize_v4_pubkey_def public_key_ok_def)

interpretation secret_serde: serde_total human 0 "ser_secret_key F human" "de_secret_key X F human" "secret_key_ok X F" id
  for human X F
  by unfold_locales (simp add: ser_secret_key_def de_secret_key_def secret_key_ok_def de_text_def)

interpretation short_id_serde: serde_total human 0 ser_short_keyset_id de_short_keyset_id short_id_ok id
  for human
  by unfold_locales
     (simp add: de_short_keyset_id_def ser_short_keyset_id_def de_text_def res_ok_def short_id_text text_ok_ascii short_display_ascii)

interpretation v4_short_id_serde: serde_total False 0 serialize_v4_keyset_id deserialize_v4_keyset_id "\<lambda>i. True" id
  by unfold_locales (simp add: serialize_v4_keyset_id_def deserialize_v4_keyset_id_def res_ok_def)

lemma text_ok_names [simp]:
  "text_ok ''e''" "text_ok ''s''" "text_ok ''r''" "text_ok ''preimage''" "text_ok ''signatures''" "text_ok ''amount''" "text_ok ''id''"
  "text_ok ''secret''" "text_ok ''C''" "text_ok ''witness''" "text_ok ''dleq''" "text_ok ''a''" "text_ok ''c''" "text_ok ''d''" "text_ok ''pe''"
  by (simp_all add: text_ok_def as_bytes_def byte_of_char_code)

lemmas field_eval = get_field_eval de_field_def de_field_opt_def de_field_list_def leaf_eval option.map_id list.map_id

interpretation dleq_serde: serde_total human 1 "ser_proof_dleq F human" "de_proof_dleq X F human" "dleq_ok X F" id
  for human X F
proof
  fix d assume "dleq_ok X F d"
  then show "\<exists>v. Some (ser_proof_dleq F human d) = Some v \<and> value_ok human 1 v \<and> v \<noteq> V_Null \<and> de_proof_dleq X F human v = Some (id d)"
    using secret_serde.total_written [of X F]
    by (simp add: ser_proof_dleq_def de_proof_dleq_def dleq_ok_def field_eval)
qed

lemma htlc_witness_value:
  assumes "text_ok (hw_preimage h)" and "pred_option (list_all text_ok) (hw_signatures h)"
  shows "value_ok human 2 (ser_htlc_witness h)" "de_htlc_witness (ser_htlc_witness h) = Some h"
  using assms(1) texts_serde.total_opt [OF assms(2)]
  by (simp_all add: ser_htlc_witness_def de_htlc_witness_def numeral_2_eq_2 field_eval)

lemma p2pk_witness_value:
  assumes "list_all text_ok sigs"
  shows "value_ok human 2 (ser_p2pk_witness sigs)" "de_p2pk_witness (ser_p2pk_witness sigs) = Some sigs"
    "de_htlc_witness (ser_p2pk_witness sigs) = None"
  using ser_texts_ok [OF assms, of human 0] assms
  by (simp_all add: ser_p2pk_witness_def de_p2pk_witness_def de_htlc_witness_def numeral_2_eq_2 field_eval)

lemma json_read_back:
  assumes "formats_law F" and "value_ok True 2 v"
  obtains s where "f_json_write F v = Some s" "text_ok s" "f_json_read F s = Some v"
proof -
  have "value_ok True 100 v" by (rule value_ok_mono [OF assms(2)]) simp
  with assms(1) that show thesis unfolding formats_law_def by blast
qed

interpretation witness_serde: serde_roundtrip human 0 "ser_witness F" "de_witness F" "\<lambda>w. formats_law F \<and> witness_ok w" id
  for human F
proof
  fix w assume "formats_law F \<and> witness_ok w"
  then have F: "formats_law F" and ok: "witness_ok w" by simp_all
  show "\<exists>v. ser_witness F w = Some v \<and> value_ok human 0 v \<and> v \<noteq> V_Null \<and> de_witness F v = Some (id w)"
  proof (cases w)
    case (HTLCWitness h)
    with ok have h: "text_ok (hw_preimage h)" "pred_option (list_all text_ok) (hw_signatures h)" by (simp_all add: witness_ok_def)
    from json_read_back [OF F htlc_witness_value(1) [OF h]] obtain s where
      "f_json_write F (ser_htlc_witness h) = Some s" "text_ok s" "f_json_read F s = Some (ser_htlc_witness h)" .
    then show ?thesis using HTLCWitness htlc_witness_value(2) [OF h] by (simp add: ser_witness_def de_witness_def de_text_def)
  next
    case (P2PKWitness sigs)
    with ok have sigs: "list_all text_ok sigs" by (simp add: witness_ok_def)
    from json_read_back [OF F p2pk_witness_value(1) [OF sigs]] obtain s where
      "f_json_write F (ser_p2pk_witness sigs) = Some s" "text_ok s" "f_json_read F s = Some (ser_p2pk_witness sigs)" .
    then show ?thesis using P2PKWitness p2pk_witness_value(2,3) [OF sigs] by (simp add: ser_witness_def de_witness_def de_text_def)
  qed
qed

interpretation proof_v3_serde: serde_roundtrip human 2 "ser_proof_v3 X F human" "de_proof_v3 X F human"
    "\<lambda>p. formats_law F \<and> proof_v3_ok X F p" id
  for human X F
proof
  fix p assume "formats_law F \<and> proof_v3_ok X F p"
  then have ok: "short_id_ok (p3_keyset_id p)" "text_ok (p3_secret p)" "public_key_ok X (p3_c p)"
    and w: "pred_option (\<lambda>w. formats_law F \<and> witness_ok w) (p3_witness p)" and d: "pred_option (dleq_ok X F) (p3_dleq p)"
    by (auto simp: proof_v3_ok_def split: option.splits elim: option.pred_mono_strong)
  obtain vw where "ser_opt (ser_witness F) (p3_witness p) = Some vw" "pred_option (value_ok human 1) vw"
    "de_missing (de_witness F) vw = Some (map_option id (p3_witness p))"
    by (rule witness_serde.opt [OF w, of 1 human]) simp
  then show "\<exists>v. ser_proof_v3 X F human p = Some v \<and> value_ok human 2 v \<and> v \<noteq> V_Null \<and> de_proof_v3 X F human v = Some (id p)"
    using ok(2) dleq_serde.total_opt [OF d] key_serde.total_written [OF ok(3)]
      short_id_serde.total_written [OF ok(1)]
    by (simp add: ser_proof_v3_def de_proof_v3_def numeral_2_eq_2 field_eval)
qed

interpretation proof_v4_serde: serde_roundtrip False 2 "ser_proof_v4 X F False" "de_proof_v4 X F False"
    "\<lambda>p. formats_law F \<and> proof_v4_ok X F p" id
  for X F
proof
  fix p assume "formats_law F \<and> proof_v4_ok X F p"
  then have ok: "text_ok (p4_secret p)" "public_key_ok X (p4_c p)"
    and w: "pred_option (\<lambda>w. formats_law F \<and> witness_ok w) (p4_witness p)" and d: "pred_option (dleq_ok X F) (p4_dleq p)"
    and e: "pred_option (public_key_ok X) (p4_p2pk_e p)"
    by (auto simp: proof_v4_ok_def split: option.splits elim: option.pred_mono_strong)
  obtain vw where "ser_opt (ser_witness F) (p4_witness p) = Some vw" "pred_option (value_ok False 1) vw"
    "de_missing (de_witness F) vw = Some (map_option id (p4_witness p))"
    by (rule witness_serde.opt [OF w, of 1 False]) simp
  then show "\<exists>v. ser_proof_v4 X F False p = Some v \<and> value_ok False 2 v \<and> v \<noteq> V_Null \<and> de_proof_v4 X F False v = Some (id p)"
    using ok(1) dleq_serde.total_opt [OF d] v4_key_serde.total_written [OF ok(2)] key_serde.total_opt [OF e]
    by (simp add: ser_proof_v4_def de_proof_v4_def numeral_2_eq_2 field_eval de_missing_def [of _ "Some _"])
qed

section \<open>Units\<close>

text \<open>What the standard library and the package of Unicode normalisation do to ASCII text.\<close>

definition ascii_upper :: "char \<Rightarrow> char" where
  "ascii_upper c = (let b = byte_of_char c in if 97 \<le> b \<and> b \<le> 122 then char_of_byte (b - 32) else c)"

definition ascii_case :: "ext \<Rightarrow> bool" where
  "ascii_case X \<longleftrightarrow> (\<forall>s. is_ascii s \<longrightarrow>
     x_to_lowercase X s = map ascii_lower s \<and> x_to_uppercase X s = map ascii_upper s \<and> x_nfc X s = s)"

definition named_units :: "currency_unit set" where
  "named_units = {Sat, Msat, Usd, Eur, Auth}"

lemma lower_shift:
  fixes b :: u8
  assumes "65 \<le> b" and "b \<le> 90"
  shows "97 \<le> b + 32" "b + 32 \<le> 122" "\<not> b + 32 \<le> 90" "b + 32 < 128" "\<not> 97 \<le> b" "b < 128"
proof -
  have b: "65 \<le> unat b" "unat b \<le> 90" using assms by (simp_all add: word_le_nat_alt)
  then have "unat (b + 32) = unat b + 32" by (simp add: unat_word_ariths)
  with b show "97 \<le> b + 32" "b + 32 \<le> 122" "\<not> b + 32 \<le> 90" "b + 32 < 128" "\<not> 97 \<le> b" "b < 128"
    by (simp_all add: word_le_nat_alt word_less_nat_alt)
qed

lemma ascii_case_chars:
  "byte_of_char (ascii_lower c) < 128 \<longleftrightarrow> byte_of_char c < 128" (is ?a) "ascii_lower (ascii_lower c) = ascii_lower c" (is ?b)
  "ascii_upper (ascii_lower c) = ascii_upper c" (is ?c) "byte_of_char d < 65 \<Longrightarrow> ascii_lower c = d \<longleftrightarrow> c = d" (is "_ \<Longrightarrow> ?d")
proof -
  have "?a \<and> ?b \<and> ?c \<and> (byte_of_char d < 65 \<longrightarrow> ?d)"
  proof (cases "65 \<le> byte_of_char c \<and> byte_of_char c \<le> 90")
    case True
    then have l: "ascii_lower c = char_of_byte (byte_of_char c + 32)" by (simp only: ascii_lower_def Let_def simp_thms if_True)
    note sh = lower_shift [OF conjunct1 [OF True] conjunct2 [OF True]]
    have "ascii_upper (char_of_byte (byte_of_char c + 32)) = c" "ascii_upper c = c"
      using sh(1,2,5) by (simp_all add: ascii_upper_def)
    moreover have "ascii_lower (char_of_byte (byte_of_char c + 32)) = char_of_byte (byte_of_char c + 32)"
      using sh(3) by (simp add: ascii_lower_def)
    moreover have "ascii_lower c \<noteq> d \<and> c \<noteq> d" if "byte_of_char d < 65"
      using that sh(1) True order_le_less_trans [of 97 "byte_of_char c + 32" 65] by (auto simp: l)
    ultimately show ?thesis using sh(4,6) by (simp add: l)
  next
    case False
    then have "ascii_lower c = c" by (simp only: ascii_lower_def Let_def simp_thms if_False)
    then show ?thesis by simp
  qed
  then show ?a ?b ?c "byte_of_char d < 65 \<Longrightarrow> ?d" by blast+
qed

lemma trim_custom_lower: "trim_custom (map ascii_lower s) = map ascii_lower (trim_custom s)"
proof -
  let ?ws = "\<lambda>c. c \<in> {CHR 0x20, CHR 0x09, CHR 0x0D, CHR 0x0A}"
  have "byte_of_char (CHR 0x20) < 65" "byte_of_char (CHR 0x09) < 65" "byte_of_char (CHR 0x0D) < 65" "byte_of_char (CHR 0x0A) < 65"
    by (simp_all add: byte_of_char_code)
  then have "?ws (ascii_lower c) \<longleftrightarrow> ?ws c" for c by (simp only: insert_iff empty_iff ascii_case_chars(4))
  then have "dropWhile ?ws (map ascii_lower t) = map ascii_lower (dropWhile ?ws t)" for t by (induction t) auto
  then show ?thesis by (simp add: trim_custom_def Let_def rev_map)
qed

lemma lower_ascii: "is_ascii s \<Longrightarrow> is_ascii (map ascii_lower s)"
  by (simp add: is_ascii_def list_all_iff ascii_case_chars(1))

text \<open>
  The named units are read back as themselves. A unit of another name in ASCII, without blanks around
  it, is read back in lower case: \<open>CurrencyUnit::custom\<close> makes upper-case names, which no text keeps.
\<close>

lemma unit_read_back_named:
  assumes "ascii_case X" and "u \<in> named_units"
  shows "unit_read_back X u = u" "unit_text_ok X u"
proof -
  have X: "x_to_lowercase X s = map ascii_lower s" "x_to_uppercase X s = map ascii_upper s" "x_nfc X s = s" if "is_ascii s" for s
    using assms(1) that by (simp_all add: ascii_case_def)
  show "unit_read_back X u = u" "unit_text_ok X u"
    using assms(2)
    by (auto simp: named_units_def unit_read_back_def unit_text_ok_def unit_display_def unit_from_str_def normalize_custom_unit_def
        trim_custom_def X is_ascii_def byte_of_char_code ascii_lower_def ascii_upper_def char_of_byte_code text_ok_def as_bytes_def)
qed

lemma unit_read_back_custom:
  assumes "ascii_case X" and "is_ascii c" and "trim_custom c = c"
    and "map ascii_upper c \<notin> {''SAT'', ''MSAT'', ''USD'', ''EUR'', ''AUTH''}"
  shows "unit_read_back X (Custom c) = Custom (map ascii_lower c)" "unit_text_ok X (Custom c)"
proof -
  have X: "x_to_lowercase X s = map ascii_lower s" "x_to_uppercase X s = map ascii_upper s" "x_nfc X s = s" if "is_ascii s" for s
    using assms(1) that by (simp_all add: ascii_case_def)
  have d: "x_to_lowercase X (unit_display X (Custom c)) = map ascii_lower c"
    using assms(2,3) by (simp add: unit_display_def normalize_custom_unit_def X lower_ascii comp_def ascii_case_chars(2))
  then show "unit_text_ok X (Custom c)" by (simp add: unit_text_ok_def text_ok_ascii lower_ascii assms(2))
  show "unit_read_back X (Custom c) = Custom (map ascii_lower c)"
    using assms(2-4)
    by (simp add: unit_read_back_def d unit_from_str_def normalize_custom_unit_def X lower_ascii trim_custom_lower comp_def ascii_case_chars(3))
qed

section \<open>A concrete instance\<close>

definition demo_formats :: formats where
  "demo_formats = \<lparr> f_json_write = (\<lambda>v. Some (replicate (to_nat v) CHR ''a'')), f_json_read = (\<lambda>s. Some (from_nat (length s))),
     f_cbor_write = (\<lambda>v. Some (replicate (to_nat v) 0)), f_cbor_read = (\<lambda>b. Some (from_nat (length b))),
     f_base64_encode = encode, f_base64_decode = (\<lambda>s. res_ok (decode s)),
     f_sk_to_string = encode, f_sk_from_str = (\<lambda>s. res_ok (decode s)) \<rparr>"

lemma demo_formats_law: "formats_law demo_formats"
proof -
  have "text_ok (replicate n CHR ''a'')" for n
    by (rule text_ok_ascii) (simp add: is_ascii_def list_all_iff byte_of_char_code)
  then show ?thesis by (simp add: formats_law_def demo_formats_def res_ok_def)
qed

definition demo_cased :: ext where
  "demo_cased = demo_ext\<lparr> x_to_lowercase := map ascii_lower, x_to_uppercase := map ascii_upper \<rparr>"

lemma demo_ascii_case: "ascii_case demo_cased"
  by (simp add: ascii_case_def demo_cased_def demo_ext_def)

lemma demo_public_key_ok: "public_key_ok demo_cased (demo_pt a)"
  by (simp add: public_key_ok_def pk_text_law_def demo_cased_def demo_ext_def demo_pt_def res_ok_def)

end
