(* ===== verification/Payment_Request.thy ===== *)
theory Payment_Request
  imports Serde
begin

text \<open>
  Payment requests, after \<open>crates/cashu/src/nuts/nut18\<close> (the data and the text of a request),
  \<open>crates/cashu/src/nuts/nut26/encoding.rs\<close> (the bytes of a request, its transports and its NUT-10
  condition) and \<open>crates/cashu/src/mint_url.rs\<close>. Bech32 is the parameter \<open>B\<close>, CBOR and base64
  (the older format) are in \<open>F\<close>; what is written of a request in CBOR is modelled. A writer is the bytes written so far; the variables of a reading
  loop are the record it fills.
\<close>

section \<open>Data\<close>

datatype transport_type = Nostr | HttpPost

record transport =
  t_type :: transport_type
  t_target :: string
  t_tags :: "string list list"

record nut10_secret_request =
  nr_kind :: kind
  nr_data :: string
  nr_tags :: "string list list option"

record payment_request =
  pr_payment_id :: "string option"
  pr_amount :: "u64 option"
  pr_unit :: "currency_unit option"
  pr_single_use :: "bool option"
  pr_mints :: "string list"
  pr_description :: "string option"
  pr_transports :: "transport list"
  pr_nut10 :: "nut10_secret_request option"

datatype tlv_unit = Tlv_Sat | Tlv_Custom string

definition tlv_unit_of :: "currency_unit \<Rightarrow> tlv_unit" where
  "tlv_unit_of u = (case u of
       Sat \<Rightarrow> Tlv_Sat
     | Msat \<Rightarrow> Tlv_Custom ''msat''
     | Usd \<Rightarrow> Tlv_Custom ''usd''
     | Eur \<Rightarrow> Tlv_Custom ''eur''
     | Custom c \<Rightarrow> Tlv_Custom c
     | Auth \<Rightarrow> Tlv_Custom ''auth'')"

definition unit_of_tlv :: "tlv_unit \<Rightarrow> currency_unit" where
  "unit_of_tlv u = (case u of
       Tlv_Sat \<Rightarrow> Sat
     | Tlv_Custom s \<Rightarrow>
         if s = ''msat'' then Msat
         else if s = ''usd'' then Usd
         else if s = ''eur'' then Eur
         else if s = ''auth'' then Auth
         else Custom s)"

definition transport_type_from_str :: "ext \<Rightarrow> string \<Rightarrow> transport_type option" where
  "transport_type_from_str X s = (let l = x_to_lowercase X s in
     if l = ''nostr'' then Some Nostr else if l = ''post'' then Some HttpPost else None)"

definition request_of_nut10 :: "nut10_secret \<Rightarrow> nut10_secret_request" where
  "request_of_nut10 s = \<lparr> nr_kind = n10_kind s, nr_data = sd_data (n10_secret_data s), nr_tags = sd_tags (n10_secret_data s) \<rparr>"

text \<open>\<open>Nut10Secret::new\<close> draws the nonce.\<close>

definition nut10_of_request :: "string \<Rightarrow> nut10_secret_request \<Rightarrow> nut10_secret" where
  "nut10_of_request nonce r =
     \<lparr> n10_kind = nr_kind r, n10_secret_data = \<lparr> sd_nonce = nonce, sd_data = nr_data r, sd_tags = nr_tags r \<rparr> \<rparr>"

section \<open>Mint URLs\<close>

fun split_scheme :: "string \<Rightarrow> string \<Rightarrow> string list" where
  "split_scheme part [] = [part]"
| "split_scheme part (c # cs) =
     (if take 3 (c # cs) = ''://'' then part # split_scheme [] (drop 2 cs)
      else split_scheme (part @ [c]) cs)"

fun split_slash :: "string \<Rightarrow> string \<Rightarrow> string list" where
  "split_slash part [] = [part]"
| "split_slash part (c # cs) =
     (if c = CHR ''/'' then part # split_slash [] cs else split_slash (part @ [c]) cs)"

fun join_slash :: "string list \<Rightarrow> string" where
  "join_slash [] = []"
| "join_slash [p] = p"
| "join_slash (p # q # ps) = p @ ''/'' @ join_slash (q # ps)"

definition trim_slashes :: "string \<Rightarrow> string" where
  "trim_slashes s = rev (dropWhile (\<lambda>c. c = CHR ''/'') (rev s))"

definition nth_part :: "nat \<Rightarrow> 'a list \<Rightarrow> 'a option" where
  "nth_part n xs = (if n < length xs then Some (xs ! n) else None)"

datatype mint_url_error = U_InvalidUrl

definition format_url :: "ext \<Rightarrow> string \<Rightarrow> mint_url_error + string" where
  "format_url X url =
     rbind (ensure_cdk (url \<noteq> []) U_InvalidUrl) (\<lambda>_.
     let url = trim_slashes url; parts = split_scheme [] url in
     rbind (ok_or U_InvalidUrl (nth_part 0 parts)) (\<lambda>protocol.
     rbind (ok_or U_InvalidUrl (nth_part 1 parts)) (\<lambda>rest.
     rbind (ok_or U_InvalidUrl (nth_part 0 (split_slash [] rest))) (\<lambda>host.
     let protocol = x_to_lowercase X protocol; host = x_to_lowercase X host;
         path = join_slash (drop 1 (split_slash [] rest));
         formatted_url = protocol @ ''://'' @ host
     in Inr (if path \<noteq> [] then formatted_url @ ''/'' @ path else formatted_url)))))"

definition mint_url_from_str :: "ext \<Rightarrow> string \<Rightarrow> mint_url_error + string" where
  "mint_url_from_str X url = (case format_url X url of Inr u \<Rightarrow> Inr u | Inl e \<Rightarrow> Inl U_InvalidUrl)"

section \<open>Transports\<close>

definition write_tag :: "bytes \<Rightarrow> string list \<Rightarrow> nut26_error + bytes" where
  "write_tag writer tag = rbind (encode_tag_tuple tag) (\<lambda>tag_bytes. Inr (write_tlv writer 3 tag_bytes))"

text \<open>The loop over the tags of a Nostr transport: the writer and the relays collected so far.\<close>

definition nostr_tag :: "bytes \<times> string list \<Rightarrow> string list \<Rightarrow> nut26_error + bytes \<times> string list" where
  "nostr_tag s tag = (case s of (writer, all_relays) \<Rightarrow>
     if tag = [] then Inr (writer, all_relays)
     else if tag ! 0 = ''n'' \<and> length tag \<ge> 2 then rmap (\<lambda>w. (w, all_relays)) (write_tag writer tag)
     else if tag ! 0 = ''relay'' \<and> length tag \<ge> 2 then Inr (writer, all_relays @ [tag ! 1])
     else rmap (\<lambda>w. (w, all_relays)) (write_tag writer tag))"

definition encode_transport :: "bech32 \<Rightarrow> transport \<Rightarrow> nut26_error + bytes" where
  "encode_transport B t = (case t_type t of
       Nostr \<Rightarrow>
         let writer = write_tlv [] 1 [0] in
         rbind (decode_nprofile B (t_target t)) (\<lambda>(pubkey, relays).
         let writer = write_tlv writer 2 pubkey in
         rbind (fold_res nostr_tag (writer, relays) (t_tags t)) (\<lambda>(writer, all_relays).
         fold_res (\<lambda>writer relay. write_tag writer [''r'', relay]) writer all_relays))
     | HttpPost \<Rightarrow>
         let writer = write_tlv (write_tlv [] 1 [1]) 2 (as_bytes (t_target t)) in
         fold_res (\<lambda>writer tag. if tag \<noteq> [] then write_tag writer tag else Inr writer) writer (t_tags t))"

record transport_vars =
  tv_kind :: "u8 option"
  tv_pubkey :: "bytes option"
  tv_tags :: "(string \<times> string list) list"
  tv_http_target :: "string option"

definition transport_field :: "transport_vars \<Rightarrow> u8 \<times> bytes \<Rightarrow> nut26_error + transport_vars" where
  "transport_field v f = (case f of (tag, value) \<Rightarrow>
     if tag = 1 then
       if tv_kind v \<noteq> None then Inl N26_InvalidStructure
       else if length value \<noteq> 1 then Inl N26_InvalidLength
       else Inr (v\<lparr>tv_kind := Some (value ! 0)\<rparr>)
     else if tag = 2 then
       (case tv_kind v of
          None \<Rightarrow> Inr v
        | Some k \<Rightarrow>
            if k = 0 then
              if length value \<noteq> 32 then Inl N26_InvalidLength else Inr (v\<lparr>tv_pubkey := Some value\<rparr>)
            else if k = 1 then rmap (\<lambda>u. v\<lparr>tv_http_target := Some u\<rparr>) (from_utf8 value)
            else Inl N26_InvalidStructure)
     else if tag = 3 then rmap (\<lambda>t. v\<lparr>tv_tags := tv_tags v @ [t]\<rparr>) (decode_tag_tuple value)
     else Inr v)"

definition transport_vars_new :: transport_vars where
  "transport_vars_new = \<lparr> tv_kind = None, tv_pubkey = None, tv_tags = [], tv_http_target = None \<rparr>"

definition transport_of_vars :: "bech32 \<Rightarrow> transport_vars \<Rightarrow> nut26_error + transport" where
  "transport_of_vars B v =
     rbind (ok_or N26_InvalidStructure (tv_kind v)) (\<lambda>kind.
     rbind (if kind = 0 then Inr Nostr else if kind = 1 then Inr HttpPost else Inl N26_InvalidStructure) (\<lambda>transport_type.
     let relays = concat (map snd (filter (\<lambda>(k, _). k = ''r'') (tv_tags v))) in
     rbind (case transport_type of
         Nostr \<Rightarrow> (case tv_pubkey v of Some pk \<Rightarrow> encode_nprofile B pk relays | None \<Rightarrow> Inl N26_InvalidStructure)
       | HttpPost \<Rightarrow> ok_or N26_InvalidStructure (tv_http_target v)) (\<lambda>target.
     Inr \<lparr> t_type = transport_type, t_target = target, t_tags = map (\<lambda>(k, v). k # v) (tv_tags v) \<rparr>)))"

definition decode_transport :: "bech32 \<Rightarrow> bytes \<Rightarrow> nut26_error + transport" where
  "decode_transport B bytes =
     rbind (tlv_while transport_field (tlv_reader_new bytes) transport_vars_new) (transport_of_vars B)"

section \<open>NUT-10 conditions\<close>

definition encode_nut10 :: "nut10_secret_request \<Rightarrow> nut26_error + bytes" where
  "encode_nut10 n =
     (let writer = write_tlv [] 1 [case nr_kind n of P2PK \<Rightarrow> 0 | HTLC \<Rightarrow> 1];
          writer = write_tlv writer 2 (as_bytes (nr_data n))
      in case nr_tags n of None \<Rightarrow> Inr writer | Some tags \<Rightarrow> fold_res write_tag writer tags)"

record nut10_vars =
  nv_kind :: "u8 option"
  nv_data :: "bytes option"
  nv_tags :: "(string \<times> string list) list"

definition nut10_field :: "nut10_vars \<Rightarrow> u8 \<times> bytes \<Rightarrow> nut26_error + nut10_vars" where
  "nut10_field v f = (case f of (tag, value) \<Rightarrow>
     if tag = 1 then
       if nv_kind v \<noteq> None then Inl N26_InvalidStructure
       else if length value \<noteq> 1 then Inl N26_InvalidLength
       else Inr (v\<lparr>nv_kind := Some (value ! 0)\<rparr>)
     else if tag = 2 then
       if nv_data v \<noteq> None then Inl N26_InvalidStructure else Inr (v\<lparr>nv_data := Some value\<rparr>)
     else if tag = 3 then rmap (\<lambda>t. v\<lparr>nv_tags := nv_tags v @ [t]\<rparr>) (decode_tag_tuple value)
     else Inr v)"

definition nut10_of_vars :: "nut10_vars \<Rightarrow> nut26_error + nut10_secret_request" where
  "nut10_of_vars v =
     rbind (ok_or N26_InvalidStructure (nv_kind v)) (\<lambda>kind_val.
     rbind (from_utf8 (case nv_data v of None \<Rightarrow> [] | Some d \<Rightarrow> d)) (\<lambda>data_str.
     rbind (if kind_val = 0 then Inr P2PK else if kind_val = 1 then Inr HTLC else Inl (N26_UnknownKind kind_val)) (\<lambda>kind_enum.
     Inr \<lparr> nr_kind = kind_enum, nr_data = data_str,
           nr_tags = (if nv_tags v = [] then None else Some (map (\<lambda>(k, v). k # v) (nv_tags v))) \<rparr>)))"

definition decode_nut10 :: "bytes \<Rightarrow> nut26_error + nut10_secret_request" where
  "decode_nut10 bytes =
     rbind (tlv_while nut10_field (tlv_reader_new bytes) \<lparr> nv_kind = None, nv_data = None, nv_tags = [] \<rparr>) nut10_of_vars"

section \<open>Requests\<close>

definition u64_be :: "u64 \<Rightarrow> bytes" where
  "u64_be w = map (\<lambda>i. ucast (drop_bit (8 * i) w)) [7, 6, 5, 4, 3, 2, 1, 0]"

definition u64_of_be :: "bytes \<Rightarrow> u64" where
  "u64_of_be bs = fold (\<lambda>b w. push_bit 8 w OR ucast b) bs 0"

definition write_opt :: "u8 \<Rightarrow> bytes option \<Rightarrow> bytes \<Rightarrow> bytes" where
  "write_opt tag v writer = (case v of None \<Rightarrow> writer | Some value \<Rightarrow> write_tlv writer tag value)"

definition unit_bytes :: "currency_unit \<Rightarrow> bytes" where
  "unit_bytes u = (case tlv_unit_of u of Tlv_Sat \<Rightarrow> [0] | Tlv_Custom s \<Rightarrow> as_bytes s)"

definition encode_tlv :: "bech32 \<Rightarrow> payment_request \<Rightarrow> nut26_error + bytes" where
  "encode_tlv B p =
     (let writer = write_opt 1 (map_option as_bytes (pr_payment_id p)) [];
          writer = write_opt 2 (map_option u64_be (pr_amount p)) writer;
          writer = write_opt 3 (map_option unit_bytes (pr_unit p)) writer;
          writer = write_opt 4 (map_option (\<lambda>b. [if b then 1 else 0]) (pr_single_use p)) writer;
          writer = foldl (\<lambda>writer mint. write_tlv writer 5 (as_bytes mint)) writer (pr_mints p);
          writer = write_opt 6 (map_option as_bytes (pr_description p)) writer
      in rbind (fold_res (\<lambda>writer t. rmap (write_tlv writer 7) (encode_transport B t)) writer (pr_transports p)) (\<lambda>writer.
         case pr_nut10 p of
           None \<Rightarrow> Inr writer
         | Some n \<Rightarrow> rmap (write_tlv writer 8) (encode_nut10 n)))"

definition request_field :: "ext \<Rightarrow> bech32 \<Rightarrow> payment_request \<Rightarrow> u8 \<times> bytes \<Rightarrow> nut26_error + payment_request" where
  "request_field X B p f = (case f of (tag, value) \<Rightarrow>
     if tag = 1 then
       if pr_payment_id p \<noteq> None then Inl N26_InvalidStructure
       else rmap (\<lambda>s. p\<lparr>pr_payment_id := Some s\<rparr>) (from_utf8 value)
     else if tag = 2 then
       if pr_amount p \<noteq> None then Inl N26_InvalidStructure
       else if length value \<noteq> 8 then Inl N26_InvalidLength
       else Inr (p\<lparr>pr_amount := Some (u64_of_be value)\<rparr>)
     else if tag = 3 then
       if pr_unit p \<noteq> None then Inl N26_InvalidStructure
       else if length value = 1 \<and> value ! 0 = 0 then Inr (p\<lparr>pr_unit := Some Sat\<rparr>)
       else rmap (\<lambda>s. p\<lparr>pr_unit := Some (unit_of_tlv (Tlv_Custom s))\<rparr>) (from_utf8 value)
     else if tag = 4 then
       if pr_single_use p \<noteq> None then Inl N26_InvalidStructure
       else Inr (if value \<noteq> [] then p\<lparr>pr_single_use := Some (value ! 0 \<noteq> 0)\<rparr> else p)
     else if tag = 5 then
       rbind (from_utf8 value) (\<lambda>s.
       rmap (\<lambda>u. p\<lparr>pr_mints := pr_mints p @ [u]\<rparr>) (map_err (\<lambda>_. N26_InvalidStructure) (mint_url_from_str X s)))
     else if tag = 6 then
       if pr_description p \<noteq> None then Inl N26_InvalidStructure
       else rmap (\<lambda>s. p\<lparr>pr_description := Some s\<rparr>) (from_utf8 value)
     else if tag = 7 then rmap (\<lambda>t. p\<lparr>pr_transports := pr_transports p @ [t]\<rparr>) (decode_transport B value)
     else if tag = 8 then rmap (\<lambda>n. p\<lparr>pr_nut10 := Some n\<rparr>) (decode_nut10 value)
     else Inr p)"

definition request_new :: payment_request where
  "request_new = \<lparr> pr_payment_id = None, pr_amount = None, pr_unit = None, pr_single_use = None, pr_mints = [],
     pr_description = None, pr_transports = [], pr_nut10 = None \<rparr>"

definition from_bech32_bytes :: "ext \<Rightarrow> bech32 \<Rightarrow> bytes \<Rightarrow> nut26_error + payment_request" where
  "from_bech32_bytes X B bytes = tlv_while (request_field X B) (tlv_reader_new bytes) request_new"

definition to_bech32_string :: "bech32 \<Rightarrow> payment_request \<Rightarrow> nut26_error + string" where
  "to_bech32_string B p =
     rbind (encode_tlv B p) (\<lambda>tlv_bytes. ok_or N26_InvalidStructure (b_encode_upper_m B ''creqb'' tlv_bytes))"

definition from_bech32_string :: "ext \<Rightarrow> bech32 \<Rightarrow> string \<Rightarrow> nut26_error + payment_request" where
  "from_bech32_string X B s = (case b_decode B s of
       None \<Rightarrow> Inl N26_Bech32Error
     | Some (hrp, data) \<Rightarrow>
         if \<not> eq_ignore_ascii_case hrp ''creqb'' then Inl N26_InvalidPrefix else from_bech32_bytes X B data)"


section \<open>The older text\<close>

definition ser_mint_url :: "string \<Rightarrow> serde_value" where
  "ser_mint_url url = V_Text url"

definition de_mint_url :: "ext \<Rightarrow> serde_value \<Rightarrow> string option" where
  "de_mint_url X v = Option.bind (de_text v) (\<lambda>s. res_ok (mint_url_from_str X s))"

definition ser_transport_type :: "transport_type \<Rightarrow> serde_value" where
  "ser_transport_type t = V_Text (case t of Nostr \<Rightarrow> ''nostr'' | HttpPost \<Rightarrow> ''post'')"

definition de_transport_type :: "serde_value \<Rightarrow> transport_type option" where
  "de_transport_type v = Option.bind (de_text v) (\<lambda>s.
     if s = ''nostr'' then Some Nostr else if s = ''post'' then Some HttpPost else None)"

definition ser_transport :: "transport \<Rightarrow> serde_value" where
  "ser_transport t = V_Map ([(''t'', ser_transport_type (t_type t)), (''a'', V_Text (t_target t))]
     @ opt_entry ''g'' (unless_empty ser_texts (t_tags t)))"

definition de_transport :: "serde_value \<Rightarrow> transport option" where
  "de_transport v =
     Option.bind (de_map v) (\<lambda>m.
     Option.bind (de_field ''t'' de_transport_type m) (\<lambda>t.
     Option.bind (de_field ''a'' de_text m) (\<lambda>target.
     Option.bind (de_field_list ''g'' de_texts m) (\<lambda>tags.
     Some \<lparr> t_type = t, t_target = target, t_tags = tags \<rparr>))))"

definition ser_kind :: "kind \<Rightarrow> serde_value" where
  "ser_kind k = V_Text (case k of P2PK \<Rightarrow> ''P2PK'' | HTLC \<Rightarrow> ''HTLC'')"

definition de_kind :: "serde_value \<Rightarrow> kind option" where
  "de_kind v = Option.bind (de_text v) (\<lambda>s. if s = ''P2PK'' then Some P2PK else if s = ''HTLC'' then Some HTLC else None)"

definition ser_text_lists :: "string list list \<Rightarrow> serde_value" where
  "ser_text_lists ts = V_Array (map ser_texts ts)"

definition ser_nut10_request :: "nut10_secret_request \<Rightarrow> serde_value" where
  "ser_nut10_request n = V_Map ([(''k'', ser_kind (nr_kind n)), (''d'', V_Text (nr_data n))]
     @ opt_entry ''t'' (map_option ser_text_lists (nr_tags n)))"

definition de_nut10_request :: "serde_value \<Rightarrow> nut10_secret_request option" where
  "de_nut10_request v =
     Option.bind (de_map v) (\<lambda>m.
     Option.bind (de_field ''k'' de_kind m) (\<lambda>k.
     Option.bind (de_field ''d'' de_text m) (\<lambda>d.
     Option.bind (de_field_opt ''t'' (de_vec de_texts) m) (\<lambda>t.
     Some \<lparr> nr_kind = k, nr_data = d, nr_tags = t \<rparr>))))"

definition ser_payment_request :: "ext \<Rightarrow> payment_request \<Rightarrow> serde_value" where
  "ser_payment_request X p = V_Map
     ([(''i'', or_null (map_option V_Text (pr_payment_id p))), (''a'', or_null (map_option V_Num (pr_amount p))),
       (''u'', or_null (map_option (ser_currency_unit X) (pr_unit p))), (''s'', or_null (map_option V_Bool (pr_single_use p)))]
      @ opt_entry ''m'' (unless_empty ser_mint_url (pr_mints p))
      @ [(''d'', or_null (map_option V_Text (pr_description p)))]
      @ opt_entry ''t'' (unless_empty ser_transport (pr_transports p))
      @ opt_entry ''nut10'' (map_option ser_nut10_request (pr_nut10 p)))"

definition de_payment_request :: "ext \<Rightarrow> serde_value \<Rightarrow> payment_request option" where
  "de_payment_request X v =
     Option.bind (de_map v) (\<lambda>m.
     Option.bind (de_field_opt ''i'' de_text m) (\<lambda>i.
     Option.bind (de_field_opt ''a'' de_u64 m) (\<lambda>a.
     Option.bind (de_field_opt ''u'' (de_currency_unit X) m) (\<lambda>u.
     Option.bind (de_field_opt ''s'' de_bool m) (\<lambda>s.
     Option.bind (de_field_list ''m'' (de_mint_url X) m) (\<lambda>mints.
     Option.bind (de_field_opt ''d'' de_text m) (\<lambda>d.
     Option.bind (de_field_list ''t'' de_transport m) (\<lambda>t.
     Option.bind (de_field_opt ''nut10'' de_nut10_request m) (\<lambda>n.
     Some \<lparr> pr_payment_id = i, pr_amount = a, pr_unit = u, pr_single_use = s, pr_mints = mints,
       pr_description = d, pr_transports = t, pr_nut10 = n \<rparr>)))))))))"

text \<open>The text of a request: CBOR in base64 under the prefix \<open>creqA\<close>, or the format above.\<close>

datatype nut18_error = N18_InvalidPrefix | N18_CiboriumError | N18_Base64Error | N18_Nut26Error nut26_error

definition starts_with :: "string \<Rightarrow> string \<Rightarrow> bool" where
  "starts_with s p \<longleftrightarrow> take (length p) s = p"

definition payment_request_display :: "ext \<Rightarrow> formats \<Rightarrow> payment_request \<Rightarrow> string option" where
  "payment_request_display X F p =
     map_option (\<lambda>data. ''creqA'' @ f_base64_encode F data) (f_cbor_write F (ser_payment_request X p))"

definition payment_request_from_str :: "ext \<Rightarrow> bech32 \<Rightarrow> formats \<Rightarrow> string \<Rightarrow> nut18_error + payment_request" where
  "payment_request_from_str X B F s =
     (if starts_with (x_to_lowercase X s) ''creqb'' then map_err N18_Nut26Error (from_bech32_string X B s)
      else rbind (ok_or N18_InvalidPrefix (if starts_with s ''creqA'' then Some (drop 5 s) else None)) (\<lambda>s.
           rbind (ok_or N18_Base64Error (f_base64_decode F s)) (\<lambda>decoded.
           ok_or N18_CiboriumError (Option.bind (f_cbor_read F decoded) (de_payment_request X)))))"

text \<open>\<open>Transport::from_str\<close> reads a transport from CBOR in base64.\<close>

definition transport_from_str :: "formats \<Rightarrow> string \<Rightarrow> nut18_error + transport" where
  "transport_from_str F s =
     rbind (ok_or N18_Base64Error (f_base64_decode F s)) (\<lambda>decoded.
     ok_or N18_CiboriumError (Option.bind (f_cbor_read F decoded) de_transport))"

section \<open>Lists of fields\<close>

lemma write_tlv_fields: "write_tlv (tlv_fields fs) tag value = tlv_fields (fs @ [(tag, value)])"
  by (simp add: write_tlv_field tlv_fields_def)

lemma write_tlv_first: "write_tlv [] tag value = tlv_fields [(tag, value)]"
  using write_tlv_fields [of "[]"] by (simp add: tlv_fields_def)

definition opt_field :: "u8 \<Rightarrow> bytes option \<Rightarrow> (u8 \<times> bytes) list" where
  "opt_field tag v = (case v of None \<Rightarrow> [] | Some value \<Rightarrow> [(tag, value)])"

lemma write_opt_fields: "write_opt tag v (tlv_fields fs) = tlv_fields (fs @ opt_field tag v)"
  by (simp add: write_opt_def opt_field_def write_tlv_fields split: option.splits)

lemma write_opt_first: "write_opt tag v [] = tlv_fields (opt_field tag v)"
  using write_opt_fields [of tag v "[]"] by (simp add: tlv_fields_def)

lemma write_mints_fields:
  "foldl (\<lambda>w m. write_tlv w 5 (as_bytes m)) (tlv_fields fs) ms = tlv_fields (fs @ map (\<lambda>m. (5, as_bytes m)) ms)"
  by (induction ms arbitrary: fs) (simp_all add: write_tlv_fields)

definition tag_fields :: "string list list \<Rightarrow> (u8 \<times> bytes) list" where
  "tag_fields tags = map (\<lambda>t. (3, tag_bytes t)) tags"

lemma tag_fields_simps [simp]:
  "tag_fields [] = []"
  "tag_fields (t # ts) = (3, tag_bytes t) # tag_fields ts"
  "tag_fields (ts @ us) = tag_fields ts @ tag_fields us"
  by (simp_all add: tag_fields_def)

lemma write_tag_fields: "tag \<noteq> [] \<Longrightarrow> write_tag (tlv_fields fs) tag = Inr (tlv_fields (fs @ [(3, tag_bytes tag)]))"
  by (simp add: write_tag_def encode_tag_tuple_bytes write_tlv_fields)

lemma write_tags_fields:
  "[] \<notin> set tags \<Longrightarrow> fold_res write_tag (tlv_fields fs) tags = Inr (tlv_fields (fs @ tag_fields tags))"
  by (induction tags arbitrary: fs) (auto simp: write_tag_fields)

lemma write_http_tags_fields:
  "fold_res (\<lambda>w tag. if tag \<noteq> [] then write_tag w tag else Inr w) (tlv_fields fs) tags
     = Inr (tlv_fields (fs @ tag_fields (filter (\<lambda>t. t \<noteq> []) tags)))"
  by (induction tags arbitrary: fs) (auto simp: write_tag_fields)

lemma write_transports_fields:
  assumes "fold_res (\<lambda>w t. rmap (write_tlv w 7) (encode_transport B t)) (tlv_fields fs) ts = Inr w"
  shows "\<exists>bs. list_all2 (\<lambda>t b. encode_transport B t = Inr b) ts bs \<and> w = tlv_fields (fs @ map (Pair 7) bs)"
  using assms
proof (induction ts arbitrary: fs)
  case (Cons t ts)
  then obtain b where b: "encode_transport B t = Inr b" by (auto simp: rbind_eq_Ok rmap_def split: sum.splits)
  then have "fold_res (\<lambda>w t. rmap (write_tlv w 7) (encode_transport B t)) (tlv_fields (fs @ [(7, b)])) ts = Inr w"
    using Cons.prems by (simp add: rmap_def write_tlv_fields)
  from Cons.IH [OF this] obtain bs where
    "list_all2 (\<lambda>t b. encode_transport B t = Inr b) ts bs" "w = tlv_fields (fs @ map (Pair 7) (b # bs))" by auto
  then show ?case using b by (intro exI [of _ "b # bs"]) simp
qed simp

lemma u64_be_step: "push_bit 8 (drop_bit 8 v) OR ucast (ucast v :: u8) = (v :: u64)"
  by (rule bit_word_eqI) (auto simp: bit_simps)

lemma u64_be_high: "ucast (ucast (drop_bit 56 w) :: u8) = drop_bit 56 (w :: u64)"
  by (rule bit_word_eqI) (auto simp: bit_simps dest: bit_imp_le_length)

lemma u64_of_u64_be [simp]: "u64_of_be (u64_be w) = w"
  using u64_be_step [of "drop_bit 48 w"] u64_be_step [of "drop_bit 40 w"] u64_be_step [of "drop_bit 32 w"]
    u64_be_step [of "drop_bit 24 w"] u64_be_step [of "drop_bit 16 w"] u64_be_step [of "drop_bit 8 w"] u64_be_step [of w]
  by (simp add: u64_of_be_def u64_be_def u64_be_high)

end
