(* ===== verification/Request_Roundtrip.thy ===== *)
theory Request_Roundtrip
  imports Payment_Request
begin

text \<open>
  What a payment request is read back as. From its Bech32m text a request is read back unchanged when its
  texts are UTF-8, its mint URLs in their printed form, its tags not empty and of parts of at most 255
  bytes, and its Nostr transports without relays, the size limits of the fields following from that of
  Bech32. From its older text it is read back with its unit in lower case. A Nostr transport is read back
  from Bech32m with its relays both in its target and as tags, so writing it again repeats every relay.
\<close>

section \<open>Tags\<close>

lemma tag_pair [simp]: "t \<noteq> [] \<Longrightarrow> hd t # tl t = t"
  by (cases t) simp_all

lemma map_tag_pairs:
  "list_all tag_ok tags \<Longrightarrow> map ((\<lambda>(k, v). k # v) \<circ> (\<lambda>t. (hd t, tl t))) tags = tags"
  by (induction tags) (auto simp: tag_ok_def)

lemma transport_tags:
  "list_all tag_ok tags \<Longrightarrow>
     fold_res transport_field v (tag_fields tags) = Inr (v\<lparr>tv_tags := tv_tags v @ map (\<lambda>t. (hd t, tl t)) tags\<rparr>)"
  by (induction tags arbitrary: v) (simp_all add: transport_field_def decode_tag_bytes rmap_def)

lemma nut10_tags:
  "list_all tag_ok tags \<Longrightarrow>
     fold_res nut10_field v (tag_fields tags) = Inr (v\<lparr>nv_tags := nv_tags v @ map (\<lambda>t. (hd t, tl t)) tags\<rparr>)"
  by (induction tags arbitrary: v) (simp_all add: nut10_field_def decode_tag_bytes rmap_def)

section \<open>Transports\<close>

definition relay_tag :: "string list \<Rightarrow> bool" where
  "relay_tag t \<longleftrightarrow> t \<noteq> [] \<and> t ! 0 = ''relay'' \<and> length t \<ge> 2"

definition nostr_kept :: "string list list \<Rightarrow> string list list" where
  "nostr_kept tags = filter (\<lambda>t. t \<noteq> [] \<and> \<not> relay_tag t) tags"

definition nostr_relays :: "string list list \<Rightarrow> string list" where
  "nostr_relays tags = map (\<lambda>t. t ! 1) (filter relay_tag tags)"

text \<open>The tags of a Nostr transport after it was written and read, and the relays among them.\<close>

definition cycled_tags :: "string list \<Rightarrow> string list list \<Rightarrow> string list list" where
  "cycled_tags relays tags = nostr_kept tags @ map (\<lambda>r. [''r'', r]) (relays @ nostr_relays tags)"

definition r_values :: "string list list \<Rightarrow> string list" where
  "r_values tags = concat (map tl (filter (\<lambda>t. hd t = ''r'') tags))"

lemma nostr_tags_fields:
  "fold_res nostr_tag (tlv_fields fs, rs) tags
     = Inr (tlv_fields (fs @ tag_fields (nostr_kept tags)), rs @ nostr_relays tags)"
proof (induction tags arbitrary: fs rs)
  case (Cons t tags)
  have "nostr_tag (tlv_fields fs, rs) t = Inr (if t = [] then (tlv_fields fs, rs)
      else if relay_tag t then (tlv_fields fs, rs @ [t ! 1]) else (tlv_fields (fs @ [(3, tag_bytes t)]), rs))"
    by (auto simp: nostr_tag_def relay_tag_def write_tag_fields rmap_def)
  then show ?case using Cons.IH by (auto simp: nostr_kept_def nostr_relays_def relay_tag_def)
qed (simp add: nostr_kept_def nostr_relays_def)

lemma relays_fields:
  "fold_res (\<lambda>w r. write_tag w [''r'', r]) (tlv_fields fs) rs = Inr (tlv_fields (fs @ tag_fields (map (\<lambda>r. [''r'', r]) rs)))"
  by (induction rs arbitrary: fs) (simp_all add: write_tag_fields)

lemma encode_nostr:
  assumes "t_type t = Nostr" and "decode_nprofile B (t_target t) = Inr (pk, rs)"
  shows "encode_transport B t = Inr (tlv_fields ([(1, [0]), (2, pk)] @ tag_fields (cycled_tags rs (t_tags t))))"
  using assms
  by (simp add: encode_transport_def write_tlv_first write_tlv_fields nostr_tags_fields relays_fields cycled_tags_def)

lemma encode_http:
  assumes "t_type t = HttpPost" and "[] \<notin> set (t_tags t)"
  shows "encode_transport B t = Inr (tlv_fields ([(1, [1]), (2, as_bytes (t_target t))] @ tag_fields (t_tags t)))"
proof -
  have "filter (\<lambda>x. x \<noteq> []) (t_tags t) = t_tags t" using assms(2) by (auto intro: filter_True)
  then show ?thesis
    using assms(1) by (simp add: encode_transport_def write_tlv_first write_tlv_fields write_http_tags_fields)
qed

lemma decode_nostr:
  assumes "length pk = 32" and "list_all tag_ok tags" and "list_all field_ok (tag_fields tags)"
  shows "decode_transport B (tlv_fields ([(1, [0]), (2, pk)] @ tag_fields tags))
       = rmap (\<lambda>target. \<lparr> t_type = Nostr, t_target = target, t_tags = tags \<rparr>) (encode_nprofile B pk (r_values tags))"
proof -
  have relays: "map snd (filter (\<lambda>(k, _). k = ''r'') (map (\<lambda>t. (hd t, tl t)) tags)) = map tl (filter (\<lambda>t. hd t = ''r'') tags)"
    by (induction tags) auto
  have "list_all field_ok ([(1, [0]), (2, pk)] @ tag_fields tags)"
    using assms(1,3) by (simp add: field_ok_def)
  note tlv_while_fields [OF this, of transport_field transport_vars_new]
  moreover have "fold_res transport_field transport_vars_new ([(1, [0]), (2, pk)] @ tag_fields tags) =
      Inr \<lparr> tv_kind = Some 0, tv_pubkey = Some pk, tv_tags = map (\<lambda>t. (hd t, tl t)) tags, tv_http_target = None \<rparr>"
    using assms(1,2) by (simp add: transport_tags transport_field_def transport_vars_new_def)
  ultimately show ?thesis
    using relays assms(2)
    by (simp add: decode_transport_def transport_of_vars_def ok_or_def r_values_def map_tag_pairs rmap_def rbind_def)
qed

lemma decode_http:
  assumes "text_ok target" and "list_all tag_ok tags"
    and "length (tlv_fields ([(1, [1]), (2, as_bytes target)] @ tag_fields tags)) < 2 ^ 16"
  shows "decode_transport B (tlv_fields ([(1, [1]), (2, as_bytes target)] @ tag_fields tags))
       = Inr \<lparr> t_type = HttpPost, t_target = target, t_tags = tags \<rparr>"
proof -
  note tlv_while_fields [OF fields_ok [OF assms(3)], of transport_field transport_vars_new]
  moreover have "fold_res transport_field transport_vars_new ([(1, [1]), (2, as_bytes target)] @ tag_fields tags) =
      Inr \<lparr> tv_kind = Some 1, tv_pubkey = None, tv_tags = map (\<lambda>t. (hd t, tl t)) tags, tv_http_target = Some target \<rparr>"
    using assms(1,2) by (simp add: transport_tags transport_field_def transport_vars_new_def rmap_def)
  ultimately show ?thesis
    using assms(2) by (simp add: decode_transport_def transport_of_vars_def ok_or_def map_tag_pairs)
qed

text \<open>
  Transports that are read back as they were written: an HTTP target with its tags, or a Nostr profile
  that names no relays, in the printed form of its key, with no tags about relays.
\<close>

definition transport_ok :: "bech32 \<Rightarrow> transport \<Rightarrow> bool" where
  "transport_ok B t \<longleftrightarrow> list_all tag_ok (t_tags t) \<and> (case t_type t of
       HttpPost \<Rightarrow> text_ok (t_target t)
     | Nostr \<Rightarrow> (case decode_nprofile B (t_target t) of
           Inr (pk, relays) \<Rightarrow> relays = [] \<and> encode_nprofile B pk [] = Inr (t_target t)
         | Inl e \<Rightarrow> False)
         \<and> list_all (\<lambda>tag. hd tag \<noteq> ''r'' \<and> hd tag \<noteq> ''relay'') (t_tags t))"

lemma nostr_plain:
  assumes "list_all tag_ok tags" and "list_all (\<lambda>tag. hd tag \<noteq> ''r'' \<and> hd tag \<noteq> ''relay'') tags"
  shows "cycled_tags [] tags = tags" and "r_values tags = []"
  using assms
  by (induction tags) (auto simp: cycled_tags_def nostr_kept_def nostr_relays_def relay_tag_def r_values_def tag_ok_def hd_conv_nth)

lemma transport_roundtrip:
  assumes ok: "transport_ok B t" and enc: "encode_transport B t = Inr bs" and len: "length bs < 2 ^ 16"
  shows "decode_transport B bs = Inr t"
proof (cases "t_type t")
  case HttpPost
  have tags: "list_all tag_ok (t_tags t)" "text_ok (t_target t)" using ok HttpPost by (auto simp: transport_ok_def)
  then have "[] \<notin> set (t_tags t)" by (auto simp: list_all_iff tag_ok_def)
  from encode_http [OF HttpPost this, of B] enc
  have "bs = tlv_fields ([(1, [1]), (2, as_bytes (t_target t))] @ tag_fields (t_tags t))" by simp
  then show ?thesis using decode_http [OF tags(2,1)] len HttpPost by simp
next
  case Nostr
  obtain pk where pk: "decode_nprofile B (t_target t) = Inr (pk, [])" "encode_nprofile B pk [] = Inr (t_target t)"
    using ok Nostr by (auto simp: transport_ok_def split: sum.splits)
  have tags: "list_all tag_ok (t_tags t)" "cycled_tags [] (t_tags t) = t_tags t" "r_values (t_tags t) = []"
    using ok Nostr nostr_plain [of "t_tags t"] by (auto simp: transport_ok_def)
  have bs: "bs = tlv_fields ([(1, [0]), (2, pk)] @ tag_fields (t_tags t))"
    using encode_nostr [OF Nostr pk(1)] enc tags(2) by simp
  then have "list_all field_ok (tag_fields (t_tags t))" using fields_ok len by fastforce
  then show ?thesis
    using decode_nostr [of pk "t_tags t" B] decode_nprofile_ok [OF pk(1)] tags pk(2) bs Nostr by (simp add: rmap_def)
qed

section \<open>Conditions\<close>

definition nut10_ok :: "nut10_secret_request \<Rightarrow> bool" where
  "nut10_ok n \<longleftrightarrow> text_ok (nr_data n) \<and> nr_tags n \<noteq> Some [] \<and> pred_option (list_all tag_ok) (nr_tags n)"

lemma nut10_roundtrip:
  assumes ok: "nut10_ok n" and enc: "encode_nut10 n = Inr bs" and len: "length bs < 2 ^ 16"
  shows "decode_nut10 bs = Inr n"
proof -
  define tags where "tags = (case nr_tags n of None \<Rightarrow> [] | Some ts \<Rightarrow> ts)"
  let ?k = "(case nr_kind n of P2PK \<Rightarrow> 0 | HTLC \<Rightarrow> 1) :: u8"
  let ?fs = "[(1, [?k]), (2, as_bytes (nr_data n))] @ tag_fields tags"
  have tags: "list_all tag_ok tags" "[] \<notin> set tags"
    using ok by (cases "nr_tags n"; auto simp: nut10_ok_def tags_def list_all_iff tag_ok_def)+
  have "bs = tlv_fields ?fs"
    using enc write_tags_fields [OF tags(2)]
    by (auto simp: encode_nut10_def write_tlv_first write_tlv_fields tags_def split: option.splits)
  moreover have "fold_res nut10_field \<lparr> nv_kind = None, nv_data = None, nv_tags = [] \<rparr> ?fs
      = Inr \<lparr> nv_kind = Some ?k, nv_data = Some (as_bytes (nr_data n)), nv_tags = map (\<lambda>t. (hd t, tl t)) tags \<rparr>"
    using nut10_tags [OF tags(1)] by (simp add: nut10_field_def)
  moreover have "nr_tags n = (if tags = [] then None else Some tags)"
    using ok by (auto simp: nut10_ok_def tags_def split: option.splits)
  ultimately show ?thesis
    using tlv_while_fields [OF fields_ok, of ?fs nut10_field] len ok map_tag_pairs [OF tags(1)]
    by (auto simp: decode_nut10_def nut10_of_vars_def ok_or_def nut10_ok_def split: kind.splits)
qed

section \<open>Requests\<close>

definition unit_canonical :: "currency_unit \<Rightarrow> bool" where
  "unit_canonical u \<longleftrightarrow> (case u of
       Custom c \<Rightarrow> text_ok c \<and> as_bytes c \<noteq> [0] \<and> c \<notin> {''msat'', ''usd'', ''eur'', ''auth''}
     | _ \<Rightarrow> True)"

definition request_ok :: "ext \<Rightarrow> bech32 \<Rightarrow> payment_request \<Rightarrow> bool" where
  "request_ok X B p \<longleftrightarrow>
     pred_option text_ok (pr_payment_id p) \<and> pred_option text_ok (pr_description p)
     \<and> pred_option unit_canonical (pr_unit p)
     \<and> list_all (\<lambda>m. text_ok m \<and> mint_url_from_str X m = Inr m) (pr_mints p)
     \<and> list_all (transport_ok B) (pr_transports p) \<and> pred_option nut10_ok (pr_nut10 p)"

lemma text_ok_units [simp]: "text_ok ''msat''" "text_ok ''usd''" "text_ok ''eur''" "text_ok ''auth''"
  by (simp_all add: text_ok_def as_bytes_def byte_of_char_code)

lemma unit_field:
  assumes "pred_option unit_canonical u" and "pr_unit p = None"
  shows "fold_res (request_field X B) p (opt_field 3 (map_option unit_bytes u)) = Inr (p\<lparr>pr_unit := u\<rparr>)"
proof (cases u)
  case (Some c)
  have "c = Sat \<or> unit_bytes c \<noteq> [0] \<and> (\<exists>s. from_utf8 (unit_bytes c) = Inr s \<and> unit_of_tlv (Tlv_Custom s) = c)"
    using assms(1) Some
    by (cases c)
       (auto simp: unit_bytes_def tlv_unit_of_def unit_of_tlv_def unit_canonical_def, simp_all add: as_bytes_def)
  then show ?thesis
    using assms(2) Some
    by (auto simp: opt_field_def request_field_def rmap_def unit_bytes_def tlv_unit_of_def length_Suc_conv)
qed (use assms in \<open>simp add: opt_field_def\<close>)

lemma text_fields:
  assumes "pred_option text_ok v"
  shows "pr_payment_id p = None \<Longrightarrow>
      fold_res (request_field X B) p (opt_field 1 (map_option as_bytes v)) = Inr (p\<lparr>pr_payment_id := v\<rparr>)"
    and "pr_description p = None \<Longrightarrow>
      fold_res (request_field X B) p (opt_field 6 (map_option as_bytes v)) = Inr (p\<lparr>pr_description := v\<rparr>)"
  using assms by (cases v; simp add: opt_field_def request_field_def rmap_def)+

lemma number_fields:
  "pr_amount p = None \<Longrightarrow>
      fold_res (request_field X B) p (opt_field 2 (map_option u64_be a)) = Inr (p\<lparr>pr_amount := a\<rparr>)"
  "pr_single_use p = None \<Longrightarrow>
      fold_res (request_field X B) p (opt_field 4 (map_option (\<lambda>b. [if b then 1 else 0]) s)) = Inr (p\<lparr>pr_single_use := s\<rparr>)"
proof -
  show "pr_amount p = None \<Longrightarrow>
      fold_res (request_field X B) p (opt_field 2 (map_option u64_be a)) = Inr (p\<lparr>pr_amount := a\<rparr>)"
    using u64_of_u64_be by (cases a) (auto simp: opt_field_def request_field_def, auto simp: u64_be_def)
  show "pr_single_use p = None \<Longrightarrow>
      fold_res (request_field X B) p (opt_field 4 (map_option (\<lambda>b. [if b then 1 else 0]) s)) = Inr (p\<lparr>pr_single_use := s\<rparr>)"
    by (cases s) (auto simp: opt_field_def request_field_def)
qed

lemma mint_fields:
  "list_all (\<lambda>m. text_ok m \<and> mint_url_from_str X m = Inr m) ms \<Longrightarrow>
     fold_res (request_field X B) p (map (\<lambda>m. (5, as_bytes m)) ms) = Inr (p\<lparr>pr_mints := pr_mints p @ ms\<rparr>)"
  by (induction ms arbitrary: p) (simp_all add: request_field_def rmap_def map_err_def)

lemma transport_fields:
  assumes "list_all2 (\<lambda>t b. encode_transport B t = Inr b) ts bs" and "list_all (transport_ok B) ts"
    and "\<forall>b \<in> set bs. length b < 2 ^ 16"
  shows "fold_res (request_field X B) p (map (Pair 7) bs) = Inr (p\<lparr>pr_transports := pr_transports p @ ts\<rparr>)"
  using assms
proof (induction arbitrary: p rule: list_all2_induct)
  case (Cons t ts b bs)
  have "request_field X B p (7, b) = Inr (p\<lparr>pr_transports := pr_transports p @ [t]\<rparr>)"
    using transport_roundtrip [of B t b] Cons.hyps(1) Cons.prems by (simp add: request_field_def rmap_def)
  then show ?case using Cons.IH Cons.prems by simp
qed simp

definition nut10_bytes :: "nut10_secret_request option \<Rightarrow> bytes option \<Rightarrow> bool" where
  "nut10_bytes n b \<longleftrightarrow> (case n of None \<Rightarrow> b = None | Some n \<Rightarrow> \<exists>bs. encode_nut10 n = Inr bs \<and> b = Some bs)"

lemma nut10_fields:
  assumes "nut10_bytes n b" and "pred_option nut10_ok n" and "pred_option (\<lambda>bs. length bs < 2 ^ 16) b"
    and "pr_nut10 p = None"
  shows "fold_res (request_field X B) p (opt_field 8 b) = Inr (p\<lparr>pr_nut10 := n\<rparr>)"
  using assms nut10_roundtrip
  by (cases n) (auto simp: nut10_bytes_def opt_field_def request_field_def rmap_def)

definition request_fields :: "payment_request \<Rightarrow> bytes list \<Rightarrow> bytes option \<Rightarrow> (u8 \<times> bytes) list" where
  "request_fields p bs nb = opt_field 1 (map_option as_bytes (pr_payment_id p)) @ opt_field 2 (map_option u64_be (pr_amount p))
     @ opt_field 3 (map_option unit_bytes (pr_unit p))
     @ opt_field 4 (map_option (\<lambda>b. [if b then 1 else 0]) (pr_single_use p))
     @ map (\<lambda>m. (5, as_bytes m)) (pr_mints p) @ opt_field 6 (map_option as_bytes (pr_description p))
     @ map (Pair 7) bs @ opt_field 8 nb"

lemma encode_tlv_fields:
  assumes "encode_tlv B p = Inr w"
  shows "\<exists>bs nb. list_all2 (\<lambda>t b. encode_transport B t = Inr b) (pr_transports p) bs
           \<and> nut10_bytes (pr_nut10 p) nb \<and> w = tlv_fields (request_fields p bs nb)"
proof -
  obtain w' where w': "fold_res (\<lambda>w t. rmap (write_tlv w 7) (encode_transport B t))
        (tlv_fields (opt_field 1 (map_option as_bytes (pr_payment_id p)) @ opt_field 2 (map_option u64_be (pr_amount p))
     @ opt_field 3 (map_option unit_bytes (pr_unit p))
     @ opt_field 4 (map_option (\<lambda>b. [if b then 1 else 0]) (pr_single_use p))
     @ map (\<lambda>m. (5, as_bytes m)) (pr_mints p) @ opt_field 6 (map_option as_bytes (pr_description p))))
        (pr_transports p) = Inr w'"
      "(case pr_nut10 p of None \<Rightarrow> Inr w' | Some n \<Rightarrow> rmap (write_tlv w' 8) (encode_nut10 n)) = Inr w"
    using assms by (auto simp: encode_tlv_def Let_def write_opt_first write_opt_fields write_mints_fields rbind_eq_Ok)
  from write_transports_fields [OF w'(1)] obtain bs where
    bs: "list_all2 (\<lambda>t b. encode_transport B t = Inr b) (pr_transports p) bs"
      "w' = tlv_fields (request_fields p bs None)"
    by (auto simp: request_fields_def opt_field_def)
  obtain nb where "nut10_bytes (pr_nut10 p) nb" "w = tlv_fields (request_fields p bs nb)"
    using w'(2) bs(2)
    by (auto simp: nut10_bytes_def rmap_def write_tlv_fields request_fields_def opt_field_def split: option.splits sum.splits)
  then show ?thesis using bs(1) by blast
qed

lemma decode_request_fields:
  assumes "request_ok X B p" and "list_all2 (\<lambda>t b. encode_transport B t = Inr b) (pr_transports p) bs"
    and "nut10_bytes (pr_nut10 p) nb" and len: "length (tlv_fields (request_fields p bs nb)) < 2 ^ 16"
  shows "from_bech32_bytes X B (tlv_fields (request_fields p bs nb)) = Inr p"
proof -
  have fields: "list_all field_ok (request_fields p bs nb)" by (rule fields_ok [OF len])
  then have short: "length (snd f) < 2 ^ 16" if "f \<in> set (request_fields p bs nb)" for f
    using that unfolding list_all_iff field_ok_def by blast
  have "\<forall>b \<in> set bs. length b < 2 ^ 16"
    using short [of "(7, b)" for b] by (simp add: request_fields_def)
  moreover have "pred_option (\<lambda>bs. length bs < 2 ^ 16) nb"
    using short [of "(8, the nb)"] by (cases nb) (simp_all add: request_fields_def opt_field_def)
  ultimately have "fold_res (request_field X B) request_new (request_fields p bs nb) = Inr p"
    using assms(1-3)
    by (simp add: request_fields_def fold_res_append request_new_def request_ok_def text_fields number_fields unit_field
        mint_fields transport_fields nut10_fields)
  then show ?thesis using tlv_while_fields [OF fields, of "request_field X B" request_new] by (simp add: from_bech32_bytes_def)
qed

text \<open>Letter case of ASCII text at the start.\<close>

definition lowercase_prefix :: "ext \<Rightarrow> bool" where
  "lowercase_prefix X \<longleftrightarrow> (\<forall>s t. list_all (\<lambda>c. byte_of_char c < 128) s \<longrightarrow>
     take (length s) (x_to_lowercase X (s @ t)) = map ascii_lower s)"

lemma creq_prefixes:
  assumes "lowercase_prefix X"
  shows "take 5 s = ''CREQB'' \<Longrightarrow> starts_with (x_to_lowercase X s) ''creqb''"
    and "\<not> starts_with (x_to_lowercase X (''creqA'' @ t)) ''creqb''"
proof -
  have lower: "list_all (\<lambda>c. byte_of_char c < 128) p \<Longrightarrow> take (length p) (x_to_lowercase X (p @ t)) = map ascii_lower p" for p t
    using assms unfolding lowercase_prefix_def by blast
  show "\<not> starts_with (x_to_lowercase X (''creqA'' @ t)) ''creqb''"
    using lower [of "''creqA''" t] by (simp add: starts_with_def byte_of_char_code ascii_lower_def char_of_byte_code)
  assume "take 5 s = ''CREQB''"
  then have "s = ''CREQB'' @ drop 5 s" by (metis append_take_drop_id)
  then show "starts_with (x_to_lowercase X s) ''creqb''"
    using lower [of "''CREQB''" "drop 5 s"]
    by (simp add: starts_with_def byte_of_char_code ascii_lower_def char_of_byte_code)
qed

lemma bech32_text_roundtrip:
  assumes "bech32_law B" and "lowercase_prefix X" and "request_ok X B p" and "to_bech32_string B p = Inr s"
  shows "payment_request_from_str X B F s = Inr p"
proof -
  obtain w where w: "encode_tlv B p = Inr w" "b_encode_upper_m B ''creqb'' w = Some s"
    using assms(4) by (auto simp: to_bech32_string_def rbind_eq_Ok ok_or_def split: option.splits)
  then have s: "b_decode B s = Some (''CREQB'', w)" "length w < 2 ^ 16" "take 5 s = ''CREQB''"
    using assms(1) by (auto simp: bech32_law_def)
  have "from_bech32_bytes X B w = Inr p"
    using encode_tlv_fields [OF w(1)] decode_request_fields [OF assms(3)] s(2) by blast
  then show ?thesis
    using s creq_prefixes(1) [OF assms(2)]
    by (simp add: payment_request_from_str_def from_bech32_string_def map_err_def eq_ignore_ascii_case_def
        ascii_lower_def byte_of_char_code char_of_byte_code)
qed

subsection \<open>The older text\<close>

text \<open>
  What the older text needs: UTF-8 and mint URLs in printed form. Relays and tags are not restricted.
\<close>

definition transport_texts :: "transport \<Rightarrow> bool" where
  "transport_texts t \<longleftrightarrow> text_ok (t_target t) \<and> list_all (list_all text_ok) (t_tags t)"

definition nut10_texts :: "nut10_secret_request \<Rightarrow> bool" where
  "nut10_texts n \<longleftrightarrow> text_ok (nr_data n) \<and> pred_option (list_all (list_all text_ok)) (nr_tags n)"

definition request_texts :: "ext \<Rightarrow> payment_request \<Rightarrow> bool" where
  "request_texts X p \<longleftrightarrow>
     pred_option text_ok (pr_payment_id p) \<and> pred_option text_ok (pr_description p) \<and> pred_option (unit_text_ok X) (pr_unit p)
     \<and> list_all (\<lambda>m. text_ok m \<and> mint_url_from_str X m = Inr m) (pr_mints p)
     \<and> list_all transport_texts (pr_transports p) \<and> pred_option nut10_texts (pr_nut10 p)"

lemma text_ok_request_names [simp]:
  "text_ok ''i''" "text_ok ''u''" "text_ok ''m''" "text_ok ''t''" "text_ok ''g''" "text_ok ''k''" "text_ok ''nut10''"
  "text_ok ''nostr''" "text_ok ''post''" "text_ok ''P2PK''" "text_ok ''HTLC''"
  by (simp_all add: text_ok_def as_bytes_def byte_of_char_code)

interpretation mint_url_serde: serde_total human 0 ser_mint_url "de_mint_url X" "\<lambda>m. text_ok m \<and> mint_url_from_str X m = Inr m" id
  for human X
  by unfold_locales (simp add: ser_mint_url_def de_mint_url_def de_text_def res_ok_def)

lemma enum_values:
  "value_ok h n (ser_transport_type t)" "de_transport_type (ser_transport_type t) = Some t"
  "value_ok h n (ser_kind k)" "de_kind (ser_kind k) = Some k"
  by (simp_all add: ser_transport_type_def de_transport_type_def ser_kind_def de_kind_def de_text_def
      split: transport_type.split kind.split)

interpretation text_lists_serde: serde_total human 2 ser_text_lists "de_vec de_texts" "list_all (list_all text_ok)" id
  for human
proof
  fix ts assume ts: "list_all (list_all text_ok) ts"
  obtain v where "ser_vec (\<lambda>ss. Some (ser_texts ss)) ts = Some v" "value_ok human 2 v" "v \<noteq> V_Null" "de_vec de_texts v = Some (map id ts)"
    by (rule texts_serde.vec [OF ts, of 2 human]) simp
  then show "\<exists>v. Some (ser_text_lists ts) = Some v \<and> value_ok human 2 v \<and> v \<noteq> V_Null \<and> de_vec de_texts v = Some (id ts)"
    by (auto simp: ser_vec_def those_Some ser_text_lists_def)
qed

interpretation transport_serde: serde_total human 3 ser_transport de_transport transport_texts id
  for human
proof
  fix t assume "transport_texts t"
  then have t: "text_ok (t_target t)" "list_all (list_all text_ok) (t_tags t)" by (simp_all add: transport_texts_def)
  then show "\<exists>v. Some (ser_transport t) = Some v \<and> value_ok human 3 v \<and> v \<noteq> V_Null \<and> de_transport v = Some (id t)"
    using texts_serde.total_list [OF t(2)]
    by (simp add: ser_transport_def de_transport_def numeral_3_eq_3 field_eval enum_values)
qed

interpretation nut10_serde: serde_total human 3 ser_nut10_request de_nut10_request nut10_texts id
  for human
proof
  fix n assume "nut10_texts n"
  then have n: "text_ok (nr_data n)" "pred_option (list_all (list_all text_ok)) (nr_tags n)" by (simp_all add: nut10_texts_def)
  then show "\<exists>v. Some (ser_nut10_request n) = Some v \<and> value_ok human 3 v \<and> v \<noteq> V_Null \<and> de_nut10_request v = Some (id n)"
    using text_lists_serde.total_opt [OF n(2)]
    by (simp add: ser_nut10_request_def de_nut10_request_def numeral_3_eq_3 field_eval enum_values)
qed

text \<open>The request that is read back from the older text.\<close>

definition request_read_back :: "ext \<Rightarrow> payment_request \<Rightarrow> payment_request" where
  "request_read_back X p = p\<lparr> pr_unit := map_option (unit_read_back X) (pr_unit p) \<rparr>"

interpretation request_serde: serde_total human 5 "ser_payment_request X" "de_payment_request X" "request_texts X" "request_read_back X"
  for human X
proof
  fix p assume "request_texts X p"
  then have p: "pred_option text_ok (pr_payment_id p)" "pred_option text_ok (pr_description p)" "pred_option (unit_text_ok X) (pr_unit p)"
    "list_all (\<lambda>m. text_ok m \<and> mint_url_from_str X m = Inr m) (pr_mints p)" "list_all transport_texts (pr_transports p)"
    "pred_option nut10_texts (pr_nut10 p)"
    by (simp_all add: request_texts_def)
  have any: "pred_option (\<lambda>_. True) x" for x :: "'b option" by (cases x) simp_all
  have "value_ok human (Suc 4) (ser_payment_request X p)"
    using text_serde.total_opt [OF p(1)] text_serde.total_opt [OF p(2)] unit_serde.total_opt [OF p(3)] mint_url_serde.total_list [OF p(4)]
      transport_serde.total_list [OF p(5)] nut10_serde.total_opt [OF p(6)] number_serde.total_opt [OF any] bool_serde.total_opt [OF any]
    unfolding ser_payment_request_def value_ok_simps(7) by (simp add: list_all_opt_entry)
  moreover have "de_payment_request X (ser_payment_request X p) = Some (request_read_back X p)"
    using text_serde.total_opt [OF p(1)] text_serde.total_opt [OF p(2)] unit_serde.total_opt [OF p(3)] mint_url_serde.total_list [OF p(4)]
      transport_serde.total_list [OF p(5)] nut10_serde.total_opt [OF p(6)] number_serde.total_opt [OF any] bool_serde.total_opt [OF any]
    by (simp add: ser_payment_request_def de_payment_request_def request_read_back_def field_eval de_missing_def [of _ "Some _"])
  ultimately show "\<exists>v. Some (ser_payment_request X p) = Some v \<and> value_ok human 5 v \<and> v \<noteq> V_Null \<and> de_payment_request X v = Some (request_read_back X p)"
    by (simp add: ser_payment_request_def)
qed

lemma cbor_read_back:
  assumes "formats_law F" and "value_ok False n v" and "n \<le> 100"
  obtains b where "f_cbor_write F v = Some b" "f_cbor_read F b = Some v" "f_base64_decode F (f_base64_encode F b) = Some b"
proof -
  have "value_ok False 100 v" by (rule value_ok_mono [OF assms(2,3)])
  with assms(1) that show thesis unfolding formats_law_def by blast
qed

lemma creq_a_roundtrip:
  assumes "formats_law F" and "lowercase_prefix X" and "request_texts X p"
  shows "\<exists>s. payment_request_display X F p = Some s \<and> payment_request_from_str X B F s = Inr (request_read_back X p)"
proof -
  have "value_ok False 5 (ser_payment_request X p)" using request_serde.total_written [OF assms(3)] by blast
  from cbor_read_back [OF assms(1) this] obtain b where "f_cbor_write F (ser_payment_request X p) = Some b"
    "f_cbor_read F b = Some (ser_payment_request X p)" "f_base64_decode F (f_base64_encode F b) = Some b" by auto
  then show ?thesis
    using creq_prefixes(2) [OF assms(2)] request_serde.total_written(2) [OF assms(3)]
    by (simp add: payment_request_from_str_def payment_request_display_def ok_or_def starts_with_def)
qed

subsection \<open>A concrete instance\<close>

definition demo_bech32 :: bech32 where
  "demo_bech32 = \<lparr>
     b_encode = (\<lambda>h b. if length b < 600 then Some (h @ ''1'' @ encode b) else None),
     b_encode_upper_m = (\<lambda>h b. if length b < 600 then Some (''CREQB1'' @ encode b) else None),
     b_decode = (\<lambda>s. if starts_with s ''nprofile1'' then map_option (Pair ''nprofile'') (res_ok (decode (drop 9 s)))
       else if starts_with s ''CREQB1'' then map_option (Pair ''CREQB'') (res_ok (decode (drop 6 s))) else None) \<rparr>"

abbreviation demo_lower :: ext where
  "demo_lower \<equiv> demo_cased"

definition demo_pubkey :: bytes where
  "demo_pubkey = replicate 32 7"

definition demo_payment_request :: payment_request where
  "demo_payment_request = \<lparr> pr_payment_id = Some ''a1'', pr_amount = Some 1000, pr_unit = Some Usd, pr_single_use = Some True,
     pr_mints = [''https://mint.example/Bitcoin''], pr_description = Some ''tea'',
     pr_transports = [\<lparr> t_type = HttpPost, t_target = ''https://shop'', t_tags = [[''n'', ''17'']] \<rparr>],
     pr_nut10 = Some \<lparr> nr_kind = P2PK, nr_data = ''02ab'', nr_tags = Some [[''locktime'', ''9'']] \<rparr> \<rparr>"

lemma demo_bech32_law: "bech32_law demo_bech32"
  by (auto simp: bech32_law_def demo_bech32_def starts_with_def res_ok_def split: if_splits)

lemma demo_lowercase_prefix: "lowercase_prefix demo_lower"
  by (simp add: lowercase_prefix_def demo_cased_def)

text \<open>
  C18. A payment request is read back by \<open>PaymentRequest::from_str\<close> from both of its texts. From its
  Bech32m text, whenever that can be written, it is read back unchanged, provided that its texts are
  UTF-8, its mint URLs are in printed form, a custom unit is not spelled msat, usd, eur
  or auth and is not the one zero byte that stands for sat, its tags have a first part and parts of at
  most 255 bytes, the tags of its NUT-10 condition are not an empty list, the target of a Nostr transport is
  a profile in printed form without relays, and no tag of a Nostr transport is an r or relay tag. Its
  older text can always be written, provided that its texts, with that of its unit, are UTF-8 and its mint URLs are in
  printed form, and is read back with the unit that the lower-case name of its unit stands for, and
  otherwise unchanged, so unchanged when its unit is one of the named ones.
\<close>

theorem payment_request_roundtrip:
  assumes "bech32_law B" and "formats_law F" and "lowercase_prefix X" and "ascii_case X"
  shows "(request_ok X B p \<and> to_bech32_string B p = Inr s \<longrightarrow> payment_request_from_str X B F s = Inr p) \<and>
    (request_texts X p \<longrightarrow> (\<exists>t. payment_request_display X F p = Some t \<and>
       payment_request_from_str X B F t = Inr (p\<lparr> pr_unit := map_option (unit_read_back X) (pr_unit p) \<rparr>) \<and>
       (pred_option (\<lambda>u. u \<in> named_units) (pr_unit p) \<longrightarrow> payment_request_from_str X B F t = Inr p)))"
proof -
  have "p\<lparr> pr_unit := map_option (unit_read_back X) (pr_unit p) \<rparr> = p" if "pred_option (\<lambda>u. u \<in> named_units) (pr_unit p)"
    using that unit_read_back_named(1) [OF assms(4)] by (cases "pr_unit p") simp_all
  then show ?thesis
    using bech32_text_roundtrip [OF assms(1,3), of p s F] creq_a_roundtrip [OF assms(2,3), of p B] by (auto simp: request_read_back_def)
qed

lemmas text_eval = text_ok_def as_bytes_def byte_of_char_code

lemma demo_mint_url: "mint_url_from_str demo_lower ''https://mint.example/Bitcoin'' = Inr ''https://mint.example/Bitcoin''"
  by (simp add: mint_url_from_str_def format_url_def demo_cased_def ensure_cdk_def trim_slashes_def nth_part_def ok_or_def
      ascii_lower_def byte_of_char_code)

lemma demo_payment_request_ok: "request_ok demo_lower demo_bech32 demo_payment_request"
  by (simp add: request_ok_def demo_payment_request_def demo_mint_url transport_ok_def nut10_ok_def tag_ok_def part_ok_def
      unit_canonical_def text_eval)

lemma demo_payment_request_text: "is_ok (to_bech32_string demo_bech32 demo_payment_request)"
proof -
  have "is_ok (encode_tlv demo_bech32 demo_payment_request) \<and> length (case encode_tlv demo_bech32 demo_payment_request of Inr w \<Rightarrow> w | _ \<Rightarrow> []) < 600"
    by (simp add: encode_tlv_def demo_payment_request_def write_opt_def write_tlv_def encode_transport_def write_tag_def
        encode_tag_tuple_def tag_part_def u16_be_def u64_be_def unit_bytes_def tlv_unit_of_def encode_nut10_def rmap_def is_ok_def)
  then show ?thesis
    by (auto simp: to_bech32_string_def is_ok_def rbind_def demo_bech32_def ok_or_def split: sum.splits)
qed

lemma demo_request_texts: "request_texts demo_lower demo_payment_request"
  by (simp add: request_texts_def demo_payment_request_def demo_mint_url transport_texts_def nut10_texts_def text_eval
      unit_read_back_named(2) [OF demo_ascii_case] named_units_def)

theorem payment_request_roundtrip_witness:
  "(\<exists>s. to_bech32_string demo_bech32 demo_payment_request = Inr s
      \<and> payment_request_from_str demo_lower demo_bech32 demo_formats s = Inr demo_payment_request)
   \<and> (\<exists>s. payment_request_display demo_lower demo_formats demo_payment_request = Some s
      \<and> payment_request_from_str demo_lower demo_bech32 demo_formats s = Inr demo_payment_request)"
proof -
  obtain s where "to_bech32_string demo_bech32 demo_payment_request = Inr s"
    using demo_payment_request_text by (auto simp: is_ok_def split: sum.splits)
  moreover have "pred_option (\<lambda>u. u \<in> named_units) (pr_unit demo_payment_request)"
    by (simp add: demo_payment_request_def named_units_def)
  ultimately show ?thesis
    using payment_request_roundtrip [OF demo_bech32_law demo_formats_law demo_lowercase_prefix demo_ascii_case, of demo_payment_request s]
      demo_payment_request_ok demo_request_texts by blast
qed

text \<open>
  A tag with a part of more than 255 bytes is written without an error, because the length of a
  part is cut to one byte, and is never read back as that tag.
\<close>

lemma long_tag_not_read_back:
  assumes "part \<in> set tag" and "length part > 255"
  shows "\<exists>bs. encode_tag_tuple tag = Inr bs \<and> decode_tag_tuple bs \<noteq> Inr (hd tag, tl tag)"
proof -
  have "tag \<noteq> []" using assms(1) by auto
  then show ?thesis
    using assms decode_tag_tuple_short [of "tag_bytes tag" "hd tag" "tl tag"] encode_tag_tuple_bytes [of tag] by fastforce
qed

section \<open>Relays of a Nostr transport\<close>

definition nostr_transport :: "string \<Rightarrow> string list list \<Rightarrow> transport" where
  "nostr_transport target tags = \<lparr> t_type = Nostr, t_target = target, t_tags = tags \<rparr>"

definition r_tags :: "string list \<Rightarrow> string list list" where
  "r_tags rs = map (\<lambda>r. [''r'', r]) rs"

definition reencode_transport :: "bech32 \<Rightarrow> transport \<Rightarrow> nut26_error + transport" where
  "reencode_transport B t = rbind (encode_transport B t) (decode_transport B)"

lemma r_tags_ok:
  assumes "list_all part_ok rs"
  shows "list_all tag_ok (r_tags rs)" and "list_all field_ok (tag_fields (r_tags rs))"
    and "cycled_tags rs' (r_tags rs) = r_tags (rs @ rs')" and "r_values (r_tags rs) = rs"
proof -
  have "part_ok ''r''" by (simp add: part_ok_def text_ok_def as_bytes_def byte_of_char_code)
  then show "list_all tag_ok (r_tags rs)" "list_all field_ok (tag_fields (r_tags rs))"
    using assms
    by (induction rs) (auto simp: r_tags_def tag_ok_def field_ok_def tag_bytes_def part_ok_def)
  show "cycled_tags rs' (r_tags rs) = r_tags (rs @ rs')" "r_values (r_tags rs) = rs"
    by (induction rs) (auto simp: r_tags_def cycled_tags_def nostr_kept_def nostr_relays_def relay_tag_def r_values_def)
qed

lemma reencode_r_tags:
  assumes "decode_nprofile B target = Inr (pk, rs)" and "list_all part_ok rs'"
  shows "reencode_transport B (nostr_transport target (r_tags rs'))
       = rmap (\<lambda>target'. nostr_transport target' (r_tags (rs' @ rs))) (encode_nprofile B pk (rs' @ rs))"
proof -
  have ok: "length pk = 32" "list_all part_ok (rs' @ rs)"
    using decode_nprofile_ok [OF assms(1)] assms(2) by auto
  show ?thesis
    using encode_nostr [of "nostr_transport target (r_tags rs')" B pk rs] assms(1)
      decode_nostr [OF ok(1) r_tags_ok(1,2) [OF ok(2)], of B] r_tags_ok(4) [OF ok(2)] r_tags_ok(3) [OF assms(2), of rs]
    by (simp add: reencode_transport_def nostr_transport_def)
qed

text \<open>
  C20. A Nostr transport whose profile names relays is read back with the relays also as tags, and
  each further writing and reading of it doubles the relays, in the profile and in the tags.
\<close>

theorem nostr_relays_double:
  assumes "bech32_law B" and "list_all part_ok rs"
    and "encode_nprofile B pk rs = Inr target" and "encode_nprofile B pk (rs @ rs) = Inr target'"
  shows "reencode_transport B (nostr_transport target []) = Inr (nostr_transport target (r_tags rs))
       \<and> reencode_transport B (nostr_transport target (r_tags rs)) = Inr (nostr_transport target' (r_tags (rs @ rs)))"
proof -
  have dec: "decode_nprofile B target = Inr (pk, rs)" by (rule decode_encode_nprofile [OF assms(1-3)])
  show ?thesis
    using reencode_r_tags [OF dec, of "[]"] reencode_r_tags [OF dec assms(2)] assms(3,4)
    by (simp add: rmap_def r_tags_def)
qed

theorem nostr_relays_double_witness:
  "\<exists>target target'. encode_nprofile demo_bech32 demo_pubkey [''wss://a''] = Inr target
     \<and> reencode_transport demo_bech32 (nostr_transport target [[''r'', ''wss://a'']])
         = Inr (nostr_transport target' [[''r'', ''wss://a''], [''r'', ''wss://a'']])"
proof -
  have ok: "list_all part_ok [''wss://a'']" by code_simp
  have "is_ok (encode_nprofile demo_bech32 demo_pubkey [''wss://a''])"
    "is_ok (encode_nprofile demo_bech32 demo_pubkey ([''wss://a''] @ [''wss://a'']))"
    by code_simp+
  then obtain target target' where
    "encode_nprofile demo_bech32 demo_pubkey [''wss://a''] = Inr target"
    "encode_nprofile demo_bech32 demo_pubkey ([''wss://a''] @ [''wss://a'']) = Inr target'"
    by (auto simp: is_ok_def split: sum.splits)
  then show ?thesis
    using nostr_relays_double [OF demo_bech32_law ok] by (auto simp: r_tags_def)
qed

end
