(* ===== verification/Token.thy ===== *)
theory Token
  imports Payment_Request
begin

text \<open>
  Tokens, the form in which ecash is handed over, after \<open>crates/cashu/src/nuts/nut00/token.rs\<close>: both
  versions, their construction from the proofs of a wallet, the proofs and the value read from them,
  the conversions between the versions, their texts and raw bytes, and the spending conditions of
  their secrets. JSON, CBOR and base64 are in the parameter \<open>F\<close>; what is written of a token in them is
  modelled. A hash map is an association list and
  \<open>order\<close> the order in which it is iterated; a hash set is a set.
\<close>

section \<open>Data\<close>

record token_v3_token =
  tt3_mint :: string
  tt3_proofs :: "proof_v3 list"

record token_v3 =
  t3_token :: "token_v3_token list"
  t3_memo :: "string option"
  t3_unit :: "currency_unit option"

record token_v4_token =
  tt4_keyset_id :: short_keyset_id
  tt4_proofs :: "proof_v4 list"

record token_v4 =
  t4_mint_url :: string
  t4_unit :: currency_unit
  t4_memo :: "string option"
  t4_token :: "token_v4_token list"

datatype token = TokenV3 token_v3 | TokenV4 token_v4

section \<open>Construction\<close>

text \<open>\<open>entry(..).and_modify(..).or_insert(..)\<close> on a map of lists.\<close>

fun group_push :: "'k \<Rightarrow> 'v \<Rightarrow> ('k \<times> 'v list) list \<Rightarrow> ('k \<times> 'v list) list" where
  "group_push k v [] = [(k, [v])]"
| "group_push k v ((k', vs) # m) = (if k = k' then (k', vs @ [v]) # m else (k', vs) # group_push k v m)"

definition group_by_key :: "('a \<Rightarrow> 'k) \<Rightarrow> ('a \<Rightarrow> 'v) \<Rightarrow> 'a list \<Rightarrow> ('k \<times> 'v list) list" where
  "group_by_key key val xs = fold (\<lambda>x. group_push (key x) (val x)) xs []"

definition token_v4_token_new :: "keyset_id \<Rightarrow> cashu_proof list \<Rightarrow> nut02_error + token_v4_token" where
  "token_v4_token_new kid ps =
     rmap (\<lambda>short_id. \<lparr> tt4_keyset_id = short_id, tt4_proofs = map v4_of_proof ps \<rparr>) (short_of_id kid)"

type_synonym ('k, 'v) map_order = "('k \<times> 'v list) list \<Rightarrow> ('k \<times> 'v list) list"

definition token_new ::
  "(keyset_id, cashu_proof) map_order \<Rightarrow> string \<Rightarrow> cashu_proof list \<Rightarrow> string option \<Rightarrow> currency_unit \<Rightarrow> nut02_error + token"
where
  "token_new order mint_url ps memo u =
     rmap (\<lambda>ts. TokenV4 \<lparr> t4_mint_url = mint_url, t4_unit = u, t4_memo = memo, t4_token = ts \<rparr>)
       (collect_res (\<lambda>(kid, ps). token_v4_token_new kid ps) (order (group_by_key p_keyset_id id ps)))"

definition token_v3_new ::
  "string \<Rightarrow> cashu_proof list \<Rightarrow> string option \<Rightarrow> currency_unit option \<Rightarrow> nut00_error + token_v3"
where
  "token_v3_new mint_url ps memo u =
     rbind (ensure_cdk (ps \<noteq> []) N0_ProofsRequired) (\<lambda>_.
     rbind (map_err N0_NUT02 (collect_res v3_of_proof ps)) (\<lambda>ps3.
     Inr \<lparr> t3_token = [\<lparr> tt3_mint = mint_url, tt3_proofs = ps3 \<rparr>], t3_memo = memo, t3_unit = u \<rparr>))"

section \<open>Proofs and value\<close>

definition resolve_v3 :: "keyset_info list \<Rightarrow> proof_v3 \<Rightarrow> nut00_error + cashu_proof" where
  "resolve_v3 mint_keysets p =
     rmap (\<lambda>long_id. proof_of_v3 long_id p) (map_err N0_NUT02 (from_short_keyset_id (p3_keyset_id p) mint_keysets))"

definition v3_proofs :: "token_v3 \<Rightarrow> keyset_info list \<Rightarrow> nut00_error + cashu_proof list" where
  "v3_proofs t mint_keysets =
     rmap concat (collect_res (\<lambda>tt. collect_res (resolve_v3 mint_keysets) (tt3_proofs tt)) (t3_token t))"

definition resolve_v4 :: "keyset_info list \<Rightarrow> token_v4_token \<Rightarrow> nut00_error + cashu_proof list" where
  "resolve_v4 mint_keysets tt =
     rmap (\<lambda>long_id. map (proof_of_v4 long_id) (tt4_proofs tt))
       (map_err N0_NUT02 (from_short_keyset_id (tt4_keyset_id tt) mint_keysets))"

definition v4_proofs :: "token_v4 \<Rightarrow> keyset_info list \<Rightarrow> nut00_error + cashu_proof list" where
  "v4_proofs t mint_keysets = rmap concat (collect_res (resolve_v4 mint_keysets) (t4_token t))"

definition token_proofs :: "token \<Rightarrow> keyset_info list \<Rightarrow> nut00_error + cashu_proof list" where
  "token_proofs t mint_keysets = (case t of
       TokenV3 t \<Rightarrow> v3_proofs t mint_keysets
     | TokenV4 t \<Rightarrow> v4_proofs t mint_keysets)"

definition value_of_groups :: "u64 list list \<Rightarrow> nut00_error + u64" where
  "value_of_groups as = map_err N0_Amount (rbind (collect_res try_sum as) try_sum)"

definition v3_value :: "token_v3 \<Rightarrow> nut00_error + u64" where
  "v3_value t = (let proofs = concat (map tt3_proofs (t3_token t)) in
     if card (set proofs) \<noteq> length proofs then Inl N0_DuplicateProofs
     else value_of_groups (map (\<lambda>tt. map p3_amount (tt3_proofs tt)) (t3_token t)))"

definition v4_value :: "token_v4 \<Rightarrow> nut00_error + u64" where
  "v4_value t = (let proofs = concat (map tt4_proofs (t4_token t)) in
     if card (set proofs) \<noteq> length proofs then Inl N0_DuplicateProofs
     else value_of_groups (map (\<lambda>tt. map p4_amount (tt4_proofs tt)) (t4_token t)))"

definition token_value :: "token \<Rightarrow> nut00_error + u64" where
  "token_value t = (case t of TokenV3 t \<Rightarrow> v3_value t | TokenV4 t \<Rightarrow> v4_value t)"

definition token_memo :: "token \<Rightarrow> string option" where
  "token_memo t = (case t of TokenV3 t \<Rightarrow> t3_memo t | TokenV4 t \<Rightarrow> t4_memo t)"

definition token_unit :: "token \<Rightarrow> currency_unit option" where
  "token_unit t = (case t of TokenV3 t \<Rightarrow> t3_unit t | TokenV4 t \<Rightarrow> Some (t4_unit t))"

definition v3_mint_urls :: "token_v3 \<Rightarrow> string list" where
  "v3_mint_urls t = map tt3_mint (t3_token t)"

definition is_multi_mint :: "token_v3 \<Rightarrow> bool" where
  "is_multi_mint t \<longleftrightarrow> length (t3_token t) > 1"

definition single_mint :: "string list \<Rightarrow> nut00_error + string" where
  "single_mint mint_urls =
     rbind (ensure_cdk (length mint_urls = 1) N0_UnsupportedToken) (\<lambda>_.
       ok_or N0_UnsupportedToken (case mint_urls of [] \<Rightarrow> None | u # _ \<Rightarrow> Some u))"

definition token_mint_url :: "token \<Rightarrow> nut00_error + string" where
  "token_mint_url t = (case t of
       TokenV3 t \<Rightarrow> single_mint (v3_mint_urls t)
     | TokenV4 t \<Rightarrow> Inr (t4_mint_url t))"

section \<open>Conversions\<close>

definition v3_of_v4_proof :: "short_keyset_id \<Rightarrow> proof_v4 \<Rightarrow> proof_v3" where
  "v3_of_v4_proof sid p =
     \<lparr> p3_amount = p4_amount p, p3_keyset_id = sid, p3_secret = p4_secret p, p3_c = p4_c p,
       p3_witness = p4_witness p, p3_dleq = p4_dleq p \<rparr>"

definition v3_of_v4 :: "token_v4 \<Rightarrow> token_v3" where
  "v3_of_v4 t =
     \<lparr> t3_token = [\<lparr> tt3_mint = t4_mint_url t,
         tt3_proofs = concat (map (\<lambda>tt. map (v3_of_v4_proof (tt4_keyset_id tt)) (tt4_proofs tt)) (t4_token t)) \<rparr>],
       t3_memo = t4_memo t, t3_unit = Some (t4_unit t) \<rparr>"

definition v4_of_v3_proof :: "proof_v3 \<Rightarrow> proof_v4" where
  "v4_of_v3_proof p =
     \<lparr> p4_amount = p3_amount p, p4_secret = p3_secret p, p4_c = p3_c p,
       p4_witness = p3_witness p, p4_dleq = p3_dleq p, p4_p2pk_e = None \<rparr>"

definition v4_try_from_v3 :: "(short_keyset_id, proof_v4) map_order \<Rightarrow> token_v3 \<Rightarrow> nut00_error + token_v4" where
  "v4_try_from_v3 order t =
     (let proofs = concat (map tt3_proofs (t3_token t)) in
      rbind (single_mint (v3_mint_urls t)) (\<lambda>mint_url.
      let groups = order (group_by_key p3_keyset_id v4_of_v3_proof proofs) in
      rbind (ok_or N0_UnsupportedUnit (t3_unit t)) (\<lambda>u.
      Inr \<lparr> t4_mint_url = mint_url, t4_unit = u, t4_memo = t3_memo t,
            t4_token = map (\<lambda>(sid, ps). \<lparr> tt4_keyset_id = sid, tt4_proofs = ps \<rparr>) groups \<rparr>)))"

section \<open>Texts and raw bytes\<close>

definition ser_token_v3_token :: "ext \<Rightarrow> formats \<Rightarrow> token_v3_token \<Rightarrow> serde_value option" where
  "ser_token_v3_token X F t =
     Option.bind (ser_vec (ser_proof_v3 X F True) (tt3_proofs t)) (\<lambda>ps.
     Some (V_Map [(''mint'', ser_mint_url (tt3_mint t)), (''proofs'', ps)]))"

definition de_token_v3_token :: "ext \<Rightarrow> formats \<Rightarrow> serde_value \<Rightarrow> token_v3_token option" where
  "de_token_v3_token X F v =
     Option.bind (de_map v) (\<lambda>m.
     Option.bind (de_field ''mint'' (de_mint_url X) m) (\<lambda>mint.
     Option.bind (de_field ''proofs'' (de_vec (de_proof_v3 X F True)) m) (\<lambda>ps.
     Some \<lparr> tt3_mint = mint, tt3_proofs = ps \<rparr>)))"

definition ser_token_v3 :: "ext \<Rightarrow> formats \<Rightarrow> token_v3 \<Rightarrow> serde_value option" where
  "ser_token_v3 X F t =
     Option.bind (ser_vec (ser_token_v3_token X F) (t3_token t)) (\<lambda>ts.
     Some (V_Map ((''token'', ts) # opt_entry ''memo'' (map_option V_Text (t3_memo t))
       @ opt_entry ''unit'' (map_option (ser_currency_unit X) (t3_unit t)))))"

definition de_token_v3 :: "ext \<Rightarrow> formats \<Rightarrow> serde_value \<Rightarrow> token_v3 option" where
  "de_token_v3 X F v =
     Option.bind (de_map v) (\<lambda>m.
     Option.bind (de_field ''token'' (de_vec (de_token_v3_token X F)) m) (\<lambda>ts.
     Option.bind (de_field_opt ''memo'' de_text m) (\<lambda>memo.
     Option.bind (de_field_opt ''unit'' (de_currency_unit X) m) (\<lambda>u.
     Some \<lparr> t3_token = ts, t3_memo = memo, t3_unit = u \<rparr>))))"

definition ser_token_v4_token :: "ext \<Rightarrow> formats \<Rightarrow> token_v4_token \<Rightarrow> serde_value option" where
  "ser_token_v4_token X F t =
     Option.bind (ser_vec (ser_proof_v4 X F False) (tt4_proofs t)) (\<lambda>ps.
     Some (V_Map [(''i'', serialize_v4_keyset_id (tt4_keyset_id t)), (''p'', ps)]))"

definition de_token_v4_token :: "ext \<Rightarrow> formats \<Rightarrow> serde_value \<Rightarrow> token_v4_token option" where
  "de_token_v4_token X F v =
     Option.bind (de_map v) (\<lambda>m.
     Option.bind (de_field ''i'' deserialize_v4_keyset_id m) (\<lambda>i.
     Option.bind (de_field ''p'' (de_vec (de_proof_v4 X F False)) m) (\<lambda>ps.
     Some \<lparr> tt4_keyset_id = i, tt4_proofs = ps \<rparr>)))"

definition ser_token_v4 :: "ext \<Rightarrow> formats \<Rightarrow> token_v4 \<Rightarrow> serde_value option" where
  "ser_token_v4 X F t =
     Option.bind (ser_vec (ser_token_v4_token X F) (t4_token t)) (\<lambda>ts.
     Some (V_Map ([(''m'', ser_mint_url (t4_mint_url t)), (''u'', ser_currency_unit X (t4_unit t))]
       @ opt_entry ''d'' (map_option V_Text (t4_memo t)) @ [(''t'', ts)])))"

definition de_token_v4 :: "ext \<Rightarrow> formats \<Rightarrow> serde_value \<Rightarrow> token_v4 option" where
  "de_token_v4 X F v =
     Option.bind (de_map v) (\<lambda>m.
     Option.bind (de_field ''m'' (de_mint_url X) m) (\<lambda>mint.
     Option.bind (de_field ''u'' (de_currency_unit X) m) (\<lambda>u.
     Option.bind (de_field_opt ''d'' de_text m) (\<lambda>memo.
     Option.bind (de_field ''t'' (de_vec (de_token_v4_token X F)) m) (\<lambda>ts.
     Some \<lparr> t4_mint_url = mint, t4_unit = u, t4_memo = memo, t4_token = ts \<rparr>)))))"

definition strip_prefix :: "string \<Rightarrow> string \<Rightarrow> string option" where
  "strip_prefix p s = (if starts_with s p then Some (drop (length p) s) else None)"

definition v3_display :: "ext \<Rightarrow> formats \<Rightarrow> token_v3 \<Rightarrow> string option" where
  "v3_display X F t = map_option (\<lambda>j. ''cashuA'' @ f_base64_encode F (as_bytes j)) (Option.bind (ser_token_v3 X F t) (f_json_write F))"

definition v4_display :: "ext \<Rightarrow> formats \<Rightarrow> token_v4 \<Rightarrow> string option" where
  "v4_display X F t = map_option (\<lambda>data. ''cashuB'' @ f_base64_encode F data) (Option.bind (ser_token_v4 X F t) (f_cbor_write F))"

definition token_display :: "ext \<Rightarrow> formats \<Rightarrow> token \<Rightarrow> string option" where
  "token_display X F t = (case t of TokenV3 t \<Rightarrow> v3_display X F t | TokenV4 t \<Rightarrow> v4_display X F t)"

definition to_v3_string :: "ext \<Rightarrow> formats \<Rightarrow> token \<Rightarrow> string option" where
  "to_v3_string X F t = v3_display X F (case t of TokenV3 t \<Rightarrow> t | TokenV4 t \<Rightarrow> v3_of_v4 t)"

definition token_utf8 :: "bytes \<Rightarrow> nut00_error + string" where
  "token_utf8 bs = map_err (\<lambda>_. N0_Utf8ParseError) (from_utf8 bs)"

definition v3_read :: "ext \<Rightarrow> formats \<Rightarrow> bytes \<Rightarrow> nut00_error + token_v3" where
  "v3_read X F decoded = rbind (token_utf8 decoded) (\<lambda>s. ok_or N0_SerdeJsonError (Option.bind (f_json_read F s) (de_token_v3 X F)))"

definition v4_read :: "ext \<Rightarrow> formats \<Rightarrow> bytes \<Rightarrow> nut00_error + token_v4" where
  "v4_read X F decoded = ok_or N0_CiboriumError (Option.bind (f_cbor_read F decoded) (de_token_v4 X F))"

definition token_from_str :: "ext \<Rightarrow> formats \<Rightarrow> string \<Rightarrow> nut00_error + token" where
  "token_from_str X F s =
     rbind (case (strip_prefix ''cashuA'' s, strip_prefix ''cashuB'' s) of
         (Some s, None) \<Rightarrow> Inr (True, s)
       | (None, Some s) \<Rightarrow> Inr (False, s)
       | _ \<Rightarrow> Inl N0_UnsupportedToken) (\<lambda>(is_v3, s).
     rbind (ok_or N0_Base64Error (f_base64_decode F s)) (\<lambda>decoded.
       if is_v3 then rmap TokenV3 (v3_read X F decoded) else rmap TokenV4 (v4_read X F decoded)))"

definition v3_from_str :: "ext \<Rightarrow> formats \<Rightarrow> string \<Rightarrow> nut00_error + token_v3" where
  "v3_from_str X F s =
     rbind (ok_or N0_UnsupportedToken (strip_prefix ''cashuA'' s)) (\<lambda>s.
     rbind (ok_or N0_Base64Error (f_base64_decode F s)) (v3_read X F))"

definition v4_from_str :: "ext \<Rightarrow> formats \<Rightarrow> string \<Rightarrow> nut00_error + token_v4" where
  "v4_from_str X F s =
     rbind (ok_or N0_UnsupportedToken (strip_prefix ''cashuB'' s)) (\<lambda>s.
     rbind (ok_or N0_Base64Error (f_base64_decode F s)) (v4_read X F))"

definition v4_to_raw_bytes :: "ext \<Rightarrow> formats \<Rightarrow> token_v4 \<Rightarrow> nut00_error + bytes" where
  "v4_to_raw_bytes X F t =
     rbind (ok_or N0_CiboriumSerError (Option.bind (ser_token_v4 X F t) (f_cbor_write F))) (\<lambda>data. Inr (as_bytes ''crawB'' @ data))"

definition token_to_raw_bytes :: "ext \<Rightarrow> formats \<Rightarrow> token \<Rightarrow> nut00_error + bytes" where
  "token_to_raw_bytes X F t = (case t of TokenV3 t \<Rightarrow> Inl N0_UnsupportedToken | TokenV4 t \<Rightarrow> v4_to_raw_bytes X F t)"

definition v4_try_from_bytes :: "ext \<Rightarrow> formats \<Rightarrow> bytes \<Rightarrow> nut00_error + token_v4" where
  "v4_try_from_bytes X F bytes =
     rbind (ensure_cdk (length bytes \<ge> 5) N0_UnsupportedToken) (\<lambda>_.
     rbind (token_utf8 (take 5 bytes)) (\<lambda>prefix.
     rbind (ensure_cdk (prefix = ''crawB'') N0_UnsupportedToken) (\<lambda>_.
     v4_read X F (drop 5 bytes))))"

definition token_try_from_bytes :: "ext \<Rightarrow> formats \<Rightarrow> bytes \<Rightarrow> nut00_error + token" where
  "token_try_from_bytes X F bytes =
     rbind (ensure_cdk (length bytes \<ge> 5) N0_UnsupportedToken) (\<lambda>_.
     rbind (token_utf8 (take 5 bytes)) (\<lambda>prefix.
       if prefix = ''crawB'' then rmap TokenV4 (v4_read X F (drop 5 bytes)) else Inl N0_UnsupportedToken))"

section \<open>Spending conditions\<close>

definition token_secrets :: "token \<Rightarrow> secret list" where
  "token_secrets t = (case t of
       TokenV3 t \<Rightarrow> concat (map (\<lambda>kt. map p3_secret (tt3_proofs kt)) (t3_token t))
     | TokenV4 t \<Rightarrow> concat (map (\<lambda>kt. map p4_secret (tt4_proofs kt)) (t4_token t)))"

text \<open>The conditions of the secrets that have any, in the order of the secrets.\<close>

definition token_conditions :: "ext \<Rightarrow> token \<Rightarrow> spending_conditions list" where
  "token_conditions X t = concat (map (\<lambda>s. case sc_of_secret X s of Inr c \<Rightarrow> [c] | Inl e \<Rightarrow> []) (token_secrets t))"

definition token_spending_conditions :: "ext \<Rightarrow> token \<Rightarrow> spending_conditions set" where
  "token_spending_conditions X t = set (token_conditions X t)"

definition keys_of_conditions ::
  "(spending_conditions \<Rightarrow> public_key list option) \<Rightarrow> spending_conditions list \<Rightarrow> public_key set"
where
  "keys_of_conditions f cs = set (concat (map (\<lambda>c.
     if sc_kind c = P2PK then (case f c of Some ks \<Rightarrow> ks | None \<Rightarrow> []) else []) cs))"

definition token_p2pk_pubkeys :: "ext \<Rightarrow> token \<Rightarrow> public_key set" where
  "token_p2pk_pubkeys X t = keys_of_conditions sc_pubkeys (token_conditions X t)"

definition token_p2pk_refund_pubkeys :: "ext \<Rightarrow> token \<Rightarrow> public_key set" where
  "token_p2pk_refund_pubkeys X t = keys_of_conditions sc_refund_keys (token_conditions X t)"

definition token_htlc_hashes :: "ext \<Rightarrow> token \<Rightarrow> bytes set" where
  "token_htlc_hashes X t =
     set (concat (map (\<lambda>c. case c of HTLCConditions data _ \<Rightarrow> [data] | _ \<Rightarrow> []) (token_conditions X t)))"

definition token_locktimes :: "ext \<Rightarrow> token \<Rightarrow> u64 set" where
  "token_locktimes X t =
     set (concat (map (\<lambda>c. case sc_locktime c of Some lt \<Rightarrow> [lt] | None \<Rightarrow> []) (token_conditions X t)))"

section \<open>Groups\<close>

definition spread :: "('k \<Rightarrow> 'v \<Rightarrow> 'b) \<Rightarrow> ('k \<times> 'v list) list \<Rightarrow> 'b list" where
  "spread h m = concat (map (\<lambda>(k, vs). map (h k) vs) m)"

lemma group_push_mset: "mset (spread h (group_push k v m)) = add_mset (h k v) (mset (spread h m))"
  by (induction k v m rule: group_push.induct) (auto simp: spread_def)

lemma group_by_key_mset: "mset (spread h (group_by_key key val xs)) = mset (map (\<lambda>x. h (key x) (val x)) xs)"
proof -
  have "mset (spread h (fold (\<lambda>x. group_push (key x) (val x)) xs m))
      = mset (spread h m) + mset (map (\<lambda>x. h (key x) (val x)) xs)" for m
    by (induction xs arbitrary: m) (simp_all add: group_push_mset)
  then show ?thesis by (simp add: group_by_key_def spread_def)
qed

definition groups_of :: "('k \<times> 'v) set \<Rightarrow> ('k \<times> 'v list) list \<Rightarrow> bool" where
  "groups_of A m \<longleftrightarrow> (\<forall>(k, vs) \<in> set m. vs \<noteq> [] \<and> (\<forall>v \<in> set vs. (k, v) \<in> A))"

lemma group_push_groups: "groups_of A m \<Longrightarrow> groups_of (insert (k, v) A) (group_push k v m)"
  by (induction k v m rule: group_push.induct) (auto simp: groups_of_def)

lemma group_by_key_groups: "groups_of ((\<lambda>x. (key x, val x)) ` set xs) (group_by_key key val xs)"
proof -
  have "groups_of A m \<Longrightarrow> groups_of (A \<union> (\<lambda>x. (key x, val x)) ` set xs) (fold (\<lambda>x. group_push (key x) (val x)) xs m)" for A m
  proof (induction xs arbitrary: A m)
    case (Cons x xs)
    from Cons.IH [OF group_push_groups [OF Cons.prems]] show ?case by simp
  qed simp
  from this [of "{}" "[]"] show ?thesis by (simp add: groups_of_def group_by_key_def)
qed

lemma spread_order: "mset m = mset m' \<Longrightarrow> mset (spread h m) = mset (spread h m')"
proof -
  have "mset (spread h m) = (\<Sum>g \<in># mset m. mset (map (h (fst g)) (snd g)))" for m
    by (induction m) (auto simp: spread_def)
  then show "mset m = mset m' \<Longrightarrow> mset (spread h m) = mset (spread h m')" by simp
qed

lemma spread_id: "spread (\<lambda>_. id) m = concat (map snd m)"
  by (simp add: spread_def case_prod_beta')

section \<open>Sums\<close>

lemma collect_try_sum: "collect_res try_sum as = Inr ss \<longleftrightarrow> map unat ss = map usum as"
  by (auto simp: collect_res_eq_Ok try_sum_Ok list_all2_conv_all_nth list_eq_iff_nth_eq)

lemma usum_concat: "usum (concat as) = sum_list (map usum as)"
  by (induction as) auto

lemma value_of_groups_Ok: "value_of_groups as = Inr v \<longleftrightarrow> unat v = usum (concat as)"
proof
  assume "value_of_groups as = Inr v"
  then show "unat v = usum (concat as)"
    by (auto simp: value_of_groups_def map_err_eq_Ok rbind_eq_Ok collect_try_sum try_sum_Ok usum_concat)
next
  assume v: "unat v = usum (concat as)"
  have "usum a < 2 ^ 64" if "a \<in> set as" for a
  proof -
    have "usum a \<le> sum_list (map usum as)" using that by (intro member_le_sum_list) auto
    then show ?thesis using v unsigned_less [where 'b = 64 and 'a = nat, of v] by (simp add: usum_concat)
  qed
  then have "map unat (map (\<lambda>a. of_nat (usum a) :: u64) as) = map usum as"
    by (auto simp: unsigned_of_nat take_bit_nat_eq_self)
  then show "value_of_groups as = Inr v"
    using v collect_try_sum [of as "map (\<lambda>a. of_nat (usum a)) as"] try_sum_Ok [of "map (\<lambda>a. of_nat (usum a)) as" v]
    by (simp add: value_of_groups_def usum_concat map_err_def del: map_map)
qed

lemma v4_value_Ok:
  "v4_value t = Inr v \<longleftrightarrow> distinct (concat (map tt4_proofs (t4_token t)))
     \<and> unat v = usum (map p4_amount (concat (map tt4_proofs (t4_token t))))"
  using card_distinct [of "concat (map tt4_proofs (t4_token t))"] distinct_card [of "concat (map tt4_proofs (t4_token t))"]
  by (auto simp: v4_value_def Let_def value_of_groups_Ok map_concat comp_def)

section \<open>Handing over a token\<close>

text \<open>Tokens whose texts are UTF-8, whose mint URL is in printed form and whose keys are keys.\<close>

definition mint_url_ok :: "ext \<Rightarrow> string \<Rightarrow> bool" where
  "mint_url_ok X m \<longleftrightarrow> text_ok m \<and> mint_url_from_str X m = Inr m"

definition token_v4_ok :: "ext \<Rightarrow> formats \<Rightarrow> token_v4 \<Rightarrow> bool" where
  "token_v4_ok X F t \<longleftrightarrow> mint_url_ok X (t4_mint_url t) \<and> unit_text_ok X (t4_unit t) \<and> pred_option text_ok (t4_memo t) \<and>
     (\<forall>tt \<in> set (t4_token t). \<forall>p \<in> set (tt4_proofs tt). proof_v4_ok X F p)"

definition token_v3_ok :: "ext \<Rightarrow> formats \<Rightarrow> token_v3 \<Rightarrow> bool" where
  "token_v3_ok X F t \<longleftrightarrow> pred_option (unit_text_ok X) (t3_unit t) \<and> pred_option text_ok (t3_memo t) \<and>
     (\<forall>tt \<in> set (t3_token t). mint_url_ok X (tt3_mint tt) \<and> (\<forall>p \<in> set (tt3_proofs tt). proof_v3_ok X F p))"

text \<open>The tokens they are read back as: the unit is the one that its lower-case name stands for.\<close>

definition v4_read_back :: "ext \<Rightarrow> token_v4 \<Rightarrow> token_v4" where
  "v4_read_back X t = t\<lparr> t4_unit := unit_read_back X (t4_unit t) \<rparr>"

definition v3_read_back :: "ext \<Rightarrow> token_v3 \<Rightarrow> token_v3" where
  "v3_read_back X t = t\<lparr> t3_unit := map_option (unit_read_back X) (t3_unit t) \<rparr>"

lemma text_ok_token_names [simp]:
  "text_ok ''mint''" "text_ok ''proofs''" "text_ok ''token''" "text_ok ''memo''" "text_ok ''unit''" "text_ok ''p''"
  "text_ok ''i''" "text_ok ''m''" "text_ok ''u''" "text_ok ''t''"
  by (simp_all add: text_ok_def as_bytes_def byte_of_char_code)

lemma mint_url_value: "mint_url_ok X m \<Longrightarrow> value_ok h n (ser_mint_url m) \<and> de_mint_url X (ser_mint_url m) = Some m"
  by (simp add: mint_url_ok_def ser_mint_url_def de_mint_url_def de_text_def res_ok_def)

interpretation v3_token_serde: serde_roundtrip True 4 "ser_token_v3_token X F" "de_token_v3_token X F"
    "\<lambda>t. formats_law F \<and> mint_url_ok X (tt3_mint t) \<and> (\<forall>p \<in> set (tt3_proofs t). proof_v3_ok X F p)" id
  for X F
proof
  fix t :: token_v3_token assume t: "formats_law F \<and> mint_url_ok X (tt3_mint t) \<and> (\<forall>p \<in> set (tt3_proofs t). proof_v3_ok X F p)"
  then have "list_all (\<lambda>p. formats_law F \<and> proof_v3_ok X F p) (tt3_proofs t)" by (simp add: list_all_iff)
  then obtain v where "ser_vec (ser_proof_v3 X F True) (tt3_proofs t) = Some v" "value_ok True 3 v"
    "de_vec (de_proof_v3 X F True) v = Some (map id (tt3_proofs t))" by (rule proof_v3_serde.vec [where n = 3]) simp_all
  with t mint_url_value [of X "tt3_mint t" True 3]
  show "\<exists>v. ser_token_v3_token X F t = Some v \<and> value_ok True 4 v \<and> v \<noteq> V_Null \<and> de_token_v3_token X F v = Some (id t)"
    by (simp add: ser_token_v3_token_def de_token_v3_token_def value_ok_simps(7) [of _ 3, simplified] field_eval)
qed

interpretation v3_serde: serde_roundtrip True 6 "ser_token_v3 X F" "de_token_v3 X F" "\<lambda>t. formats_law F \<and> token_v3_ok X F t" "v3_read_back X"
  for X F
proof
  fix t assume t: "formats_law F \<and> token_v3_ok X F t"
  then have "list_all (\<lambda>t. formats_law F \<and> mint_url_ok X (tt3_mint t) \<and> (\<forall>p \<in> set (tt3_proofs t). proof_v3_ok X F p)) (t3_token t)"
    and u: "pred_option (unit_text_ok X) (t3_unit t)" and d: "pred_option text_ok (t3_memo t)"
    by (simp_all add: list_all_iff token_v3_ok_def)
  from this(1) obtain v where "ser_vec (ser_token_v3_token X F) (t3_token t) = Some v" "value_ok True 5 v"
    "de_vec (de_token_v3_token X F) v = Some (map id (t3_token t))" by (rule v3_token_serde.vec [where n = 5]) simp_all
  then show "\<exists>v. ser_token_v3 X F t = Some v \<and> value_ok True 6 v \<and> v \<noteq> V_Null \<and> de_token_v3 X F v = Some (v3_read_back X t)"
    using unit_serde.total_opt [OF u] text_serde.total_opt [OF d]
    by (simp add: ser_token_v3_def de_token_v3_def value_ok_simps(7) [of _ 5, simplified] field_eval v3_read_back_def)
qed

interpretation v4_token_serde: serde_roundtrip False 4 "ser_token_v4_token X F" "de_token_v4_token X F"
    "\<lambda>t. formats_law F \<and> (\<forall>p \<in> set (tt4_proofs t). proof_v4_ok X F p)" id
  for X F
proof
  fix t :: token_v4_token assume "formats_law F \<and> (\<forall>p \<in> set (tt4_proofs t). proof_v4_ok X F p)"
  then have "list_all (\<lambda>p. formats_law F \<and> proof_v4_ok X F p) (tt4_proofs t)" by (simp add: list_all_iff)
  then obtain v where "ser_vec (ser_proof_v4 X F False) (tt4_proofs t) = Some v" "value_ok False 3 v"
    "de_vec (de_proof_v4 X F False) v = Some (map id (tt4_proofs t))" by (rule proof_v4_serde.vec [where n = 3]) simp_all
  then show "\<exists>v. ser_token_v4_token X F t = Some v \<and> value_ok False 4 v \<and> v \<noteq> V_Null \<and> de_token_v4_token X F v = Some (id t)"
    using v4_short_id_serde.total_written
    by (simp add: ser_token_v4_token_def de_token_v4_token_def value_ok_simps(7) [of _ 3, simplified] field_eval)
qed

interpretation v4_serde: serde_roundtrip False 6 "ser_token_v4 X F" "de_token_v4 X F" "\<lambda>t. formats_law F \<and> token_v4_ok X F t" "v4_read_back X"
  for X F
proof
  fix t assume t: "formats_law F \<and> token_v4_ok X F t"
  then have "list_all (\<lambda>t. formats_law F \<and> (\<forall>p \<in> set (tt4_proofs t). proof_v4_ok X F p)) (t4_token t)"
    and m: "mint_url_ok X (t4_mint_url t)" and u: "unit_text_ok X (t4_unit t)" and d: "pred_option text_ok (t4_memo t)"
    by (simp_all add: list_all_iff token_v4_ok_def)
  from this(1) obtain v where "ser_vec (ser_token_v4_token X F) (t4_token t) = Some v" "value_ok False 5 v"
    "de_vec (de_token_v4_token X F) v = Some (map id (t4_token t))" by (rule v4_token_serde.vec [where n = 5]) simp_all
  then show "\<exists>v. ser_token_v4 X F t = Some v \<and> value_ok False 6 v \<and> v \<noteq> V_Null \<and> de_token_v4 X F v = Some (v4_read_back X t)"
    using unit_serde.total_written [OF u] text_serde.total_opt [OF d] mint_url_value [OF m]
    by (simp add: ser_token_v4_def de_token_v4_def value_ok_simps(7) [of _ 5, simplified] field_eval v4_read_back_def)
qed

lemma v3_text:
  assumes "formats_law F" and "token_v3_ok X F t"
  shows "\<exists>s. v3_display X F t = Some s \<and> token_from_str X F s = Inr (TokenV3 (v3_read_back X t))"
proof -
  obtain v where v: "ser_token_v3 X F t = Some v" "value_ok True 100 v" "de_token_v3 X F v = Some (v3_read_back X t)"
    using v3_serde.written [of F X t 100] assms by auto
  then obtain j where "f_json_write F v = Some j" "text_ok j" "f_json_read F j = Some v"
    using assms(1) unfolding formats_law_def by blast
  with v assms(1) show ?thesis
    by (simp add: v3_display_def token_from_str_def strip_prefix_def starts_with_def ok_or_def v3_read_def token_utf8_def
        map_err_def rmap_def formats_law_def)
qed

lemma v4_text:
  assumes "formats_law F" and "token_v4_ok X F t"
  shows "\<exists>s. v4_display X F t = Some s \<and> token_from_str X F s = Inr (TokenV4 (v4_read_back X t))"
    and "\<exists>b. v4_to_raw_bytes X F t = Inr b \<and> token_try_from_bytes X F b = Inr (TokenV4 (v4_read_back X t))"
proof -
  obtain v where v: "ser_token_v4 X F t = Some v" "value_ok False 100 v" "de_token_v4 X F v = Some (v4_read_back X t)"
    using v4_serde.written [of F X t 100] assms by auto
  then obtain b where b: "f_cbor_write F v = Some b" "f_cbor_read F b = Some v" "f_base64_decode F (f_base64_encode F b) = Some b"
    using assms(1) unfolding formats_law_def by blast
  with v show "\<exists>s. v4_display X F t = Some s \<and> token_from_str X F s = Inr (TokenV4 (v4_read_back X t))"
    by (simp add: v4_display_def token_from_str_def strip_prefix_def starts_with_def ok_or_def v4_read_def rmap_def)
  have "from_utf8 (as_bytes ''crawB'') = Inr ''crawB''" "length (as_bytes ''crawB'') = 5"
    by (simp_all add: text_ok_def as_bytes_def byte_of_char_code from_utf8_def comp_def char_of_byte_code)
  with v b show "\<exists>b. v4_to_raw_bytes X F t = Inr b \<and> token_try_from_bytes X F b = Inr (TokenV4 (v4_read_back X t))"
    by (simp add: v4_to_raw_bytes_def token_try_from_bytes_def ok_or_def v4_read_def token_utf8_def map_err_def rmap_def ensure_cdk_def)
qed

text \<open>What \<open>Token::new\<close> makes of each group of proofs, when the short form of its identifier exists.\<close>

definition short_form :: "keyset_id \<Rightarrow> short_keyset_id" where
  "short_form i = (case short_of_id i of Inr s \<Rightarrow> s | Inl e \<Rightarrow> undefined)"

definition v4_group :: "keyset_id \<times> cashu_proof list \<Rightarrow> token_v4_token" where
  "v4_group g = \<lparr> tt4_keyset_id = short_form (fst g), tt4_proofs = map v4_of_proof (snd g) \<rparr>"

lemma short_form_resolves:
  assumes "short_id_unambiguous infos i"
  shows "short_of_id i = Inr (short_form i)" and "from_short_keyset_id (short_form i) infos = Inr i"
  using short_of_id_resolves [OF assms] by (auto simp: short_form_def)

lemma token_of_groups:
  assumes "\<And>k vs. (k, vs) \<in> set gs \<Longrightarrow> short_id_unambiguous infos k"
  shows "collect_res (\<lambda>(kid, ps). token_v4_token_new kid ps) gs = Inr (map v4_group gs)"
  using short_form_resolves(1) [OF assms]
  by (intro collect_res_map_Ok) (auto simp: token_v4_token_new_def v4_group_def rmap_def)

lemma proofs_of_groups:
  assumes "\<And>k vs. (k, vs) \<in> set gs \<Longrightarrow> short_id_unambiguous infos k"
    and "\<And>k vs p. (k, vs) \<in> set gs \<Longrightarrow> p \<in> set vs \<Longrightarrow> p_keyset_id p = k"
    and "t4_token t = map v4_group gs"
  shows "v4_proofs t infos = Inr (concat (map snd gs))"
proof -
  have "resolve_v4 infos (v4_group g) = Inr (snd g)" if "g \<in> set gs" for g
  proof -
    obtain k vs where g: "g = (k, vs)" by (cases g)
    have "proof_of_v4 k (v4_of_proof p) = p" if "p \<in> set vs" for p
      using assms(2) [of k vs p] that \<open>g \<in> set gs\<close> g proof_v4_roundtrip [of p] by simp
    then have "map (proof_of_v4 k) (map v4_of_proof vs) = vs" by (simp add: map_idI)
    then show ?thesis
      using short_form_resolves(2) [OF assms(1)] that g by (simp add: resolve_v4_def v4_group_def rmap_def map_err_def)
  qed
  then have "collect_res (resolve_v4 infos) (map v4_group gs) = Inr (map snd gs)"
    by (induction gs) auto
  then show ?thesis by (simp add: v4_proofs_def assms(3) rmap_def)
qed

text \<open>
  C17. Ecash survives its hand-over as a token. A token made of proofs whose keysets the receiver can
  tell apart can be written, as text and as raw bytes, and both are read by the receiver as the same
  token: it has the mint's URL, the memo and the unit that the lower-case name of the sender's unit
  stands for, and is the sender's token itself when the unit is one of the named ones. It yields
  exactly the sender's proofs, up to their order; its value is computed just when no two proofs agree up
  to their keyset and the sum does not overflow, and then is the sum of their amounts. The texts are taken to
  be UTF-8, the mint's URL to be in printed form, and the keys of the proofs to be keys.
\<close>

theorem token_hand_over:
  assumes "\<And>m. mset (order m) = mset m" and "\<forall>p \<in> set ps. short_id_unambiguous infos (p_keyset_id p)"
    and "formats_law F" and "ascii_case X" and "mint_url_ok X mint_url" and "unit_text_ok X u" and "pred_option text_ok memo"
    and "\<forall>p \<in> set ps. proof_v4_ok X F (v4_of_proof p)"
  shows "\<exists>t s b t' qs. token_new order mint_url ps memo u = Inr t
     \<and> token_display X F t = Some s \<and> token_from_str X F s = Inr t'
     \<and> token_to_raw_bytes X F t = Inr b \<and> token_try_from_bytes X F b = Inr t'
     \<and> token_mint_url t' = Inr mint_url \<and> token_memo t' = memo \<and> token_unit t' = Some (unit_read_back X u)
     \<and> (u \<in> named_units \<longrightarrow> t' = t)
     \<and> token_proofs t' infos = Inr qs \<and> mset qs = mset ps
     \<and> (\<forall>v. token_value t' = Inr v \<longleftrightarrow> distinct (map v4_of_proof ps) \<and> unat v = usum (map p_amount ps))"
proof -
  define gs where "gs = order (group_by_key p_keyset_id id ps)"
  define t where "t = \<lparr> t4_mint_url = mint_url, t4_unit = u, t4_memo = memo, t4_token = map v4_group gs \<rparr>"
  have gs_set: "set gs = set (group_by_key p_keyset_id id ps)" using assms(1) unfolding gs_def by (metis set_mset_mset)
  have group: "vs \<noteq> [] \<and> (\<forall>p \<in> set vs. p \<in> set ps \<and> p_keyset_id p = k)" if "(k, vs) \<in> set gs" for k vs
    using group_by_key_groups [of p_keyset_id id ps] that by (fastforce simp: groups_of_def gs_set)
  then have unambiguous: "short_id_unambiguous infos k" if "(k, vs) \<in> set gs" for k vs
    using that assms(2) by (metis hd_in_set)
  have mset_gs: "mset (concat (map snd gs)) = mset ps"
    using spread_order [OF assms(1), of "\<lambda>_. id"] group_by_key_mset [of "\<lambda>_. id" p_keyset_id id ps]
    by (simp add: gs_def spread_id)
  have new: "token_new order mint_url ps memo u = Inr (TokenV4 t)"
    using token_of_groups [OF unambiguous] by (simp add: token_new_def t_def gs_def rmap_def)
  define t' where "t' = v4_read_back X t"
  have t': "t4_mint_url t' = mint_url" "t4_memo t' = memo" "t4_unit t' = unit_read_back X u" "t4_token t' = map v4_group gs"
    by (simp_all add: t'_def v4_read_back_def t_def)
  have named: "u \<in> named_units \<Longrightarrow> t' = t" using unit_read_back_named(1) [OF assms(4)] by (simp add: t'_def v4_read_back_def t_def)
  have proofs: "token_proofs (TokenV4 t') infos = Inr (concat (map snd gs))"
    using proofs_of_groups [of gs infos t'] unambiguous group by (simp add: token_proofs_def t')
  have v4s: "concat (map tt4_proofs (t4_token t')) = map v4_of_proof (concat (map snd gs))"
    by (simp add: t' v4_group_def map_concat comp_def)
  have "mset (map v4_of_proof (concat (map snd gs))) = mset (map v4_of_proof ps)"
    "mset (map (unat \<circ> p_amount) (concat (map snd gs))) = mset (map (unat \<circ> p_amount) ps)"
    using mset_gs by (metis mset_map)+
  then have "distinct (map v4_of_proof (concat (map snd gs))) = distinct (map v4_of_proof ps)"
    "usum (map p_amount (concat (map snd gs))) = usum (map p_amount ps)"
    by (metis mset_eq_imp_distinct_iff, metis map_map sum_mset_sum_list)
  then have val: "token_value (TokenV4 t') = Inr v \<longleftrightarrow> distinct (map v4_of_proof ps) \<and> unat v = usum (map p_amount ps)" for v
    using v4_value_Ok [of t' v] by (simp add: token_value_def v4s comp_def v4_of_proof_def del: map_concat)
  have ok: "token_v4_ok X F t"
    using assms(5-8) group by (auto simp: token_v4_ok_def t_def v4_group_def)
  from v4_text [OF assms(3) ok] obtain s b where
    "token_display X F (TokenV4 t) = Some s" "token_from_str X F s = Inr (TokenV4 t')"
    "token_to_raw_bytes X F (TokenV4 t) = Inr b" "token_try_from_bytes X F b = Inr (TokenV4 t')"
    by (auto simp: token_display_def token_to_raw_bytes_def t'_def)
  moreover have "token_mint_url (TokenV4 t') = Inr mint_url \<and> token_memo (TokenV4 t') = memo \<and> token_unit (TokenV4 t') = Some (unit_read_back X u)"
    by (simp add: token_mint_url_def token_memo_def token_unit_def t')
  ultimately show ?thesis using new proofs mset_gs val named by blast
qed

definition demo_keyset :: keyset_id where
  "demo_keyset = Id Version01 (V2 (replicate 32 5))"

definition demo_infos :: "keyset_info list" where
  "demo_infos = [\<lparr> ki_id = demo_keyset, ki_unit = Sat, ki_active = True, ki_input_fee_ppk = 0, ki_final_expiry = None \<rparr>]"

definition demo_ecash :: "cashu_proof list" where
  "demo_ecash = [new_proof 2 demo_keyset ''a'' (demo_pt 1), (new_proof 8 demo_keyset ''b'' (demo_pt 2)) \<lparr> p_p2pk_e := Some (demo_pt 3) \<rparr>]"

definition demo_token :: token_v4 where
  "demo_token = \<lparr> t4_mint_url = ''https://mint'', t4_unit = Sat, t4_memo = None,
     t4_token = [v4_group (demo_keyset, demo_ecash)] \<rparr>"

lemma demo_mint_url_ok: "mint_url_ok demo_cased ''https://mint''"
  by (simp add: mint_url_ok_def text_ok_def as_bytes_def byte_of_char_code mint_url_from_str_def format_url_def demo_cased_def
      ensure_cdk_def trim_slashes_def nth_part_def ok_or_def ascii_lower_def)

lemma demo_sat_ok: "unit_text_ok demo_cased Sat"
  by (rule unit_read_back_named(2) [OF demo_ascii_case]) (simp add: named_units_def)

lemma demo_ecash_ok: "\<forall>p \<in> set demo_ecash. proof_v4_ok demo_cased demo_formats (v4_of_proof p)"
  by (simp add: demo_ecash_def new_proof_def v4_of_proof_def proof_v4_ok_def demo_public_key_ok)
     (simp add: text_ok_def as_bytes_def byte_of_char_code)

lemma demo_ecash_unambiguous: "\<forall>p \<in> set demo_ecash. short_id_unambiguous demo_infos (p_keyset_id p)"
  by (simp add: demo_ecash_def demo_infos_def short_id_unambiguous_def new_proof_def demo_keyset_def)

lemma demo_token_new: "token_new id ''https://mint'' demo_ecash None Sat = Inr (TokenV4 demo_token)"
  by (simp add: token_new_def group_by_key_def demo_ecash_def new_proof_def token_v4_token_new_def demo_keyset_def
      short_of_id_def rmap_def demo_token_def v4_group_def short_form_def)

theorem token_hand_over_witness:
  "\<exists>s. token_display demo_cased demo_formats (TokenV4 demo_token) = Some s
   \<and> token_from_str demo_cased demo_formats s = Inr (TokenV4 demo_token)
   \<and> (\<exists>qs. token_proofs (TokenV4 demo_token) demo_infos = Inr qs \<and> mset qs = mset demo_ecash)
   \<and> token_value (TokenV4 demo_token) = Inr 10"
proof -
  have ten: "distinct (map v4_of_proof demo_ecash)" "unat (10 :: u64) = usum (map p_amount demo_ecash)"
    by (simp_all add: demo_ecash_def new_proof_def v4_of_proof_def)
  have "Sat \<in> named_units" "pred_option text_ok None" by (simp_all add: named_units_def)
  then show ?thesis
    using token_hand_over [of id demo_ecash demo_infos demo_formats demo_cased "''https://mint''" Sat None,
        OF _ demo_ecash_unambiguous demo_formats_law demo_ascii_case demo_mint_url_ok demo_sat_ok _ demo_ecash_ok] demo_token_new ten
    by auto
qed

section \<open>Conversions\<close>

lemma collect_res_append: "collect_res f (xs @ ys) = rbind (collect_res f xs) (\<lambda>a. rmap ((@) a) (collect_res f ys))"
  by (induction xs) (auto simp: rmap_def rbind_def split: sum.splits)

lemma v3_of_group:
  assumes "resolve_v4 infos tt = Inr qs"
  shows "collect_res (resolve_v3 infos) (map (v3_of_v4_proof (tt4_keyset_id tt)) (tt4_proofs tt)) = Inr (without_p2pk_e qs)"
proof -
  obtain i where i: "from_short_keyset_id (tt4_keyset_id tt) infos = Inr i" "qs = map (proof_of_v4 i) (tt4_proofs tt)"
    using assms by (auto simp: resolve_v4_def rmap_def map_err_def split: sum.splits)
  have "collect_res (resolve_v3 infos) (map (v3_of_v4_proof (tt4_keyset_id tt)) ps)
      = Inr (without_p2pk_e (map (proof_of_v4 i) ps))" for ps
    by (induction ps)
       (simp_all add: i(1) resolve_v3_def v3_of_v4_proof_def rmap_def map_err_def without_p2pk_e_def proof_of_v3_def proof_of_v4_def)
  then show ?thesis by (simp add: i(2))
qed

lemma v3_of_v4_proofs:
  assumes "v4_proofs t infos = Inr qs"
  shows "v3_proofs (v3_of_v4 t) infos = Inr (without_p2pk_e qs)"
proof -
  have groups: "collect_res (resolve_v4 infos) ts = Inr qss \<Longrightarrow>
      collect_res (resolve_v3 infos) (concat (map (\<lambda>tt. map (v3_of_v4_proof (tt4_keyset_id tt)) (tt4_proofs tt)) ts))
      = Inr (without_p2pk_e (concat qss))" for ts qss
  proof (induction ts arbitrary: qss)
    case (Cons tt ts)
    then obtain q qss' where q: "resolve_v4 infos tt = Inr q" "collect_res (resolve_v4 infos) ts = Inr qss'" "qss = q # qss'"
      by (auto simp: rbind_eq_Ok)
    then show ?case
      using Cons.IH [OF q(2)] v3_of_group [OF q(1)] by (simp add: collect_res_append rmap_def without_p2pk_e_def)
  qed (simp add: without_p2pk_e_def)
  obtain qss where "collect_res (resolve_v4 infos) (t4_token t) = Inr qss" "qs = concat qss"
    using assms by (auto simp: v4_proofs_def rmap_def split: sum.splits)
  then show ?thesis using groups by (simp add: v3_proofs_def v3_of_v4_def rmap_def)
qed

text \<open>The keyset that a short identifier stands for, where it is resolved.\<close>

definition long_form :: "keyset_info list \<Rightarrow> short_keyset_id \<Rightarrow> keyset_id" where
  "long_form infos sid = (case from_short_keyset_id sid infos of Inr i \<Rightarrow> i | Inl e \<Rightarrow> undefined)"

lemma resolve_v3_Ok:
  "resolve_v3 infos p = Inr q \<longleftrightarrow> from_short_keyset_id (p3_keyset_id p) infos = Inr (long_form infos (p3_keyset_id p))
     \<and> q = proof_of_v3 (long_form infos (p3_keyset_id p)) p"
  by (auto simp: resolve_v3_def rmap_def map_err_def long_form_def split: sum.splits)

lemma v3_proofs_Ok:
  assumes "v3_proofs t infos = Inr qs"
  shows "qs = map (\<lambda>p. proof_of_v3 (long_form infos (p3_keyset_id p)) p) (concat (map tt3_proofs (t3_token t)))
     \<and> (\<forall>p \<in> set (concat (map tt3_proofs (t3_token t))).
          from_short_keyset_id (p3_keyset_id p) infos = Inr (long_form infos (p3_keyset_id p)))"
proof -
  have one: "collect_res (resolve_v3 infos) ps = Inr rs \<Longrightarrow>
      rs = map (\<lambda>p. proof_of_v3 (long_form infos (p3_keyset_id p)) p) ps
      \<and> (\<forall>p \<in> set ps. from_short_keyset_id (p3_keyset_id p) infos = Inr (long_form infos (p3_keyset_id p)))" for ps rs
    by (induction ps arbitrary: rs) (auto simp: rbind_eq_Ok resolve_v3_Ok)
  have "collect_res (\<lambda>tt. collect_res (resolve_v3 infos) (tt3_proofs tt)) ts = Inr qss \<Longrightarrow>
      concat qss = map (\<lambda>p. proof_of_v3 (long_form infos (p3_keyset_id p)) p) (concat (map tt3_proofs ts))
      \<and> (\<forall>p \<in> set (concat (map tt3_proofs ts)).
            from_short_keyset_id (p3_keyset_id p) infos = Inr (long_form infos (p3_keyset_id p)))" for ts qss
    by (induction ts arbitrary: qss) (auto simp: rbind_eq_Ok dest!: one)
  then show ?thesis using assms by (auto simp: v3_proofs_def rmap_def split: sum.splits)
qed

lemma v4_try_from_v3_proofs:
  assumes order: "\<And>m. mset (order m) = mset m" and "v3_proofs t infos = Inr qs" and "v4_try_from_v3 order t = Inr t'"
  shows "\<exists>qs'. v4_proofs t' infos = Inr qs' \<and> mset qs' = mset qs"
proof -
  define ps where "ps = concat (map tt3_proofs (t3_token t))"
  define gs where "gs = order (group_by_key p3_keyset_id v4_of_v3_proof ps)"
  let ?h = "\<lambda>sid. proof_of_v4 (long_form infos sid)"
  have t': "t4_token t' = map (\<lambda>(sid, ps). \<lparr> tt4_keyset_id = sid, tt4_proofs = ps \<rparr>) gs"
    using assms(3) by (auto simp: v4_try_from_v3_def ps_def gs_def Let_def rbind_eq_Ok)
  have qs: "qs = map (\<lambda>p. proof_of_v3 (long_form infos (p3_keyset_id p)) p) ps"
    and res: "\<forall>p \<in> set ps. from_short_keyset_id (p3_keyset_id p) infos = Inr (long_form infos (p3_keyset_id p))"
    using v3_proofs_Ok [OF assms(2)] by (auto simp: ps_def)
  have "set gs = set (group_by_key p3_keyset_id v4_of_v3_proof ps)" using order unfolding gs_def by (metis set_mset_mset)
  then have "from_short_keyset_id sid infos = Inr (long_form infos sid)" if "(sid, vs) \<in> set gs" for sid vs
    using group_by_key_groups [of p3_keyset_id v4_of_v3_proof ps] that res
    by (cases vs) (fastforce simp: groups_of_def)+
  then have "\<forall>g \<in> set gs. resolve_v4 infos (case g of (sid, ps) \<Rightarrow> \<lparr> tt4_keyset_id = sid, tt4_proofs = ps \<rparr>)
      = Inr (case g of (sid, vs) \<Rightarrow> map (?h sid) vs)"
    by (auto simp: resolve_v4_def rmap_def map_err_def)
  then have "collect_res (resolve_v4 infos) (t4_token t') = Inr (map (\<lambda>(sid, vs). map (?h sid) vs) gs)"
    by (simp add: t' collect_res_eq_Ok list_all2_map1 list_all2_map2 list_all2_same)
  then have "v4_proofs t' infos = Inr (spread ?h gs)" by (simp add: v4_proofs_def rmap_def spread_def)
  moreover have "mset (spread ?h gs) = mset qs"
    using spread_order [OF order, of ?h] group_by_key_mset [of ?h p3_keyset_id v4_of_v3_proof ps]
    by (simp add: gs_def qs proof_of_v4_def proof_of_v3_def v4_of_v3_proof_def)
  ultimately show ?thesis by blast
qed

lemma v3_of_v4_ok:
  assumes "token_v4_ok X F t" and "\<forall>tt \<in> set (t4_token t). short_id_ok (tt4_keyset_id tt)"
  shows "token_v3_ok X F (v3_of_v4 t)"
  using assms by (fastforce simp: token_v4_ok_def token_v3_ok_def v3_of_v4_def v3_of_v4_proof_def proof_v4_ok_def proof_v3_ok_def)

text \<open>
  C19. The conversions between the versions keep the proofs, except for the ephemeral key of proofs that
  are paid to a blinded key: it is lost when a version 4 token is written in the older text. That text
  can be written and read back when the short identifiers have their seven bytes (and the
  texts, URL and keys are in order, as for the hand-over); the mint's URL is kept, and the unit is the one that its lower-case
  name stands for, so one of the named units is kept. From version 3 to version 4 the proofs are the same
  up to their order, and so are the URL, the memo and the unit.
\<close>

theorem token_conversions:
  assumes "formats_law F" and "ascii_case X" and "\<And>m. mset (order m) = mset m"
  shows "(token_proofs (TokenV4 t) infos = Inr qs \<and> token_v4_ok X F t \<and> (\<forall>tt \<in> set (t4_token t). short_id_ok (tt4_keyset_id tt)) \<longrightarrow>
      (\<exists>s t'. to_v3_string X F (TokenV4 t) = Some s \<and> token_from_str X F s = Inr t'
         \<and> token_proofs t' infos = Inr (without_p2pk_e qs)
         \<and> token_mint_url t' = Inr (t4_mint_url t) \<and> token_memo t' = t4_memo t \<and> token_unit t' = Some (unit_read_back X (t4_unit t))
         \<and> (t4_unit t \<in> named_units \<longrightarrow> token_unit t' = Some (t4_unit t))))
     \<and> (v3_proofs t3 infos = Inr qs \<and> v4_try_from_v3 order t3 = Inr t4 \<longrightarrow>
      (\<exists>qs'. v4_proofs t4 infos = Inr qs' \<and> mset qs' = mset qs)
      \<and> token_mint_url (TokenV3 t3) = Inr (t4_mint_url t4) \<and> t4_memo t4 = t3_memo t3 \<and> t3_unit t3 = Some (t4_unit t4))"
proof (intro conjI impI)
  assume t: "token_proofs (TokenV4 t) infos = Inr qs \<and> token_v4_ok X F t \<and> (\<forall>tt \<in> set (t4_token t). short_id_ok (tt4_keyset_id tt))"
  let ?t = "v3_read_back X (v3_of_v4 t)"
  obtain s where "to_v3_string X F (TokenV4 t) = Some s" "token_from_str X F s = Inr (TokenV3 ?t)"
    using v3_text [OF assms(1) v3_of_v4_ok, of X t] t by (auto simp: to_v3_string_def)
  moreover have "v3_proofs ?t infos = Inr (without_p2pk_e qs)"
    using v3_of_v4_proofs [of t infos qs] t by (simp add: token_proofs_def v3_proofs_def v3_read_back_def)
  moreover have "t4_unit t \<in> named_units \<Longrightarrow> unit_read_back X (t4_unit t) = t4_unit t" by (rule unit_read_back_named(1) [OF assms(2)])
  ultimately show "\<exists>s t'. to_v3_string X F (TokenV4 t) = Some s \<and> token_from_str X F s = Inr t'
         \<and> token_proofs t' infos = Inr (without_p2pk_e qs)
         \<and> token_mint_url t' = Inr (t4_mint_url t) \<and> token_memo t' = t4_memo t \<and> token_unit t' = Some (unit_read_back X (t4_unit t))
         \<and> (t4_unit t \<in> named_units \<longrightarrow> token_unit t' = Some (t4_unit t))"
    by (intro exI [of _ s] exI [of _ "TokenV3 ?t"])
       (simp add: token_proofs_def token_mint_url_def v3_mint_urls_def v3_read_back_def v3_of_v4_def single_mint_def ensure_cdk_def
         ok_or_def token_unit_def token_memo_def)
next
  assume t: "v3_proofs t3 infos = Inr qs \<and> v4_try_from_v3 order t3 = Inr t4"
  then show "\<exists>qs'. v4_proofs t4 infos = Inr qs' \<and> mset qs' = mset qs"
    using v4_try_from_v3_proofs [OF assms(3)] by blast
  from t show "token_mint_url (TokenV3 t3) = Inr (t4_mint_url t4)" "t4_memo t4 = t3_memo t3" "t3_unit t3 = Some (t4_unit t4)"
    by (auto simp: v4_try_from_v3_def Let_def rbind_eq_Ok ok_or_eq_Ok token_mint_url_def)
qed

theorem token_conversions_witness:
  "\<exists>s t'. to_v3_string demo_cased demo_formats (TokenV4 demo_token) = Some s
     \<and> token_from_str demo_cased demo_formats s = Inr t'
     \<and> token_proofs t' demo_infos = Inr (without_p2pk_e demo_ecash) \<and> without_p2pk_e demo_ecash \<noteq> demo_ecash"
proof -
  have "token_proofs (TokenV4 demo_token) demo_infos = Inr demo_ecash"
    by (simp add: token_proofs_def v4_proofs_def resolve_v4_def demo_token_def v4_group_def short_form_def demo_keyset_def
        short_of_id_def from_short_keyset_id_def demo_infos_def rmap_def map_err_def demo_ecash_def new_proof_def
        v4_of_proof_def proof_of_v4_def Let_def)
  moreover have "token_v4_ok demo_cased demo_formats demo_token"
    using demo_mint_url_ok demo_sat_ok demo_ecash_ok by (simp add: token_v4_ok_def demo_token_def v4_group_def)
  moreover have "\<forall>tt \<in> set (t4_token demo_token). short_id_ok (tt4_keyset_id tt)"
    by (simp add: demo_token_def v4_group_def short_form_def demo_keyset_def short_of_id_def short_id_ok_def)
  moreover have "without_p2pk_e demo_ecash \<noteq> demo_ecash"
    by (simp add: without_p2pk_e_def demo_ecash_def new_proof_def)
  ultimately show ?thesis
    using token_conversions [OF demo_formats_law demo_ascii_case, of id demo_token demo_infos demo_ecash] by (metis id_apply)
qed

end
