(* ===== verification/P2bk.thy ===== *)
theory P2bk
  imports Spending_Conditions
begin

text \<open>
  Payments to a blinded key (NUT-28), after \<open>crates/cashu/src/nuts/nut28/mod.rs\<close>: the blinding factor
  that sender and receiver derive from a shared point, the blinded key and the receiver's signing key
  for it; with the search for a signing key in the receiving wallet
  (\<open>crates/cdk/src/wallet/receive/saga/mod.rs\<close>). The negation of a secret key is the parameter \<open>neg\<close>.
  The parity of a public key is read from the first of its compressed bytes.
\<close>

section \<open>Definitions\<close>

datatype nut28_error =
    N28_InvalidCanonicalSlot u8
  | N28_InvalidScalarHex string
  | N28_InvalidScalarLength nat
  | N28_ZeroSigningKey
  | N28_NoValidBip340Key
  | N28_Secp256k1
  | N28_Hex hex_error
  | N28_NUT01

definition kdf_input :: "ext \<Rightarrow> public_key \<Rightarrow> u8 \<Rightarrow> bytes" where
  "kdf_input X shared canonical_slot = str_bytes ''Cashu_P2BK_v1'' @ x_pk_xonly X shared @ [canonical_slot]"

definition ecdh_kdf :: "ext \<Rightarrow> secret_key \<Rightarrow> public_key \<Rightarrow> u8 \<Rightarrow> nut28_error + secret_key" where
  "ecdh_kdf X secret_key pubkey canonical_slot =
     (if canonical_slot > 10 then Inl (N28_InvalidCanonicalSlot canonical_slot)
      else rbind (ok_or N28_Secp256k1 (x_pk_mul_tweak X pubkey secret_key)) (\<lambda>shared.
        let input = kdf_input X shared canonical_slot in
        case x_sk_from_slice X (x_sha256 X input) of
          Some result \<Rightarrow> Inr result
        | None \<Rightarrow> ok_or N28_NUT01 (x_sk_from_slice X (x_sha256 X (input @ [0xFF])))))"

definition blind_public_key :: "ext \<Rightarrow> public_key \<Rightarrow> secret_key \<Rightarrow> nut28_error + public_key" where
  "blind_public_key X pubkey r = ok_or N28_Secp256k1 (x_pk_combine X pubkey (x_public_key X r))"

definition pk_even :: "public_key \<Rightarrow> bool" where
  "pk_even pk \<longleftrightarrow> take 1 pk = [2]"

definition derive_signing_key_bip340 ::
  "ext \<Rightarrow> (secret_key \<Rightarrow> secret_key) \<Rightarrow> secret_key \<Rightarrow> secret_key \<Rightarrow> public_key \<Rightarrow> nut28_error + secret_key"
where
  "derive_signing_key_bip340 X neg privkey r blinded_pubkey =
     rbind (ok_or N28_Secp256k1 (x_pk_combine X blinded_pubkey (x_pk_negate X (x_public_key X r)))) (\<lambda>unblinded_pubkey.
     let privkey_pubkey = x_public_key X privkey in
     if x_pk_xonly X unblinded_pubkey \<noteq> x_pk_xonly X privkey_pubkey then Inl N28_NoValidBip340Key
     else if pk_even privkey_pubkey = pk_even unblinded_pubkey then ok_or N28_Secp256k1 (x_sk_add_tweak X privkey r)
     else ok_or N28_Secp256k1 (x_sk_add_tweak X (neg privkey) r))"

text \<open>The first signing key of the wallet that yields a key for the blinded key in this slot.\<close>

fun p2bk_signing_key ::
  "ext \<Rightarrow> (secret_key \<Rightarrow> secret_key) \<Rightarrow> secret_key list \<Rightarrow> public_key \<Rightarrow> u8 \<Rightarrow> public_key \<Rightarrow> secret_key option"
where
  "p2bk_signing_key X neg [] ephemeral_key slot pubkey = None"
| "p2bk_signing_key X neg (signing_key # ks) ephemeral_key slot pubkey =
     (case ecdh_kdf X signing_key ephemeral_key slot of
        Inr r \<Rightarrow> (case derive_signing_key_bip340 X neg signing_key r pubkey of
            Inr derived_key \<Rightarrow> Some derived_key
          | Inl e \<Rightarrow> p2bk_signing_key X neg ks ephemeral_key slot pubkey)
      | Inl e \<Rightarrow> p2bk_signing_key X neg ks ephemeral_key slot pubkey)"

section \<open>Recovery of the key\<close>

text \<open>
  Two points have the same x-coordinate just when they are equal or opposite, and opposite points
  have different parity; negating a secret key negates its scalar.
\<close>

definition xonly_law :: "ext \<Rightarrow> nat \<Rightarrow> (int \<Rightarrow> public_key) \<Rightarrow> bool" where
  "xonly_law X n pt \<longleftrightarrow>
     (\<forall>a b. x_pk_xonly X (pt a) = x_pk_xonly X (pt b) \<longleftrightarrow> a mod int n = b mod int n \<or> a mod int n = - b mod int n)
     \<and> (\<forall>a. a mod int n \<noteq> 0 \<longrightarrow> (pk_even (pt (- a)) \<longleftrightarrow> \<not> pk_even (pt a)))"

definition sk_neg_law :: "nat \<Rightarrow> (secret_key \<Rightarrow> int) \<Rightarrow> (secret_key \<Rightarrow> secret_key) \<Rightarrow> bool" where
  "sk_neg_law n sc neg \<longleftrightarrow> (\<forall>k. sc (neg k) mod int n = - sc k mod int n)"

definition p2bk_laws ::
  "ext \<Rightarrow> (secret_key \<Rightarrow> secret_key) \<Rightarrow> nat \<Rightarrow> (int \<Rightarrow> public_key) \<Rightarrow> (secret_key \<Rightarrow> int) \<Rightarrow> bool"
where
  "p2bk_laws X neg n pt sc \<longleftrightarrow> ec_law X n pt sc \<and> sk_law X n sc \<and> xonly_law X n pt \<and> sk_neg_law n sc neg"

lemma p2bk_group:
  assumes "p2bk_laws X neg n pt sc"
  shows pt_eq: "pt a = pt b \<longleftrightarrow> a mod int n = b mod int n"
    and combine: "x_pk_combine X (pt a) (pt b) = (if (a + b) mod int n = 0 then None else Some (pt (a + b)))"
    and mul: "x_pk_mul_tweak X (pt a) k = (if (a * sc k) mod int n = 0 then None else Some (pt (a * sc k)))"
    and negate: "x_pk_negate X (pt a) = pt (- a)"
    and pub: "x_public_key X k = pt (sc k)"
    and xonly: "x_pk_xonly X (pt a) = x_pk_xonly X (pt b) \<longleftrightarrow> a mod int n = b mod int n \<or> a mod int n = - b mod int n"
    and even_neg: "a mod int n \<noteq> 0 \<Longrightarrow> pk_even (pt (- a)) \<longleftrightarrow> \<not> pk_even (pt a)"
    and sc_neg: "sc (neg k) mod int n = - sc k mod int n"
  using assms by (auto simp: p2bk_laws_def ec_law_def xonly_law_def sk_neg_law_def)

lemma add_tweak:
  assumes "p2bk_laws X neg n pt sc"
  shows "case x_sk_add_tweak X j k of
      None \<Rightarrow> (sc j + sc k) mod int n = 0
    | Some m \<Rightarrow> (sc j + sc k) mod int n \<noteq> 0 \<and> sc m mod int n = (sc j + sc k) mod int n"
  using assms by (simp add: p2bk_laws_def sk_law_def)

text \<open>A derived key always is the secret key of the blinded key.\<close>

lemma derived_key_sound:
  assumes laws: "p2bk_laws X neg n pt sc"
    and "derive_signing_key_bip340 X neg p r (pt b) = Inr k"
  shows "x_public_key X k = pt b"
proof -
  note g = p2bk_group [OF laws]
  have nz: "(b - sc r) mod int n \<noteq> 0" and x: "x_pk_xonly X (pt (b - sc r)) = x_pk_xonly X (pt (sc p))"
    and k: "if pk_even (pt (sc p)) = pk_even (pt (b - sc r)) then x_sk_add_tweak X p r = Some k
            else x_sk_add_tweak X (neg p) r = Some k"
    using assms(2) by (auto simp: derive_signing_key_bip340_def g rbind_eq_Ok ok_or_def Let_def split: if_splits option.splits)
  have same: "pk_even (pt u) = pk_even (pt v)" if "u mod int n = v mod int n" for u v using that g(1) by metis
  from x consider (pos) "(b - sc r) mod int n = sc p mod int n" | (opp) "(b - sc r) mod int n = - sc p mod int n"
    by (auto simp: g)
  then have "(b - sc r) mod int n = (if pk_even (pt (sc p)) = pk_even (pt (b - sc r)) then sc p else sc (neg p)) mod int n"
  proof cases
    case pos
    then show ?thesis using same [of "b - sc r" "sc p"] by simp
  next
    case opp
    then have "(- sc p) mod int n \<noteq> 0" using nz by simp
    then have "sc p mod int n \<noteq> 0" by (metis add.inverse_inverse mod_minus_eq mod_0 neg_equal_0_iff_equal)
    then show ?thesis using even_neg [OF laws, of "sc p"] same [OF opp] opp g(8) by simp
  qed
  moreover have "sc k mod int n = ((if pk_even (pt (sc p)) = pk_even (pt (b - sc r)) then sc p else sc (neg p)) + sc r) mod int n"
    using k add_tweak [OF laws, of p r] add_tweak [OF laws, of "neg p" r] by (auto split: if_splits)
  ultimately have "sc k mod int n = b mod int n" by (metis diff_add_cancel mod_add_left_eq)
  then show ?thesis by (simp add: g)
qed

text \<open>Sender and receiver derive the same blinding factor.\<close>

lemma ecdh_agrees:
  assumes laws: "p2bk_laws X neg n pt sc"
    and P: "P = x_public_key X p \<or> P = x_pk_negate X (x_public_key X p)"
    and r: "ecdh_kdf X e P slot = Inr r"
  shows "ecdh_kdf X p (x_public_key X e) slot = Inr r"
proof -
  note g = p2bk_group [OF laws]
  obtain a where a: "P = pt a" "a = sc p \<or> a = - sc p" using P by (auto simp: g)
  have nz: "(a * sc e) mod int n \<noteq> 0"
    using r by (auto simp: ecdh_kdf_def a g ok_or_def split: if_splits)
  then have "(sc e * sc p) mod int n \<noteq> 0" using a(2) by (auto simp: mult.commute mod_eq_0_iff_dvd)
  moreover have "x_pk_xonly X (pt (a * sc e)) = x_pk_xonly X (pt (sc e * sc p))"
    using a(2) by (auto simp: g(6) mult.commute)
  ultimately show ?thesis
    using r nz by (simp add: ecdh_kdf_def a g(3,5) ok_or_def kdf_input_def split: if_splits)
qed

lemma derived_key_exists:
  assumes laws: "p2bk_laws X neg n pt sc"
    and P: "P = pt a" "a = sc p \<or> a = - sc p"
    and a: "a mod int n \<noteq> 0" and P': "blind_public_key X P r = Inr P'"
  shows "P' = pt (a + sc r) \<and> is_ok (derive_signing_key_bip340 X neg p r P')"
proof -
  note g = p2bk_group [OF laws]
  have nz: "(a + sc r) mod int n \<noteq> 0" and pt': "P' = pt (a + sc r)"
    using P' by (auto simp: blind_public_key_def P g ok_or_def split: if_splits)
  have un: "x_pk_combine X P' (x_pk_negate X (x_public_key X r)) = Some (pt a)" using a by (simp add: pt' g)
  have x: "x_pk_xonly X (pt a) = x_pk_xonly X (pt (sc p))" using P(2) by (auto simp: g(6))
  have pos: "x_sk_add_tweak X p r \<noteq> None" if "a = sc p"
    using add_tweak [OF laws, of p r] nz that by (auto split: option.splits)
  have opp: "pk_even (pt (sc p)) \<noteq> pk_even (pt a) \<and> x_sk_add_tweak X (neg p) r \<noteq> None" if "a = - sc p"
  proof -
    have "(sc (neg p) + sc r) mod int n \<noteq> 0" using nz that g(8) [of p] by (metis mod_add_left_eq)
    then show ?thesis using add_tweak [OF laws, of "neg p" r] even_neg [OF laws a] that by (auto split: option.splits)
  qed
  show ?thesis
    using un x pos opp P(2) pt' by (auto simp: derive_signing_key_bip340_def g(5) ok_or_def is_ok_def split: option.splits)
qed

lemma signing_key_found:
  assumes "p \<in> set keys" and "ecdh_kdf X p E slot = Inr r" and "is_ok (derive_signing_key_bip340 X neg p r P')"
  shows "p2bk_signing_key X neg keys E slot P' \<noteq> None"
  using assms by (induction keys) (auto simp: is_ok_def split: sum.splits)

lemma signing_key_derived:
  "p2bk_signing_key X neg keys E slot P' = Some k \<Longrightarrow>
     \<exists>q r. q \<in> set keys \<and> derive_signing_key_bip340 X neg q r P' = Inr k"
  by (induction keys) (fastforce split: sum.splits)+

text \<open>
  C40. What is paid to a blinded key can be spent by the receiver: when the sender blinds the receiver's
  key, given in either parity, with the factor for a slot, a wallet that has the receiver's key among its
  signing keys finds a key for that slot from the sender's ephemeral public key alone, its public key is
  the blinded key, and its signatures verify under it. The laws of the curve and of Schnorr signatures
  are hypotheses; the wallet may hold its keys in any order.
\<close>

theorem p2bk_receiver_signs:
  assumes laws: "p2bk_laws X neg n pt sc" and sig: "schnorr_law X"
    and P: "P = x_public_key X p \<or> P = x_pk_negate X (x_public_key X p)"
    and r: "ecdh_kdf X e P slot = Inr r" and P': "blind_public_key X P r = Inr P'"
    and p: "p \<in> set keys"
  shows "\<exists>k. p2bk_signing_key X neg keys (x_public_key X e) slot P' = Some k \<and> x_public_key X k = P'
     \<and> pk_verify X P' msg (sk_sign X k msg) = Inr ()"
proof -
  note g = p2bk_group [OF laws]
  obtain a where a: "P = pt a" "a = sc p \<or> a = - sc p" using P by (auto simp: g)
  have "(a * sc e) mod int n \<noteq> 0" using r by (auto simp: ecdh_kdf_def a g ok_or_def split: if_splits)
  then have "a mod int n \<noteq> 0" by (auto simp: mod_eq_0_iff_dvd)
  from derived_key_exists [OF laws a this P']
  have b: "P' = pt (a + sc r)" and ok: "is_ok (derive_signing_key_bip340 X neg p r P')" by auto
  from signing_key_found [OF p ecdh_agrees [OF laws P r] ok] obtain k
    where k: "p2bk_signing_key X neg keys (x_public_key X e) slot P' = Some k" by auto
  then have "x_public_key X k = P'"
    using signing_key_derived [OF k] derived_key_sound [OF laws] unfolding b by blast
  then show ?thesis using k sig by (auto simp: pk_verify_def sk_sign_def schnorr_law_def)
qed

section \<open>A concrete instance\<close>

text \<open>The group of order 13 with opposite points that differ in their first byte only.\<close>

definition parity_x :: "int \<Rightarrow> int" where
  "parity_x a = (if a mod 13 \<le> 6 then a mod 13 else 13 - a mod 13)"

definition parity_pt :: "int \<Rightarrow> public_key" where
  "parity_pt a = [if a mod 13 \<le> 6 then 2 else 3, of_int (parity_x a)]"

definition parity_dlog :: "public_key \<Rightarrow> int" where
  "parity_dlog p = (if pk_even p then uint (last p) else 13 - uint (last p))"

definition parity_nonzero :: "int \<Rightarrow> public_key option" where
  "parity_nonzero a = (if a mod 13 = 0 then None else Some (parity_pt a))"

definition parity_ext :: ext where
  "parity_ext = demo_ext\<lparr>
     x_pk_from_xonly_even := (\<lambda>b. parity_pt (uint (last b))),
     x_pk_combine := (\<lambda>p q. parity_nonzero (parity_dlog p + parity_dlog q)),
     x_pk_mul_tweak := (\<lambda>p k. parity_nonzero (parity_dlog p * demo_sc k)),
     x_pk_negate := (\<lambda>p. parity_pt (- parity_dlog p)),
     x_public_key := (\<lambda>k. parity_pt (demo_sc k)),
     x_schnorr_sign := (\<lambda>m k. tl (parity_pt (demo_sc k)) @ m) \<rparr>"

definition parity_neg :: "secret_key \<Rightarrow> secret_key" where
  "parity_neg k = [of_int (- demo_sc k mod 13)]"

lemma uint_small: "0 \<le> b \<Longrightarrow> b < 256 \<Longrightarrow> uint (of_int b :: u8) = b"
  by (simp add: unsigned_of_int take_bit_int_eq_self)

lemma parity_cases: "(a :: int) mod 13 \<ge> 0" "a mod 13 < 13" "- a mod 13 = (if a mod 13 = 0 then 0 else 13 - a mod 13)"
  by (simp_all add: zmod_zminus1_eq_if)

lemma uint_parity_x: "uint (of_int (parity_x a) :: u8) = parity_x a"
  using parity_cases(1,2) [of a] by (intro uint_small) (auto simp: parity_x_def)

lemma parity_dlog_pt: "parity_dlog (parity_pt a) = a mod 13"
  by (simp add: parity_dlog_def parity_pt_def pk_even_def uint_parity_x) (simp add: parity_x_def)

lemma parity_pt_eq: "parity_pt a = parity_pt b \<longleftrightarrow> a mod 13 = b mod 13"
  using parity_dlog_pt [of a] parity_dlog_pt [of b] by (auto simp: parity_pt_def parity_x_def)

lemma parity_xonly: "tl (parity_pt a) = tl (parity_pt b) \<longleftrightarrow> a mod 13 = b mod 13 \<or> a mod 13 = - b mod 13"
proof -
  have "tl (parity_pt a) = tl (parity_pt b) \<longleftrightarrow> parity_x a = parity_x b"
    by (metis list.inject list.sel(3) parity_pt_def uint_parity_x)
  also have "\<dots> \<longleftrightarrow> a mod 13 = b mod 13 \<or> a mod 13 = - b mod 13"
    unfolding parity_cases(3) parity_x_def using parity_cases(1,2) [of a] parity_cases(1,2) [of b] by auto
  finally show ?thesis .
qed

lemma parity_even: "a mod 13 \<noteq> 0 \<Longrightarrow> pk_even (parity_pt (- a)) \<longleftrightarrow> \<not> pk_even (parity_pt a)"
  using parity_cases [of a] by (simp add: parity_pt_def pk_even_def)

lemma parity_ec_law: "ec_law parity_ext 13 parity_pt demo_sc"
  unfolding ec_law_def
proof (intro conjI allI impI)
  fix x p
  assume "x_xonly_from_slice parity_ext x = Some p"
  then have "uint (last (0 # p)) mod 13 \<noteq> 0" by (auto simp: parity_ext_def demo_ext_def split: if_splits)
  then have "p \<noteq> []" "uint (last p) mod 13 \<noteq> 0" by (auto split: if_splits)
  then show "\<exists>a. a mod int 13 \<noteq> 0 \<and> x_pk_from_xonly_even parity_ext p = parity_pt a"
    by (auto simp: parity_ext_def)
qed (auto simp: parity_ext_def parity_nonzero_def parity_dlog_pt parity_pt_eq mod_simps)

lemma parity_laws: "p2bk_laws parity_ext parity_neg 13 parity_pt demo_sc"
proof -
  have "x_sk_add_tweak parity_ext = x_sk_add_tweak demo_ext" "x_sk_mul_tweak parity_ext = x_sk_mul_tweak demo_ext"
    "x_sk_from_slice parity_ext = x_sk_from_slice demo_ext"
    by (simp_all add: parity_ext_def)
  then have "sk_law parity_ext 13 demo_sc" using demo_sk_law by (simp add: sk_law_def)
  moreover have "x_pk_xonly parity_ext = tl" by (simp add: parity_ext_def demo_ext_def)
  then have "xonly_law parity_ext 13 parity_pt" by (simp add: xonly_law_def parity_xonly parity_even)
  moreover have "sk_neg_law 13 demo_sc parity_neg"
    unfolding sk_neg_law_def
    by (simp add: parity_neg_def demo_sc_def unsigned_of_int take_bit_int_eq_self)
  ultimately show ?thesis by (simp add: p2bk_laws_def parity_ec_law)
qed

lemma parity_schnorr_law: "schnorr_law parity_ext"
  by (simp add: schnorr_law_def parity_ext_def demo_ext_def)

theorem p2bk_receiver_signs_witness:
  "\<exists>r P' k. ecdh_kdf parity_ext [3] (x_pk_negate parity_ext (x_public_key parity_ext [5])) 1 = Inr r
     \<and> blind_public_key parity_ext (x_pk_negate parity_ext (x_public_key parity_ext [5])) r = Inr P'
     \<and> p2bk_signing_key parity_ext parity_neg [[4], [5]] (x_public_key parity_ext [3]) 1 P' = Some k
     \<and> x_public_key parity_ext k = P'"
proof -
  have "is_ok (ecdh_kdf parity_ext [3] (x_pk_negate parity_ext (x_public_key parity_ext [5])) 1)"
    by code_simp
  then obtain r where r: "ecdh_kdf parity_ext [3] (x_pk_negate parity_ext (x_public_key parity_ext [5])) 1 = Inr r"
    by (auto simp: is_ok_def split: sum.splits)
  have "is_ok (rbind (ecdh_kdf parity_ext [3] (x_pk_negate parity_ext (x_public_key parity_ext [5])) 1)
      (blind_public_key parity_ext (x_pk_negate parity_ext (x_public_key parity_ext [5]))))"
    by code_simp
  then obtain P' where "blind_public_key parity_ext (x_pk_negate parity_ext (x_public_key parity_ext [5])) r = Inr P'"
    by (auto simp: r is_ok_def split: sum.splits)
  then show ?thesis
    using p2bk_receiver_signs [OF parity_laws parity_schnorr_law _ r, of "[5]" P' "[[4], [5]]"] r by auto
qed

end
