(* ===== verification/Pre_Mint.thy ===== *)
theory Pre_Mint
  imports P2bk Payment_Request
begin

text \<open>
  The outputs a wallet prepares before it asks for signatures: \<open>PreMintSecrets\<close> of
  \<open>crates/cashu/src/nuts/nut00/mod.rs\<close> and its derivation from a seed, after
  \<open>crates/cashu/src/nuts/nut13.rs\<close>. HMAC and BIP-32 are the parameter \<open>S\<close>, and so is the binary logarithm of
  floating point numbers, the precision of which Rust does not fix; random secrets and blinding factors
  are arguments, one for each output. Counters wrap, as in a release build. The targeted split of an
  amount may not return, so the functions that use it return options.
\<close>

section \<open>Outputs\<close>

record pre_mint =
  pm_blinded_message :: blinded_message
  pm_secret :: secret
  pm_r :: secret_key
  pm_amount :: u64

record pre_mint_secrets =
  pms_secrets :: "pre_mint list"
  pms_keyset_id :: keyset_id

definition pre_mint_secrets_new :: "keyset_id \<Rightarrow> pre_mint_secrets" where
  "pre_mint_secrets_new keyset_id = \<lparr> pms_secrets = [], pms_keyset_id = keyset_id \<rparr>"

text \<open>The body that all the loops share: one output for an amount, a secret and a blinding factor.\<close>

definition pre_mint_output :: "ext \<Rightarrow> keyset_id \<Rightarrow> u64 \<Rightarrow> secret \<Rightarrow> secret_key \<Rightarrow> dhke_error + pre_mint" where
  "pre_mint_output X keyset_id amount secret blinding_factor =
     rbind (blind_message X (str_bytes secret) blinding_factor) (\<lambda>(blinded, r).
     Inr \<lparr> pm_blinded_message = new_blinded_message amount keyset_id blinded, pm_secret = secret, pm_r = r, pm_amount = amount \<rparr>)"

definition pre_mint_random ::
  "ext \<Rightarrow> (nat \<Rightarrow> secret \<times> secret_key) \<Rightarrow> keyset_id \<Rightarrow> u64 \<Rightarrow> split_target \<Rightarrow> fee_and_amounts \<Rightarrow>
   (nut00_error + pre_mint_secrets) option"
where
  "pre_mint_random X fresh keyset_id amount target fa =
     map_option (\<lambda>split. rbind (map_err N0_Amount split) (\<lambda>amount_split.
       rmap (\<lambda>output. \<lparr> pms_secrets = output, pms_keyset_id = keyset_id \<rparr>)
         (collect_res (\<lambda>(i, amount). map_err N0_DHKE
            (pre_mint_output X keyset_id amount (fst (fresh i)) (snd (fresh i)))) (enumerate 0 amount_split))))
       (split_targeted fa target amount)"

definition pre_mint_from_secrets ::
  "ext \<Rightarrow> (nat \<Rightarrow> secret_key) \<Rightarrow> keyset_id \<Rightarrow> u64 list \<Rightarrow> secret list \<Rightarrow> nut00_error + pre_mint_secrets"
where
  "pre_mint_from_secrets X fresh_r keyset_id amounts secrets =
     rmap (\<lambda>output. \<lparr> pms_secrets = output, pms_keyset_id = keyset_id \<rparr>)
       (collect_res (\<lambda>(i, secret, amount). map_err N0_DHKE
          (pre_mint_output X keyset_id amount secret (fresh_r i))) (enumerate 0 (zip secrets amounts)))"

definition pre_mint_blank ::
  "ext \<Rightarrow> (u64 \<Rightarrow> u64) \<Rightarrow> (nat \<Rightarrow> secret \<times> secret_key) \<Rightarrow> keyset_id \<Rightarrow> u64 \<Rightarrow> nut00_error + pre_mint_secrets"
where
  "pre_mint_blank X log2_ceil fresh keyset_id fee_reserve =
     (let count = max (log2_ceil fee_reserve) 1 in
      rmap (\<lambda>output. \<lparr> pms_secrets = output, pms_keyset_id = keyset_id \<rparr>)
        (collect_res (\<lambda>i. map_err N0_DHKE (pre_mint_output X keyset_id 0 (fst (fresh i)) (snd (fresh i)))) [0..<unat count]))"

text \<open>
  Outputs under spending conditions. \<open>json\<close> writes a NUT-10 secret as text; a fresh nonce and blinding
  factor belong to each output.
\<close>

datatype pre_mint_error = PM_NUT00 nut00_error | PM_NUT28 nut28_error | PM_Json | PM_Panic

definition conditions_output ::
  "ext \<Rightarrow> (nut10_secret \<Rightarrow> string option) \<Rightarrow> string \<times> secret_key \<Rightarrow> keyset_id \<Rightarrow> u64 \<Rightarrow> spending_conditions \<Rightarrow> pre_mint_error + pre_mint"
where
  "conditions_output X json fresh keyset_id amount conditions =
     rbind (ok_or PM_Json (json (nut10_of_sc X (fst fresh) conditions))) (\<lambda>secret.
     map_err (PM_NUT00 \<circ> N0_DHKE) (pre_mint_output X keyset_id amount secret (snd fresh)))"

definition pre_mint_with_conditions ::
  "ext \<Rightarrow> (nut10_secret \<Rightarrow> string option) \<Rightarrow> (nat \<Rightarrow> string \<times> secret_key) \<Rightarrow> keyset_id \<Rightarrow> u64 \<Rightarrow> split_target \<Rightarrow>
   spending_conditions \<Rightarrow> fee_and_amounts \<Rightarrow> (pre_mint_error + pre_mint_secrets) option"
where
  "pre_mint_with_conditions X json fresh keyset_id amount target conditions fa =
     map_option (\<lambda>split. rbind (map_err (PM_NUT00 \<circ> N0_Amount) split) (\<lambda>amount_split.
       rmap (\<lambda>output. \<lparr> pms_secrets = output, pms_keyset_id = keyset_id \<rparr>)
         (collect_res (\<lambda>(i, amount). conditions_output X json (fresh i) keyset_id amount conditions) (enumerate 0 amount_split))))
       (split_targeted fa target amount)"

fun blind_keys :: "ext \<Rightarrow> secret_key \<Rightarrow> u8 \<Rightarrow> public_key list \<Rightarrow> nut28_error + public_key list \<times> u8" where
  "blind_keys X ephemeral_key slot_idx [] = Inr ([], slot_idx)"
| "blind_keys X ephemeral_key slot_idx (pk # pks) =
     rbind (ecdh_kdf X ephemeral_key pk slot_idx) (\<lambda>r.
     rbind (blind_public_key X pk r) (\<lambda>b.
     rbind (blind_keys X ephemeral_key (slot_idx + 1) pks) (\<lambda>(bs, s). Inr (b # bs, s))))"

definition blind_key_option ::
  "ext \<Rightarrow> secret_key \<Rightarrow> u8 \<Rightarrow> public_key list option \<Rightarrow> nut28_error + public_key list option \<times> u8"
where
  "blind_key_option X ephemeral_key slot_idx pks = (case pks of
       None \<Rightarrow> Inr (None, slot_idx)
     | Some pks \<Rightarrow> rmap (\<lambda>(bs, s). (Some bs, s)) (blind_keys X ephemeral_key slot_idx pks))"

definition blind_conditions :: "ext \<Rightarrow> secret_key \<Rightarrow> conditions option \<Rightarrow> nut28_error + conditions option" where
  "blind_conditions X ephemeral_key conditions = (case conditions of
       None \<Rightarrow> Inr None
     | Some cond \<Rightarrow>
         rbind (blind_key_option X ephemeral_key 1 (c_pubkeys cond)) (\<lambda>(pubkeys, slot_idx).
         rbind (blind_key_option X ephemeral_key slot_idx (c_refund_keys cond)) (\<lambda>(refund_keys, _).
         Inr (Some (cond\<lparr>c_pubkeys := pubkeys, c_refund_keys := refund_keys\<rparr>)))))"

definition p2bk_output ::
  "ext \<Rightarrow> (nut10_secret \<Rightarrow> string option) \<Rightarrow> string \<times> secret_key \<Rightarrow> keyset_id \<Rightarrow> u64 \<Rightarrow> public_key \<Rightarrow> conditions option \<Rightarrow>
   secret_key \<Rightarrow> pre_mint_error + pre_mint"
where
  "p2bk_output X json fresh keyset_id amount receiver_pubkey conditions ephemeral_key =
     rbind (map_err PM_NUT28 (ecdh_kdf X ephemeral_key receiver_pubkey 0)) (\<lambda>r0.
     rbind (map_err PM_NUT28 (blind_public_key X receiver_pubkey r0)) (\<lambda>blinded_pubkey.
     rbind (map_err PM_NUT28 (blind_conditions X ephemeral_key conditions)) (\<lambda>blinded_conditions.
     conditions_output X json fresh keyset_id amount (P2PKConditions blinded_pubkey blinded_conditions))))"

definition pre_mint_with_p2bk ::
  "ext \<Rightarrow> (nut10_secret \<Rightarrow> string option) \<Rightarrow> (nat \<Rightarrow> string \<times> secret_key) \<Rightarrow> keyset_id \<Rightarrow> u64 \<Rightarrow> split_target \<Rightarrow>
   public_key \<Rightarrow> conditions option \<Rightarrow> secret_key list \<Rightarrow> fee_and_amounts \<Rightarrow> (pre_mint_error + pre_mint_secrets) option"
where
  "pre_mint_with_p2bk X json fresh keyset_id amount target receiver_pubkey conditions ephemeral_keys fa =
     map_option (\<lambda>split. rbind (map_err (PM_NUT00 \<circ> N0_Amount) split) (\<lambda>amount_split.
       let is_sig_all = (case conditions of None \<Rightarrow> False | Some c \<Rightarrow> c_sig_flag c = SigAll) in
       if \<not> is_sig_all \<and> length ephemeral_keys \<noteq> length amount_split then Inl (PM_NUT28 (N28_InvalidCanonicalSlot 255))
       else rmap (\<lambda>output. \<lparr> pms_secrets = output, pms_keyset_id = keyset_id \<rparr>)
         (collect_res (\<lambda>(i, amount).
            let k = (if is_sig_all then 0 else i) in
            if k < length ephemeral_keys
            then p2bk_output X json (fresh i) keyset_id amount receiver_pubkey conditions (ephemeral_keys ! k)
            else Inl PM_Panic) (enumerate 0 amount_split))))
       (split_targeted fa target amount)"

definition pms_total_amount :: "pre_mint_secrets \<Rightarrow> nut00_error + u64" where
  "pms_total_amount p = map_err N0_Amount (try_sum (map pm_amount (pms_secrets p)))"

definition pms_blinded_messages :: "pre_mint_secrets \<Rightarrow> blinded_message list" where
  "pms_blinded_messages p = map pm_blinded_message (pms_secrets p)"

definition pms_combine :: "pre_mint_secrets \<Rightarrow> pre_mint_secrets \<Rightarrow> pre_mint_secrets" where
  "pms_combine p other = p\<lparr>pms_secrets := pms_secrets p @ pms_secrets other\<rparr>"

definition pms_sort_secrets :: "pre_mint_secrets \<Rightarrow> pre_mint_secrets" where
  "pms_sort_secrets p = p\<lparr>pms_secrets := sort_key pm_amount (pms_secrets p)\<rparr>"

section \<open>Derivation from a seed\<close>

record seed_ext =
  s_hmac_sha256 :: "bytes \<Rightarrow> bytes \<Rightarrow> bytes"
  s_bip32_derive :: "bytes \<Rightarrow> (bool \<times> u32) list \<Rightarrow> secret_key option"
  s_log2_ceil :: "u64 \<Rightarrow> u64"

datatype nut13_error =
    N13_DHKE dhke_error
  | N13_Amount amount_error
  | N13_NUT00 nut00_error
  | N13_NUT02 nut02_error
  | N13_Bip32
  | N13_Hmac
  | N13_SecpError

text \<open>A child number: hardened or not, with an index below \<open>2 ^ 31\<close>.\<close>

definition from_hardened_idx :: "u32 \<Rightarrow> nut13_error + bool \<times> u32" where
  "from_hardened_idx i = (if i < 0x80000000 then Inr (True, i) else Inl N13_Bip32)"

definition from_normal_idx :: "u32 \<Rightarrow> nut13_error + bool \<times> u32" where
  "from_normal_idx i = (if i < 0x80000000 then Inr (False, i) else Inl N13_Bip32)"

definition derive_path_from_keyset_id :: "keyset_id \<Rightarrow> nut13_error + (bool \<times> u32) list" where
  "derive_path_from_keyset_id kid =
     rbind (map_err N13_NUT02 (id_to_u32 kid)) (\<lambda>index.
     rbind (from_hardened_idx index) (\<lambda>keyset_child_number.
     rbind (from_hardened_idx 129372) (\<lambda>purpose.
     rbind (from_hardened_idx 0) (\<lambda>coin. Inr [purpose, coin, keyset_child_number]))))"

definition legacy_derive :: "seed_ext \<Rightarrow> bytes \<Rightarrow> keyset_id \<Rightarrow> u32 \<Rightarrow> u32 \<Rightarrow> nut13_error + secret_key" where
  "legacy_derive S seed kid counter idx =
     rbind (derive_path_from_keyset_id kid) (\<lambda>path.
     rbind (from_hardened_idx counter) (\<lambda>c.
     rbind (from_normal_idx idx) (\<lambda>i.
     ok_or N13_Bip32 (s_bip32_derive S seed (path @ [c, i])))))"

definition derive_message :: "keyset_id \<Rightarrow> u32 \<Rightarrow> u8 \<Rightarrow> bytes" where
  "derive_message kid counter kind = str_bytes ''Cashu_KDF_HMAC_SHA256'' @ id_to_bytes kid @ u64_be (ucast counter) @ [kind]"

definition secret_from_seed :: "seed_ext \<Rightarrow> bytes \<Rightarrow> keyset_id \<Rightarrow> u32 \<Rightarrow> nut13_error + secret" where
  "secret_from_seed S seed kid counter = (case id_version kid of
       Version00 \<Rightarrow> rmap encode (legacy_derive S seed kid counter 0)
     | Version01 \<Rightarrow> Inr (encode (take 32 (s_hmac_sha256 S seed (derive_message kid counter 0)))))"

definition secret_key_from_seed :: "ext \<Rightarrow> seed_ext \<Rightarrow> bytes \<Rightarrow> keyset_id \<Rightarrow> u32 \<Rightarrow> nut13_error + secret_key" where
  "secret_key_from_seed X S seed kid counter = (case id_version kid of
       Version00 \<Rightarrow> legacy_derive S seed kid counter 1
     | Version01 \<Rightarrow> ok_or N13_SecpError
         (x_sk_from_slice X (take 32 (s_hmac_sha256 S seed (derive_message kid counter 1)))))"

text \<open>One output for a counter, the body of the three loops below.\<close>

definition seed_output :: "ext \<Rightarrow> seed_ext \<Rightarrow> bytes \<Rightarrow> keyset_id \<Rightarrow> u32 \<Rightarrow> u64 \<Rightarrow> nut13_error + pre_mint" where
  "seed_output X S seed kid counter amount =
     rbind (secret_from_seed S seed kid counter) (\<lambda>secret.
     rbind (secret_key_from_seed X S seed kid counter) (\<lambda>blinding_factor.
     map_err N13_DHKE (pre_mint_output X kid amount secret blinding_factor)))"

definition pre_mint_from_seed ::
  "ext \<Rightarrow> seed_ext \<Rightarrow> keyset_id \<Rightarrow> u32 \<Rightarrow> bytes \<Rightarrow> u64 \<Rightarrow> split_target \<Rightarrow> fee_and_amounts \<Rightarrow>
   (nut13_error + pre_mint_secrets) option"
where
  "pre_mint_from_seed X S kid counter seed amount target fa =
     map_option (\<lambda>split. rbind (map_err N13_Amount split) (\<lambda>amounts.
       rmap (\<lambda>ps. \<lparr> pms_secrets = ps, pms_keyset_id = kid \<rparr>)
         (collect_res (\<lambda>(i, amount). seed_output X S seed kid (counter + of_nat i) amount) (enumerate 0 amounts))))
       (split_targeted fa target amount)"

definition range_u32 :: "u32 \<Rightarrow> u32 \<Rightarrow> u32 list" where
  "range_u32 a b = map of_nat [unat a..<unat b]"

definition pre_mint_from_seed_blank ::
  "ext \<Rightarrow> seed_ext \<Rightarrow> keyset_id \<Rightarrow> u32 \<Rightarrow> bytes \<Rightarrow> u64 \<Rightarrow> nut13_error + pre_mint_secrets"
where
  "pre_mint_from_seed_blank X S kid counter seed amount =
     (if amount \<le> 0 then Inr (pre_mint_secrets_new kid)
      else let count = max (s_log2_ceil S amount) 1 in
        rmap (\<lambda>ps. \<lparr> pms_secrets = ps, pms_keyset_id = kid \<rparr>)
          (collect_res (\<lambda>c. seed_output X S seed kid c 0) (range_u32 counter (counter + ucast count))))"

definition restore_batch ::
  "ext \<Rightarrow> seed_ext \<Rightarrow> keyset_id \<Rightarrow> bytes \<Rightarrow> u32 \<Rightarrow> u32 \<Rightarrow> nut13_error + pre_mint_secrets"
where
  "restore_batch X S kid seed start_count end_count =
     rmap (\<lambda>ps. \<lparr> pms_secrets = ps, pms_keyset_id = kid \<rparr>)
       (collect_res (\<lambda>c. seed_output X S seed kid c 0) (range_u32 start_count end_count))"

section \<open>Restoring from a seed\<close>

definition with_amount :: "u64 \<Rightarrow> pre_mint \<Rightarrow> pre_mint" where
  "with_amount a p = p\<lparr>pm_amount := a, pm_blinded_message := (pm_blinded_message p)\<lparr>bm_amount := a\<rparr>\<rparr>"

lemma seed_output_amount: "seed_output X S seed kid c 0 = Inr p \<Longrightarrow> seed_output X S seed kid c a = Inr (with_amount a p)"
  by (auto simp: seed_output_def pre_mint_output_def rbind_eq_Ok map_err_eq_Ok with_amount_def new_blinded_message_def)

lemma restore_batch_nth:
  assumes "restore_batch X S kid seed a b = Inr rs" and "unat a \<le> i" and "i < unat b"
  shows "i - unat a < length (pms_secrets rs) \<and> seed_output X S seed kid (of_nat i) 0 = Inr (pms_secrets rs ! (i - unat a))"
proof -
  have all: "list_all2 (\<lambda>c p. seed_output X S seed kid c 0 = Inr p) (range_u32 a b) (pms_secrets rs)"
    using assms(1) by (auto simp: restore_batch_def rmap_def collect_res_eq_Ok split: sum.splits)
  then have len: "length (pms_secrets rs) = unat b - unat a" by (auto simp: range_u32_def dest: list_all2_lengthD)
  have "range_u32 a b ! (i - unat a) = of_nat i" using assms(2,3) by (simp add: range_u32_def)
  then show ?thesis using list_all2_nthD2 [OF all, of "i - unat a"] assms(2,3) len by simp
qed

lemma restore_batch_slice:
  assumes "restore_batch X S kid seed a b = Inr rs" and "unat a \<le> unat c" and "unat d \<le> unat b"
  shows "collect_res (\<lambda>i. seed_output X S seed kid i 0) (range_u32 c d)
       = Inr (take (unat d - unat c) (drop (unat c - unat a) (pms_secrets rs)))"
proof -
  have out: "seed_output X S seed kid (range_u32 c d ! i) 0 = Inr (pms_secrets rs ! (unat c - unat a + i))
      \<and> unat c - unat a + i < length (pms_secrets rs)" if "i < unat d - unat c" for i
  proof -
    have le: "unat a \<le> unat c + i" "unat c + i < unat b" and idx: "unat c + i - unat a = unat c - unat a + i"
      using assms(2,3) that by linarith+
    have "range_u32 c d ! i = of_nat (unat c + i)" using that by (simp add: range_u32_def)
    then show ?thesis using restore_batch_nth [OF assms(1) le] unfolding idx by metis
  qed
  have len: "unat d - unat c \<le> length (pms_secrets rs) - (unat c - unat a)"
    using out [of "unat d - unat c - 1"] by (cases "unat d - unat c") auto
  then show ?thesis
    using out by (auto simp: collect_res_eq_Ok list_all2_conv_all_nth range_u32_def)
qed

lemma restore_batch_amounts:
  assumes restore: "restore_batch X S kid seed a b = Inr rs" and low: "unat a \<le> unat c"
    and high: "unat c + length amounts \<le> unat b"
  shows "collect_res (\<lambda>(i, amount). seed_output X S seed kid (c + of_nat i) amount) (enumerate 0 amounts)
       = Inr (map2 with_amount amounts (drop (unat c - unat a) (pms_secrets rs)))"
proof -
  let ?ps = "map2 with_amount amounts (drop (unat c - unat a) (pms_secrets rs))"
  have out: "unat c - unat a + i < length (pms_secrets rs)
      \<and> seed_output X S seed kid (c + of_nat i) (amounts ! i) = Inr (with_amount (amounts ! i) (pms_secrets rs ! (unat c - unat a + i)))"
    if "i < length amounts" for i
  proof -
    have le: "unat a \<le> unat c + i" "unat c + i < unat b" and idx: "unat c + i - unat a = unat c - unat a + i"
      using low high that by linarith+
    have "c + of_nat i = of_nat (unat c + i)" by simp
    then show ?thesis using restore_batch_nth [OF restore le] seed_output_amount unfolding idx by metis
  qed
  have "length amounts \<le> length (pms_secrets rs) - (unat c - unat a)"
    using out [of "length amounts - 1"] by (cases "length amounts") auto
  then show ?thesis
    using out by (auto simp: collect_res_eq_Ok list_all2_conv_all_nth nth_enumerate_eq)
qed

text \<open>
  Restoring finds what was made: when the batch of counters from \<open>a\<close> to \<open>b\<close> can be derived and covers
  the counters of a request, the outputs derived from the seed for any amount are those of the batch
  with their amounts, and the blank outputs for change are those of the batch.
\<close>

lemma restore_finds_derived:
  assumes "restore_batch X S kid seed a b = Inr rs" and "unat a \<le> unat c"
  shows "(split_targeted fa target amount = Some (Inr amounts) \<and> unat c + length amounts \<le> unat b \<longrightarrow>
      pre_mint_from_seed X S kid c seed amount target fa = Some (Inr \<lparr> pms_secrets =
        map2 with_amount amounts (drop (unat c - unat a) (pms_secrets rs)), pms_keyset_id = kid \<rparr>))
    \<and> (0 < amount \<and> d = c + ucast (max (s_log2_ceil S amount) 1) \<and> unat d \<le> unat b \<longrightarrow>
      pre_mint_from_seed_blank X S kid c seed amount = Inr \<lparr> pms_secrets =
        take (unat d - unat c) (drop (unat c - unat a) (pms_secrets rs)), pms_keyset_id = kid \<rparr>)"
  using restore_batch_amounts [OF assms] restore_batch_slice [OF assms]
  by (auto simp: pre_mint_from_seed_def pre_mint_from_seed_blank_def map_err_def rmap_def Let_def)

definition demo_seed :: seed_ext where
  "demo_seed = \<lparr> s_hmac_sha256 = (\<lambda>k m. replicate 31 0 @ [sum_list m]), s_bip32_derive = (\<lambda>s p. None), s_log2_ceil = (\<lambda>a. 2) \<rparr>"

definition demo_seed_keyset :: keyset_id where
  "demo_seed_keyset = Id Version01 (V2 (replicate 32 0))"

definition demo_points :: ext where
  "demo_points = demo_ext\<lparr>x_xonly_from_slice := Some, x_pk_combine := (\<lambda>p q. Some p)\<rparr>"

lemma demo_seed_output: "\<exists>p. seed_output demo_points demo_seed seed demo_seed_keyset c 0 = Inr p"
proof -
  have "hash_to_curve demo_points m = Inr (demo_pt (uint (last (x_sha256 demo_points
      (x_sha256 demo_points (DOMAIN_SEPARATOR @ m) @ u32_to_le_bytes 0)))))" for m
    using hash_to_curve_first [of demo_points m] by (simp add: demo_points_def demo_ext_def)
  then show ?thesis
    by (simp add: seed_output_def secret_from_seed_def secret_key_from_seed_def demo_seed_keyset_def demo_seed_def
        ok_or_def pre_mint_output_def blind_message_def map_err_def demo_points_def demo_ext_def)
qed

lemma demo_restore: "is_ok (restore_batch demo_points demo_seed demo_seed_keyset seed a b)"
proof -
  have "is_ok (collect_res (\<lambda>c. seed_output demo_points demo_seed seed demo_seed_keyset c 0) cs)" for cs
  proof (induction cs)
    case (Cons c cs)
    then show ?case using demo_seed_output [of seed c] by (auto simp: is_ok_def split: sum.splits)
  qed (simp add: is_ok_def)
  from this [of "range_u32 a b"] show ?thesis by (auto simp: restore_batch_def is_ok_def rmap_def split: sum.splits)
qed

lemma restore_finds_derived_example:
  "\<exists>rs. restore_batch demo_points demo_seed demo_seed_keyset [] 1 6 = Inr rs
     \<and> pre_mint_from_seed demo_points demo_seed demo_seed_keyset 2 [] 5 TargetNone \<lparr> fa_fee = 0, fa_amounts = [1, 2, 4] \<rparr>
         = Some (Inr \<lparr> pms_secrets = map2 with_amount [1, 4] (drop 1 (pms_secrets rs)), pms_keyset_id = demo_seed_keyset \<rparr>)"
proof -
  obtain rs where rs: "restore_batch demo_points demo_seed demo_seed_keyset [] 1 6 = Inr rs"
    using demo_restore [of "[]" 1 6] by (auto simp: is_ok_def split: sum.splits)
  have "split_targeted \<lparr> fa_fee = 0, fa_amounts = [1, 2, 4] \<rparr> TargetNone 5 = Some (Inr [1, 4])" by code_simp
  then show ?thesis
    using restore_finds_derived [OF rs, of 2 "\<lparr> fa_fee = 0, fa_amounts = [1, 2, 4] \<rparr>" TargetNone 5 "[1, 4]"] rs by simp
qed

end
