(* ===== verification/Spec2Isabelle.thy ===== *)
theory Spec2Isabelle
  imports Swap_System Melt_Outcomes Issue_System Wallet_Cover Request_Roundtrip Token Pre_Mint
begin

text \<open>
  Verification of a Cashu mint and of the parts of its wallet and protocol library that it rests on.

  \<^bold>\<open>The program.\<close> A mint issues electronic cash against payments, exchanges it and redeems it. The crate
  \<open>cashu\<close> has the protocol: amounts, keyset identifiers, proofs, blinded messages, spending conditions,
  the blind Diffie-Hellman exchange. The crate \<open>cdk\<close> has the mint and the wallet, \<open>cdk-common\<close> the types and
  errors they share, \<open>cdk-sql-common\<close> the database, \<open>cdk-signatory\<close> the signing keys. Clients send requests;
  every handler of the mint checks its request against the keysets, works on the database in transactions and
  answers with blind signatures. Swaps and melts are sagas: a setup transaction reserves the inputs and
  writes a saga record, later transactions finish it, a compensation undoes the setup when something
  fails, and what a crash leaves behind is recovered at the next start. Minting charges quotes that
  payments credit; a melt may settle a mint quote of the same mint internally.

  \<^bold>\<open>Foundations.\<close>
  \<^item> \<open>CDK_Prelude\<close>: Rust's \<open>Result\<close> as a sum with the combinators of the source, checked 64-bit
    arithmetic, the fact collections \<open>res_simps\<close> and \<open>u64_simps\<close>. \<open>Hex\<close> (\<open>util/hex.rs\<close>) and \<open>Decimal\<close>: text.
  \<^item> \<open>Externals\<close>: code the program only calls -- SHA-256, secp256k1, Unicode and the JSON reader -- as a
    record of functions with named laws; \<open>demo_ext\<close> is an instance over the integers modulo 13 that
    satisfies them, so that no hypothesis is vacuous.
  \<^item> \<open>Amount\<close> (\<open>amount.rs\<close>): splitting is sound, complete and optimal, the targeted split returns, the
    split with fee pays its fee. A panic of the source is the error \<open>AmountPanic\<close>.

  \<^bold>\<open>Protocol.\<close>
  \<^item> \<open>Keyset_Id\<close> (\<open>nut02.rs\<close>): bytes and text of identifiers are read back, short identifiers resolve.
  \<^item> \<open>Dhke\<close>, \<open>Nut00\<close>, \<open>Dleq\<close> (\<open>dhke.rs\<close>, \<open>nut00\<close>, \<open>nut12.rs\<close>): proofs a wallet constructs from blind
    signatures are the ones the mint verifies, and honest proofs of equal logarithms are accepted.
  \<^item> \<open>Spending_Conditions\<close> (\<open>nut10.rs\<close>, \<open>nut11\<close>, \<open>nut14\<close>): what the signature count counts, that P2PK and HTLC
    proofs are spent only along a path their conditions allow, that signing opens them.
  \<^item> \<open>P2bk\<close> (\<open>nut28\<close>): payments to a blinded key. The receiver finds the signing key of what was paid, from the
    ephemeral key of the sender alone.
  \<^item> \<open>Sig_All\<close> (\<open>nut03.rs\<close>, \<open>nut05.rs\<close>, \<open>nut10.rs\<close>): the same for whole requests, against a specification that does
    not use the verifier (\<open>spend_authorized\<close>); the trait of the source is the locale
    \<open>sig_all_request\<close>, interpreted for swap and melt requests.
  \<^item> \<open>Proof_State\<close> (\<open>nut07.rs\<close>, \<open>nut05.rs\<close>, \<open>state.rs\<close>): the two state machines. \<open>Fees\<close> (\<open>fees.rs\<close>): the input fee and its breakdown.

  \<^bold>\<open>The mint.\<close>
  \<^item> \<open>Cdk_Error\<close>, \<open>Mint_Types\<close> (\<open>cdk-common\<close>): errors, quotes, operations, sagas and their text.
  \<^item> \<open>Mint_Db\<close>, \<open>Mint_Db_Quotes\<close> (\<open>cdk-sql-common/src/mint\<close>): the tables as lists of typed rows in a record, one
    function per statement group. Every call has a fault parameter, an arbitrary error of the database;
    a failed statement has no effect and a transaction that does not commit has none. A connection that
    fails after the commit took effect is not distinguished.
  \<^item> \<open>Signatory\<close>, \<open>Verification\<close> (\<open>db_signatory.rs\<close>, \<open>verification.rs\<close>, \<open>check_spendable.rs\<close>): signing, the checks of
    inputs and outputs, the read-only handlers.
  \<^item> \<open>Reservation\<close>: what an operation owns while under way; the locale \<open>compensated_operation\<close> is the contract
    between a setup and its compensation, interpreted for swaps (\<open>Swap\<close>) and melts (\<open>Melt_Setup\<close>). Its client result: any
    number of concurrent setups is undone exactly.
  \<^item> \<open>Swap\<close>, \<open>Swap_Ledger\<close>, \<open>Swap_System\<close> (\<open>mint/swap\<close>, \<open>start_up_check.rs\<close>): the saga; over every interleaving of sagas with
    faults, crashes and recoveries, nothing is spent twice, value is conserved per unit, the keyset ledger
    equals the rows, and the system refines a specification with atomic swaps.
  \<^item> \<open>Melt\<close>, \<open>Melt_Quote\<close>, \<open>Melt_Recovery\<close>, \<open>Melt_Setup\<close>, \<open>Melt_Safety\<close>, \<open>Melt_Outcomes\<close> (\<open>mint/melt\<close>, \<open>start_up_check.rs\<close>, \<open>saga_recovery.rs\<close>): the
    payment backend is an arbitrary function. A quote is stored at the price the backend was asked for and
    within the limits of the mint. Inputs are returned only when nothing was paid and no mint quote was
    credited. An answer means that the inputs are spent and the accounts are right: within the fee reserve,
    payment, fees and change are at most the inputs, and a backend that overspends gets no change signed.
    It is shown exactly when change is given. Recovery restores what was only set up; the last
    theory has the cases in which the code does something else than it says.
  \<^item> \<open>Mint_Request\<close>, \<open>Issue\<close>, \<open>Issue_Accounts\<close>, \<open>Issue_Safety\<close>, \<open>Issue_System\<close> (\<open>nut20.rs\<close>, \<open>nut29.rs\<close>, \<open>mint/issue\<close>, \<open>ln.rs\<close>, \<open>mint/mod.rs\<close>): quotes,
    payments and mint requests. \<open>quotes_ok\<close> is the invariant of the accounts, \<open>credit\<close> and \<open>charge\<close> are the only
    ways they change; \<open>quote_step\<close> has every transaction of the mint as a step, swaps and melts included,
    and over every run issuance stays within the payments, each of which counts once.

  \<^bold>\<open>Serialization.\<close> \<open>Serde\<close> (\<open>nut00\<close>, \<open>nut01\<close>, \<open>nut02.rs\<close>, \<open>nut11\<close>, \<open>nut12.rs\<close>, \<open>nut14\<close>): what the \<open>Serialize\<close> and \<open>Deserialize\<close>
  implementations of the repository write and read, as functions to and from the data model of serde. The
  encodings of that model as CBOR and JSON and the base64 text are the parameter \<open>formats\<close>, with the law that
  a value is read back when its texts are UTF-8 and it is not nested beyond the limit of the readers; \<open>demo_formats\<close> satisfies it. The locale
  \<open>serde_roundtrip\<close> is the contract of a type, interpreted for every type a token or payment request holds. A
  unit is read back as what its lower-case name stands for: the named units are kept, and a custom unit
  comes back with its name in lower case.

  \<^bold>\<open>Payment requests.\<close> \<open>Tlv\<close>, \<open>Payment_Request\<close>, \<open>Request_Roundtrip\<close> (\<open>nut18\<close>, \<open>nut26/encoding.rs\<close>, \<open>mint_url.rs\<close>): the
  framed bytes, the fields and the texts of a request. The locale \<open>framed\<close> shows once for the three
  reading loops that they read back what was written. Under the conditions of \<open>request_ok\<close> a request with an HTTP
  transport, or a Nostr profile without relays, is read back unchanged from the newer text; relays are
  repeated, and long tags are corrupted. The older text keeps all but the letter case of the unit.

  \<^bold>\<open>Tokens.\<close> \<open>Token\<close> (\<open>nut00/token.rs\<close>): both versions of the form in which ecash is handed over, as text and
  bytes. The receiver gets the proofs of the sender, whatever the iteration order of the hash map that
  groups them; converting to the older version loses the key that proofs paid to a blinded key need.

  \<^bold>\<open>The wallet.\<close> \<open>Wallet_Select\<close> and \<open>Wallet_Cover\<close> (\<open>wallet/proofs.rs\<close>): the selection of proofs. The locale
  \<open>pick_invariant\<close> carries what single picks keep through all the loops. A wallet that has the funds in
  powers of two gets a selection that covers the amount, for every iteration order of its hash sets; the
  bounds under which this holds are those under which a 32-bit counter of the source does not wrap.
  \<open>Pre_Mint\<close> (\<open>PreMintSecrets\<close> of \<open>nut00\<close>, \<open>nut13.rs\<close>): the outputs a wallet prepares and their derivation from a seed;
  restoring a range of counters finds what was derived in it.

  \<^bold>\<open>Conventions.\<close> A struct is a record, an enum a datatype, a \<open>u64\<close> a 64-bit word, a hash map an association list,
  a raise or early return a value of the error sum. A handler takes what it reads from its environment as
  arguments: the clock, fresh identifiers, nonces, settings, the payment backends and the faults. A handler that
  changes the database returns its result and the database in a pair. Loops are structural or have a
  termination proof. Two may run on for all that is plain from their text: the targeted split of an
  amount is a partial function, and it is shown for which targets it returns; the fee loop of the wallet
  has fuel for one round per remaining proof, which is shown to be enough.

  \<^bold>\<open>Not modelled.\<close> HTTP and its message types, RPC and process set-up, SQL text, migrations and drivers,
  publication of state changes and metrics, authentication and the Lightning backends are glue or
  third-party code. CBOR, JSON, base64, bech32, HMAC and BIP-32 are parameters; the positional form of structures
  and the map form of enumerations, which serde's readers also take, are left out. Overflow of the ledger's
  running totals is covered as a fault, as in PostgreSQL, and not as SQLite's change to floating point. Of
  the mint, key rotation and blind authentication are left out; of the wallet, its sagas, which drive a
  mint over the network.
\<close>

end
